(* ===== verification/Kuatia_Prelude.thy ===== *)
theory Kuatia_Prelude
  imports
    Main
    "HOL-Library.Word"
    "HOL-Library.AList"
    "HOL-Library.Multiset"
    "HOL-Library.Char_ord"
    "HOL-Library.List_Lexorder"
    "HOL-Library.Product_Lexorder"
begin

text \<open>
  Shared vocabulary of the development: the result monad that models Rust's
  \<open>Result\<close> and the \<open>?\<close> operator, loops with an early return, machine integers and
  their big-endian byte encodings, Rust strings as lists of Unicode scalar values,
  and generic facts on lists and association lists. Nothing here is specific to the
  ledger; the component theories import it and use its collections of rewrite rules.
\<close>

unbundle bit_operations_syntax

named_theorems result_simps \<open>unfolding rules of the result combinators\<close>
named_theorems cent_simps \<open>rewrite rules of the checked money arithmetic\<close>
named_theorems flag_simps \<open>evaluation of account flags\<close>

type_synonym byte = "8 word"
type_synonym i64 = int
type_synonym u16 = "16 word"
type_synonym u32 = "32 word"
type_synonym u64 = "64 word"
type_synonym u128 = "128 word"

section \<open>Results and early returns\<close>

text \<open>\<open>rbind\<close> is the \<open>?\<close> operator: the first error ends the computation.\<close>

definition rbind :: "'e + 'a \<Rightarrow> ('a \<Rightarrow> 'e + 'b) \<Rightarrow> 'e + 'b" where
  "rbind m f = (case m of Inl e \<Rightarrow> Inl e | Inr a \<Rightarrow> f a)"

definition map_err :: "('e \<Rightarrow> 'f) \<Rightarrow> 'e + 'a \<Rightarrow> 'f + 'a" where
  "map_err g m = (case m of Inl e \<Rightarrow> Inl (g e) | Inr a \<Rightarrow> Inr a)"

definition ok_or :: "'e \<Rightarrow> 'a option \<Rightarrow> 'e + 'a" where
  "ok_or e m = (case m of None \<Rightarrow> Inl e | Some a \<Rightarrow> Inr a)"

text \<open>A \<open>for\<close> loop that threads a state and may return an error.\<close>

fun try_fold :: "('s \<Rightarrow> 'a \<Rightarrow> 'e + 's) \<Rightarrow> 's \<Rightarrow> 'a list \<Rightarrow> 'e + 's" where
  "try_fold f s [] = Inr s"
| "try_fold f s (a # as) = rbind (f s a) (\<lambda>s'. try_fold f s' as)"

text \<open>A \<open>for\<close> loop of guards: the first element that reports an error ends it.\<close>

fun try_each :: "('a \<Rightarrow> 'e option) \<Rightarrow> 'a list \<Rightarrow> 'e option" where
  "try_each g [] = None"
| "try_each g (a # as) = (case g a of Some e \<Rightarrow> Some e | None \<Rightarrow> try_each g as)"

definition guard_each :: "('a \<Rightarrow> 'e option) \<Rightarrow> 'a list \<Rightarrow> 'e + unit" where
  "guard_each g as = (case try_each g as of Some e \<Rightarrow> Inl e | None \<Rightarrow> Inr ())"

text \<open>Collecting a list of results: the first error wins.\<close>

fun try_map :: "('a \<Rightarrow> 'e + 'b) \<Rightarrow> 'a list \<Rightarrow> 'e + 'b list" where
  "try_map f [] = Inr []"
| "try_map f (a # as) = rbind (f a) (\<lambda>b. rbind (try_map f as) (\<lambda>bs. Inr (b # bs)))"

definition is_ok :: "'e + 'a \<Rightarrow> bool" where
  "is_ok m = (case m of Inl _ \<Rightarrow> False | Inr _ \<Rightarrow> True)"

lemma rbind_simps [simp, result_simps]:
  "rbind (Inl e) f = Inl e"
  "rbind (Inr a) f = f a"
  by (simp_all add: rbind_def)

lemma rbind_eq_Inr: "rbind m f = Inr b \<longleftrightarrow> (\<exists>a. m = Inr a \<and> f a = Inr b)"
  by (cases m) auto

lemma rbind_eq_Inl: "rbind m f = Inl e \<longleftrightarrow> m = Inl e \<or> (\<exists>a. m = Inr a \<and> f a = Inl e)"
  by (cases m) auto

lemma map_err_simps [simp, result_simps]:
  "map_err g (Inl e) = Inl (g e)"
  "map_err g (Inr a) = Inr a"
  by (simp_all add: map_err_def)

lemma map_err_eq_Inr [simp]: "map_err g m = Inr a \<longleftrightarrow> m = Inr a"
  by (cases m) auto

lemma map_err_eq_Inl: "map_err g m = Inl e \<longleftrightarrow> (\<exists>e'. m = Inl e' \<and> e = g e')"
  by (cases m) auto

lemma ok_or_simps [simp, result_simps]:
  "ok_or e None = Inl e"
  "ok_or e (Some a) = Inr a"
  by (simp_all add: ok_or_def)

lemma ok_or_eq_Inr [simp]: "ok_or e m = Inr a \<longleftrightarrow> m = Some a"
  by (cases m) auto

lemma ok_or_eq_Inl: "ok_or e m = Inl e' \<longleftrightarrow> m = None \<and> e' = e"
  by (cases m) auto

lemma is_ok_simps [simp]: "is_ok (Inr a)" "\<not> is_ok (Inl e)"
  by (simp_all add: is_ok_def)

lemma is_ok_iff: "is_ok m \<longleftrightarrow> (\<exists>a. m = Inr a)"
  by (cases m) auto

lemma try_each_None: "try_each g as = None \<longleftrightarrow> (\<forall>a \<in> set as. g a = None)"
  by (induction as) (auto split: option.splits)

lemma try_each_Some: "try_each g as = Some e \<Longrightarrow> \<exists>a \<in> set as. g a = Some e"
  by (induction as) (auto split: option.splits)

lemma guard_each_Inr: "guard_each g as = Inr u \<longleftrightarrow> (\<forall>a \<in> set as. g a = None)"
  by (auto simp: guard_each_def try_each_None[symmetric] split: option.splits)

lemma guard_each_Inl: "guard_each g as = Inl e \<Longrightarrow> \<exists>a \<in> set as. g a = Some e"
  by (auto simp: guard_each_def dest: try_each_Some split: option.splits)

lemma guard_each_Nil [simp]: "guard_each g [] = Inr ()"
  by (simp add: guard_each_def)

lemma try_fold_append:
  "try_fold f s (as @ bs) = rbind (try_fold f s as) (\<lambda>s'. try_fold f s' bs)"
proof (induction as arbitrary: s)
  case (Cons a as)
  then show ?case by (cases "f s a") auto
qed simp

text \<open>An invariant of the loop body is an invariant of the loop.\<close>

lemma try_fold_invariant:
  assumes "try_fold f s as = Inr t" and "P s"
    and "\<And>s a s'. a \<in> set as \<Longrightarrow> P s \<Longrightarrow> f s a = Inr s' \<Longrightarrow> P s'"
  shows "P t"
  using assms
proof (induction as arbitrary: s)
  case (Cons a as)
  then obtain s' where "f s a = Inr s'" "try_fold f s' as = Inr t"
    by (auto simp: rbind_eq_Inr)
  with Cons show ?case by (metis list.set_intros)
qed simp

lemma try_map_Inr_length: "try_map f as = Inr bs \<Longrightarrow> length bs = length as"
  by (induction as arbitrary: bs) (auto simp: rbind_eq_Inr)

lemma try_map_Inr_iff:
  "try_map f as = Inr bs \<longleftrightarrow> list_all2 (\<lambda>a b. f a = Inr b) as bs"
proof (induction as arbitrary: bs)
  case Nil
  then show ?case by auto
next
  case (Cons a as)
  then show ?case by (cases bs) (auto simp: rbind_eq_Inr)
qed

lemma try_map_results: "try_map f as = Inr bs \<Longrightarrow> bs = map (\<lambda>a. projr (f a)) as"
  by (induction as arbitrary: bs) (auto simp: rbind_eq_Inr)

lemma try_map_cong: "(\<And>a. a \<in> set as \<Longrightarrow> f a = g a) \<Longrightarrow> try_map f as = try_map g as"
  by (induction as) auto

lemma try_map_total: "(\<And>a. a \<in> set as \<Longrightarrow> f a = Inr (g a)) \<Longrightarrow> try_map f as = Inr (map g as)"
  by (induction as) auto

lemma try_map_ok: "\<forall>x \<in> set xs. is_ok (f x) \<Longrightarrow> is_ok (try_map f xs)"
  by (induction xs) (auto simp: is_ok_iff)

lemma try_map_images: "try_map f xs = Inr ys \<Longrightarrow> (\<And>x y. f x = Inr y \<Longrightarrow> g y = h x) \<Longrightarrow> map g ys = map h xs"
  by (induction xs arbitrary: ys) (auto simp: rbind_eq_Inr)

lemma sum_list_mset:
  fixes f :: "'a \<Rightarrow> int"
  assumes "mset xs = mset ys"
  shows "sum_list (map f xs) = sum_list (map f ys)"
proof -
  have "sum_mset (mset (map f xs)) = sum_mset (mset (map f ys))" using assms by simp
  then show ?thesis by (simp only: sum_mset_sum_list)
qed

text \<open>
  A \<open>fault\<close> is the left side of a function that can also panic: an error value, or a
  panic such as an index that is not in the map.
\<close>

datatype 'e fault = Fail 'e | Panic

abbreviation fail_with :: "'e + 'a \<Rightarrow> 'e fault + 'a" where
  "fail_with m \<equiv> map_err Fail m"

lemma try_fold_map: "try_fold f s (map g as) = try_fold (\<lambda>s a. f s (g a)) s as"
proof (induction as arbitrary: s)
  case (Cons a as)
  then show ?case by (cases "f s (g a)") auto
qed simp

lemma try_fold_cong:
  assumes "\<And>s a. a \<in> set as \<Longrightarrow> f s a = g s a"
  shows "try_fold f s as = try_fold g s as"
  using assms
proof (induction as arbitrary: s)
  case (Cons a as)
  then have "f s a = g s a" by simp
  with Cons show ?case by (cases "g s a") auto
qed simp

lemma try_fold_map_err: "try_fold (\<lambda>s a. map_err h (f s a)) s as = map_err h (try_fold f s as)"
proof (induction as arbitrary: s)
  case (Cons a as)
  then show ?case by (cases "f s a") auto
qed simp

section \<open>Sorted, de-duplicated vectors\<close>

text \<open>\<open>v.sort(); v.dedup()\<close> on a totally ordered element type.\<close>

definition sort_dedup :: "'a::linorder list \<Rightarrow> 'a list" where
  "sort_dedup xs = remdups_adj (sort xs)"

lemma set_sort_dedup [simp]: "set (sort_dedup xs) = set xs"
  by (simp add: sort_dedup_def)

lemma sorted_sort_dedup: "sorted (sort_dedup xs)"
  by (simp add: sort_dedup_def sorted_remdups_adj)

lemma distinct_remdups_adj_sorted: "sorted xs \<Longrightarrow> distinct (remdups_adj xs)"
proof (induction xs rule: remdups_adj.induct)
  case (3 x y xs)
  then show ?case
    by (auto simp: dest!: antisym)
qed auto

lemma distinct_sort_dedup [simp]: "distinct (sort_dedup xs)"
  by (simp add: sort_dedup_def distinct_remdups_adj_sorted)

lemma sort_dedup_sorted_list_of_set: "sort_dedup xs = sorted_list_of_set (set xs)"
  by (metis distinct_sort_dedup set_sort_dedup sorted_list_of_set.idem_if_sorted_distinct
      sorted_sort_dedup)

lemma sort_dedup_cong: "set xs = set ys \<Longrightarrow> sort_dedup xs = sort_dedup ys"
  by (simp add: sort_dedup_sorted_list_of_set)

lemma sort_dedup_Nil [simp]: "sort_dedup [] = []"
  by (simp add: sort_dedup_def)

section \<open>Big-endian bytes\<close>

text \<open>
  \<open>be_bytes n v\<close> is the \<open>n\<close>-byte big-endian encoding of \<open>v\<close>, truncated to
  \<open>8 * n\<close> bits as \<open>to_be_bytes\<close> of an \<open>8 * n\<close>-bit integer is; \<open>be_val\<close> reads
  bytes back.
\<close>

fun be_bytes :: "nat \<Rightarrow> nat \<Rightarrow> byte list" where
  "be_bytes 0 v = []"
| "be_bytes (Suc n) v = be_bytes n (v div 256) @ [word_of_nat (v mod 256)]"

definition be_val :: "byte list \<Rightarrow> nat" where
  "be_val bs = foldl (\<lambda>acc b. acc * 256 + unat b) 0 bs"

lemma length_be_bytes [simp]: "length (be_bytes n v) = n"
  by (induction n arbitrary: v) auto

lemma be_val_Nil [simp]: "be_val [] = 0"
  by (simp add: be_val_def)

lemma be_val_snoc [simp]: "be_val (bs @ [b]) = be_val bs * 256 + unat b"
  by (simp add: be_val_def)

lemma unat_byte_of_nat [simp]: "unat (word_of_nat (v mod 256) :: byte) = v mod 256"
  by (simp add: unat_of_nat)

lemma be_val_be_bytes: "be_val (be_bytes n v) = v mod 256 ^ n"
proof (induction n arbitrary: v)
  case (Suc n)
  have "(v div 256) mod 256 ^ n * 256 + v mod 256 = v mod (256 * 256 ^ n)"
    by (simp add: mod_mult2_eq mult.commute)
  with Suc show ?case by simp
qed simp

lemma unat_byte_less: "unat (b :: byte) < 256"
  using unsigned_less[of b] by simp

lemma be_val_less: "be_val bs < 256 ^ length bs"
proof (induction bs rule: rev_induct)
  case (snoc b bs)
  have "unat b < 256" by (rule unat_byte_less)
  with snoc show ?case by simp
qed simp

lemma be_bytes_be_val: "be_bytes (length bs) (be_val bs) = bs"
proof (induction bs rule: rev_induct)
  case (snoc b bs)
  have "unat b < 256" by (rule unat_byte_less)
  with snoc show ?case by simp
qed simp

lemma be_bytes_inject:
  "v < 256 ^ n \<Longrightarrow> w < 256 ^ n \<Longrightarrow> be_bytes n v = be_bytes n w \<longleftrightarrow> v = w"
  by (metis be_val_be_bytes mod_less)

text \<open>Two's complement: the unsigned image of a signed integer of a given width.\<close>

definition twos :: "nat \<Rightarrow> int \<Rightarrow> nat" where
  "twos w v = nat (v mod 2 ^ w)"

definition untwos :: "nat \<Rightarrow> nat \<Rightarrow> int" where
  "untwos w n = (if int n < 2 ^ (w - 1) then int n else int n - 2 ^ w)"

lemma twos_less: "twos w v < 2 ^ w"
proof -
  have "v mod 2 ^ w < 2 ^ w" by simp
  then show ?thesis by (simp add: twos_def nat_less_iff)
qed

lemma untwos_twos:
  assumes "0 < w" and "- (2 ^ (w - 1)) \<le> v" and "v < 2 ^ (w - 1)"
  shows "untwos w (twos w v) = v"
proof -
  obtain k where w: "w = Suc k" using assms(1) by (cases w) auto
  show ?thesis
  proof (cases "0 \<le> v")
    case True
    with assms w have "v mod 2 ^ w = v" by (simp add: mod_pos_pos_trivial)
    with True assms w show ?thesis by (simp add: untwos_def twos_def)
  next
    case False
    with assms w have "(v + 2 ^ w) mod 2 ^ w = v + 2 ^ w"
      by (intro mod_pos_pos_trivial) auto
    then have "v mod 2 ^ w = v + 2 ^ w" by simp
    with False assms w show ?thesis by (simp add: untwos_def twos_def)
  qed
qed

lemma twos_inject:
  assumes "0 < w" and "- (2 ^ (w - 1)) \<le> v" "v < 2 ^ (w - 1)"
    and "- (2 ^ (w - 1)) \<le> v'" "v' < 2 ^ (w - 1)"
  shows "twos w v = twos w v' \<longleftrightarrow> v = v'"
  using assms by (metis untwos_twos)

section \<open>Rust strings\<close>

text \<open>
  A Rust \<open>str\<close> is a sequence of Unicode scalar values; \<open>len\<close> and slicing count the
  bytes of its UTF-8 form. A literal is written with \<open>lit\<close>.
\<close>

type_synonym uchar = nat
type_synonym rstr = "uchar list"

definition lit :: "string \<Rightarrow> rstr" where
  "lit s = map of_char s"

definition utf8_len :: "uchar \<Rightarrow> nat" where
  "utf8_len c = (if c < 128 then 1 else if c < 2048 then 2 else if c < 65536 then 3 else 4)"

definition byte_len :: "rstr \<Rightarrow> nat" where
  "byte_len s = sum_list (map utf8_len s)"

text \<open>\<open>char::is_whitespace\<close>: the Unicode property \<open>White_Space\<close>.\<close>

definition is_whitespace :: "uchar \<Rightarrow> bool" where
  "is_whitespace c \<longleftrightarrow> (9 \<le> c \<and> c \<le> 13) \<or> c = 32 \<or> c = 133 \<or> c = 160 \<or> c = 5760 \<or>
     (8192 \<le> c \<and> c \<le> 8202) \<or> c = 8232 \<or> c = 8233 \<or> c = 8239 \<or> c = 8287 \<or> c = 12288"

definition is_ascii_digit :: "uchar \<Rightarrow> bool" where
  "is_ascii_digit c \<longleftrightarrow> 48 \<le> c \<and> c \<le> 57"

definition is_ascii_uppercase :: "uchar \<Rightarrow> bool" where
  "is_ascii_uppercase c \<longleftrightarrow> 65 \<le> c \<and> c \<le> 90"

definition to_ascii_uppercase :: "uchar \<Rightarrow> uchar" where
  "to_ascii_uppercase c = (if 97 \<le> c \<and> c \<le> 122 then c - 32 else c)"

definition trim :: "rstr \<Rightarrow> rstr" where
  "trim s = rev (dropWhile is_whitespace (rev (dropWhile is_whitespace s)))"

definition strip_prefix_char :: "uchar \<Rightarrow> rstr \<Rightarrow> rstr option" where
  "strip_prefix_char c s = (case s of [] \<Rightarrow> None | d # r \<Rightarrow> if d = c then Some r else None)"

text \<open>\<open>split_once(c)\<close>: the parts before and after the first occurrence of \<open>c\<close>.\<close>

definition split_once :: "uchar \<Rightarrow> rstr \<Rightarrow> (rstr \<times> rstr) option" where
  "split_once c s = (if c \<in> set s
     then Some (takeWhile (\<lambda>d. d \<noteq> c) s, tl (dropWhile (\<lambda>d. d \<noteq> c) s)) else None)"

text \<open>Decimal digits of a natural number, and the value of a digit string.\<close>

fun show_nat :: "nat \<Rightarrow> rstr" where
  "show_nat n = (if n < 10 then [48 + n] else show_nat (n div 10) @ [48 + n mod 10])"

declare show_nat.simps [simp del]

definition show_int :: "int \<Rightarrow> rstr" where
  "show_int v = (if v < 0 then 45 # show_nat (nat (- v)) else show_nat (nat v))"

definition digits_val :: "rstr \<Rightarrow> nat" where
  "digits_val s = foldl (\<lambda>acc c. acc * 10 + (c - 48)) 0 s"

definition pad_left :: "nat \<Rightarrow> rstr \<Rightarrow> rstr" where
  "pad_left w s = replicate (w - length s) 48 @ s"

definition pad_right :: "nat \<Rightarrow> rstr \<Rightarrow> rstr" where
  "pad_right w s = s @ replicate (w - length s) 48"

lemma show_nat_nonempty [simp]: "show_nat n \<noteq> []"
  by (subst show_nat.simps) simp

lemma show_nat_digits: "c \<in> set (show_nat n) \<Longrightarrow> is_ascii_digit c"
proof (induction n rule: show_nat.induct)
  case (1 n)
  then show ?case
    by (subst (asm) show_nat.simps) (auto simp: is_ascii_digit_def split: if_splits)
qed

lemma digits_val_Nil [simp]: "digits_val [] = 0"
  by (simp add: digits_val_def)

lemma digits_val_snoc [simp]: "digits_val (s @ [c]) = digits_val s * 10 + (c - 48)"
  by (simp add: digits_val_def)

lemma digits_val_append: "digits_val (s @ t) = digits_val s * 10 ^ length t + digits_val t"
proof (induction t rule: rev_induct)
  case (snoc c t)
  have "digits_val (s @ t @ [c]) = digits_val (s @ t) * 10 + (c - 48)"
    by (metis append_assoc digits_val_snoc)
  with snoc show ?case by (simp add: algebra_simps)
qed simp

lemma digits_val_show_nat [simp]: "digits_val (show_nat n) = n"
proof (induction n rule: show_nat.induct)
  case (1 n)
  show ?case
  proof (cases "n < 10")
    case True
    then show ?thesis by (subst show_nat.simps) (simp add: digits_val_def)
  next
    case False
    with 1 have "digits_val (show_nat (n div 10)) = n div 10" by simp
    with False show ?thesis by (subst show_nat.simps) simp
  qed
qed

lemma digits_val_zeros [simp]: "digits_val (replicate k 48) = 0"
  by (induction k) (simp_all add: digits_val_def)

lemma length_show_nat: "n < 10 ^ k \<Longrightarrow> 0 < k \<Longrightarrow> length (show_nat n) \<le> k"
proof (induction n arbitrary: k rule: show_nat.induct)
  case (1 n)
  show ?case
  proof (cases "n < 10")
    case True
    then show ?thesis using 1(3) by (subst show_nat.simps) simp
  next
    case False
    then obtain m where m: "k = Suc m" using 1(3) by (cases k) auto
    have "0 < m" using 1(2) False m by (cases m) auto
    moreover have "n div 10 < 10 ^ m" using 1(2) m by auto
    ultimately have "length (show_nat (n div 10)) \<le> m" using 1(1) False by simp
    then show ?thesis using False m by (subst show_nat.simps) simp
  qed
qed

lemma digits_val_pad_left [simp]: "digits_val (pad_left w s) = digits_val s"
  by (simp add: pad_left_def digits_val_append)

lemma digit_not_special:
  assumes "is_ascii_digit c"
  shows "c \<noteq> 45" "c \<noteq> 43" "c \<noteq> 46" "\<not> is_whitespace c" "c < 128"
  using assms by (auto simp: is_ascii_digit_def is_whitespace_def)

lemma trim_id:
  assumes "s \<noteq> []" and "\<not> is_whitespace (hd s)" and "\<not> is_whitespace (last s)"
  shows "trim s = s"
proof -
  have "dropWhile is_whitespace s = s"
    using assms by (cases s) auto
  moreover have "dropWhile is_whitespace (rev s) = rev s"
    using assms by (cases s rule: rev_cases) auto
  ultimately show ?thesis by (simp add: trim_def)
qed

lemma byte_len_ascii: "(\<And>c. c \<in> set s \<Longrightarrow> c < 128) \<Longrightarrow> byte_len s = length s"
  unfolding byte_len_def by (induction s) (simp_all add: utf8_len_def)

section \<open>Association lists\<close>

text \<open>
  A \<open>HashMap\<close> is an association list with distinct keys; the order of the list is the
  (unspecified) iteration order. \<open>get\<close> is \<open>map_of\<close>, \<open>insert\<close> is
  \<open>AList.update\<close> and \<open>remove\<close> is \<open>AList.delete\<close>.
\<close>

definition contains_key :: "('k \<times> 'v) list \<Rightarrow> 'k \<Rightarrow> bool" where
  "contains_key m k \<longleftrightarrow> map_of m k \<noteq> None"

abbreviation keys_distinct :: "('k \<times> 'v) list \<Rightarrow> bool" where
  "keys_distinct m \<equiv> distinct (map fst m)"

lemma contains_key_iff: "contains_key m k \<longleftrightarrow> k \<in> fst ` set m"
  by (simp add: contains_key_def map_of_eq_None_iff)

lemma keys_distinct_update [simp]: "keys_distinct m \<Longrightarrow> keys_distinct (AList.update k v m)"
  by (rule distinct_update)

lemma keys_distinct_delete [simp]: "keys_distinct m \<Longrightarrow> keys_distinct (AList.delete k m)"
  by (rule distinct_delete)

lemma map_of_update [simp]: "map_of (AList.update k v m) = (map_of m)(k \<mapsto> v)"
  by (rule update_conv')

lemma map_of_delete_eq [simp]: "map_of (AList.delete k m) = (map_of m)(k := None)"
  by (rule delete_conv')

lemma map_of_eq_Some_iff' [simp]:
  "keys_distinct m \<Longrightarrow> map_of m k = Some v \<longleftrightarrow> (k, v) \<in> set m"
  by (rule map_of_eq_Some_iff)

lemma update_fresh: "k \<notin> fst ` set m \<Longrightarrow> AList.update k v m = m @ [(k, v)]"
  by (induction m) auto

end
