(* ===== verification/Money.thy ===== *)
theory Money
  imports Kuatia_Prelude
begin

text \<open>
  The crate \<open>kuatia-money\<close> (\<^verbatim>\<open>src/crates/kuatia-money/src/lib.rs\<close>): the integer backings
  of a monetary amount, the checked arithmetic of \<open>Cent\<close>, its canonical 16-byte form,
  and the decimal parser and formatter \<open>Amount\<close>. An integer of \<open>w\<close> bits is an
  unbounded \<open>int\<close> together with its range (\<open>i64_ok\<close>, \<open>i128_ok\<close>); every operation of
  the source checks the range, and the lemmas show that it is kept. \<open>Backing\<close> is
  \<open>i64\<close>, the default build; the \<open>i128\<close> implementation of the trait is modelled beside
  it, and both are interpretations of the locale \<open>cent_backing\<close>.
\<close>

section \<open>Integer ranges\<close>

definition i64_min :: int where "i64_min = - (2 ^ 63)"
definition i64_max :: int where "i64_max = 2 ^ 63 - 1"
definition i128_min :: int where "i128_min = - (2 ^ 127)"
definition i128_max :: int where "i128_max = 2 ^ 127 - 1"

definition i64_ok :: "int \<Rightarrow> bool" where
  "i64_ok v \<longleftrightarrow> i64_min \<le> v \<and> v \<le> i64_max"

definition i128_ok :: "int \<Rightarrow> bool" where
  "i128_ok v \<longleftrightarrow> i128_min \<le> v \<and> v \<le> i128_max"

definition checked_i64 :: "int \<Rightarrow> int option" where
  "checked_i64 v = (if i64_ok v then Some v else None)"

definition checked_i128 :: "int \<Rightarrow> int option" where
  "checked_i128 v = (if i128_ok v then Some v else None)"

text \<open>
  \<open>str::parse\<close> for a signed integer: an optional sign, then one or more ASCII digits;
  the value must be in range.
\<close>

definition parse_signed :: "(int \<Rightarrow> int option) \<Rightarrow> rstr \<Rightarrow> int option" where
  "parse_signed chk s =
     (let (neg, ds) = (case s of [] \<Rightarrow> (False, [])
                       | c # r \<Rightarrow> if c = 45 then (True, r) else if c = 43 then (False, r)
                                  else (False, s))
      in if ds = [] \<or> \<not> list_all is_ascii_digit ds then None
         else chk (if neg then - int (digits_val ds) else int (digits_val ds)))"

section \<open>The trait CentBacking and its two implementations\<close>

definition i64_ten_pow :: "nat \<Rightarrow> int option" where
  "i64_ten_pow e = checked_i64 (10 ^ e)"

definition i64_parse_str :: "rstr \<Rightarrow> int option" where
  "i64_parse_str s = parse_signed checked_i64 s"

definition i64_to_i128 :: "int \<Rightarrow> int" where
  "i64_to_i128 v = v"

definition i64_try_from_i128 :: "int \<Rightarrow> int option" where
  "i64_try_from_i128 v = checked_i64 v"

definition i64_div_rem_abs :: "int \<Rightarrow> int \<Rightarrow> nat \<times> nat" where
  "i64_div_rem_abs v d =
     (let dd = nat \<bar>d\<bar> in if dd = 0 then (0, 0) else (nat \<bar>v\<bar> div dd, nat \<bar>v\<bar> mod dd))"

definition i128_ten_pow :: "nat \<Rightarrow> int option" where
  "i128_ten_pow e = checked_i128 (10 ^ e)"

definition i128_parse_str :: "rstr \<Rightarrow> int option" where
  "i128_parse_str s = parse_signed checked_i128 s"

definition i128_to_i128 :: "int \<Rightarrow> int" where
  "i128_to_i128 v = v"

definition i128_try_from_i128 :: "int \<Rightarrow> int option" where
  "i128_try_from_i128 v = Some v"

definition i128_div_rem_abs :: "int \<Rightarrow> int \<Rightarrow> nat \<times> nat" where
  "i128_div_rem_abs v d =
     (let dd = nat \<bar>d\<bar> in if dd = 0 then (0, 0) else (nat \<bar>v\<bar> div dd, nat \<bar>v\<bar> mod dd))"

text \<open>\<open>i128::to_be_bytes\<close> and \<open>i128::from_be_bytes\<close>.\<close>

definition i128_to_be_bytes :: "int \<Rightarrow> byte list" where
  "i128_to_be_bytes v = be_bytes 16 (twos 128 v)"

definition i128_from_be_bytes :: "byte list \<Rightarrow> int" where
  "i128_from_be_bytes bs = untwos 128 (be_val bs)"

section \<open>Cent\<close>

type_synonym cent = int

datatype overflow_error = OverflowError

datatype parse_cent_error = ParseCentError

definition cent_ZERO :: cent where
  "cent_ZERO = 0"

definition is_positive :: "cent \<Rightarrow> bool" where
  "is_positive c \<longleftrightarrow> c > 0"

definition is_negative :: "cent \<Rightarrow> bool" where
  "is_negative c \<longleftrightarrow> c < 0"

definition is_zero :: "cent \<Rightarrow> bool" where
  "is_zero c \<longleftrightarrow> c = 0"

definition checked_add :: "cent \<Rightarrow> cent \<Rightarrow> overflow_error + cent" where
  "checked_add a b = ok_or OverflowError (checked_i64 (a + b))"

definition checked_sub :: "cent \<Rightarrow> cent \<Rightarrow> overflow_error + cent" where
  "checked_sub a b = ok_or OverflowError (checked_i64 (a - b))"

definition checked_neg :: "cent \<Rightarrow> overflow_error + cent" where
  "checked_neg a = ok_or OverflowError (checked_i64 (- a))"

definition checked_sum :: "cent list \<Rightarrow> overflow_error + cent" where
  "checked_sum cs = try_fold checked_add cent_ZERO cs"

definition to_canonical_bytes :: "cent \<Rightarrow> byte list" where
  "to_canonical_bytes c = i128_to_be_bytes (i64_to_i128 c)"

definition from_canonical_bytes :: "byte list \<Rightarrow> overflow_error + cent" where
  "from_canonical_bytes bs = ok_or OverflowError (i64_try_from_i128 (i128_from_be_bytes bs))"

text \<open>\<open>Display\<close> and \<open>FromStr\<close> of a \<open>Cent\<close>; Serde uses the same string.\<close>

definition cent_to_string :: "cent \<Rightarrow> rstr" where
  "cent_to_string c = show_int c"

definition cent_from_str :: "rstr \<Rightarrow> parse_cent_error + cent" where
  "cent_from_str s = ok_or ParseCentError (i64_parse_str s)"

section \<open>Amount\<close>

record amount =
  decimals :: nat

datatype parse_amount_error =
    InvalidFormat rstr
  | TooManyDecimals nat nat

definition amount_parse :: "amount \<Rightarrow> rstr \<Rightarrow> parse_amount_error + cent" where
  "amount_parse a s0 =
     (let s1 = trim s0;
          (negative, s) = (case strip_prefix_char 45 s1 of Some rest \<Rightarrow> (True, rest)
                           | None \<Rightarrow> (False, s1));
          (whole_str, frac_str) = (case split_once 46 s of Some parts \<Rightarrow> parts | None \<Rightarrow> (s, []));
          bad = InvalidFormat s
      in if whole_str = [] \<and> frac_str = [] then Inl bad
         else rbind (if whole_str = [] then Inr 0 else ok_or bad (i64_parse_str whole_str)) (\<lambda>whole.
           if byte_len frac_str > decimals a
           then Inl (TooManyDecimals (decimals a) (byte_len frac_str))
           else if frac_str \<noteq> [] \<and> \<not> list_all is_ascii_digit frac_str then Inl bad
           else rbind (if frac_str = [] then Inr 0
                       else ok_or bad (i64_parse_str (pad_right (decimals a) frac_str))) (\<lambda>frac.
             rbind (ok_or bad (i64_ten_pow (decimals a))) (\<lambda>multiplier.
             rbind (ok_or bad (Option.bind (checked_i64 (whole * multiplier))
                                (\<lambda>v. checked_i64 (v + frac)))) (\<lambda>v.
             if negative then ok_or bad (checked_i64 (- v)) else Inr v)))))"

definition amount_format :: "amount \<Rightarrow> cent \<Rightarrow> rstr" where
  "amount_format a c =
     (if decimals a = 0 then cent_to_string c
      else case i64_ten_pow (decimals a) of
        None \<Rightarrow> cent_to_string c
      | Some multiplier \<Rightarrow>
          (let (whole, frac) = i64_div_rem_abs c multiplier
           in (if is_negative c then [45] else []) @ show_nat whole @ [46]
              @ pad_left (decimals a) (show_nat frac)))"

section \<open>Totals per key\<close>

text \<open>
  The idiom \<open>let e = m.entry(k).or_insert(Cent::ZERO); *e = e.checked_add(v)?\<close> on a map of
  totals, and the same with \<open>checked_sub\<close>.
\<close>

definition entry_value :: "('k \<times> cent) list \<Rightarrow> 'k \<Rightarrow> cent" where
  "entry_value m k = (case map_of m k of None \<Rightarrow> cent_ZERO | Some c \<Rightarrow> c)"

definition entry_add :: "('k \<times> cent) list \<Rightarrow> 'k \<Rightarrow> cent \<Rightarrow> overflow_error + ('k \<times> cent) list" where
  "entry_add m k v = rbind (checked_add (entry_value m k) v) (\<lambda>c. Inr (AList.update k c m))"

definition entry_sub :: "('k \<times> cent) list \<Rightarrow> 'k \<Rightarrow> cent \<Rightarrow> overflow_error + ('k \<times> cent) list" where
  "entry_sub m k v = rbind (checked_sub (entry_value m k) v) (\<lambda>c. Inr (AList.update k c m))"

text \<open>The exact total of a key over a list of entries, without any bound.\<close>

definition key_sum :: "'k \<Rightarrow> ('k \<times> cent) list \<Rightarrow> int" where
  "key_sum k kvs = sum_list (map snd (filter (\<lambda>kv. fst kv = k) kvs))"

text \<open>Every running total stays in range.\<close>

definition totals_ok :: "('k \<times> cent) list \<Rightarrow> bool" where
  "totals_ok kvs \<longleftrightarrow> (\<forall>n < length kvs. i64_ok (key_sum (fst (kvs ! n)) (take (Suc n) kvs)))"

section \<open>Ranges and the checked operations\<close>

lemmas range_defs = i64_min_def i64_max_def i128_min_def i128_max_def i64_ok_def i128_ok_def

lemma i64_ok_0 [simp]: "i64_ok 0" "i64_ok 1"
  by (simp_all add: range_defs)

lemma i64_ok_between: "0 \<le> a \<Longrightarrow> a \<le> b \<Longrightarrow> i64_ok b \<Longrightarrow> i64_ok a"
  by (simp add: range_defs)

lemma i64_ok_uminus: "0 \<le> a \<Longrightarrow> i64_ok a \<Longrightarrow> i64_ok (- a)"
  by (simp add: range_defs)

lemma i64_ok_i128_ok: "i64_ok v \<Longrightarrow> i128_ok v"
  by (simp add: range_defs)

lemma checked_i64_Some [simp]: "checked_i64 v = Some w \<longleftrightarrow> i64_ok v \<and> w = v"
  by (auto simp: checked_i64_def)

lemma checked_i64_None [simp]: "checked_i64 v = None \<longleftrightarrow> \<not> i64_ok v"
  by (auto simp: checked_i64_def)

lemma checked_add_Inr [cent_simps]: "checked_add a b = Inr c \<longleftrightarrow> i64_ok (a + b) \<and> c = a + b"
  by (auto simp: checked_add_def)

lemma checked_sub_Inr [cent_simps]: "checked_sub a b = Inr c \<longleftrightarrow> i64_ok (a - b) \<and> c = a - b"
  by (auto simp: checked_sub_def)

lemma checked_neg_Inr [cent_simps]: "checked_neg a = Inr c \<longleftrightarrow> i64_ok (- a) \<and> c = - a"
  by (auto simp: checked_neg_def)

lemma checked_add_Inl [cent_simps]: "checked_add a b = Inl e \<longleftrightarrow> \<not> i64_ok (a + b)"
  by (cases e) (auto simp: checked_add_def ok_or_eq_Inl)

lemma checked_sub_Inl [cent_simps]: "checked_sub a b = Inl e \<longleftrightarrow> \<not> i64_ok (a - b)"
  by (cases e) (auto simp: checked_sub_def ok_or_eq_Inl)

lemma checked_neg_Inl [cent_simps]: "checked_neg a = Inl e \<longleftrightarrow> \<not> i64_ok (- a)"
  by (cases e) (auto simp: checked_neg_def ok_or_eq_Inl)

lemma checked_ops_ok [simp]:
  "i64_ok (a + b) \<Longrightarrow> checked_add a b = Inr (a + b)"
  "i64_ok (a - b) \<Longrightarrow> checked_sub a b = Inr (a - b)"
  "i64_ok (- a) \<Longrightarrow> checked_neg a = Inr (- a)"
  by (simp_all add: checked_add_Inr checked_sub_Inr checked_neg_Inr)

lemma sign_defs [cent_simps, simp]:
  "is_positive c \<longleftrightarrow> c > 0" "is_negative c \<longleftrightarrow> c < 0" "is_zero c \<longleftrightarrow> c = 0" "cent_ZERO = 0"
  by (simp_all add: is_positive_def is_negative_def is_zero_def cent_ZERO_def)

lemma try_fold_checked_add_value:
  "try_fold checked_add a cs = Inr s \<Longrightarrow> s = a + sum_list cs"
  by (induction cs arbitrary: a) (force simp: rbind_eq_Inr checked_add_Inr)+

lemma try_fold_checked_add_ok:
  "try_fold checked_add a cs = Inr s \<Longrightarrow> i64_ok a \<Longrightarrow> i64_ok s"
  by (induction cs arbitrary: a) (auto simp: rbind_eq_Inr checked_add_Inr)

text \<open>A successful checked sum is the exact mathematical sum, and it is in range.\<close>

lemma checked_sum_exact: "checked_sum cs = Inr s \<Longrightarrow> s = sum_list cs \<and> i64_ok s"
  using try_fold_checked_add_value try_fold_checked_add_ok
  by (fastforce simp: checked_sum_def)

text \<open>It succeeds exactly when every partial sum is in range.\<close>

lemma try_fold_checked_add_iff:
  "is_ok (try_fold checked_add a cs) \<longleftrightarrow>
     (\<forall>k \<in> {1..length cs}. i64_ok (a + sum_list (take k cs)))"
proof (induction cs arbitrary: a)
  case (Cons c cs)
  have "{1..length (c # cs)} = insert 1 (Suc ` {1..length cs})"
    by (auto simp: image_Suc_atLeastAtMost)
  then have split: "(\<forall>k \<in> {1..length (c # cs)}. i64_ok (a + sum_list (take k (c # cs)))) \<longleftrightarrow>
      i64_ok (a + c) \<and> (\<forall>k \<in> {1..length cs}. i64_ok (a + c + sum_list (take k cs)))"
    by (simp only: ball_simps) (simp add: add.assoc)
  show ?case
  proof (cases "i64_ok (a + c)")
    case True
    then show ?thesis using Cons[of "a + c"] split by simp
  next
    case False
    then have "checked_add a c = Inl OverflowError"
      by (simp add: checked_add_def ok_or_def checked_i64_def)
    with False split show ?thesis by simp
  qed
qed (simp add: is_ok_def)

lemma checked_sum_iff:
  "is_ok (checked_sum cs) \<longleftrightarrow> (\<forall>k \<in> {1..length cs}. i64_ok (sum_list (take k cs)))"
  by (simp add: checked_sum_def try_fold_checked_add_iff)

lemma sum_list_nonneg_take: "(\<And>c. c \<in> set cs \<Longrightarrow> 0 \<le> c) \<Longrightarrow> sum_list (take k cs) \<le> sum_list (cs :: int list)"
proof -
  assume nn: "\<And>c. c \<in> set cs \<Longrightarrow> 0 \<le> c"
  have "0 \<le> sum_list (drop k cs)"
    using nn by (intro sum_list_nonneg) (meson in_set_dropD)
  then show ?thesis
    by (metis append_take_drop_id le_add_same_cancel1 sum_list_append)
qed

text \<open>For non-negative amounts only the total matters.\<close>

lemma checked_sum_nonneg:
  assumes nn: "\<And>c. c \<in> set cs \<Longrightarrow> 0 \<le> c" and "i64_ok (sum_list cs)"
  shows "checked_sum cs = Inr (sum_list cs)"
proof -
  have "\<forall>k \<in> {1..length cs}. i64_ok (sum_list (take k cs))"
  proof
    fix k
    have "0 \<le> sum_list (take k cs)"
      using nn by (intro sum_list_nonneg) (meson in_set_takeD)
    moreover have "sum_list (take k cs) \<le> sum_list cs"
      using nn by (rule sum_list_nonneg_take)
    ultimately show "i64_ok (sum_list (take k cs))"
      using assms(2) by (simp add: range_defs)
  qed
  then have "is_ok (checked_sum cs)" by (simp add: checked_sum_iff)
  then show ?thesis by (auto simp: is_ok_iff dest: checked_sum_exact)
qed

section \<open>The backing contract\<close>

text \<open>
  What \<open>Cent\<close> relies on of its backing: the range fits the canonical width, widening
  and narrowing agree, printing parses back, powers of ten are exact, and the split
  into quotient and remainder is the Euclidean one on absolute values.
\<close>

locale cent_backing =
  fixes fits :: "int \<Rightarrow> bool"
    and ten_pow :: "nat \<Rightarrow> int option"
    and parse_str :: "rstr \<Rightarrow> int option"
    and to_i128 :: "int \<Rightarrow> int"
    and try_from_i128 :: "int \<Rightarrow> int option"
    and div_rem_abs :: "int \<Rightarrow> int \<Rightarrow> nat \<times> nat"
  assumes fits_i128: "fits v \<Longrightarrow> i128_ok v"
    and widen: "fits v \<Longrightarrow> to_i128 v = v"
    and narrow: "i128_ok v \<Longrightarrow> try_from_i128 v = (if fits v then Some v else None)"
    and parse_show: "fits v \<Longrightarrow> parse_str (show_int v) = Some v"
    and ten_pow_exact: "ten_pow e = Some m \<longleftrightarrow> fits (10 ^ e) \<and> m = 10 ^ e"
    and div_rem: "d \<noteq> 0 \<Longrightarrow> div_rem_abs v d = (nat \<bar>v\<bar> div nat \<bar>d\<bar>, nat \<bar>v\<bar> mod nat \<bar>d\<bar>)"
begin

lemma canonical_roundtrip:
  assumes "fits v"
  shows "try_from_i128 (i128_from_be_bytes (i128_to_be_bytes (to_i128 v))) = Some v"
proof -
  have "i128_ok v" using assms by (rule fits_i128)
  then have "untwos 128 (twos 128 v) = v"
    by (intro untwos_twos) (simp_all add: range_defs)
  moreover have "be_val (be_bytes 16 (twos 128 v)) = twos 128 v"
    using twos_less[of 128 v] by (simp add: be_val_be_bytes)
  ultimately show ?thesis
    using assms \<open>i128_ok v\<close>
    by (simp add: widen narrow i128_from_be_bytes_def i128_to_be_bytes_def)
qed

lemma split_scaled:
  assumes "ten_pow e = Some m" and "div_rem_abs v m = (q, r)"
  shows "\<bar>v\<bar> = int q * 10 ^ e + int r" and "r < 10 ^ e"
proof -
  have m: "m = 10 ^ e" using assms(1) by (simp add: ten_pow_exact)
  then have "q = nat \<bar>v\<bar> div 10 ^ e" "r = nat \<bar>v\<bar> mod 10 ^ e"
    using assms(2) div_rem[of m v] by (auto simp: nat_power_eq)
  then show "\<bar>v\<bar> = int q * 10 ^ e + int r" "r < 10 ^ e"
    by (simp_all add: zdiv_int zmod_int div_mult_mod_eq)
qed

end

lemma parse_signed_show_int: "chk v = Some v \<Longrightarrow> parse_signed chk (show_int v) = Some v"
proof -
  assume chk: "chk v = Some v"
  have dig: "list_all is_ascii_digit (show_nat n)" for n
    by (auto simp: list_all_iff dest: show_nat_digits)
  show ?thesis
  proof (cases "v < 0")
    case True
    with chk dig show ?thesis by (simp add: parse_signed_def show_int_def)
  next
    case False
    obtain c r where cr: "show_nat (nat v) = c # r"
      by (metis show_nat_nonempty neq_Nil_conv)
    then have "c \<noteq> 45 \<and> c \<noteq> 43"
      using show_nat_digits[of c "nat v"] digit_not_special(1,2)[of c] by auto
    moreover have "digits_val (c # r) = nat v" by (metis cr digits_val_show_nat)
    ultimately show ?thesis
      using False chk dig[of "nat v"] cr by (simp add: parse_signed_def show_int_def)
  qed
qed

interpretation i64_backing: cent_backing i64_ok i64_ten_pow i64_parse_str i64_to_i128
  i64_try_from_i128 i64_div_rem_abs
proof unfold_locales
  fix d v :: int
  assume "d \<noteq> 0"
  then show "i64_div_rem_abs v d = (nat \<bar>v\<bar> div nat \<bar>d\<bar>, nat \<bar>v\<bar> mod nat \<bar>d\<bar>)"
    by (simp add: i64_div_rem_abs_def Let_def)
qed (auto simp: i64_ok_i128_ok i64_to_i128_def i64_try_from_i128_def i64_ten_pow_def
    i64_parse_str_def checked_i64_def intro!: parse_signed_show_int split: if_splits)

interpretation i128_backing: cent_backing i128_ok i128_ten_pow i128_parse_str i128_to_i128
  i128_try_from_i128 i128_div_rem_abs
proof unfold_locales
  fix d v :: int
  assume "d \<noteq> 0"
  then show "i128_div_rem_abs v d = (nat \<bar>v\<bar> div nat \<bar>d\<bar>, nat \<bar>v\<bar> mod nat \<bar>d\<bar>)"
    by (simp add: i128_div_rem_abs_def Let_def)
qed (auto simp: i128_to_i128_def i128_try_from_i128_def i128_ten_pow_def
    i128_parse_str_def checked_i128_def intro!: parse_signed_show_int split: if_splits)

lemma length_to_canonical_bytes [simp]: "length (to_canonical_bytes c) = 16"
  by (simp add: to_canonical_bytes_def i128_to_be_bytes_def)

lemma to_canonical_bytes_inject:
  "i64_ok a \<Longrightarrow> i64_ok b \<Longrightarrow> to_canonical_bytes a = to_canonical_bytes b \<longleftrightarrow> a = b"
  unfolding to_canonical_bytes_def by (metis i64_backing.canonical_roundtrip option.inject)

section \<open>Amounts: printing parses back\<close>

lemma parse_signed_digits:
  assumes "ds \<noteq> []" and "list_all is_ascii_digit ds"
  shows "parse_signed chk ds = chk (int (digits_val ds))"
proof -
  obtain c r where "ds = c # r" using assms(1) by (cases ds) auto
  moreover have "c \<noteq> 45 \<and> c \<noteq> 43"
    using assms(2) \<open>ds = c # r\<close> digit_not_special(1,2)[of c] by simp
  ultimately show ?thesis using assms by (simp add: parse_signed_def)
qed

lemma show_nat_all_digits [simp]: "list_all is_ascii_digit (show_nat n)"
  by (auto simp: list_all_iff dest: show_nat_digits)

lemma pad_left_all_digits [simp]: "list_all is_ascii_digit (pad_left d (show_nat n))"
  by (auto simp: pad_left_def list_all_iff is_ascii_digit_def dest: show_nat_digits[unfolded is_ascii_digit_def])

lemma length_pad_left_frac: "r < 10 ^ d \<Longrightarrow> 0 < d \<Longrightarrow> length (pad_left d (show_nat r)) = d"
  using length_show_nat[of r d] by (simp add: pad_left_def)

lemma all_digits_byte_len: "list_all is_ascii_digit s \<Longrightarrow> byte_len s = length s"
  by (rule byte_len_ascii) (auto simp: list_all_iff digit_not_special)

lemma split_once_digits:
  assumes "list_all is_ascii_digit w"
  shows "split_once 46 (w @ 46 # f) = Some (w, f)" and "split_once 46 w = None"
proof -
  have "c \<noteq> 46" if "c \<in> set w" for c
    using assms that digit_not_special(3) by (auto simp: list_all_iff)
  then show "split_once 46 (w @ 46 # f) = Some (w, f)" "split_once 46 w = None"
    by (auto simp: split_once_def takeWhile_append dropWhile_append)
qed

lemma trim_printed:
  assumes "list_all is_ascii_digit w" "w \<noteq> []" "list_all is_ascii_digit f" "f \<noteq> []"
  shows "trim ((if neg then [45] else []) @ w @ 46 # f) = (if neg then [45] else []) @ w @ 46 # f"
    and "trim ((if neg then [45] else []) @ w) = (if neg then [45] else []) @ w"
proof -
  have "\<not> is_whitespace c" if "c \<in> set w \<union> set f" for c
    using assms that digit_not_special(4) by (auto simp: list_all_iff)
  moreover have "\<not> is_whitespace 45" by (simp add: is_whitespace_def)
  ultimately show
    "trim ((if neg then [45] else []) @ w @ 46 # f) = (if neg then [45] else []) @ w @ 46 # f"
    "trim ((if neg then [45] else []) @ w) = (if neg then [45] else []) @ w"
    using assms by (auto intro!: trim_id simp: hd_append)
qed

lemma strip_sign:
  assumes "list_all is_ascii_digit w" "w \<noteq> []"
  shows "strip_prefix_char 45 ((if neg then [45] else []) @ w @ t) = (if neg then Some (w @ t) else None)"
proof -
  obtain c r where "w = c # r" using assms by (cases w) auto
  then show ?thesis using assms digit_not_special(1)[of c] by (auto simp: strip_prefix_char_def)
qed

text \<open>
  The parser on a printed amount: a sign, digits, a point and exactly as many fraction
  digits as the precision.
\<close>

lemma amount_parse_printed:
  assumes w: "list_all is_ascii_digit w" "w \<noteq> []" and f: "list_all is_ascii_digit f" "length f = d"
    and d: "decimals a = d" "0 < d" "i64_ok (10 ^ d)"
    and v: "v = int (digits_val w) * 10 ^ d + int (digits_val f)" "i64_ok v"
  shows "amount_parse a ((if neg then [45] else []) @ w @ 46 # f) = Inr (if neg then - v else v)"
proof -
  have fne: "f \<noteq> []" using f d by auto
  define wv fv where "wv = int (digits_val w)" and "fv = int (digits_val f)"
  have "0 \<le> wv" "0 \<le> fv" by (simp_all add: wv_def fv_def)
  moreover have "1 * wv \<le> 10 ^ d * wv"
    by (intro mult_right_mono) (simp_all add: wv_def)
  moreover have v': "v = wv * 10 ^ d + fv" using v(1) by (simp add: wv_def fv_def)
  ultimately have "0 \<le> wv \<and> wv \<le> v" "0 \<le> fv \<and> fv \<le> v" "0 \<le> wv * 10 ^ d \<and> wv * 10 ^ d \<le> v"
    by (simp_all add: mult.commute)
  then have ok: "i64_ok wv" "i64_ok fv" "i64_ok (wv * 10 ^ d)" "i64_ok (- v)"
    using v(2) i64_ok_between i64_ok_uminus by (blast, blast, blast, force)
  have pad: "pad_right d f = f" using f by (simp add: pad_right_def)
  have bl: "byte_len f = d" using f by (simp add: all_digits_byte_len)
  show ?thesis
    using w f d ok fne v pad bl unfolding wv_def fv_def
    by (simp add: amount_parse_def trim_printed strip_sign split_once_digits Let_def
        i64_parse_str_def parse_signed_digits i64_ten_pow_def checked_i64_def)
qed

lemma amount_roundtrip:
  assumes c: "i64_ok c" "c \<noteq> i64_min" and d: "decimals a \<le> 18"
  shows "amount_parse a (amount_format a c) = Inr c"
proof (cases "decimals a = 0")
  case True
  let ?w = "show_nat (nat \<bar>c\<bar>)"
  have ok: "i64_ok \<bar>c\<bar>" "i64_ok (- \<bar>c\<bar>)" using c by (auto simp: range_defs)
  have "amount_format a c = (if c < 0 then [45] else []) @ ?w"
    using True by (simp add: amount_format_def cent_to_string_def show_int_def)
  moreover have "strip_prefix_char 45 ((if c < 0 then [45] else []) @ ?w)
      = (if c < 0 then Some ?w else None)"
    using strip_sign[of ?w "c < 0" "[]"] by simp
  ultimately show ?thesis
    using True ok trim_printed(2)[of ?w ?w "c < 0"]
    by (auto simp: amount_parse_def split_once_digits Let_def i64_parse_str_def byte_len_def
        parse_signed_digits i64_ten_pow_def checked_i64_def abs_if split: if_splits)
next
  case False
  have "(10::int) ^ decimals a \<le> 10 ^ 18" using d by (intro power_increasing) auto
  moreover have "i64_ok (10 ^ 18)" by (simp add: range_defs)
  ultimately have ten: "i64_ok (10 ^ decimals a)" by (meson i64_ok_between zero_le_numeral zero_le_power)
  obtain q r where qr: "i64_div_rem_abs c (10 ^ decimals a) = (q, r)" by fastforce
  have tp: "i64_ten_pow (decimals a) = Some (10 ^ decimals a)"
    using ten by (simp add: i64_backing.ten_pow_exact)
  note sp = i64_backing.split_scaled[OF tp qr]
  let ?f = "pad_left (decimals a) (show_nat r)"
  have v: "\<bar>c\<bar> = int (digits_val (show_nat q)) * 10 ^ decimals a + int (digits_val ?f)"
    using sp(1) by simp
  have "amount_parse a ((if c < 0 then [45] else []) @ show_nat q @ 46 # ?f)
      = Inr (if c < 0 then - \<bar>c\<bar> else \<bar>c\<bar>)"
    by (rule amount_parse_printed) (use sp False ten v c in \<open>auto simp: length_pad_left_frac range_defs\<close>)
  moreover have "amount_format a c = (if c < 0 then [45] else []) @ show_nat q @ 46 # ?f"
    using False tp qr by (simp add: amount_format_def)
  ultimately show ?thesis by simp
qed

text \<open>
  C27: what a monetary amount is printed as, it is parsed back from, for every value but
  the least and up to eighteen decimals.
\<close>

theorem amount_parse_format:
  assumes c: "i64_ok c" "c \<noteq> i64_min" and d: "decimals a \<le> 18"
  shows "amount_parse a (amount_format a c) = Inr c"
  by (rule amount_roundtrip) (use assms in simp_all)

theorem amount_parse_format_witness:
  "amount_parse \<lparr>decimals = 2\<rparr> (amount_format \<lparr>decimals = 2\<rparr> (- 123456)) = Inr (- 123456)"
  by (rule amount_parse_format) (simp_all add: range_defs)

section \<open>Running totals are exact\<close>

abbreviation entry_fold :: "('k \<times> cent) list \<Rightarrow> overflow_error + ('k \<times> cent) list" where
  "entry_fold kvs \<equiv> try_fold (\<lambda>m kv. entry_add m (fst kv) (snd kv)) [] kvs"

lemma entry_sub_add: "entry_sub m k v = entry_add m k (- v)"
  by (simp add: entry_sub_def entry_add_def checked_sub_def checked_add_def)

lemma key_sum_Nil [simp]: "key_sum k [] = 0"
  by (simp add: key_sum_def)

lemma key_sum_Cons: "key_sum k (kv # kvs) = (if fst kv = k then snd kv else 0) + key_sum k kvs"
  by (simp add: key_sum_def)

lemma key_sum_append [simp]: "key_sum k (xs @ ys) = key_sum k xs + key_sum k ys"
  by (simp add: key_sum_def)

lemma key_sum_absent: "k \<notin> fst ` set kvs \<Longrightarrow> key_sum k kvs = 0"
  by (induction kvs) (auto simp: key_sum_Cons)

text \<open>
  The loop succeeds exactly when every running total is in range, and it then holds the
  exact total of every key it saw.
\<close>

lemma entry_fold_step:
  assumes "\<And>k. map_of m k = (if k \<in> fst ` set kvs then Some (key_sum k kvs) else None)"
    and "entry_add m (fst kv) (snd kv) = Inr m'"
  shows "map_of m' k = (if k \<in> fst ` set (kvs @ [kv]) then Some (key_sum k (kvs @ [kv])) else None)"
    and "i64_ok (key_sum (fst kv) (kvs @ [kv]))"
proof -
  have v: "entry_value m (fst kv) = key_sum (fst kv) kvs"
    using assms(1) key_sum_absent by (auto simp: entry_value_def)
  then have "i64_ok (key_sum (fst kv) kvs + snd kv)"
    and m': "m' = AList.update (fst kv) (key_sum (fst kv) kvs + snd kv) m"
    using assms(2) by (auto simp: entry_add_def rbind_eq_Inr checked_add_Inr)
  then show "i64_ok (key_sum (fst kv) (kvs @ [kv]))" by (simp add: key_sum_Cons)
  show "map_of m' k = (if k \<in> fst ` set (kvs @ [kv]) then Some (key_sum k (kvs @ [kv])) else None)"
    using assms(1) m' by (auto simp: key_sum_Cons)
qed

lemma totals_ok_snoc:
  "totals_ok (kvs @ [kv]) \<longleftrightarrow> totals_ok kvs \<and> i64_ok (key_sum (fst kv) (kvs @ [kv]))"
  by (auto simp: totals_ok_def nth_append less_Suc_eq)

lemma entry_fold_Inr:
  "entry_fold kvs = Inr m \<Longrightarrow>
     totals_ok kvs \<and> keys_distinct m \<and>
     (\<forall>k. map_of m k = (if k \<in> fst ` set kvs then Some (key_sum k kvs) else None))"
proof (induction kvs arbitrary: m rule: rev_induct)
  case Nil
  then show ?case by (simp add: totals_ok_def)
next
  case (snoc kv kvs)
  then obtain m0 where m0: "entry_fold kvs = Inr m0" and step: "entry_add m0 (fst kv) (snd kv) = Inr m"
    by (auto simp: try_fold_append rbind_eq_Inr)
  note ih = snoc.IH[OF m0]
  have "keys_distinct m"
    using ih step by (auto simp: entry_add_def rbind_eq_Inr)
  moreover have ih_map: "\<And>k. map_of m0 k = (if k \<in> fst ` set kvs then Some (key_sum k kvs) else None)"
    using ih by blast
  ultimately show ?case
    using ih entry_fold_step[OF ih_map step] unfolding totals_ok_snoc by blast
qed

lemma entry_fold_total: "totals_ok kvs \<Longrightarrow> \<exists>m. entry_fold kvs = Inr m"
proof (induction kvs rule: rev_induct)
  case (snoc kv kvs)
  then obtain m where m: "entry_fold kvs = Inr m" by (auto simp: totals_ok_snoc)
  have "entry_value m (fst kv) = key_sum (fst kv) kvs"
    using entry_fold_Inr[OF m] key_sum_absent by (auto simp: entry_value_def)
  moreover have "i64_ok (key_sum (fst kv) kvs + snd kv)"
    using snoc.prems by (simp add: totals_ok_snoc key_sum_Cons)
  ultimately show ?case using m by (simp add: try_fold_append entry_add_def)
qed simp

lemma entry_fold_ok_iff: "is_ok (entry_fold kvs) \<longleftrightarrow> totals_ok kvs"
proof
  assume "is_ok (entry_fold kvs)"
  then obtain m where "entry_fold kvs = Inr m" by (auto simp: is_ok_iff)
  then show "totals_ok kvs" using entry_fold_Inr by blast
next
  assume "totals_ok kvs"
  then obtain m where "entry_fold kvs = Inr m" using entry_fold_total by blast
  then show "is_ok (entry_fold kvs)" by simp
qed

lemma entry_value_fold: "entry_fold kvs = Inr m \<Longrightarrow> entry_value m k = key_sum k kvs"
  using entry_fold_Inr[of kvs m] key_sum_absent by (auto simp: entry_value_def)

lemma set_entry_fold: "entry_fold kvs = Inr m \<Longrightarrow> fst ` set m = fst ` set kvs"
proof -
  assume "entry_fold kvs = Inr m"
  then have "\<forall>k. map_of m k = (if k \<in> fst ` set kvs then Some (key_sum k kvs) else None)"
    using entry_fold_Inr by blast
  then have "dom (map_of m) = fst ` set kvs" by (auto simp: dom_def)
  then show ?thesis by (simp add: dom_map_of_conv_image_fst)
qed

lemma key_sum_uminus: "key_sum k (map (\<lambda>a. (f a, - g a)) as) = - key_sum k (map (\<lambda>a. (f a, g a)) as)"
  by (induction as) (auto simp: key_sum_Cons)

text \<open>Totals under a coarser key are sums of the totals under the finer one.\<close>

definition project_keys :: "('k \<Rightarrow> 'j) \<Rightarrow> ('k \<times> cent) list \<Rightarrow> ('j \<times> cent) list" where
  "project_keys f kvs = map (\<lambda>kv. (f (fst kv), snd kv)) kvs"

lemma key_sum_project:
  assumes "finite K" "fst ` set kvs \<subseteq> K"
  shows "key_sum b (project_keys f kvs) = (\<Sum>k \<in> {k \<in> K. f k = b}. key_sum k kvs)"
  using assms(2)
proof (induction kvs)
  case (Cons kv kvs)
  have "(\<Sum>k \<in> {k \<in> K. f k = b}. if fst kv = k then snd kv else 0) = (if f (fst kv) = b then snd kv else 0)"
    using Cons.prems assms(1) by (simp add: sum.delta)
  then show ?case using Cons by (simp add: project_keys_def key_sum_Cons sum.distrib)
qed (simp add: project_keys_def)

lemma key_sum_project_eq:
  assumes "\<forall>k. key_sum k xs = key_sum k ys"
  shows "key_sum b (project_keys f xs) = key_sum b (project_keys f ys)"
  using assms key_sum_project[of "fst ` set xs \<union> fst ` set ys" xs b f]
    key_sum_project[of "fst ` set xs \<union> fst ` set ys" ys b f] by simp

lemma totals_ok_key_sum: "totals_ok kvs \<Longrightarrow> i64_ok (key_sum k kvs)"
proof (induction kvs rule: rev_induct)
  case (snoc kv kvs)
  then have *: "i64_ok (key_sum k kvs)" "i64_ok (key_sum (fst kv) (kvs @ [kv]))" by (simp_all add: totals_ok_snoc)
  show ?case
  proof (cases "fst kv = k")
    case False
    then have "key_sum k (kvs @ [kv]) = key_sum k kvs" by (simp add: key_sum_Cons)
    with * show ?thesis by simp
  qed (use * in simp)
qed simp

section \<open>Properties\<close>

text \<open>A checked sum returns the exact sum when every partial sum fits, and fails otherwise.\<close>

theorem checked_sum_spec:
  "checked_sum cs = (if list_all (\<lambda>k. i64_ok (sum_list (take k cs))) [1..<Suc (length cs)]
     then Inr (sum_list cs) else Inl OverflowError)"
proof (cases "is_ok (checked_sum cs)")
  case True
  then obtain s where "checked_sum cs = Inr s" by (auto simp: is_ok_iff)
  moreover have "s = sum_list cs" using checked_sum_exact calculation by simp
  ultimately show ?thesis using True unfolding checked_sum_iff
    by (simp add: list_all_iff atLeastLessThanSuc_atLeastAtMost del: upt_Suc)
next
  case False
  then obtain e where "checked_sum cs = Inl e" by (cases "checked_sum cs") (auto simp: is_ok_iff)
  moreover have "e = OverflowError" by (cases e) simp
  ultimately show ?thesis using False unfolding checked_sum_iff
    by (simp add: list_all_iff atLeastLessThanSuc_atLeastAtMost del: upt_Suc)
qed

lemmas parse_eval = amount_parse_def lit_def trim_def strip_prefix_char_def Let_def split_once_def is_whitespace_def
  i64_parse_str_def parse_signed_def byte_len_def utf8_len_def is_ascii_digit_def digits_val_def i64_ten_pow_def
  checked_i64_def range_defs pad_right_def ok_or_def rbind_def

text \<open>
  The parser negates twice: a second minus sign reaches the integer parser, so
  a doubly negative amount is accepted as a positive one, its fraction counted
  against it; and the printed least value is not parsed back.
\<close>

theorem amount_parse_double_minus:
  "amount_parse \<lparr>decimals = 2\<rparr> (lit ''--5'') = Inr 500 \<and>
   amount_parse \<lparr>decimals = 2\<rparr> (lit ''--5.25'') = Inr 475 \<and>
   is_ok (amount_parse \<lparr>decimals = 2\<rparr> (amount_format \<lparr>decimals = 2\<rparr> i64_min)) = False"
  by (simp add: parse_eval amount_format_def i64_div_rem_abs_def is_negative_def pad_left_def show_nat.simps)

end
