(* ===== verification/Ledger_Types.thy ===== *)
theory Ledger_Types
  imports Money
begin

text \<open>
  The domain types of \<open>kuatia-types\<close>: identifiers (\<^verbatim>\<open>ids.rs\<close>), accounts and their flags
  (\<^verbatim>\<open>account.rs\<close>), postings (\<^verbatim>\<open>posting.rs\<close>), envelopes and their builder
  (\<^verbatim>\<open>envelope.rs\<close>), transfers and their builder (\<^verbatim>\<open>transfer.rs\<close>) and books
  (\<^verbatim>\<open>book.rs\<close>). Identifiers are single-constructor datatypes, because the source derives
  \<open>Ord\<close> for them and sorts by it: each gets the \<open>linorder\<close> instance of the derived
  lexicographic order. The other structs are records whose fields carry the struct's
  initials. \<open>Metadata\<close>, a \<open>BTreeMap<String, Vec<u8>>\<close>, is an association list in strictly
  increasing key order, with keys as their UTF-8 bytes.
\<close>

section \<open>Identifiers\<close>

datatype account_id = AccountId (aid_id: i64) (aid_sub: i64)

datatype asset_id = AssetId (asset_raw: u32)

datatype envelope_id = EnvelopeId (env_hash: "byte list")

datatype posting_id = PostingId (pid_transfer: envelope_id) (pid_index: u16)

datatype book_id = BookId (book_raw: i64)

datatype reservation_id = ReservationId i64

datatype transition_id = TransitionId i64

record account_snapshot_id =
  snap_account :: account_id
  snap_snapshot_id :: "byte list"

definition account_id_new :: "i64 \<Rightarrow> account_id" where
  "account_id_new i = AccountId i 0"

definition with_sub :: "i64 \<Rightarrow> i64 \<Rightarrow> account_id" where
  "with_sub i s = AccountId i s"

definition base :: "account_id \<Rightarrow> account_id" where
  "base a = AccountId (aid_id a) 0"

definition is_main :: "account_id \<Rightarrow> bool" where
  "is_main a \<longleftrightarrow> aid_sub a = 0"

definition account_id_from_snapshot :: "account_snapshot_id \<Rightarrow> account_id" where
  "account_id_from_snapshot s = snap_account s"

definition asset_id_new :: "u32 \<Rightarrow> asset_id" where
  "asset_id_new v = AssetId v"

definition DEFAULT_BOOK :: book_id where
  "DEFAULT_BOOK = BookId 0"

definition book_id_default :: book_id where
  "book_id_default = DEFAULT_BOOK"

text \<open>The derived lexicographic orders.\<close>

instantiation account_id :: linorder
begin

definition less_eq_account_id :: "account_id \<Rightarrow> account_id \<Rightarrow> bool" where
  "a \<le> b \<longleftrightarrow> aid_id a < aid_id b \<or> (aid_id a = aid_id b \<and> aid_sub a \<le> aid_sub b)"

definition less_account_id :: "account_id \<Rightarrow> account_id \<Rightarrow> bool" where
  "a < b \<longleftrightarrow> aid_id a < aid_id b \<or> (aid_id a = aid_id b \<and> aid_sub a < aid_sub b)"

instance
  by standard (auto simp: less_eq_account_id_def less_account_id_def account_id.expand)

end

instantiation asset_id :: linorder
begin

definition less_eq_asset_id :: "asset_id \<Rightarrow> asset_id \<Rightarrow> bool" where
  "a \<le> b \<longleftrightarrow> asset_raw a \<le> asset_raw b"

definition less_asset_id :: "asset_id \<Rightarrow> asset_id \<Rightarrow> bool" where
  "a < b \<longleftrightarrow> asset_raw a < asset_raw b"

instance
  by standard (auto simp: less_eq_asset_id_def less_asset_id_def asset_id.expand)

end

instantiation envelope_id :: linorder
begin

definition less_eq_envelope_id :: "envelope_id \<Rightarrow> envelope_id \<Rightarrow> bool" where
  "a \<le> b \<longleftrightarrow> env_hash a \<le> env_hash b"

definition less_envelope_id :: "envelope_id \<Rightarrow> envelope_id \<Rightarrow> bool" where
  "a < b \<longleftrightarrow> env_hash a < env_hash b"

instance
  by standard (auto simp: less_eq_envelope_id_def less_envelope_id_def envelope_id.expand)

end

instantiation posting_id :: linorder
begin

definition less_eq_posting_id :: "posting_id \<Rightarrow> posting_id \<Rightarrow> bool" where
  "a \<le> b \<longleftrightarrow> pid_transfer a < pid_transfer b \<or>
     (pid_transfer a = pid_transfer b \<and> pid_index a \<le> pid_index b)"

definition less_posting_id :: "posting_id \<Rightarrow> posting_id \<Rightarrow> bool" where
  "a < b \<longleftrightarrow> pid_transfer a < pid_transfer b \<or>
     (pid_transfer a = pid_transfer b \<and> pid_index a < pid_index b)"

instance
  by standard (auto simp: less_eq_posting_id_def less_posting_id_def posting_id.expand)

end

section \<open>Metadata\<close>

type_synonym metadata = "(byte list \<times> byte list) list"

definition metadata_new :: metadata where
  "metadata_new = []"

text \<open>\<open>BTreeMap::insert\<close>: replace the value of an existing key, or insert in order.\<close>

fun meta_insert :: "byte list \<Rightarrow> byte list \<Rightarrow> metadata \<Rightarrow> metadata" where
  "meta_insert k v [] = [(k, v)]"
| "meta_insert k v ((k', v') # m) =
     (if k < k' then (k, v) # (k', v') # m
      else if k = k' then (k, v) # m
      else (k', v') # meta_insert k v m)"

definition meta_ok :: "metadata \<Rightarrow> bool" where
  "meta_ok m \<longleftrightarrow> sorted_wrt (<) (map fst m)"

section \<open>Accounts\<close>

type_synonym account_flags = u32

definition FROZEN :: account_flags where "FROZEN = push_bit 0 1"
definition CLOSED :: account_flags where "CLOSED = push_bit 1 1"
definition INFLIGHT :: account_flags where "INFLIGHT = push_bit 2 1"

definition DEBIT_MUST_NOT_EXCEED_CREDIT :: account_flags where
  "DEBIT_MUST_NOT_EXCEED_CREDIT = push_bit 3 1"

text \<open>\<open>RESERVED_4\<close> to \<open>RESERVED_7\<close> and \<open>USER_0\<close> to \<open>USER_23\<close>.\<close>

definition RESERVED :: "nat \<Rightarrow> account_flags" where
  "RESERVED n = push_bit n 1"

definition USER :: "nat \<Rightarrow> account_flags" where
  "USER n = push_bit (8 + n) 1"

definition flags_empty :: account_flags where
  "flags_empty = 0"

definition flags_contains :: "account_flags \<Rightarrow> account_flags \<Rightarrow> bool" where
  "flags_contains f g \<longleftrightarrow> f AND g = g"

definition flags_intersects :: "account_flags \<Rightarrow> account_flags \<Rightarrow> bool" where
  "flags_intersects f g \<longleftrightarrow> f AND g \<noteq> 0"

definition flags_insert :: "account_flags \<Rightarrow> account_flags \<Rightarrow> account_flags" where
  "flags_insert f g = f OR g"

definition flags_remove :: "account_flags \<Rightarrow> account_flags \<Rightarrow> account_flags" where
  "flags_remove f g = f AND NOT g"

record account =
  acc_id :: account_id
  acc_version :: u64
  acc_flags :: account_flags
  acc_book :: book_id
  acc_metadata :: metadata

definition account_new_ref :: "account_id \<Rightarrow> account" where
  "account_new_ref i = \<lparr>acc_id = i, acc_version = 1, acc_flags = flags_empty,
     acc_book = DEFAULT_BOOK, acc_metadata = metadata_new\<rparr>"

definition account_new :: "account_id \<Rightarrow> account" where
  "account_new i = account_new_ref i"

definition debit_must_not_exceed_credit :: "account_id \<Rightarrow> account" where
  "debit_must_not_exceed_credit i =
     (let a = account_new i
      in a\<lparr>acc_flags := flags_insert (acc_flags a) DEBIT_MUST_NOT_EXCEED_CREDIT\<rparr>)"

definition forbids_overdraft :: "account \<Rightarrow> bool" where
  "forbids_overdraft a \<longleftrightarrow> flags_contains (acc_flags a) DEBIT_MUST_NOT_EXCEED_CREDIT"

definition is_frozen :: "account \<Rightarrow> bool" where
  "is_frozen a \<longleftrightarrow> flags_contains (acc_flags a) FROZEN"

definition is_closed :: "account \<Rightarrow> bool" where
  "is_closed a \<longleftrightarrow> flags_contains (acc_flags a) CLOSED"

section \<open>Postings\<close>

datatype posting_filter = FilterActive | FilterReserved | FilterLive | FilterAll

datatype posting_state =
    StateActive
  | StateReserved reservation_id
  | StateSpent
  | StateMissing

record posting =
  p_id :: posting_id
  p_owner :: account_id
  p_asset :: asset_id
  p_value :: cent

definition posting_new :: "posting_id \<Rightarrow> account_id \<Rightarrow> asset_id \<Rightarrow> cent \<Rightarrow> posting" where
  "posting_new i ow as v = \<lparr>p_id = i, p_owner = ow, p_asset = as, p_value = v\<rparr>"

record new_posting =
  np_owner :: account_id
  np_asset :: asset_id
  np_value :: cent
  np_payer :: "account_id option"

section \<open>Envelopes\<close>

record envelope =
  e_consumes :: "posting_id list"
  e_creates :: "new_posting list"
  e_account_snapshots :: "account_snapshot_id list"
  e_book :: book_id
  e_metadata :: metadata

definition referenced_accounts :: "envelope \<Rightarrow> account_id list" where
  "referenced_accounts e = sort_dedup (map np_owner (e_creates e))"

definition set_account_snapshots :: "account_snapshot_id list \<Rightarrow> envelope \<Rightarrow> envelope" where
  "set_account_snapshots ss e = e\<lparr>e_account_snapshots := ss\<rparr>"

text \<open>The builder: \<open>new\<close> is the derived default, each setter replaces one field.\<close>

definition envelope_builder_new :: envelope where
  "envelope_builder_new = \<lparr>e_consumes = [], e_creates = [], e_account_snapshots = [],
     e_book = book_id_default, e_metadata = metadata_new\<rparr>"

definition envelope_builder_consumes :: "posting_id list \<Rightarrow> envelope \<Rightarrow> envelope" where
  "envelope_builder_consumes ids b = b\<lparr>e_consumes := ids\<rparr>"

definition envelope_builder_creates :: "new_posting list \<Rightarrow> envelope \<Rightarrow> envelope" where
  "envelope_builder_creates ps b = b\<lparr>e_creates := ps\<rparr>"

definition envelope_builder_book :: "book_id \<Rightarrow> envelope \<Rightarrow> envelope" where
  "envelope_builder_book k b = b\<lparr>e_book := k\<rparr>"

definition envelope_builder_account_snapshots ::
  "account_snapshot_id list \<Rightarrow> envelope \<Rightarrow> envelope" where
  "envelope_builder_account_snapshots ss b = b\<lparr>e_account_snapshots := ss\<rparr>"

definition envelope_builder_metadata :: "metadata \<Rightarrow> envelope \<Rightarrow> envelope" where
  "envelope_builder_metadata m b = b\<lparr>e_metadata := m\<rparr>"

section \<open>Transfers\<close>

record receipt =
  r_transfer_id :: envelope_id

record movement =
  m_from :: account_id
  m_to :: account_id
  m_asset :: asset_id
  m_amount :: cent

record transfer =
  t_movements :: "movement list"
  t_book :: book_id
  t_metadata :: metadata

definition transfer_builder_new :: transfer where
  "transfer_builder_new = \<lparr>t_movements = [], t_book = book_id_default, t_metadata = metadata_new\<rparr>"

definition movement_ref ::
  "account_id \<Rightarrow> account_id \<Rightarrow> asset_id \<Rightarrow> cent \<Rightarrow> transfer \<Rightarrow> transfer" where
  "movement_ref fr tt as amt b =
     b\<lparr>t_movements := t_movements b @ [\<lparr>m_from = fr, m_to = tt, m_asset = as, m_amount = amt\<rparr>]\<rparr>"

definition movement_main ::
  "account_id \<Rightarrow> account_id \<Rightarrow> asset_id \<Rightarrow> cent \<Rightarrow> transfer \<Rightarrow> transfer" where
  "movement_main fr tt as amt b = movement_ref fr tt as amt b"

definition pay :: "account_id \<Rightarrow> account_id \<Rightarrow> asset_id \<Rightarrow> cent \<Rightarrow> transfer \<Rightarrow> transfer" where
  "pay fr tt as amt b = movement_main fr tt as amt b"

definition pay_ref :: "account_id \<Rightarrow> account_id \<Rightarrow> asset_id \<Rightarrow> cent \<Rightarrow> transfer \<Rightarrow> transfer" where
  "pay_ref fr tt as amt b = movement_ref fr tt as amt b"

definition deposit ::
  "account_id \<Rightarrow> asset_id \<Rightarrow> cent \<Rightarrow> account_id \<Rightarrow> transfer \<Rightarrow> overflow_error + transfer" where
  "deposit tt as amt ext b =
     rbind (checked_neg amt) (\<lambda>n.
       Inr (movement_main ext tt as amt (movement_main ext ext as n b)))"

definition withdraw ::
  "account_id \<Rightarrow> asset_id \<Rightarrow> cent \<Rightarrow> account_id \<Rightarrow> transfer \<Rightarrow> transfer" where
  "withdraw fr as amt ext b = movement_main fr ext as amt b"

definition transfer_builder_book :: "book_id \<Rightarrow> transfer \<Rightarrow> transfer" where
  "transfer_builder_book k b = b\<lparr>t_book := k\<rparr>"

definition transfer_builder_metadata :: "metadata \<Rightarrow> transfer \<Rightarrow> transfer" where
  "transfer_builder_metadata m b = b\<lparr>t_metadata := m\<rparr>"

section \<open>Books\<close>

record book_policy =
  allowed_assets :: "asset_id list"
  allowed_flags :: account_flags
  allowed_accounts :: "account_id list"

record book =
  b_id :: book_id
  b_name :: rstr
  b_policy :: book_policy

text \<open>\<open>BookBuilder::new\<close>: the fresh id of \<open>BookId::generate\<close> is the first argument.\<close>

definition book_builder_new :: "book_id \<Rightarrow> rstr \<Rightarrow> book" where
  "book_builder_new fresh name = \<lparr>b_id = fresh, b_name = name,
     b_policy = \<lparr>allowed_assets = [], allowed_flags = flags_empty, allowed_accounts = []\<rparr>\<rparr>"

definition book_builder_id :: "book_id \<Rightarrow> book \<Rightarrow> book" where
  "book_builder_id k b = b\<lparr>b_id := k\<rparr>"

definition allow_asset :: "asset_id \<Rightarrow> book \<Rightarrow> book" where
  "allow_asset a b = b\<lparr>b_policy := (b_policy b)\<lparr>allowed_assets := allowed_assets (b_policy b) @ [a]\<rparr>\<rparr>"

definition allow_flags :: "account_flags \<Rightarrow> book \<Rightarrow> book" where
  "allow_flags f b = b\<lparr>b_policy := (b_policy b)\<lparr>allowed_flags := f\<rparr>\<rparr>"

definition allow_account :: "account_id \<Rightarrow> book \<Rightarrow> book" where
  "allow_account a b =
     b\<lparr>b_policy := (b_policy b)\<lparr>allowed_accounts := allowed_accounts (b_policy b) @ [a]\<rparr>\<rparr>"

section \<open>Facts on metadata and flags\<close>

lemma meta_ok_new [simp]: "meta_ok metadata_new"
  by (simp add: meta_ok_def metadata_new_def)

lemma set_meta_insert: "set (map fst (meta_insert k v m)) = insert k (set (map fst m))"
  by (induction k v m rule: meta_insert.induct) auto

lemma meta_insert_ok: "meta_ok m \<Longrightarrow> meta_ok (meta_insert k v m)"
proof (induction m)
  case (Cons kv m)
  obtain k' v' where kv: "kv = (k', v')" by (cases kv)
  have keys: "set (map fst (meta_insert k v m)) = insert k (set (map fst m))"
    by (rule set_meta_insert)
  have tl: "sorted_wrt (<) (map fst m)" "\<forall>x \<in> set (map fst m). k' < x"
    using Cons.prems kv by (auto simp: meta_ok_def)
  consider "k < k'" | "k = k'" | "k' < k" by fastforce
  then show ?case
  proof cases
    case 1
    with tl kv show ?thesis by (auto simp: meta_ok_def)
  next
    case 2
    with tl kv show ?thesis by (auto simp: meta_ok_def)
  next
    case 3
    have "meta_ok (meta_insert k v m)" using Cons.IH tl by (simp add: meta_ok_def)
    with 3 tl kv keys show ?thesis by (auto simp: meta_ok_def)
  qed
qed (simp add: meta_ok_def)

lemma map_of_meta_insert: "meta_ok m \<Longrightarrow> map_of (meta_insert k v m) = (map_of m)(k \<mapsto> v)"
proof (induction m)
  case (Cons kv m)
  have "meta_ok m" using Cons.prems by (simp add: meta_ok_def)
  then have "map_of (meta_insert k v m) = (map_of m)(k \<mapsto> v)" by (rule Cons.IH)
  then show ?case by (cases kv) (auto simp: fun_eq_iff)
qed auto

lemma meta_ok_distinct: "meta_ok m \<Longrightarrow> keys_distinct m"
  by (simp add: meta_ok_def strict_sorted_imp_sorted strict_sorted_iff)

lemmas flag_defs = FROZEN_def CLOSED_def INFLIGHT_def DEBIT_MUST_NOT_EXCEED_CREDIT_def
  flags_empty_def flags_contains_def flags_intersects_def flags_insert_def flags_remove_def
  forbids_overdraft_def is_frozen_def is_closed_def

lemma contains_single_bit:
  assumes "n < 32"
  shows "f AND push_bit n 1 = push_bit n 1 \<longleftrightarrow> bit (f :: account_flags) n"
proof
  assume "f AND push_bit n 1 = push_bit n 1"
  then have "bit (f AND push_bit n 1) n = bit (push_bit n 1 :: account_flags) n" by simp
  with assms show "bit f n" by (simp add: bit_simps)
next
  assume "bit f n"
  then show "f AND push_bit n 1 = push_bit n 1"
    by (intro bit_word_eqI) (auto simp: bit_simps)
qed

lemma flag_bits [flag_simps]:
  "flags_contains f FROZEN \<longleftrightarrow> bit f 0"
  "flags_contains f CLOSED \<longleftrightarrow> bit f 1"
  "flags_contains f INFLIGHT \<longleftrightarrow> bit f 2"
  "flags_contains f DEBIT_MUST_NOT_EXCEED_CREDIT \<longleftrightarrow> bit f 3"
  unfolding flags_contains_def FROZEN_def CLOSED_def INFLIGHT_def
    DEBIT_MUST_NOT_EXCEED_CREDIT_def by (rule contains_single_bit; simp)+

text \<open>Setting or clearing one lifecycle flag leaves every other flag as it was.\<close>

lemma flag_updates [flag_simps]:
  "n < 32 \<Longrightarrow> bit (flags_insert f FROZEN) n \<longleftrightarrow> n = 0 \<or> bit f n"
  "n < 32 \<Longrightarrow> bit (flags_insert f CLOSED) n \<longleftrightarrow> n = 1 \<or> bit f n"
  "n < 32 \<Longrightarrow> bit (flags_remove f FROZEN) n \<longleftrightarrow> n \<noteq> 0 \<and> bit f n"
  by (auto simp: flags_insert_def flags_remove_def FROZEN_def CLOSED_def bit_simps)

end
