(* ===== verification/Canonical.thy ===== *)
theory Canonical
  imports Ledger_Types
begin

text \<open>
  The content-addressing contract: the canonical byte encodings of
  \<^verbatim>\<open>kuatia-types/src/canonical.rs\<close> and the double SHA-256 identities of
  \<^verbatim>\<open>kuatia-core/src/hash.rs\<close>. SHA-256 is the crate \<open>sha2\<close>, which is not part of the
  repository: it is the parameter \<open>sha\<close>. The lemmas show that the encodings are
  self-delimiting (the locale \<open>prefix_code\<close>), so that equal bytes mean equal content, up
  to the \<open>payer\<close> annotation that the encoding leaves out.
\<close>

section \<open>Canonical bytes\<close>

definition CANONICAL_VERSION :: byte where
  "CANONICAL_VERSION = 5"

definition write_u16 :: "byte list \<Rightarrow> u16 \<Rightarrow> byte list" where
  "write_u16 buf v = buf @ be_bytes 2 (unat v)"

definition write_u32 :: "byte list \<Rightarrow> u32 \<Rightarrow> byte list" where
  "write_u32 buf v = buf @ be_bytes 4 (unat v)"

definition write_u64 :: "byte list \<Rightarrow> u64 \<Rightarrow> byte list" where
  "write_u64 buf v = buf @ be_bytes 8 (unat v)"

definition write_i64 :: "byte list \<Rightarrow> i64 \<Rightarrow> byte list" where
  "write_i64 buf v = buf @ be_bytes 8 (twos 64 v)"

definition write_u128 :: "byte list \<Rightarrow> u128 \<Rightarrow> byte list" where
  "write_u128 buf v = buf @ be_bytes 16 (unat v)"

definition cent_to_bytes :: "cent \<Rightarrow> byte list" where
  "cent_to_bytes c = to_canonical_bytes c"

definition account_id_to_bytes :: "account_id \<Rightarrow> byte list" where
  "account_id_to_bytes a = write_i64 (write_i64 [] (aid_id a)) (aid_sub a)"

definition account_snapshot_id_to_bytes :: "account_snapshot_id \<Rightarrow> byte list" where
  "account_snapshot_id_to_bytes s = account_id_to_bytes (snap_account s) @ snap_snapshot_id s"

definition asset_id_to_bytes :: "asset_id \<Rightarrow> byte list" where
  "asset_id_to_bytes a = write_u32 [] (asset_raw a)"

definition envelope_id_to_bytes :: "envelope_id \<Rightarrow> byte list" where
  "envelope_id_to_bytes i = env_hash i"

definition posting_id_to_bytes :: "posting_id \<Rightarrow> byte list" where
  "posting_id_to_bytes i = write_u16 (env_hash (pid_transfer i)) (pid_index i)"

definition account_flags_to_bytes :: "account_flags \<Rightarrow> byte list" where
  "account_flags_to_bytes f = write_u32 [] f"

definition book_id_to_bytes :: "book_id \<Rightarrow> byte list" where
  "book_id_to_bytes b = write_i64 [] (book_raw b)"

definition new_posting_to_bytes :: "new_posting \<Rightarrow> byte list" where
  "new_posting_to_bytes np =
     account_id_to_bytes (np_owner np) @ asset_id_to_bytes (np_asset np) @ cent_to_bytes (np_value np)"

definition posting_to_bytes :: "posting \<Rightarrow> byte list" where
  "posting_to_bytes p = posting_id_to_bytes (p_id p) @ account_id_to_bytes (p_owner p)
     @ asset_id_to_bytes (p_asset p) @ cent_to_bytes (p_value p)"

text \<open>The body of the metadata loop: both parts of an entry, each under its length.\<close>

definition metadata_entry_to_bytes :: "byte list \<times> byte list \<Rightarrow> byte list" where
  "metadata_entry_to_bytes kv =
     write_u32 [] (word_of_nat (length (fst kv))) @ fst kv
     @ write_u32 [] (word_of_nat (length (snd kv))) @ snd kv"

definition envelope_to_bytes :: "envelope \<Rightarrow> byte list" where
  "envelope_to_bytes e =
     [CANONICAL_VERSION]
     @ write_u32 [] (word_of_nat (length (e_consumes e))) @ concat (map posting_id_to_bytes (e_consumes e))
     @ write_u32 [] (word_of_nat (length (e_creates e))) @ concat (map new_posting_to_bytes (e_creates e))
     @ write_u32 [] (word_of_nat (length (e_account_snapshots e)))
     @ concat (map account_snapshot_id_to_bytes (e_account_snapshots e))
     @ book_id_to_bytes (e_book e)
     @ write_u32 [] (word_of_nat (length (e_metadata e))) @ concat (map metadata_entry_to_bytes (e_metadata e))"

definition account_to_bytes :: "account \<Rightarrow> byte list" where
  "account_to_bytes a =
     [CANONICAL_VERSION] @ account_id_to_bytes (acc_id a) @ write_u64 [] (acc_version a)
     @ account_flags_to_bytes (acc_flags a) @ book_id_to_bytes (acc_book a)
     @ write_u32 [] (word_of_nat (length (acc_metadata a))) @ concat (map metadata_entry_to_bytes (acc_metadata a))"

definition receipt_to_bytes :: "receipt \<Rightarrow> byte list" where
  "receipt_to_bytes r = env_hash (r_transfer_id r)"

section \<open>Hashes\<close>

type_synonym sha256 = "byte list \<Rightarrow> byte list"

definition double_sha256 :: "sha256 \<Rightarrow> byte list \<Rightarrow> byte list" where
  "double_sha256 sha d = sha (sha d)"

definition canonical_bytes :: "envelope \<Rightarrow> byte list" where
  "canonical_bytes e = envelope_to_bytes e"

definition content_hash :: "sha256 \<Rightarrow> byte list \<Rightarrow> envelope_id" where
  "content_hash sha d = EnvelopeId (double_sha256 sha d)"

definition envelope_id :: "sha256 \<Rightarrow> envelope \<Rightarrow> envelope_id" where
  "envelope_id sha e = content_hash sha (envelope_to_bytes e)"

definition account_canonical_bytes :: "account \<Rightarrow> byte list" where
  "account_canonical_bytes a = account_to_bytes a"

definition account_hash :: "sha256 \<Rightarrow> account \<Rightarrow> byte list" where
  "account_hash sha a = double_sha256 sha (account_to_bytes a)"

definition account_snapshot_id_of :: "sha256 \<Rightarrow> account \<Rightarrow> account_snapshot_id" where
  "account_snapshot_id_of sha a =
     \<lparr>snap_account = acc_id a, snap_snapshot_id = account_hash sha a\<rparr>"

section \<open>Well-formed values: what the Rust types guarantee\<close>

definition account_id_wf :: "account_id \<Rightarrow> bool" where
  "account_id_wf a \<longleftrightarrow> i64_ok (aid_id a) \<and> i64_ok (aid_sub a)"

definition book_id_wf :: "book_id \<Rightarrow> bool" where
  "book_id_wf b \<longleftrightarrow> i64_ok (book_raw b)"

definition posting_id_wf :: "posting_id \<Rightarrow> bool" where
  "posting_id_wf i \<longleftrightarrow> length (env_hash (pid_transfer i)) = 32"

definition new_posting_wf :: "new_posting \<Rightarrow> bool" where
  "new_posting_wf np \<longleftrightarrow> account_id_wf (np_owner np) \<and> i64_ok (np_value np)"

definition snapshot_wf :: "account_snapshot_id \<Rightarrow> bool" where
  "snapshot_wf s \<longleftrightarrow> account_id_wf (snap_account s) \<and> length (snap_snapshot_id s) = 32"

definition meta_entry_wf :: "byte list \<times> byte list \<Rightarrow> bool" where
  "meta_entry_wf kv \<longleftrightarrow> length (fst kv) < 2 ^ 32 \<and> length (snd kv) < 2 ^ 32"

definition envelope_wf :: "envelope \<Rightarrow> bool" where
  "envelope_wf e \<longleftrightarrow>
     list_all posting_id_wf (e_consumes e) \<and> length (e_consumes e) < 2 ^ 32 \<and>
     list_all new_posting_wf (e_creates e) \<and> length (e_creates e) < 2 ^ 32 \<and>
     list_all snapshot_wf (e_account_snapshots e) \<and> length (e_account_snapshots e) < 2 ^ 32 \<and>
     book_id_wf (e_book e) \<and>
     list_all meta_entry_wf (e_metadata e) \<and> length (e_metadata e) < 2 ^ 32"

definition account_wf :: "account \<Rightarrow> bool" where
  "account_wf a \<longleftrightarrow> account_id_wf (acc_id a) \<and> book_id_wf (acc_book a) \<and>
     list_all meta_entry_wf (acc_metadata a) \<and> length (acc_metadata a) < 2 ^ 32"

text \<open>The economic content of an envelope: everything but who funded each posting.\<close>

definition erase_payer :: "new_posting \<Rightarrow> new_posting" where
  "erase_payer np = np\<lparr>np_payer := None\<rparr>"

definition erase_payers :: "envelope \<Rightarrow> envelope" where
  "erase_payers e = e\<lparr>e_creates := map erase_payer (e_creates e)\<rparr>"

section \<open>Self-delimiting encodings\<close>

text \<open>
  An encoding is self-delimiting for a view of its values when the value's view and the
  rest of the input can be read off any input that starts with the encoding.
\<close>

locale prefix_code =
  fixes enc :: "'a \<Rightarrow> byte list" and valid :: "'a \<Rightarrow> bool" and view :: "'a \<Rightarrow> 'v"
  assumes read_one: "\<lbrakk>valid x; valid y; enc x @ r = enc y @ r'\<rbrakk> \<Longrightarrow> view x = view y \<and> r = r'"
begin

lemma read_same_length:
  assumes "list_all valid xs" "list_all valid ys" "length xs = length ys"
    and "concat (map enc xs) @ r = concat (map enc ys) @ r'"
  shows "map view xs = map view ys \<and> r = r'"
  using assms(3,1,2,4)
proof (induction xs ys arbitrary: r r' rule: list_induct2)
  case (Cons x xs y ys)
  then have "enc x @ concat (map enc xs) @ r = enc y @ concat (map enc ys) @ r'" by simp
  then have "view x = view y \<and> concat (map enc xs) @ r = concat (map enc ys) @ r'"
    using Cons.prems read_one[of x y] by simp
  with Cons.IH[of r r'] Cons.prems show ?case by simp
qed simp

lemma read_counted:
  assumes "list_all valid xs" "list_all valid ys"
    and "length xs < 2 ^ 32" "length ys < 2 ^ 32"
    and "write_u32 [] (word_of_nat (length xs)) @ concat (map enc xs) @ r
       = write_u32 [] (word_of_nat (length ys)) @ concat (map enc ys) @ r'"
  shows "map view xs = map view ys \<and> r = r'"
proof -
  have "be_bytes 4 (unat (word_of_nat (length xs) :: u32)) = be_bytes 4 (unat (word_of_nat (length ys) :: u32))"
    and rest: "concat (map enc xs) @ r = concat (map enc ys) @ r'"
    using assms(5) by (simp_all add: write_u32_def)
  then have "length xs = length ys"
    using assms(3,4) by (simp add: unat_of_nat be_bytes_inject)
  then show ?thesis using assms(1,2) rest read_same_length by blast
qed

end

text \<open>Every fixed-width injective encoding is self-delimiting.\<close>

lemma fixed_width_prefix_code:
  assumes "\<And>x. valid x \<Longrightarrow> length (enc x) = n"
    and "\<And>x y. valid x \<Longrightarrow> valid y \<Longrightarrow> enc x = enc y \<Longrightarrow> view x = view y"
  shows "prefix_code enc valid view"
proof
  fix x y r r'
  assume v: "valid x" "valid y" and eq: "enc x @ r = enc y @ r'"
  then have "length (enc x) = length (enc y)" using assms(1) by simp
  with eq have "enc x = enc y \<and> r = r'" by simp
  with v show "view x = view y \<and> r = r'" using assms(2) by blast
qed

lemma twos64_bytes_inject:
  assumes "i64_ok a" "i64_ok b"
  shows "be_bytes 8 (twos 64 a) = be_bytes 8 (twos 64 b) \<longleftrightarrow> a = b"
proof -
  have "twos 64 a < 256 ^ 8" "twos 64 b < 256 ^ 8"
    using twos_less[of 64 a] twos_less[of 64 b] by simp_all
  then have "be_bytes 8 (twos 64 a) = be_bytes 8 (twos 64 b) \<longleftrightarrow> twos 64 a = twos 64 b"
    by (rule be_bytes_inject)
  also have "\<dots> \<longleftrightarrow> a = b" using assms by (intro twos_inject) (simp_all add: range_defs)
  finally show ?thesis .
qed

lemma word_bytes_inject_width:
  fixes a b :: "'a::len word"
  assumes "LENGTH('a) = 8 * n"
  shows "be_bytes n (unat a) = be_bytes n (unat b) \<longleftrightarrow> a = b"
proof -
  have "unat a < 256 ^ n" "unat b < 256 ^ n"
    using unsigned_less[of a, where ?'a = nat] unsigned_less[of b, where ?'a = nat] assms
    by (simp_all add: power_mult)
  then show ?thesis by (simp add: be_bytes_inject word_unat_eq_iff)
qed

lemma word_bytes_inject:
  "be_bytes 2 (unat (a :: u16)) = be_bytes 2 (unat a') \<longleftrightarrow> a = a'"
  "be_bytes 4 (unat (b :: u32)) = be_bytes 4 (unat b') \<longleftrightarrow> b = b'"
  "be_bytes 8 (unat (c :: u64)) = be_bytes 8 (unat c') \<longleftrightarrow> c = c'"
  by (rule word_bytes_inject_width; simp)+

lemmas write_defs = write_u16_def write_u32_def write_u64_def write_i64_def write_u128_def
lemmas id_bytes_defs = account_id_to_bytes_def asset_id_to_bytes_def envelope_id_to_bytes_def
  posting_id_to_bytes_def book_id_to_bytes_def account_flags_to_bytes_def cent_to_bytes_def
lemmas id_wf_defs = account_id_wf_def book_id_wf_def posting_id_wf_def

lemma length_account_id_to_bytes [simp]: "length (account_id_to_bytes a) = 16"
  by (simp add: account_id_to_bytes_def write_defs)

lemma account_id_to_bytes_inject:
  "account_id_wf a \<Longrightarrow> account_id_wf b \<Longrightarrow> account_id_to_bytes a = account_id_to_bytes b \<longleftrightarrow> a = b"
  by (auto simp: account_id_to_bytes_def write_defs twos64_bytes_inject id_wf_defs account_id.expand)

interpretation posting_id_code: prefix_code posting_id_to_bytes posting_id_wf "\<lambda>i. i"
  by (rule fixed_width_prefix_code[where n = 34])
    (auto simp: posting_id_to_bytes_def write_defs id_wf_defs word_bytes_inject
      intro!: posting_id.expand envelope_id.expand)

interpretation new_posting_code: prefix_code new_posting_to_bytes new_posting_wf erase_payer
  by (rule fixed_width_prefix_code[where n = 36])
    (auto simp: new_posting_to_bytes_def asset_id_to_bytes_def cent_to_bytes_def write_defs
      new_posting_wf_def account_id_to_bytes_inject to_canonical_bytes_inject word_bytes_inject
      erase_payer_def asset_id.expand)

interpretation snapshot_code: prefix_code account_snapshot_id_to_bytes snapshot_wf "\<lambda>s. s"
  by (rule fixed_width_prefix_code[where n = 48])
    (auto simp: account_snapshot_id_to_bytes_def snapshot_wf_def account_id_to_bytes_inject)

lemma read_length_prefixed:
  assumes "length xs < 2 ^ 32" "length ys < 2 ^ 32"
    and "write_u32 [] (word_of_nat (length xs)) @ xs @ r = write_u32 [] (word_of_nat (length ys)) @ ys @ r'"
  shows "xs = ys \<and> r = r'"
proof -
  have "length xs = length ys"
    using assms by (simp add: write_u32_def word_bytes_inject word_of_nat_eq_iff take_bit_nat_eq_self)
  then show ?thesis using assms(3) by simp
qed

interpretation metadata_code: prefix_code metadata_entry_to_bytes meta_entry_wf "\<lambda>kv. kv"
proof unfold_locales
  fix x y :: "byte list \<times> byte list" and r r' :: "byte list"
  assume wf: "meta_entry_wf x" "meta_entry_wf y"
    and eq: "metadata_entry_to_bytes x @ r = metadata_entry_to_bytes y @ r'"
  let ?t = "\<lambda>kv r. write_u32 [] (word_of_nat (length (snd kv))) @ snd kv @ r"
  have "fst x = fst y \<and> ?t x r = ?t y r'"
    using wf eq by (intro read_length_prefixed) (auto simp: metadata_entry_to_bytes_def meta_entry_wf_def)
  moreover from this have "snd x = snd y \<and> r = r'"
    using wf by (intro read_length_prefixed) (auto simp: meta_entry_wf_def)
  ultimately show "x = y \<and> r = r'" by (simp add: prod_eq_iff)
qed

section \<open>Equal bytes, equal content\<close>

lemma envelope_bytes_determine:
  assumes wf: "envelope_wf e" "envelope_wf e'" and eq: "envelope_to_bytes e = envelope_to_bytes e'"
  shows "erase_payers e = erase_payers e'"
proof -
  let ?t4 = "\<lambda>e. write_u32 [] (word_of_nat (length (e_metadata e))) @ concat (map metadata_entry_to_bytes (e_metadata e)) @ []"
  let ?t3 = "\<lambda>e. book_id_to_bytes (e_book e) @ ?t4 e"
  let ?t2 = "\<lambda>e. write_u32 [] (word_of_nat (length (e_account_snapshots e)))
     @ concat (map account_snapshot_id_to_bytes (e_account_snapshots e)) @ ?t3 e"
  let ?t1 = "\<lambda>e. write_u32 [] (word_of_nat (length (e_creates e))) @ concat (map new_posting_to_bytes (e_creates e)) @ ?t2 e"
  note W = wf[unfolded envelope_wf_def]
  have 1: "map (\<lambda>i. i) (e_consumes e) = map (\<lambda>i. i) (e_consumes e') \<and> ?t1 e = ?t1 e'"
    using W eq by (intro posting_id_code.read_counted) (simp_all add: envelope_to_bytes_def)
  then have 2: "map erase_payer (e_creates e) = map erase_payer (e_creates e') \<and> ?t2 e = ?t2 e'"
    using W by (intro new_posting_code.read_counted) simp_all
  then have 3: "map (\<lambda>s. s) (e_account_snapshots e) = map (\<lambda>s. s) (e_account_snapshots e') \<and> ?t3 e = ?t3 e'"
    using W by (intro snapshot_code.read_counted) simp_all
  then have 4: "e_book e = e_book e' \<and> ?t4 e = ?t4 e'"
    using W by (simp add: book_id_to_bytes_def write_i64_def twos64_bytes_inject id_wf_defs book_id.expand)
  then have 5: "map (\<lambda>s. s) (e_metadata e) = map (\<lambda>s. s) (e_metadata e') \<and> ([] :: byte list) = []"
    using W by (intro metadata_code.read_counted) simp_all
  from 1 2 3 4 5 show ?thesis by (simp add: erase_payers_def)
qed

lemma account_bytes_determine:
  assumes wf: "account_wf a" "account_wf b" and eq: "account_to_bytes a = account_to_bytes b"
  shows "a = b"
proof -
  let ?t = "\<lambda>a. write_u32 [] (word_of_nat (length (acc_metadata a))) @ concat (map metadata_entry_to_bytes (acc_metadata a)) @ []"
  note W = wf[unfolded account_wf_def]
  have 1: "acc_id a = acc_id b" "acc_version a = acc_version b" "acc_flags a = acc_flags b"
    "acc_book a = acc_book b" "?t a = ?t b"
    using eq W by (simp_all add: account_to_bytes_def account_id_to_bytes_inject write_u64_def
        account_flags_to_bytes_def book_id_to_bytes_def write_i64_def write_u32_def
        word_bytes_inject twos64_bytes_inject id_wf_defs book_id.expand)
  have "map (\<lambda>s. s) (acc_metadata a) = map (\<lambda>s. s) (acc_metadata b) \<and> ([] :: byte list) = []"
    using W 1(5) by (intro metadata_code.read_counted) simp_all
  with 1 show ?thesis by simp
qed

lemma envelope_to_bytes_erase [simp]: "envelope_to_bytes (erase_payers e) = envelope_to_bytes e"
  by (simp add: envelope_to_bytes_def erase_payers_def new_posting_to_bytes_def[abs_def]
      erase_payer_def comp_def)

lemma envelope_id_erase [simp]: "envelope_id sha (erase_payers e) = envelope_id sha e"
  by (simp add: envelope_id_def)

text \<open>A repeated double hash exhibits a SHA-256 collision.\<close>

lemma double_sha256_collision:
  "double_sha256 sha d = double_sha256 sha d' \<Longrightarrow> d = d' \<or> (\<exists>a b. a \<noteq> b \<and> sha a = sha b)"
  unfolding double_sha256_def by blast

section \<open>Properties\<close>

text \<open>
  C26: the identifier of an envelope commits to everything but the payers: two
  well-formed envelopes with one identifier agree up to payers, or their encodings
  are themselves a SHA-256 collision, in the first or in the second round.
\<close>

theorem envelope_id_determines:
  assumes "envelope_wf e" "envelope_wf e'" "envelope_id sha e = envelope_id sha e'"
  shows "erase_payers e = erase_payers e' \<or>
     (envelope_to_bytes e \<noteq> envelope_to_bytes e' \<and> sha (envelope_to_bytes e) = sha (envelope_to_bytes e')) \<or>
     (sha (envelope_to_bytes e) \<noteq> sha (envelope_to_bytes e') \<and>
        sha (sha (envelope_to_bytes e)) = sha (sha (envelope_to_bytes e')))"
  using assms envelope_bytes_determine[OF assms(1,2)]
  by (auto simp: envelope_id_def content_hash_def double_sha256_def)

text \<open>The payer is the one field that the identifier does not cover.\<close>

theorem envelope_id_determines_witness:
  "erase_payers \<lparr>e_consumes = [],
      e_creates = [\<lparr>np_owner = AccountId 1 0, np_asset = AssetId 1, np_value = 5, np_payer = Some (AccountId 2 0)\<rparr>],
      e_account_snapshots = [], e_book = BookId 7, e_metadata = []\<rparr>
   = erase_payers \<lparr>e_consumes = [],
      e_creates = [\<lparr>np_owner = AccountId 1 0, np_asset = AssetId 1, np_value = 5, np_payer = None\<rparr>],
      e_account_snapshots = [], e_book = BookId 7, e_metadata = []\<rparr>"
  (is "erase_payers ?e = erase_payers ?f")
proof -
  have "envelope_wf ?e" "envelope_wf ?f" "envelope_to_bytes ?e = envelope_to_bytes ?f"
    by (simp_all add: envelope_wf_def book_id_wf_def new_posting_wf_def account_id_wf_def range_defs envelope_to_bytes_def
        new_posting_to_bytes_def)
  then show ?thesis
    using envelope_id_determines[of ?e ?f id] by (simp add: envelope_id_def)
qed

end
