(* ===== verification/Validate.thy ===== *)
theory Validate
  imports Canonical
begin

text \<open>
  \<^verbatim>\<open>kuatia-core/src/validate.rs\<close>: the pure decision function \<open>validate_and_plan\<close> and the
  key set \<open>required_state\<close> its loader fetches. Each numbered step of the source is one
  definition; \<open>validate_and_plan\<close> chains them with \<open>rbind\<close>, the \<open>?\<close> operator. The
  source iterates two \<open>HashSet\<close>s and one \<open>HashMap\<close> whose order is unspecified: that
  order is the parameter \<open>externs\<close>, and no result but the choice among several errors
  depends on it. Indexing a map (\<open>m[k]\<close>) panics on a missing key, which is the fault
  \<open>Panic\<close>.
\<close>

section \<open>Parameters\<close>

text \<open>
  What the pure core uses of the outside: SHA-256 and the iteration order of the hash
  collections. \<open>externs_ok\<close> is the documented behaviour of the latter: an iteration
  visits exactly the elements.
\<close>

record externs =
  x_sha :: sha256
  x_asset_order :: "asset_id list \<Rightarrow> asset_id list"
  x_key_order :: "(account_id \<times> asset_id) list \<Rightarrow> (account_id \<times> asset_id) list"

definition externs_ok :: "externs \<Rightarrow> bool" where
  "externs_ok x \<longleftrightarrow> (\<forall>xs. set (x_asset_order x xs) = set xs) \<and> (\<forall>ks. set (x_key_order x ks) = set ks)"

section \<open>Input, output and required state\<close>

record plan_input =
  pi_envelope :: envelope
  pi_consumed_postings :: "posting list"
  pi_accounts :: "(account_id \<times> account) list"
  pi_balances :: "((account_id \<times> asset_id) \<times> cent) list"
  pi_book :: "book option"

record plan =
  plan_transfer_id :: envelope_id
  plan_postings_to_deactivate :: "posting_id list"
  plan_postings_to_create :: "posting list"

record required_state_t =
  rs_consumed_postings :: "posting_id list"
  rs_accounts :: "account_id list"
  rs_balances :: "(account_id \<times> asset_id) list"

record posting_keys_t =
  pk_owners :: "account_id list"
  pk_balances :: "(account_id \<times> asset_id) list"

definition posting_keys :: "envelope \<Rightarrow> posting list \<Rightarrow> posting_keys_t" where
  "posting_keys e ps = \<lparr>
     pk_owners = sort_dedup (map np_owner (e_creates e) @ map p_owner ps),
     pk_balances = sort_dedup (map (\<lambda>np. (np_owner np, np_asset np)) (e_creates e)
                               @ map (\<lambda>p. (p_owner p, p_asset p)) ps)\<rparr>"

definition required_state :: "envelope \<Rightarrow> posting list \<Rightarrow> required_state_t" where
  "required_state e ps =
     (let k = posting_keys e ps in \<lparr>
        rs_consumed_postings = e_consumes e,
        rs_accounts = sort_dedup (pk_owners k @ map snap_account (e_account_snapshots e)),
        rs_balances = pk_balances k\<rparr>)"

datatype validation_error =
    EmptyTransfer
  | DuplicateConsumedPosting posting_id
  | PostingNotFound posting_id
  | OwnershipViolation posting_id account_id account_id
  | AccountNotFound account_id
  | AccountFrozen account_id
  | AccountClosed account_id
  | ConservationViolation asset_id cent cent
  | OverdraftExceeded account_id asset_id cent
  | AccountVersionMismatch account_id "byte list" "byte list"
  | NegativePostingOnNonSystemAccount account_id asset_id cent
  | BookAssetNotAllowed book_id asset_id
  | BookAccountNotAllowed book_id account_id
  | Overflow

text \<open>\<open>impl From<OverflowError> for ValidationError\<close>.\<close>

definition validation_error_from_overflow :: "overflow_error \<Rightarrow> validation_error" where
  "validation_error_from_overflow e = Overflow"

abbreviation overflow_fault :: "overflow_error + 'a \<Rightarrow> validation_error fault + 'a" where
  "overflow_fault m \<equiv> map_err (\<lambda>e. Fail (validation_error_from_overflow e)) m"

section \<open>The steps\<close>

definition check_nonempty :: "envelope \<Rightarrow> validation_error fault + unit" where
  "check_nonempty e = (if e_consumes e = [] \<and> e_creates e = [] then Inl (Fail EmptyTransfer) else Inr ())"

fun first_duplicate :: "'a list \<Rightarrow> 'a list \<Rightarrow> 'a option" where
  "first_duplicate seen [] = None"
| "first_duplicate seen (x # xs) = (if x \<in> set seen then Some x else first_duplicate (x # seen) xs)"

definition check_no_duplicates :: "envelope \<Rightarrow> validation_error fault + unit" where
  "check_no_duplicates e = (case first_duplicate [] (e_consumes e) of
     Some pid \<Rightarrow> Inl (Fail (DuplicateConsumedPosting pid)) | None \<Rightarrow> Inr ())"

text \<open>Collecting into a \<open>HashMap\<close>: a later posting with the same id wins.\<close>

definition consumed_by_id :: "posting list \<Rightarrow> posting_id \<Rightarrow> posting option" where
  "consumed_by_id ps = map_of (rev (map (\<lambda>p. (p_id p, p)) ps))"

definition check_postings_exist ::
  "(posting_id \<Rightarrow> posting option) \<Rightarrow> envelope \<Rightarrow> validation_error fault + unit" where
  "check_postings_exist byid e = guard_each
     (\<lambda>pid. case byid pid of None \<Rightarrow> Some (Fail (PostingNotFound pid)) | Some _ \<Rightarrow> None) (e_consumes e)"

definition check_accounts ::
  "(account_id \<times> account) list \<Rightarrow> account_id list \<Rightarrow> validation_error fault + unit" where
  "check_accounts accounts owners = guard_each
     (\<lambda>aid. case map_of accounts aid of
        None \<Rightarrow> Some (Fail (AccountNotFound aid))
      | Some a \<Rightarrow> if is_frozen a then Some (Fail (AccountFrozen aid))
                  else if is_closed a then Some (Fail (AccountClosed aid)) else None) owners"

definition check_snapshots ::
  "sha256 \<Rightarrow> (account_id \<times> account) list \<Rightarrow> envelope \<Rightarrow> validation_error fault + unit" where
  "check_snapshots sha accounts e = guard_each
     (\<lambda>snap. case map_of accounts (snap_account snap) of
        None \<Rightarrow> Some (Fail (AccountNotFound (snap_account snap)))
      | Some a \<Rightarrow> if snap_snapshot_id snap \<noteq> account_hash sha a
                  then Some (Fail (AccountVersionMismatch (snap_account snap) (snap_snapshot_id snap)
                                    (account_hash sha a))) else None) (e_account_snapshots e)"

definition check_book_assets ::
  "externs \<Rightarrow> (posting_id \<Rightarrow> posting option) \<Rightarrow> envelope \<Rightarrow> book \<Rightarrow> validation_error fault + unit" where
  "check_book_assets x byid e b =
     (let policy = b_policy b
      in if allowed_assets policy = [] then Inr ()
         else rbind (try_map (\<lambda>pid. ok_or Panic (byid pid)) (e_consumes e)) (\<lambda>ps.
           guard_each (\<lambda>asset. if asset \<in> set (allowed_assets policy) then None
                               else Some (Fail (BookAssetNotAllowed (b_id b) asset)))
             (x_asset_order x (remdups (map p_asset ps @ map np_asset (e_creates e))))))"

definition book_account_guard ::
  "(account_id \<times> account) list \<Rightarrow> book \<Rightarrow> account_id \<Rightarrow> validation_error fault option" where
  "book_account_guard accounts b aid =
     (case map_of accounts aid of
        None \<Rightarrow> Some Panic
      | Some a \<Rightarrow>
          if base aid \<in> set (allowed_accounts (b_policy b)) \<or>
             (allowed_flags (b_policy b) \<noteq> flags_empty \<and>
              flags_intersects (acc_flags a) (allowed_flags (b_policy b)))
          then None else Some (Fail (BookAccountNotAllowed (b_id b) aid)))"

definition check_book_accounts ::
  "(account_id \<times> account) list \<Rightarrow> account_id list \<Rightarrow> book \<Rightarrow> validation_error fault + unit" where
  "check_book_accounts accounts owners b =
     (if allowed_accounts (b_policy b) = [] \<and> allowed_flags (b_policy b) = flags_empty then Inr ()
      else guard_each (book_account_guard accounts b) owners)"

definition check_book ::
  "externs \<Rightarrow> (posting_id \<Rightarrow> posting option) \<Rightarrow> (account_id \<times> account) list \<Rightarrow> account_id list
   \<Rightarrow> envelope \<Rightarrow> book option \<Rightarrow> validation_error fault + unit" where
  "check_book x byid accounts owners e bk = (case bk of
     None \<Rightarrow> Inr ()
   | Some b \<Rightarrow> rbind (check_book_assets x byid e b) (\<lambda>_. check_book_accounts accounts owners b))"

definition check_conservation ::
  "externs \<Rightarrow> (posting_id \<Rightarrow> posting option) \<Rightarrow> envelope \<Rightarrow> validation_error fault + unit" where
  "check_conservation x byid e =
     rbind (try_fold (\<lambda>m pid. rbind (ok_or Panic (byid pid))
              (\<lambda>p. overflow_fault (entry_add m (p_asset p) (p_value p)))) [] (e_consumes e)) (\<lambda>consumed.
     rbind (try_fold (\<lambda>m np. overflow_fault (entry_add m (np_asset np) (np_value np))) [] (e_creates e))
       (\<lambda>created.
     guard_each (\<lambda>asset.
         let consumed_sum = entry_value consumed asset; created_sum = entry_value created asset
         in if consumed_sum \<noteq> created_sum
            then Some (Fail (ConservationViolation asset consumed_sum created_sum)) else None)
       (x_asset_order x (remdups (map fst consumed @ map fst created)))))"

definition check_negative_postings ::
  "(account_id \<times> account) list \<Rightarrow> envelope \<Rightarrow> validation_error fault + unit" where
  "check_negative_postings accounts e = guard_each
     (\<lambda>np. if is_negative (np_value np) then
             (case map_of accounts (np_owner np) of
                None \<Rightarrow> Some (Fail (AccountNotFound (np_owner np)))
              | Some a \<Rightarrow> if forbids_overdraft a
                  then Some (Fail (NegativePostingOnNonSystemAccount (np_owner np) (np_asset np) (np_value np)))
                  else None)
           else None) (e_creates e)"

text \<open>The body of the last loop, for one account and asset of the deltas.\<close>

definition overdraft_guard ::
  "plan_input \<Rightarrow> ((account_id \<times> asset_id) \<times> cent) list \<Rightarrow> account_id \<times> asset_id \<Rightarrow> validation_error fault option" where
  "overdraft_guard input deltas k =
     (case map_of (pi_accounts input) (fst k) of
        None \<Rightarrow> Some Panic
      | Some a \<Rightarrow>
          if \<not> forbids_overdraft a then None
          else (case checked_add (entry_value (pi_balances input) k) (entry_value deltas k) of
                  Inl oe \<Rightarrow> Some (Fail (validation_error_from_overflow oe))
                | Inr projected \<Rightarrow>
                    if is_negative projected
                    then Some (Fail (OverdraftExceeded (fst k) (snd k) projected)) else None))"

definition check_overdraft ::
  "externs \<Rightarrow> (posting_id \<Rightarrow> posting option) \<Rightarrow> plan_input \<Rightarrow> validation_error fault + unit" where
  "check_overdraft x byid input =
     (let e = pi_envelope input in
      rbind (try_fold (\<lambda>m pid. rbind (ok_or Panic (byid pid))
               (\<lambda>p. overflow_fault (entry_sub m (p_owner p, p_asset p) (p_value p)))) [] (e_consumes e)) (\<lambda>d0.
      rbind (try_fold (\<lambda>m np. overflow_fault (entry_add m (np_owner np, np_asset np) (np_value np))) d0
               (e_creates e)) (\<lambda>deltas.
      guard_each (overdraft_guard input deltas) (x_key_order x (map fst deltas)))))"

text \<open>The postings to create; the index is \<open>i as u16\<close>, which keeps the low 16 bits.\<close>

definition created_postings :: "envelope_id \<Rightarrow> new_posting list \<Rightarrow> posting list" where
  "created_postings tid nps = map (\<lambda>(i, np).
     posting_new (PostingId tid (word_of_nat i)) (np_owner np) (np_asset np) (np_value np))
     (enumerate 0 nps)"

definition build_plan :: "sha256 \<Rightarrow> envelope \<Rightarrow> plan" where
  "build_plan sha e = (let tid = envelope_id sha e in
     \<lparr>plan_transfer_id = tid, plan_postings_to_deactivate = e_consumes e,
      plan_postings_to_create = created_postings tid (e_creates e)\<rparr>)"

definition validate_and_plan :: "externs \<Rightarrow> plan_input \<Rightarrow> validation_error fault + plan" where
  "validate_and_plan x input =
     (let e = pi_envelope input;
          byid = consumed_by_id (pi_consumed_postings input);
          owners = pk_owners (posting_keys e (pi_consumed_postings input));
          accounts = pi_accounts input
      in rbind (check_nonempty e) (\<lambda>_.
         rbind (check_no_duplicates e) (\<lambda>_.
         rbind (check_postings_exist byid e) (\<lambda>_.
         rbind (check_accounts accounts owners) (\<lambda>_.
         rbind (check_snapshots (x_sha x) accounts e) (\<lambda>_.
         rbind (check_book x byid accounts owners e (pi_book input)) (\<lambda>_.
         rbind (check_conservation x byid e) (\<lambda>_.
         rbind (check_negative_postings accounts e) (\<lambda>_.
         rbind (check_overdraft x byid input) (\<lambda>_.
         Inr (build_plan (x_sha x) e)))))))))))"

section \<open>The declarative specification\<close>

text \<open>The consumed postings, their entries per asset, and the change per account and asset.\<close>

definition consumed_list :: "plan_input \<Rightarrow> posting list" where
  "consumed_list input =
     map (\<lambda>pid. the (consumed_by_id (pi_consumed_postings input) pid)) (e_consumes (pi_envelope input))"

definition asset_entries :: "posting list \<Rightarrow> (asset_id \<times> cent) list" where
  "asset_entries ps = map (\<lambda>p. (p_asset p, p_value p)) ps"

definition new_asset_entries :: "new_posting list \<Rightarrow> (asset_id \<times> cent) list" where
  "new_asset_entries nps = map (\<lambda>np. (np_asset np, np_value np)) nps"

definition delta_entries ::
  "posting list \<Rightarrow> new_posting list \<Rightarrow> ((account_id \<times> asset_id) \<times> cent) list" where
  "delta_entries ps nps = map (\<lambda>p. ((p_owner p, p_asset p), - p_value p)) ps
     @ map (\<lambda>np. ((np_owner np, np_asset np), np_value np)) nps"

text \<open>Conservation in exact integers: for every asset, value in equals value out.\<close>

definition conserves :: "posting list \<Rightarrow> new_posting list \<Rightarrow> bool" where
  "conserves ps nps \<longleftrightarrow>
     (\<forall>asset. key_sum asset (asset_entries ps) = key_sum asset (new_asset_entries nps))"

definition account_usable :: "(account_id \<times> account) list \<Rightarrow> account_id \<Rightarrow> bool" where
  "account_usable accounts aid \<longleftrightarrow>
     (\<exists>a. map_of accounts aid = Some a \<and> \<not> is_frozen a \<and> \<not> is_closed a)"

definition book_admits ::
  "(account_id \<times> account) list \<Rightarrow> account_id list \<Rightarrow> asset_id set \<Rightarrow> book \<Rightarrow> bool" where
  "book_admits accounts owners assets b \<longleftrightarrow>
     (allowed_assets (b_policy b) = [] \<or> assets \<subseteq> set (allowed_assets (b_policy b))) \<and>
     (allowed_accounts (b_policy b) = [] \<and> allowed_flags (b_policy b) = flags_empty \<or>
      (\<forall>aid \<in> set owners. base aid \<in> set (allowed_accounts (b_policy b)) \<or>
         (\<exists>a. map_of accounts aid = Some a \<and> flags_intersects (acc_flags a) (allowed_flags (b_policy b)))))"

definition floor_kept :: "plan_input \<Rightarrow> posting list \<Rightarrow> bool" where
  "floor_kept input ps \<longleftrightarrow>
     (\<forall>k \<in> fst ` set (delta_entries ps (e_creates (pi_envelope input))).
        \<forall>a. map_of (pi_accounts input) (fst k) = Some a \<longrightarrow> forbids_overdraft a \<longrightarrow>
          (let projected = entry_value (pi_balances input) k
                 + key_sum k (delta_entries ps (e_creates (pi_envelope input)))
           in 0 \<le> projected \<and> i64_ok projected))"

definition valid_input :: "sha256 \<Rightarrow> plan_input \<Rightarrow> bool" where
  "valid_input sha input \<longleftrightarrow>
     (let e = pi_envelope input; ps = consumed_list input; accounts = pi_accounts input;
          owners = pk_owners (posting_keys e (pi_consumed_postings input))
      in (e_consumes e \<noteq> [] \<or> e_creates e \<noteq> []) \<and>
         distinct (e_consumes e) \<and>
         set (e_consumes e) \<subseteq> p_id ` set (pi_consumed_postings input) \<and>
         (\<forall>aid \<in> set owners. account_usable accounts aid) \<and>
         (\<forall>s \<in> set (e_account_snapshots e). \<exists>a. map_of accounts (snap_account s) = Some a
            \<and> snap_snapshot_id s = account_hash sha a) \<and>
         (\<forall>b. pi_book input = Some b \<longrightarrow>
            book_admits accounts owners (p_asset ` set ps \<union> np_asset ` set (e_creates e)) b) \<and>
         conserves ps (e_creates e) \<and>
         (\<forall>np \<in> set (e_creates e). np_value np < 0 \<longrightarrow>
            (\<exists>a. map_of accounts (np_owner np) = Some a \<and> \<not> forbids_overdraft a)) \<and>
         floor_kept input ps \<and>
         totals_ok (asset_entries ps) \<and> totals_ok (new_asset_entries (e_creates e)) \<and>
         totals_ok (delta_entries ps (e_creates e)))"

section \<open>Each step against the specification\<close>

lemma first_duplicate_None:
  "first_duplicate seen xs = None \<longleftrightarrow> distinct xs \<and> set xs \<inter> set seen = {}"
  by (induction xs arbitrary: seen) auto

lemma check_nonempty_Inr: "check_nonempty e = Inr u \<longleftrightarrow> e_consumes e \<noteq> [] \<or> e_creates e \<noteq> []"
  by (auto simp: check_nonempty_def)

lemma check_no_duplicates_Inr: "check_no_duplicates e = Inr u \<longleftrightarrow> distinct (e_consumes e)"
  using first_duplicate_None[of "[]" "e_consumes e"]
  by (auto simp: check_no_duplicates_def split: option.splits)

lemma consumed_by_id_Some: "consumed_by_id ps i = Some p \<Longrightarrow> p \<in> set ps \<and> p_id p = i"
  by (auto simp: consumed_by_id_def dest!: map_of_SomeD)

lemma consumed_by_id_None: "consumed_by_id ps i = None \<longleftrightarrow> i \<notin> p_id ` set ps"
  by (auto simp: consumed_by_id_def map_of_eq_None_iff image_image)

lemma check_postings_exist_Inr:
  "check_postings_exist (consumed_by_id ps) e = Inr u \<longleftrightarrow> set (e_consumes e) \<subseteq> p_id ` set ps"
proof -
  have "(case consumed_by_id ps i of None \<Rightarrow> Some f | Some _ \<Rightarrow> None) = None \<longleftrightarrow> i \<in> p_id ` set ps"
    for i and f :: "validation_error fault"
    using consumed_by_id_None[of ps i] by (auto split: option.splits)
  then show ?thesis by (auto simp: check_postings_exist_def guard_each_Inr)
qed

lemma check_accounts_Inr:
  "check_accounts accounts owners = Inr u \<longleftrightarrow> (\<forall>aid \<in> set owners. account_usable accounts aid)"
  by (auto simp: check_accounts_def guard_each_Inr account_usable_def split: option.splits)

lemma check_snapshots_Inr:
  "check_snapshots sha accounts e = Inr u \<longleftrightarrow>
     (\<forall>s \<in> set (e_account_snapshots e). \<exists>a. map_of accounts (snap_account s) = Some a
        \<and> snap_snapshot_id s = account_hash sha a)"
  by (auto simp: check_snapshots_def guard_each_Inr split: option.splits)

lemma check_negative_postings_Inr:
  "check_negative_postings accounts e = Inr u \<longleftrightarrow>
     (\<forall>np \<in> set (e_creates e). np_value np < 0 \<longrightarrow>
        (\<exists>a. map_of accounts (np_owner np) = Some a \<and> \<not> forbids_overdraft a))"
  by (auto simp: check_negative_postings_def guard_each_Inr split: option.splits)

text \<open>Once every consumed posting was found, indexing by its id cannot panic.\<close>

lemma index_all:
  assumes "set pids \<subseteq> p_id ` set ps"
  shows "try_map (\<lambda>pid. ok_or Panic (consumed_by_id ps pid)) pids
       = Inr (map (\<lambda>pid. the (consumed_by_id ps pid)) pids)"
proof (rule try_map_total)
  fix pid assume "pid \<in> set pids"
  then show "ok_or Panic (consumed_by_id ps pid) = Inr (the (consumed_by_id ps pid))"
    using assms consumed_by_id_None[of ps pid] by auto
qed

lemma fold_index_all:
  assumes "set pids \<subseteq> p_id ` set ps"
  shows "try_fold (\<lambda>m pid. rbind (ok_or Panic (consumed_by_id ps pid)) (\<lambda>p. map_err h (f m p))) m pids
       = map_err h (try_fold f m (map (\<lambda>pid. the (consumed_by_id ps pid)) pids))"
proof -
  have "rbind (ok_or Panic (consumed_by_id ps pid)) (\<lambda>p. map_err h (f m p))
      = map_err h (f m (the (consumed_by_id ps pid)))" if "pid \<in> set pids" for m pid
    using that assms consumed_by_id_None[of ps pid] by auto
  then show ?thesis
    by (simp add: try_fold_map try_fold_map_err[symmetric] cong: try_fold_cong)
qed

lemma try_fold_entries:
  "try_fold (\<lambda>m a. map_err h (entry_add m (k a) (v a))) m as
     = map_err h (try_fold (\<lambda>m kv. entry_add m (fst kv) (snd kv)) m (map (\<lambda>a. (k a, v a)) as))"
  by (simp add: try_fold_map try_fold_map_err)

lemma fold_index_entries:
  assumes "set pids \<subseteq> p_id ` set ps"
  shows "try_fold (\<lambda>m pid. rbind (ok_or Panic (consumed_by_id ps pid)) (\<lambda>p. map_err h (entry_add m (k p) (v p)))) m pids
       = map_err h (try_fold (\<lambda>m kv. entry_add m (fst kv) (snd kv)) m
           (map (\<lambda>p. (k p, v p)) (map (\<lambda>pid. the (consumed_by_id ps pid)) pids)))"
  using fold_index_all[OF assms, of h "\<lambda>m p. entry_add m (k p) (v p)" m]
  by (simp add: try_fold_map)

lemma externs_set [simp]:
  "externs_ok x \<Longrightarrow> set (x_asset_order x xs) = set xs"
  "externs_ok x \<Longrightarrow> set (x_key_order x ks) = set ks"
  by (simp_all add: externs_ok_def)

lemma check_conservation_Inr:
  assumes x: "externs_ok x" and ids: "set (e_consumes (pi_envelope input)) \<subseteq> p_id ` set (pi_consumed_postings input)"
  shows "check_conservation x (consumed_by_id (pi_consumed_postings input)) (pi_envelope input) = Inr u \<longleftrightarrow>
     totals_ok (asset_entries (consumed_list input)) \<and>
     totals_ok (new_asset_entries (e_creates (pi_envelope input))) \<and>
     conserves (consumed_list input) (e_creates (pi_envelope input))"
proof -
  let ?c = "asset_entries (consumed_list input)" and ?n = "new_asset_entries (e_creates (pi_envelope input))"
  let ?h = "\<lambda>e. Fail (validation_error_from_overflow e)"
  have run: "check_conservation x (consumed_by_id (pi_consumed_postings input)) (pi_envelope input)
    = rbind (map_err ?h (entry_fold ?c)) (\<lambda>consumed. rbind (map_err ?h (entry_fold ?n)) (\<lambda>created.
        guard_each (\<lambda>asset. if entry_value consumed asset \<noteq> entry_value created asset
           then Some (Fail (ConservationViolation asset (entry_value consumed asset) (entry_value created asset)))
           else None) (x_asset_order x (remdups (map fst consumed @ map fst created)))))"
    by (simp add: check_conservation_def fold_index_entries[OF ids] try_fold_entries
        asset_entries_def new_asset_entries_def consumed_list_def Let_def comp_def)
  show ?thesis
  proof (cases "totals_ok ?c \<and> totals_ok ?n")
    case True
    then obtain consumed created where
      ok: "entry_fold ?c = Inr consumed" "entry_fold ?n = Inr created"
      using entry_fold_total by blast
    have "(\<forall>asset \<in> fst ` set ?c \<union> fst ` set ?n. key_sum asset ?c = key_sum asset ?n) \<longleftrightarrow>
        (\<forall>asset. key_sum asset ?c = key_sum asset ?n)"
      using key_sum_absent by (metis UnCI)
    then show ?thesis using True x
      by (simp add: run ok guard_each_Inr set_entry_fold[OF ok(1)] set_entry_fold[OF ok(2)] entry_value_fold[OF ok(1)]
          entry_value_fold[OF ok(2)] conserves_def)
  next
    case False
    then show ?thesis
      using entry_fold_ok_iff[of ?c] entry_fold_ok_iff[of ?n]
      by (auto simp: run rbind_eq_Inr is_ok_iff)
  qed
qed

lemma consumed_list_member:
  assumes "i \<in> p_id ` set ps"
  shows "the (consumed_by_id ps i) \<in> set ps" "p_id (the (consumed_by_id ps i)) = i"
proof -
  obtain p where "consumed_by_id ps i = Some p" using assms consumed_by_id_None by fastforce
  then show "the (consumed_by_id ps i) \<in> set ps" "p_id (the (consumed_by_id ps i)) = i"
    using consumed_by_id_Some by force+
qed

lemma consumed_list_subset:
  "set (e_consumes (pi_envelope input)) \<subseteq> p_id ` set (pi_consumed_postings input) \<Longrightarrow>
     set (consumed_list input) \<subseteq> set (pi_consumed_postings input)"
  using consumed_list_member(1) by (auto simp: consumed_list_def)

lemma consumed_list_ids:
  "set (e_consumes (pi_envelope input)) \<subseteq> p_id ` set (pi_consumed_postings input) \<Longrightarrow>
     map p_id (consumed_list input) = e_consumes (pi_envelope input)"
  using consumed_list_member(2) by (auto simp: consumed_list_def intro!: map_idI)

lemma check_overdraft_run:
  assumes ids: "set (e_consumes (pi_envelope input)) \<subseteq> p_id ` set (pi_consumed_postings input)"
  shows "check_overdraft x (consumed_by_id (pi_consumed_postings input)) input
    = rbind (overflow_fault (entry_fold (delta_entries (consumed_list input) (e_creates (pi_envelope input)))))
        (\<lambda>deltas. guard_each (overdraft_guard input deltas) (x_key_order x (map fst deltas)))"
  unfolding check_overdraft_def Let_def entry_sub_add fold_index_entries[OF ids] try_fold_entries
    delta_entries_def consumed_list_def try_fold_append
  by (auto simp: rbind_def map_err_def comp_def split: sum.splits)

lemma check_overdraft_Inr:
  assumes x: "externs_ok x" and ids: "set (e_consumes (pi_envelope input)) \<subseteq> p_id ` set (pi_consumed_postings input)"
    and acc: "\<forall>aid \<in> set (pk_owners (posting_keys (pi_envelope input) (pi_consumed_postings input))).
        account_usable (pi_accounts input) aid"
  shows "check_overdraft x (consumed_by_id (pi_consumed_postings input)) input = Inr u \<longleftrightarrow>
     totals_ok (delta_entries (consumed_list input) (e_creates (pi_envelope input))) \<and>
     floor_kept input (consumed_list input)"
proof -
  let ?d = "delta_entries (consumed_list input) (e_creates (pi_envelope input))"
  note run = check_overdraft_run[OF ids, of x]
  have owner: "\<exists>a. map_of (pi_accounts input) (fst k) = Some a" if "k \<in> fst ` set ?d" for k
  proof -
    have "fst k \<in> np_owner ` set (e_creates (pi_envelope input)) \<union> p_owner ` set (pi_consumed_postings input)"
      using that consumed_list_subset[OF ids] by (auto simp: delta_entries_def)
    then show ?thesis using acc by (auto simp: posting_keys_def account_usable_def)
  qed
  show ?thesis
  proof (cases "totals_ok ?d")
    case True
    then obtain deltas where ok: "entry_fold ?d = Inr deltas" using entry_fold_total by blast
    have "overdraft_guard input deltas k = None \<longleftrightarrow> (\<forall>a. map_of (pi_accounts input) (fst k) = Some a \<longrightarrow> forbids_overdraft a \<longrightarrow>
        0 \<le> entry_value (pi_balances input) k + key_sum k ?d \<and> i64_ok (entry_value (pi_balances input) k + key_sum k ?d))"
      if "k \<in> fst ` set ?d" for k
      using owner[OF that] entry_value_fold[OF ok]
      by (auto simp: overdraft_guard_def checked_add_Inr checked_add_Inl split: sum.splits)
    then show ?thesis using True x
      by (simp add: run ok guard_each_Inr set_entry_fold[OF ok] floor_kept_def Let_def)
  next
    case False
    then show ?thesis using entry_fold_ok_iff[of ?d] by (auto simp: run rbind_eq_Inr is_ok_iff)
  qed
qed

lemma check_book_Inr:
  assumes x: "externs_ok x" and ids: "set (e_consumes (pi_envelope input)) \<subseteq> p_id ` set (pi_consumed_postings input)"
    and acc: "\<forall>aid \<in> set owners. account_usable (pi_accounts input) aid"
  shows "check_book x (consumed_by_id (pi_consumed_postings input)) (pi_accounts input) owners
      (pi_envelope input) (pi_book input) = Inr u \<longleftrightarrow>
     (\<forall>b. pi_book input = Some b \<longrightarrow> book_admits (pi_accounts input) owners
        (p_asset ` set (consumed_list input) \<union> np_asset ` set (e_creates (pi_envelope input))) b)"
proof (cases "pi_book input")
  case (Some b)
  have assets: "check_book_assets x (consumed_by_id (pi_consumed_postings input)) (pi_envelope input) b = Inr v \<longleftrightarrow>
      allowed_assets (b_policy b) = [] \<or>
      p_asset ` set (consumed_list input) \<union> np_asset ` set (e_creates (pi_envelope input)) \<subseteq> set (allowed_assets (b_policy b))" for v
    using x by (auto simp: check_book_assets_def index_all[OF ids] consumed_list_def guard_each_Inr Let_def)
  have accounts: "check_book_accounts (pi_accounts input) owners b = Inr () \<longleftrightarrow>
     allowed_accounts (b_policy b) = [] \<and> allowed_flags (b_policy b) = flags_empty \<or>
      (\<forall>aid \<in> set owners. base aid \<in> set (allowed_accounts (b_policy b)) \<or>
         (\<exists>a. map_of (pi_accounts input) aid = Some a \<and> flags_intersects (acc_flags a) (allowed_flags (b_policy b))))"
  proof -
    have "book_account_guard (pi_accounts input) b aid = None \<longleftrightarrow>
        base aid \<in> set (allowed_accounts (b_policy b)) \<or>
         (\<exists>a. map_of (pi_accounts input) aid = Some a \<and> flags_intersects (acc_flags a) (allowed_flags (b_policy b)))"
      if mem: "aid \<in> set owners" for aid
    proof -
      obtain a where "map_of (pi_accounts input) aid = Some a"
        using acc mem by (auto simp: account_usable_def)
      then show ?thesis by (auto simp: book_account_guard_def flags_intersects_def flags_empty_def)
    qed
    then show ?thesis by (auto simp: check_book_accounts_def guard_each_Inr)
  qed
  show ?thesis by (simp add: Some check_book_def rbind_eq_Inr assets accounts book_admits_def)
qed (simp add: check_book_def)

section \<open>Soundness, completeness and absence of panics\<close>

text \<open>
  Validation accepts exactly the inputs of the specification, whatever the iteration
  order of the hash collections, and its plan is \<open>build_plan\<close>.
\<close>

lemma validate_iff:
  assumes x: "externs_ok x"
  shows "validate_and_plan x input = Inr pl \<longleftrightarrow>
     valid_input (x_sha x) input \<and> pl = build_plan (x_sha x) (pi_envelope input)"
proof -
  let ?e = "pi_envelope input" and ?ps = "pi_consumed_postings input"
  show ?thesis
  proof (cases "set (e_consumes ?e) \<subseteq> p_id ` set ?ps \<and>
      (\<forall>aid \<in> set (pk_owners (posting_keys ?e ?ps)). account_usable (pi_accounts input) aid)")
    case True
    then show ?thesis
      unfolding validate_and_plan_def valid_input_def Let_def rbind_eq_Inr
      by (simp add: check_nonempty_Inr check_no_duplicates_Inr check_postings_exist_Inr
          check_accounts_Inr check_snapshots_Inr check_book_Inr[OF x] check_conservation_Inr[OF x]
          check_negative_postings_Inr check_overdraft_Inr[OF x]) blast
  next
    case False
    then show ?thesis
      by (auto simp: validate_and_plan_def valid_input_def Let_def rbind_eq_Inr
          check_postings_exist_Inr check_accounts_Inr)
  qed
qed

text \<open>No input makes validation panic.\<close>

lemma guard_each_no_panic: "(\<And>a. a \<in> set as \<Longrightarrow> g a \<noteq> Some Panic) \<Longrightarrow> guard_each g as \<noteq> Inl Panic"
  by (meson guard_each_Inl)

lemma overflow_no_panic: "overflow_fault m \<noteq> Inl Panic"
  by (cases m) auto

lemma check_book_no_panic:
  assumes ids: "set (e_consumes e) \<subseteq> p_id ` set ps"
    and acc: "\<forall>aid \<in> set owners. account_usable accounts aid"
  shows "check_book x (consumed_by_id ps) accounts owners e bk \<noteq> Inl Panic"
proof (cases bk)
  case (Some b)
  have "check_book_assets x (consumed_by_id ps) e b \<noteq> Inl Panic"
    by (auto simp: check_book_assets_def Let_def index_all[OF ids] dest!: guard_each_Inl split: if_splits)
  moreover have "check_book_accounts accounts owners b \<noteq> Inl Panic"
    using acc by (fastforce simp: check_book_accounts_def book_account_guard_def account_usable_def
        dest!: guard_each_Inl split: if_splits option.splits)
  ultimately show ?thesis by (auto simp: Some check_book_def rbind_eq_Inl)
qed (simp add: check_book_def)

lemma check_conservation_no_panic:
  assumes ids: "set (e_consumes e) \<subseteq> p_id ` set ps"
  shows "check_conservation x (consumed_by_id ps) e \<noteq> Inl Panic"
  unfolding check_conservation_def fold_index_entries[OF ids] try_fold_entries
  by (auto simp: rbind_eq_Inl map_err_eq_Inl Let_def dest!: guard_each_Inl split: if_splits)

lemma check_overdraft_no_panic:
  assumes ids: "set (e_consumes (pi_envelope input)) \<subseteq> p_id ` set (pi_consumed_postings input)"
    and acc: "\<forall>aid \<in> set (pk_owners (posting_keys (pi_envelope input) (pi_consumed_postings input))).
        account_usable (pi_accounts input) aid"
    and x: "externs_ok x"
  shows "check_overdraft x (consumed_by_id (pi_consumed_postings input)) input \<noteq> Inl Panic"
proof
  let ?e = "pi_envelope input"
  let ?d = "delta_entries (consumed_list input) (e_creates ?e)"
  assume "check_overdraft x (consumed_by_id (pi_consumed_postings input)) input = Inl Panic"
  then obtain deltas where d: "entry_fold ?d = Inr deltas"
    and g: "guard_each (overdraft_guard input deltas) (x_key_order x (map fst deltas)) = Inl Panic"
    unfolding check_overdraft_run[OF ids] by (auto simp: rbind_eq_Inl map_err_eq_Inl)
  obtain k where "k \<in> set (x_key_order x (map fst deltas))" and k: "overdraft_guard input deltas k = Some Panic"
    using guard_each_Inl[OF g] by blast
  then have "k \<in> fst ` set ?d" using x set_entry_fold[OF d] by simp
  moreover have "map_of (pi_accounts input) (fst k) = None"
    using k by (auto simp: overdraft_guard_def split: option.splits sum.splits if_splits)
  moreover have "fst k \<in> set (pk_owners (posting_keys ?e (pi_consumed_postings input)))"
    using calculation(1) consumed_list_subset[OF ids] by (auto simp: delta_entries_def posting_keys_def)
  ultimately show False using acc by (auto simp: account_usable_def)
qed

lemma validate_no_panic:
  assumes x: "externs_ok x"
  shows "validate_and_plan x input \<noteq> Inl Panic"
proof
  let ?e = "pi_envelope input" and ?ps = "pi_consumed_postings input"
  let ?ow = "pk_owners (posting_keys ?e ?ps)"
  assume "validate_and_plan x input = Inl Panic"
  moreover have "check_nonempty ?e \<noteq> Inl Panic" by (simp add: check_nonempty_def)
  moreover have "check_no_duplicates ?e \<noteq> Inl Panic" by (simp add: check_no_duplicates_def split: option.splits)
  moreover have "check_postings_exist (consumed_by_id ?ps) ?e \<noteq> Inl Panic"
    unfolding check_postings_exist_def by (rule guard_each_no_panic) (simp split: option.splits)
  moreover have "check_accounts (pi_accounts input) ?ow \<noteq> Inl Panic"
    unfolding check_accounts_def by (rule guard_each_no_panic) (simp split: option.splits)
  moreover have "check_snapshots (x_sha x) (pi_accounts input) ?e \<noteq> Inl Panic"
    unfolding check_snapshots_def by (rule guard_each_no_panic) (simp split: option.splits)
  moreover have "check_negative_postings (pi_accounts input) ?e \<noteq> Inl Panic"
    unfolding check_negative_postings_def by (rule guard_each_no_panic) (simp split: option.splits)
  ultimately have "check_postings_exist (consumed_by_id ?ps) ?e = Inr ()"
    and "check_accounts (pi_accounts input) ?ow = Inr ()"
    and p: "check_book x (consumed_by_id ?ps) (pi_accounts input) ?ow ?e (pi_book input) = Inl Panic
      \<or> check_conservation x (consumed_by_id ?ps) ?e = Inl Panic
      \<or> check_overdraft x (consumed_by_id ?ps) input = Inl Panic"
    by (auto simp: validate_and_plan_def Let_def rbind_eq_Inl)
  then have ids: "set (e_consumes ?e) \<subseteq> p_id ` set ?ps"
    and acc: "\<forall>aid \<in> set ?ow. account_usable (pi_accounts input) aid"
    by (simp_all add: check_postings_exist_Inr check_accounts_Inr)
  from p show False
    using check_book_no_panic[OF ids acc] check_conservation_no_panic[OF ids]
      check_overdraft_no_panic[OF ids acc x] by blast
qed

section \<open>Validation reads only the required state\<close>

lemma guard_each_cong: "(\<And>a. a \<in> set as \<Longrightarrow> g a = h a) \<Longrightarrow> guard_each g as = guard_each h as"
proof -
  assume eq: "\<And>a. a \<in> set as \<Longrightarrow> g a = h a"
  then have "try_each g as = try_each h as" by (induction as) (auto split: option.split)
  then show ?thesis by (simp only: guard_each_def)
qed

definition agrees_on_required :: "plan_input \<Rightarrow> plan_input \<Rightarrow> bool" where
  "agrees_on_required i j \<longleftrightarrow>
     pi_envelope j = pi_envelope i \<and> pi_consumed_postings j = pi_consumed_postings i \<and> pi_book j = pi_book i \<and>
     (let req = required_state (pi_envelope i) (pi_consumed_postings i)
      in (\<forall>aid \<in> set (rs_accounts req). map_of (pi_accounts j) aid = map_of (pi_accounts i) aid) \<and>
         (\<forall>k \<in> set (rs_balances req). map_of (pi_balances j) k = map_of (pi_balances i) k))"

lemma agreesD:
  assumes "agrees_on_required i j"
  shows "\<And>aid. aid \<in> set (pk_owners (posting_keys (pi_envelope i) (pi_consumed_postings i))) \<Longrightarrow>
        map_of (pi_accounts j) aid = map_of (pi_accounts i) aid"
    "\<And>s. s \<in> set (e_account_snapshots (pi_envelope i)) \<Longrightarrow> map_of (pi_accounts j) (snap_account s) = map_of (pi_accounts i) (snap_account s)"
    "\<And>np. np \<in> set (e_creates (pi_envelope i)) \<Longrightarrow> map_of (pi_accounts j) (np_owner np) = map_of (pi_accounts i) (np_owner np)"
    "\<And>k. k \<in> set (pk_balances (posting_keys (pi_envelope i) (pi_consumed_postings i))) \<Longrightarrow>
        map_of (pi_balances j) k = map_of (pi_balances i) k"
    "\<And>k. k \<in> set (pk_balances (posting_keys (pi_envelope i) (pi_consumed_postings i))) \<Longrightarrow>
        map_of (pi_accounts j) (fst k) = map_of (pi_accounts i) (fst k)"
  using assms by (auto simp: agrees_on_required_def required_state_def posting_keys_def Let_def)

lemma check_overdraft_required:
  assumes agr: "agrees_on_required i j" and x: "externs_ok x"
    and ids: "set (e_consumes (pi_envelope i)) \<subseteq> p_id ` set (pi_consumed_postings i)"
  shows "check_overdraft x (consumed_by_id (pi_consumed_postings i)) j = check_overdraft x (consumed_by_id (pi_consumed_postings i)) i"
proof -
  have same: "pi_envelope j = pi_envelope i" "pi_consumed_postings j = pi_consumed_postings i"
    using agr by (simp_all add: agrees_on_required_def)
  have "guard_each (overdraft_guard j deltas) (x_key_order x (map fst deltas)) = guard_each (overdraft_guard i deltas) (x_key_order x (map fst deltas))"
    if d: "entry_fold (delta_entries (consumed_list i) (e_creates (pi_envelope i))) = Inr deltas" for deltas
  proof (rule guard_each_cong)
    fix k assume "k \<in> set (x_key_order x (map fst deltas))"
    then have "k \<in> fst ` set (delta_entries (consumed_list i) (e_creates (pi_envelope i)))" using x set_entry_fold[OF d] by simp
    then have "k \<in> set (pk_balances (posting_keys (pi_envelope i) (pi_consumed_postings i)))"
      using consumed_list_subset[OF ids] by (auto simp: delta_entries_def posting_keys_def)
    then have "map_of (pi_accounts j) (fst k) = map_of (pi_accounts i) (fst k)"
      and "entry_value (pi_balances j) k = entry_value (pi_balances i) k"
      using agreesD(4,5)[OF agr] by (simp_all add: entry_value_def)
    then show "overdraft_guard j deltas k = overdraft_guard i deltas k" unfolding overdraft_guard_def by (simp only:)
  qed
  then show ?thesis using check_overdraft_run[OF ids, of x] check_overdraft_run[of j x] ids
    by (auto simp: same consumed_list_def rbind_def map_err_def split: sum.splits)
qed

text \<open>
  C20: validation returns the same plan or the same error on two inputs that agree on the
  state its loader was told to fetch, whatever else they contain.
\<close>

theorem validate_reads_required:
  assumes "agrees_on_required i j" "externs_ok x"
  shows "validate_and_plan x j = validate_and_plan x i"
proof -
  let ?e = "pi_envelope i" and ?ps = "pi_consumed_postings i"
  have same: "pi_envelope j = ?e" "pi_consumed_postings j = ?ps" "pi_book j = pi_book i"
    using assms(1) by (simp_all add: agrees_on_required_def)
  note agr = agreesD[OF assms(1)]
  have 1: "check_accounts (pi_accounts j) (pk_owners (posting_keys ?e ?ps)) = check_accounts (pi_accounts i) (pk_owners (posting_keys ?e ?ps))"
    unfolding check_accounts_def by (rule guard_each_cong) (simp add: agr(1))
  have 2: "check_snapshots (x_sha x) (pi_accounts j) ?e = check_snapshots (x_sha x) (pi_accounts i) ?e"
    unfolding check_snapshots_def by (rule guard_each_cong) (simp add: agr(2))
  have "check_book_accounts (pi_accounts j) (pk_owners (posting_keys ?e ?ps)) b = check_book_accounts (pi_accounts i) (pk_owners (posting_keys ?e ?ps)) b" for b
    unfolding check_book_accounts_def by (auto intro!: guard_each_cong simp: book_account_guard_def agr(1))
  then have 3: "check_book x (consumed_by_id ?ps) (pi_accounts j) (pk_owners (posting_keys ?e ?ps)) ?e bk
      = check_book x (consumed_by_id ?ps) (pi_accounts i) (pk_owners (posting_keys ?e ?ps)) ?e bk" for bk
    by (simp add: check_book_def split: option.split)
  have 4: "check_negative_postings (pi_accounts j) ?e = check_negative_postings (pi_accounts i) ?e"
    unfolding check_negative_postings_def by (rule guard_each_cong) (simp add: agr(3))
  show ?thesis
  proof (cases "set (e_consumes ?e) \<subseteq> p_id ` set ?ps")
    case True
    show ?thesis unfolding validate_and_plan_def Let_def same 1 2 3 4 check_overdraft_required[OF assms True] ..
  next
    case False
    then obtain f where "check_postings_exist (consumed_by_id ?ps) ?e = Inl f"
      by (metis check_postings_exist_Inr old.sum.exhaust)
    then show ?thesis by (simp add: validate_and_plan_def Let_def same rbind_def split: sum.splits)
  qed
qed

text \<open>A deposit of 100: the bank goes 100 into debt, the customer, who may not, receives it.\<close>

definition demo_account :: "i64 \<Rightarrow> account_flags \<Rightarrow> account" where
  "demo_account i f = \<lparr>acc_id = AccountId i 0, acc_version = 1, acc_flags = f, acc_book = BookId 0, acc_metadata = []\<rparr>"

definition demo_creates :: "new_posting list" where
  "demo_creates = [\<lparr>np_owner = AccountId 1 0, np_asset = AssetId 1, np_value = - 100, np_payer = None\<rparr>,
     \<lparr>np_owner = AccountId 2 0, np_asset = AssetId 1, np_value = 100, np_payer = Some (AccountId 1 0)\<rparr>]"

definition demo_input :: "(account_id \<times> account) list \<Rightarrow> plan_input" where
  "demo_input others = \<lparr>pi_envelope = \<lparr>e_consumes = [], e_creates = demo_creates, e_account_snapshots = [], e_book = BookId 0, e_metadata = []\<rparr>,
     pi_consumed_postings = [], pi_accounts = [(AccountId 1 0, demo_account 1 0), (AccountId 2 0, demo_account 2 8)] @ others,
     pi_balances = [((AccountId 1 0, AssetId 1), 0), ((AccountId 2 0, AssetId 1), 0)], pi_book = None\<rparr>"

definition demo_externs :: externs where
  "demo_externs = \<lparr>x_sha = (\<lambda>_. []), x_asset_order = id, x_key_order = id\<rparr>"

lemma demo_externs_ok: "externs_ok demo_externs"
  by (simp add: demo_externs_def externs_ok_def)

lemma demo_accepted: "is_ok (validate_and_plan demo_externs (demo_input []))"
proof -
  have "posting_keys (pi_envelope (demo_input [])) [] = \<lparr>pk_owners = [AccountId 1 0, AccountId 2 0],
      pk_balances = [(AccountId 1 0, AssetId 1), (AccountId 2 0, AssetId 1)]\<rparr>"
    by (simp add: posting_keys_def demo_input_def demo_creates_def sort_dedup_def less_eq_account_id_def less_eq_prod_def less_account_id_def)
  then show ?thesis
    by (simp add: validate_and_plan_def Let_def demo_input_def demo_creates_def check_nonempty_def check_no_duplicates_def
        check_postings_exist_def check_accounts_def guard_each_def demo_account_def is_frozen_def is_closed_def forbids_overdraft_def
        flags_contains_def FROZEN_def CLOSED_def DEBIT_MUST_NOT_EXCEED_CREDIT_def check_snapshots_def check_book_def check_conservation_def
        entry_add_def entry_value_def range_defs demo_externs_def check_negative_postings_def check_overdraft_def overdraft_guard_def is_ok_def
        checked_add_def checked_i64_def is_negative_def)
qed

theorem validate_reads_required_witness:
  "validate_and_plan demo_externs (demo_input [(AccountId 3 0, demo_account 3 1)]) = validate_and_plan demo_externs (demo_input [])"
  by (rule validate_reads_required[OF _ demo_externs_ok])
    (auto simp: agrees_on_required_def demo_input_def demo_creates_def required_state_def posting_keys_def Let_def)

text \<open>
  C19: validation never panics, and it accepts exactly the envelopes of the declarative
  specification \<open>valid_input\<close>: conservation per asset, distinct existing inputs,
  usable accounts at the pinned versions, the book's policy, no negative posting and
  no negative projected balance on an account that forbids overdraft, all totals in
  range. The plan it returns is \<open>build_plan\<close>. Hash iteration orders do not matter.
\<close>

theorem validate_spec:
  assumes "externs_ok x"
  shows "validate_and_plan x input \<noteq> Inl Panic \<and>
     (validate_and_plan x input = Inr pl \<longleftrightarrow> valid_input (x_sha x) input \<and> pl = build_plan (x_sha x) (pi_envelope input))"
  using validate_no_panic[OF assms] validate_iff[OF assms] by blast

theorem validate_spec_witness: "valid_input (\<lambda>_. []) (demo_input [])"
proof -
  obtain pl where "validate_and_plan demo_externs (demo_input []) = Inr pl" using demo_accepted by (auto simp: is_ok_iff)
  then show ?thesis using validate_spec[OF demo_externs_ok, of "demo_input []" pl] by (simp add: demo_externs_def)
qed

end
