(* ===== verification/Auto_Id.thy ===== *)
theory Auto_Id
  imports Money
begin

text \<open>
  \<^verbatim>\<open>kuatia-types/src/autoid.rs\<close>: the snowflake-style generator and its CRC-32. A reading
  of the system clock is an argument: milliseconds relative to the Unix epoch, negative
  when the clock stands before it. The generator is its 32-bit counter.
\<close>

section \<open>CRC-32\<close>

definition crc_step :: "u32 \<Rightarrow> u32" where
  "crc_step crc = (if crc AND 1 \<noteq> 0 then drop_bit 1 crc XOR 0xEDB88320 else drop_bit 1 crc)"

definition CRC32_TABLE :: "u32 list" where
  "CRC32_TABLE = map (\<lambda>i. (crc_step ^^ 8) (word_of_nat i)) [0..<256]"

definition crc32 :: "byte list \<Rightarrow> u32" where
  "crc32 data = foldl (\<lambda>crc b.
       let idx = unat ((crc XOR ucast b) AND 0xFF)
       in drop_bit 8 crc XOR CRC32_TABLE ! idx) 0xFFFFFFFF data XOR 0xFFFFFFFF"

section \<open>The generator\<close>

definition TIMESTAMP_BITS :: nat where "TIMESTAMP_BITS = 40"
definition TAIL_BITS :: nat where "TAIL_BITS = 23"
definition TAIL_MASK :: u32 where "TAIL_MASK = push_bit TAIL_BITS 1 - 1"
definition KUATIA_EPOCH_MS :: u64 where "KUATIA_EPOCH_MS = 1767225600000"

record auto_id =
  ai_counter :: u32

definition auto_id_new :: auto_id where
  "auto_id_new = \<lparr>ai_counter = 0\<rparr>"

definition now_ms :: "int \<Rightarrow> u64" where
  "now_ms clock =
     (let unix_ms = (word_of_int (max 0 clock) :: u64)
      in if KUATIA_EPOCH_MS \<le> unix_ms then unix_ms - KUATIA_EPOCH_MS else 0)"

definition ai_pack :: "u64 \<Rightarrow> u32 \<Rightarrow> i64" where
  "ai_pack ms tail =
     (let ts = sint (ms AND (push_bit TIMESTAMP_BITS 1 - 1))
      in push_bit TAIL_BITS ts OR uint tail)"

definition next_with_data :: "int \<Rightarrow> byte list \<Rightarrow> i64" where
  "next_with_data clock data = ai_pack (now_ms clock) (crc32 data AND TAIL_MASK)"

definition ai_next :: "int \<Rightarrow> auto_id \<Rightarrow> i64 \<times> auto_id" where
  "ai_next clock g =
     (let ms = now_ms clock; sq = ai_counter g AND TAIL_MASK
      in (ai_pack ms sq, g\<lparr>ai_counter := ai_counter g + 1\<rparr>))"

definition ai_timestamp :: "i64 \<Rightarrow> u64" where
  "ai_timestamp i = word_of_int (drop_bit TAIL_BITS i AND (push_bit TIMESTAMP_BITS 1 - 1))"

definition ai_tail :: "i64 \<Rightarrow> u32" where
  "ai_tail i = word_of_int i AND TAIL_MASK"

section \<open>The table-driven CRC is the bit-serial one\<close>

definition crc32_bitwise :: "byte list \<Rightarrow> u32" where
  "crc32_bitwise data = foldl (\<lambda>crc b. (crc_step ^^ 8) (crc XOR ucast b)) 0xFFFFFFFF data XOR 0xFFFFFFFF"

lemma crc_step_xor: "crc_step (a XOR b) = crc_step a XOR crc_step b"
proof -
  have odd: "x AND 1 \<noteq> 0 \<longleftrightarrow> bit x 0" for x :: u32
    by (simp add: and_one_eq odd_iff_mod_2_eq_one bit_0)
  have "drop_bit 1 (a XOR b) = drop_bit 1 a XOR drop_bit 1 b"
    by (simp add: bit_eq_iff bit_simps)
  then show ?thesis
    unfolding crc_step_def odd
    by (auto simp: bit_simps xor.assoc xor.left_commute xor.commute)
qed

lemma crc_steps_xor: "(crc_step ^^ n) (a XOR b) = (crc_step ^^ n) a XOR (crc_step ^^ n) b"
  by (induction n) (simp_all add: crc_step_xor)

lemma crc_steps_clear: "n \<le> 8 \<Longrightarrow> \<forall>j < 8. \<not> bit a j \<Longrightarrow> (crc_step ^^ n) a = drop_bit n a"
proof (induction n)
  case (Suc n)
  then have "(crc_step ^^ n) a = drop_bit n a" by simp
  moreover have "crc_step (drop_bit n a) = drop_bit 1 (drop_bit n a)"
  proof -
    have "\<not> bit (drop_bit n a) 0" using Suc.prems by (simp add: bit_drop_bit_eq)
    then show ?thesis by (simp add: crc_step_def and_one_eq bit_0 odd_iff_mod_2_eq_one)
  qed
  ultimately show ?case by (simp add: drop_bit_drop_bit)
qed simp

lemma crc_eight_steps:
  "(crc_step ^^ 8) c = drop_bit 8 c XOR CRC32_TABLE ! unat (c AND 0xFF)"
proof -
  have mask: "(0xFF :: u32) = mask 8" by (simp add: mask_eq_exp_minus_1)
  have split: "c = (c AND 0xFF) XOR (c AND NOT 0xFF)"
    by (rule bit_word_eqI) (auto simp: bit_simps)
  have low: "\<forall>j < 8. \<not> bit (c AND NOT 0xFF) j" by (auto simp: mask bit_simps)
  have "unat (c AND 0xFF) < 2 ^ 8"
    unfolding mask take_bit_eq_mask[symmetric] unsigned_take_bit_eq by (rule take_bit_nat_less_exp)
  then have tab: "CRC32_TABLE ! unat (c AND 0xFF) = (crc_step ^^ 8) (c AND 0xFF)"
    unfolding CRC32_TABLE_def by (subst nth_map) auto
  have "drop_bit 8 (c AND NOT 0xFF) = drop_bit 8 c"
    by (rule bit_word_eqI) (auto simp: mask bit_simps dest: bit_imp_le_length)
  then have "(crc_step ^^ 8) ((c AND 0xFF) XOR (c AND NOT 0xFF)) = CRC32_TABLE ! unat (c AND 0xFF) XOR drop_bit 8 c"
    unfolding crc_steps_xor tab using crc_steps_clear[OF _ low, of 8] by simp
  then show ?thesis using split by (simp add: xor.commute)
qed

lemma crc32_foldl: "crc32 data = foldl (\<lambda>crc b. (crc_step ^^ 8) (crc XOR ucast b)) 0xFFFFFFFF data XOR 0xFFFFFFFF"
proof -
  have "drop_bit 8 crc XOR CRC32_TABLE ! unat ((crc XOR ucast b) AND 0xFF) = (crc_step ^^ 8) (crc XOR ucast b)"
    for crc :: u32 and b :: byte
  proof -
    have "drop_bit 8 (crc XOR ucast b) = drop_bit 8 crc"
      by (rule bit_word_eqI) (auto simp: bit_simps dest: bit_imp_le_length)
    then show ?thesis by (simp add: crc_eight_steps)
  qed
  then show ?thesis by (simp add: crc32_def Let_def)
qed

text \<open>
  C29: the table-driven checksum equals the bit-by-bit CRC-32 of the same data.
\<close>

theorem crc32_is_bitwise: "crc32 data = crc32_bitwise data"
  by (simp add: crc32_foldl crc32_bitwise_def)

section \<open>Packing\<close>

lemma masked_tail: "uint (w AND TAIL_MASK) < 2 ^ 23"
proof -
  have "TAIL_MASK = mask 23" by (simp add: TAIL_MASK_def TAIL_BITS_def mask_eq_exp_minus_1)
  then have "w AND TAIL_MASK = take_bit 23 w" by (simp only: take_bit_eq_mask)
  then have "uint (w AND TAIL_MASK) = take_bit 23 (uint w)" by (simp only: unsigned_take_bit_eq)
  then show ?thesis by (simp only: take_bit_int_less_exp)
qed

lemma masked_ms: "sint (ms AND (push_bit TIMESTAMP_BITS 1 - 1) :: u64) = uint ms mod 2 ^ 40"
proof -
  have "(push_bit TIMESTAMP_BITS 1 - 1 :: u64) = mask 40" by (simp add: TIMESTAMP_BITS_def mask_eq_exp_minus_1)
  then have "sint (ms AND (push_bit TIMESTAMP_BITS 1 - 1)) = sint (take_bit 40 ms)"
    by (simp add: take_bit_eq_mask[symmetric])
  also have "\<dots> = take_bit 40 (uint ms)"
    by (simp add: sint_uint unsigned_take_bit_eq signed_take_bit_take_bit)
  finally show ?thesis by (simp add: take_bit_eq_mod)
qed

lemma ai_pack_value:
  "uint tail < 2 ^ 23 \<Longrightarrow> ai_pack ms tail = (uint ms mod 2 ^ 40) * 2 ^ 23 + uint tail"
proof -
  assume "uint tail < 2 ^ 23"
  then have "take_bit 23 (uint tail) = uint tail" by (simp add: take_bit_int_eq_self_iff)
  then have "push_bit 23 (uint ms mod 2 ^ 40) OR uint tail = push_bit 23 (uint ms mod 2 ^ 40) + uint tail"
    by (intro disjunctive_add[symmetric]) (metis bit_push_bit_iff bit_take_bit_iff leD)
  then show ?thesis unfolding ai_pack_def Let_def masked_ms TAIL_BITS_def by (simp only: push_bit_eq_mult)
qed

lemma masked_tail_value: "uint (w AND TAIL_MASK) = uint w mod 2 ^ 23"
proof -
  have "TAIL_MASK = mask 23" by (simp add: TAIL_MASK_def TAIL_BITS_def mask_eq_exp_minus_1)
  then have "w AND TAIL_MASK = take_bit 23 w" by (simp only: take_bit_eq_mask)
  then have "uint (w AND TAIL_MASK) = take_bit 23 (uint w)" by (simp only: unsigned_take_bit_eq)
  then show ?thesis by (simp only: take_bit_eq_mod)
qed

lemma ai_next_value:
  "fst (ai_next clock g) = (uint (now_ms clock) mod 2 ^ 40) * 2 ^ 23 + uint (ai_counter g) mod 2 ^ 23"
  unfolding ai_next_def Let_def fst_conv by (subst ai_pack_value[OF masked_tail]) (simp only: masked_tail_value)

lemma ai_pack_range: "uint tail < 2 ^ 23 \<Longrightarrow> 0 \<le> ai_pack ms tail \<and> ai_pack ms tail < 2 ^ 63"
proof -
  assume t: "uint tail < 2 ^ 23"
  have "uint ms mod 2 ^ 40 < 2 ^ 40" "0 \<le> uint ms mod 2 ^ 40" by simp_all
  moreover have "0 \<le> uint tail" by simp
  ultimately show ?thesis using t unfolding ai_pack_value[OF t] by auto
qed

lemma ai_pack_timestamp:
  assumes t: "uint tail < 2 ^ 23"
  shows "uint (ai_timestamp (ai_pack ms tail)) = uint ms mod 2 ^ 40"
proof -
  have d: "drop_bit 23 (ai_pack ms tail) = uint ms mod 2 ^ 40"
    unfolding ai_pack_value[OF t] drop_bit_eq_div using t by simp
  have m: "x AND (push_bit 40 1 - 1) = take_bit 40 x" for x :: int
    by (simp add: take_bit_eq_mask mask_eq_exp_minus_1)
  show ?thesis unfolding ai_timestamp_def TAIL_BITS_def TIMESTAMP_BITS_def d m
    by (simp add: unsigned_of_int take_bit_int_eq_self_iff take_bit_eq_mod)
qed

lemma ai_pack_tail:
  assumes t: "uint tail < 2 ^ 23"
  shows "ai_tail (ai_pack ms tail) = tail"
proof -
  have "uint (ai_tail (ai_pack ms tail)) = ai_pack ms tail mod 2 ^ 32 mod 2 ^ 23"
    unfolding ai_tail_def masked_tail_value by (simp add: unsigned_of_int take_bit_eq_mod)
  also have "\<dots> = ai_pack ms tail mod 2 ^ 23" by (simp add: mod_mod_cancel)
  also have "\<dots> = uint tail" unfolding ai_pack_value[OF t] using t by simp
  finally show ?thesis by (simp only: word_uint_eq_iff)
qed

section \<open>Runs of the generator\<close>

text \<open>The ids a generator hands out when it is called at the given clock readings.\<close>

fun ai_run :: "int list \<Rightarrow> auto_id \<Rightarrow> i64 list" where
  "ai_run [] g = []"
| "ai_run (c # cs) g = (let (i, g') = ai_next c g in i # ai_run cs g')"

lemma ai_run_tails:
  "map (\<lambda>i. i mod 2 ^ 23) (ai_run cs g) =
     map (\<lambda>k. (uint (ai_counter g) + int k) mod 2 ^ 23) [0..<length cs]"
proof (induction cs arbitrary: g)
  case (Cons c cs)
  let ?c = "uint (ai_counter g)"
  have step: "uint (ai_counter g + 1) mod 2 ^ 23 = (?c + 1) mod 2 ^ 23"
    unfolding uint_word_ariths by (simp add: mod_mod_cancel)
  have shift: "(uint (ai_counter g + 1) + int k) mod 2 ^ 23 = (?c + int (Suc k)) mod 2 ^ 23" for k
    by (subst mod_add_left_eq[symmetric], subst step, subst mod_add_left_eq) (simp add: add.assoc)
  have "ai_counter (snd (ai_next c g)) = ai_counter g + 1" by (simp add: ai_next_def Let_def)
  then have tl: "map (\<lambda>i. i mod 2 ^ 23) (ai_run cs (snd (ai_next c g))) = map (\<lambda>k. (?c + int (Suc k)) mod 2 ^ 23) [0..<length cs]"
    using Cons[of "snd (ai_next c g)"] by (simp only: shift)
  have "map (\<lambda>k. (?c + int k) mod 2 ^ 23) [0..<length (c # cs)]
      = ?c mod 2 ^ 23 # map (\<lambda>k. (?c + int (Suc k)) mod 2 ^ 23) [0..<length cs]"
    by (simp only: length_Cons upt_conv_Cons map_Suc_upt[symmetric] list.map list.map_comp comp_def
        zero_less_Suc) simp
  moreover have "fst (ai_next c g) mod 2 ^ 23 = ?c mod 2 ^ 23" unfolding ai_next_value by simp
  ultimately show ?case by (simp only: ai_run.simps split_beta Let_def list.map tl)
qed simp

lemma consecutive_mod_distinct:
  assumes "n \<le> 2 ^ 23"
  shows "distinct (map (\<lambda>k. (a + int k) mod 2 ^ 23) [0..<n])"
proof -
  have "i = j" if "i < n" "j < n" "(a + int i) mod 2 ^ 23 = (a + int j) mod 2 ^ 23" for i j
  proof -
    have "int i mod 2 ^ 23 = int j mod 2 ^ 23" using that(3) by (metis add_diff_cancel_left' mod_diff_left_eq)
    moreover have "int i < 2 ^ 23" "int j < 2 ^ 23" using that(1,2) assms by simp_all
    ultimately show ?thesis by simp
  qed
  then show ?thesis by (auto simp: distinct_map inj_on_def)
qed

text \<open>
  Up to 2^23 identifiers drawn in a row from one generator are pairwise distinct,
  whatever the clock reads between them.
\<close>

theorem ai_run_distinct: "length cs \<le> 2 ^ 23 \<Longrightarrow> distinct (ai_run cs g)"
  using consecutive_mod_distinct[of "length cs" "uint (ai_counter g)"] ai_run_tails[of cs g]
  by (metis distinct_map)

theorem ai_run_distinct_witness: "distinct (ai_run [1700000000000, 1600000000000, 1700000000000] auto_id_new)"
  by (rule ai_run_distinct) simp

section \<open>The generated ids\<close>

lemma now_ms_value:
  assumes "clock < 2 ^ 64"
  shows "uint (now_ms clock) = max 0 (clock - 1767225600000)"
proof -
  have u: "uint (word_of_int (max 0 clock) :: u64) = max 0 clock"
    using assms by (simp add: unsigned_of_int take_bit_int_eq_self_iff)
  show ?thesis
  proof (cases "1767225600000 \<le> clock")
    case True
    then have "KUATIA_EPOCH_MS \<le> (word_of_int (max 0 clock) :: u64)" using u by (simp add: word_le_def KUATIA_EPOCH_MS_def)
    then show ?thesis using True u by (simp add: now_ms_def uint_minus_simple_alt KUATIA_EPOCH_MS_def)
  next
    case False
    then have "\<not> KUATIA_EPOCH_MS \<le> (word_of_int (max 0 clock) :: u64)" using u by (simp add: word_le_def KUATIA_EPOCH_MS_def)
    then show ?thesis using False by (simp add: now_ms_def)
  qed
qed

lemma id_bounds:
  assumes "clock < 2 ^ 64"
  shows "ai_pack (now_ms clock) (w AND TAIL_MASK) \<in> {0..<2 ^ 63} \<and>
    uint (ai_timestamp (ai_pack (now_ms clock) (w AND TAIL_MASK))) = max 0 (clock - 1767225600000) mod 2 ^ 40 \<and>
    ai_tail (ai_pack (now_ms clock) (w AND TAIL_MASK)) = w AND TAIL_MASK"
  using ai_pack_range[OF masked_tail] ai_pack_timestamp[OF masked_tail] ai_pack_tail[OF masked_tail] now_ms_value[OF assms] by simp

text \<open>
  C28: Every generated identifier is in [0, 2^63), so the sign bit of an \<open>i64\<close> is never set; its
  timestamp field holds the milliseconds since 2026 modulo 2^40 (0 before 2026) and its tail the
  low 23 bits of the counter, or of the CRC-32 of the data; and until the field wraps around (in
  2060) an identifier of a later millisecond is greater, whatever the counters.
\<close>

theorem generated_ids:
  assumes "clock < 2 ^ 64"
  shows "fst (ai_next clock g) \<in> {0..<2 ^ 63} \<and> next_with_data clock data \<in> {0..<2 ^ 63} \<and>
    uint (ai_timestamp (fst (ai_next clock g))) = max 0 (clock - 1767225600000) mod 2 ^ 40 \<and>
    uint (ai_timestamp (next_with_data clock data)) = max 0 (clock - 1767225600000) mod 2 ^ 40 \<and>
    ai_tail (fst (ai_next clock g)) = ai_counter g AND TAIL_MASK \<and> ai_tail (next_with_data clock data) = crc32 data AND TAIL_MASK \<and>
    (1767225600000 \<le> early \<and> early < clock \<and> clock < 1767225600000 + 2 ^ 40 \<longrightarrow>
      fst (ai_next early g') < fst (ai_next clock g))"
proof -
  have order: "fst (ai_next early g') < fst (ai_next clock g)"
    if "1767225600000 \<le> early" "early < clock" "clock < 1767225600000 + 2 ^ 40"
  proof -
    have "uint (now_ms early) = early - 1767225600000" "uint (now_ms clock) = clock - 1767225600000"
      using that assms by (simp_all add: now_ms_value)
    moreover have "uint (ai_counter g') mod 2 ^ 23 < 2 ^ 23" "0 \<le> uint (ai_counter g) mod 2 ^ 23" by simp_all
    ultimately show ?thesis using that unfolding ai_next_value by simp
  qed
  show ?thesis using id_bounds[OF assms, of "ai_counter g"] id_bounds[OF assms, of "crc32 data"] order
    by (auto simp: next_with_data_def ai_next_def Let_def)
qed

theorem generated_ids_witness:
  "fst (ai_next 1767225600007 auto_id_new) \<in> {0..<2 ^ 63} \<and> uint (ai_timestamp (fst (ai_next 1767225600007 auto_id_new))) = 7 \<and>
   fst (ai_next 1767225600005 \<lparr>ai_counter = 8388607\<rparr>) < fst (ai_next 1767225600007 auto_id_new)"
  using generated_ids[of 1767225600007 auto_id_new "[]" 1767225600005 "\<lparr>ai_counter = 8388607\<rparr>"] by simp

end
