(* ===== verification/Store_Types.thy ===== *)
theory Store_Types
  imports Validate Auto_Id
begin

text \<open>
  \<^verbatim>\<open>kuatia-storage/src/store.rs\<close>, \<^verbatim>\<open>events.rs\<close>, \<^verbatim>\<open>query.rs\<close> and \<^verbatim>\<open>error.rs\<close>: the data types of the
  storage interface, the event deduplication key, and the filter and pagination
  functions shared by the backends. An error message is the entity it names.
\<close>

section \<open>Errors\<close>

datatype entity = EntAccount account_id | EntPosting posting_id | EntBook book_id

datatype internal_error =
    CommitOverflow
  | CommitAccountMissing account_id
  | TransitionAccountMissing account_id
  | TransitionNoVersion account_id
  | AccountVersionOverflow
  | JsonSerialization
  | BadJson
  | OddLengthHex rstr
  | BadHex
  | BadIdLength nat
  | BadCent
  | DatabaseError

datatype store_error = NotFound entity | Internal internal_error

section \<open>Records and queries\<close>

record envelope_record =
  er_envelope :: envelope
  er_receipt :: receipt
  er_created_at :: i64

record posting_query =
  pq_account :: i64
  pq_sub :: "i64 option"
  pq_asset :: "asset_id option"
  pq_filter :: posting_filter
  pq_limit :: "u32 option"
  pq_offset :: "u32 option"

record transfer_query =
  tq_account :: "i64 option"
  tq_sub :: "i64 option"
  tq_from_ts :: "i64 option"
  tq_to_ts :: "i64 option"
  tq_book :: "book_id option"
  tq_limit :: "u32 option"
  tq_offset :: "u32 option"

record 'a page =
  pg_items :: "'a list"
  pg_total :: nat

record balance_projection =
  bp_id :: i64
  bp_account :: account_id
  bp_asset :: asset_id
  bp_balance :: cent
  bp_watermark :: i64

section \<open>Events\<close>

datatype ledger_event_kind =
    TransferCommitted envelope_id
  | EvAccountCreated account_id
  | EvAccountFrozen account_id u64
  | EvAccountUnfrozen account_id u64
  | EvAccountClosed account_id u64

record ledger_event =
  ev_seq :: u64
  ev_timestamp :: i64
  ev_kind :: ledger_event_kind

definition hex_digit :: "nat \<Rightarrow> uchar" where
  "hex_digit n = (if n < 10 then 48 + n else 87 + n)"

definition hex :: "byte list \<Rightarrow> rstr" where
  "hex bytes = concat (map (\<lambda>b. [hex_digit (unat b div 16), hex_digit (unat b mod 16)]) bytes)"

definition account_version_key :: "account_id \<Rightarrow> u64 \<Rightarrow> rstr" where
  "account_version_key a v = lit ''acct:'' @ show_int (aid_id a) @ lit '':'' @ show_int (aid_sub a)
     @ lit '':'' @ show_nat (unat v)"

fun event_dedup_key :: "ledger_event_kind \<Rightarrow> rstr option" where
  "event_dedup_key (TransferCommitted tid) = Some (hex (env_hash tid))"
| "event_dedup_key (EvAccountFrozen a v) = Some (account_version_key a v)"
| "event_dedup_key (EvAccountUnfrozen a v) = Some (account_version_key a v)"
| "event_dedup_key (EvAccountClosed a v) = Some (account_version_key a v)"
| "event_dedup_key (EvAccountCreated a) = None"

section \<open>Commit and transition requests\<close>

record commit_request =
  cr_transfer_id :: envelope_id
  cr_consume :: "posting_id list"
  cr_create :: "posting list"
  cr_record :: envelope_record
  cr_involved :: "account_id list"
  cr_event :: ledger_event

datatype commit_rejection =
    DoubleSpend posting_id
  | RejectFrozen account_id
  | RejectClosed account_id
  | RejectOverdraft account_id asset_id cent

datatype commit_outcome =
    Committed receipt
  | AlreadyCommitted receipt
  | CommitRejected commit_rejection

datatype transition_rejection = AlreadyClosed account_id | VersionConflict account_id u64

datatype transition_outcome = Applied | AlreadyApplied | TransitionRejected transition_rejection

section \<open>Filtering and pagination\<close>

definition filter_transfers :: "envelope_record list \<Rightarrow> transfer_query \<Rightarrow> envelope_record list" where
  "filter_transfers rs q = filter (\<lambda>r.
       \<not> (case tq_from_ts q of Some lo \<Rightarrow> er_created_at r < lo | None \<Rightarrow> False) \<and>
       \<not> (case tq_to_ts q of Some hi \<Rightarrow> er_created_at r \<ge> hi | None \<Rightarrow> False) \<and>
       \<not> (case tq_book q of Some b \<Rightarrow> e_book (er_envelope r) \<noteq> b | None \<Rightarrow> False)) rs"

definition window :: "u32 option \<Rightarrow> u32 option \<Rightarrow> u32 \<times> u32" where
  "window off lim = ((case off of Some n \<Rightarrow> n | None \<Rightarrow> 0), (case lim of Some n \<Rightarrow> n | None \<Rightarrow> - 1))"

definition paginate :: "'a list \<Rightarrow> u32 option \<Rightarrow> u32 option \<Rightarrow> 'a page" where
  "paginate records off lim =
     (let (o', l') = window off lim
      in \<lparr>pg_items = take (unat l') (drop (unat o') records), pg_total = length records\<rparr>)"

section \<open>Consecutive pages\<close>

text \<open>
  A page and the page that starts where it ends partition the rest of the sequence:
  no row is lost or repeated.
\<close>

theorem pages_partition:
  assumes "unat off + unat n < 2 ^ 32" and "length xs < 2 ^ 32"
  shows "pg_items (paginate xs (Some off) (Some n)) @ pg_items (paginate xs (Some (off + n)) None)
       = pg_items (paginate xs (Some off) None)"
proof -
  have sum: "unat (off + n) = unat off + unat n" using assms(1) by (simp add: unat_word_ariths)
  have "unat (- 1 :: u32) = mask 32" by (simp only: unsigned_minus_1_eq_mask len_num1 len_bit0 One_nat_def numeral_nat) simp
  then have all: "take (unat (- 1 :: u32)) (drop k xs) = drop k xs" for k
    using assms(2) by (simp add: mask_eq_exp_minus_1)
  have "take (unat n) (drop (unat off) xs) @ drop (unat off + unat n) xs = drop (unat off) xs"
    by (metis append_take_drop_id drop_drop add.commute)
  then show ?thesis by (simp add: paginate_def window_def sum all)
qed

theorem pages_partition_witness:
  "pg_items (paginate [1::nat, 2, 3, 4] (Some 1) (Some 2)) @ pg_items (paginate [1, 2, 3, 4] (Some (1 + 2)) None)
   = pg_items (paginate [1, 2, 3, 4] (Some 1) None)"
  by (rule pages_partition) simp_all

section \<open>Deduplication keys identify events\<close>

lemma hex_digit_inj: "m < 16 \<Longrightarrow> n < 16 \<Longrightarrow> hex_digit m = hex_digit n \<longleftrightarrow> m = n"
  by (auto simp: hex_digit_def)

lemma hex_inject: "hex xs = hex ys \<longleftrightarrow> xs = ys"
proof (induction xs arbitrary: ys)
  case Nil
  then show ?case by (cases ys) (simp_all add: hex_def)
next
  case (Cons x xs)
  show ?case
  proof (cases ys)
    case (Cons y ys')
    have b: "unat w div 16 < 16" "unat w = unat w div 16 * 16 + unat w mod 16" for w :: byte
      using unat_byte_less[of w] by auto
    have "hex (x # xs) = hex (y # ys') \<longleftrightarrow> unat x div 16 = unat y div 16 \<and> unat x mod 16 = unat y mod 16 \<and> hex xs = hex ys'"
      using b by (auto simp: hex_def hex_digit_inj)
    also have "\<dots> \<longleftrightarrow> x = y \<and> xs = ys'" using Cons.IH b(2)[of x] b(2)[of y] by (metis word_unat_eq_iff)
    finally show ?thesis by (simp add: Cons)
  qed (simp add: hex_def)
qed

lemma hex_no_colon: "58 \<notin> set (hex xs)"
proof
  assume "58 \<in> set (hex xs)"
  then show False by (auto simp: hex_def hex_digit_def split: if_splits)
qed

lemma show_int_no_colon: "58 \<notin> set (show_int v)" "58 \<notin> set (show_nat n)"
proof -
  show "58 \<notin> set (show_nat n)" for n using show_nat_digits[of 58 n] by (auto simp: is_ascii_digit_def)
  then show "58 \<notin> set (show_int v)" by (simp add: show_int_def)
qed

lemma show_nat_inject: "show_nat m = show_nat n \<longleftrightarrow> m = n"
  by (metis digits_val_show_nat)

lemma show_int_inject: "show_int a = show_int b \<longleftrightarrow> a = b"
proof -
  have "45 # s \<noteq> show_nat n" for s n
  proof
    assume "45 # s = show_nat n"
    then have "45 \<in> set (show_nat n)" by (metis list.set_intros(1))
    then show False using show_nat_digits[of 45 n] by (simp add: is_ascii_digit_def)
  qed
  then show ?thesis by (auto simp: show_int_def show_nat_inject dest: sym)
qed

lemma split_at_colon: "58 \<notin> set a \<Longrightarrow> 58 \<notin> set c \<Longrightarrow> a @ 58 # b = c @ 58 # d \<longleftrightarrow> a = c \<and> b = d"
proof (induction a arbitrary: c)
  case Nil
  then show ?case by (cases c) auto
next
  case (Cons x a)
  then show ?case by (cases c) auto
qed

lemma account_version_key_inject:
  "account_version_key a v = account_version_key b w \<longleftrightarrow> a = b \<and> v = w"
proof -
  have "account_version_key a v = account_version_key b w \<longleftrightarrow>
      show_int (aid_id a) = show_int (aid_id b) \<and> show_int (aid_sub a) = show_int (aid_sub b) \<and> unat v = unat w"
    by (simp add: account_version_key_def lit_def split_at_colon show_int_no_colon show_nat_inject)
  then show ?thesis by (auto simp: show_int_inject account_id.expand word_unat_eq_iff)
qed

text \<open>
  Two events share a key only when they record the same transfer, or a lifecycle
  transition to the same version of the same account.
\<close>

fun event_subject :: "ledger_event_kind \<Rightarrow> envelope_id + (account_id \<times> u64)" where
  "event_subject (TransferCommitted tid) = Inl tid"
| "event_subject (EvAccountCreated a) = Inr (a, 0)"
| "event_subject (EvAccountFrozen a v) = Inr (a, v)"
| "event_subject (EvAccountUnfrozen a v) = Inr (a, v)"
| "event_subject (EvAccountClosed a v) = Inr (a, v)"

lemma dedup_key_subject:
  assumes "event_dedup_key k = Some s" "event_dedup_key k' = Some s"
  shows "event_subject k = event_subject k'"
proof -
  have "58 \<in> set (account_version_key a v)" for a v by (simp add: account_version_key_def lit_def)
  then have "account_version_key a v \<noteq> hex xs" "hex xs \<noteq> account_version_key a v" for a v xs
    using hex_no_colon[of xs] by metis+
  with assms show ?thesis
    by (cases k; cases k') (auto simp: hex_inject envelope_id.expand account_version_key_inject)
qed

end
