(* ===== verification/Mem_Store.thy ===== *)
theory Mem_Store
  imports Store_Types
begin

text \<open>
  \<^verbatim>\<open>kuatia-storage/src/mem_store.rs\<close>: the in-memory store. A hash map is an association
  list with distinct keys; the order in which the code iterates one is the parameter
  \<open>hash_order\<close>. Every method takes the write locks it needs before it changes anything,
  so one call is one atomic step: a reader is a function of the store, a writer returns
  its result and the next store. A reading of the system clock is an argument.
\<close>

section \<open>State\<close>

record posting_tables =
  pt_immutable :: "(posting_id \<times> posting) list"
  pt_active :: "(posting_id \<times> posting) list"
  pt_reserved :: "(posting_id \<times> (posting \<times> reservation_id)) list"

record mem_store =
  ms_postings :: posting_tables
  ms_accounts :: "(account_id \<times> account list) list"
  ms_transfers :: "(envelope_id \<times> envelope_record) list"
  ms_transfer_accounts :: "(envelope_id \<times> account_id list) list"
  ms_events :: "ledger_event list"
  ms_books :: "(book_id \<times> book) list"
  ms_projections :: "((account_id \<times> asset_id) \<times> balance_projection list) list"
  ms_autoid :: auto_id

definition mem_store_new :: mem_store where
  "mem_store_new = \<lparr>ms_postings = \<lparr>pt_immutable = [], pt_active = [], pt_reserved = []\<rparr>,
     ms_accounts = [], ms_transfers = [], ms_transfer_accounts = [], ms_events = [], ms_books = [],
     ms_projections = [], ms_autoid = auto_id_new\<rparr>"

text \<open>
  The iteration orders of the hash collections the code walks over. Documented
  behaviour: an iteration visits every element exactly once.
\<close>

record hash_order =
  ho_postings :: "posting list \<Rightarrow> posting list"
  ho_assets :: "asset_id list \<Rightarrow> asset_id list"
  ho_records :: "envelope_record list \<Rightarrow> envelope_record list"
  ho_accounts :: "account list \<Rightarrow> account list"
  ho_books :: "book list \<Rightarrow> book list"

definition hash_order_ok :: "hash_order \<Rightarrow> bool" where
  "hash_order_ok h \<longleftrightarrow> (\<forall>xs. mset (ho_postings h xs) = mset xs) \<and> (\<forall>xs. mset (ho_assets h xs) = mset xs) \<and>
     (\<forall>xs. mset (ho_records h xs) = mset xs) \<and> (\<forall>xs. mset (ho_accounts h xs) = mset xs) \<and>
     (\<forall>xs. mset (ho_books h xs) = mset xs)"

section \<open>Balance projections\<close>

definition append_balance_projection ::
  "int \<Rightarrow> account_id \<Rightarrow> asset_id \<Rightarrow> cent \<Rightarrow> i64 \<Rightarrow> mem_store \<Rightarrow> mem_store" where
  "append_balance_projection clock acc asset bal wm st =
     (let (i, g) = ai_next clock (ms_autoid st);
          points = (case map_of (ms_projections st) (acc, asset) of Some ps \<Rightarrow> ps | None \<Rightarrow> []);
          point = \<lparr>bp_id = i, bp_account = acc, bp_asset = asset, bp_balance = bal, bp_watermark = wm\<rparr>
      in st\<lparr>ms_projections := AList.update (acc, asset) (points @ [point]) (ms_projections st), ms_autoid := g\<rparr>)"

text \<open>\<open>max_by_key\<close>: the last of the greatest elements.\<close>

definition max_by_key :: "('a \<Rightarrow> 'k::linorder) \<Rightarrow> 'a list \<Rightarrow> 'a option" where
  "max_by_key f xs = (case xs of [] \<Rightarrow> None
     | x # r \<Rightarrow> Some (foldl (\<lambda>best y. if f best \<le> f y then y else best) x r))"

definition get_closest_balance_projection ::
  "account_id \<Rightarrow> asset_id \<Rightarrow> i64 \<Rightarrow> mem_store \<Rightarrow> balance_projection option" where
  "get_closest_balance_projection acc asset as_of st =
     Option.bind (map_of (ms_projections st) (acc, asset)) (\<lambda>points.
       max_by_key (\<lambda>p. (bp_watermark p, bp_id p)) (filter (\<lambda>p. bp_watermark p \<le> as_of) points))"

section \<open>Accounts\<close>

definition last_opt :: "'a list \<Rightarrow> 'a option" where
  "last_opt xs = (if xs = [] then None else Some (last xs))"

definition head_version :: "mem_store \<Rightarrow> account_id \<Rightarrow> account option" where
  "head_version st aid = Option.bind (map_of (ms_accounts st) aid) last_opt"

definition get_account :: "account_id \<Rightarrow> mem_store \<Rightarrow> store_error + account" where
  "get_account aid st = ok_or (NotFound (EntAccount aid)) (head_version st aid)"

definition get_accounts :: "account_id list \<Rightarrow> mem_store \<Rightarrow> store_error + account list" where
  "get_accounts aids st = try_map (\<lambda>aid. ok_or (NotFound (EntAccount aid)) (head_version st aid)) aids"

definition create_account :: "account \<Rightarrow> mem_store \<Rightarrow> nat \<times> mem_store" where
  "create_account a st =
     (if contains_key (ms_accounts st) (acc_id a) then (0, st)
      else (1, st\<lparr>ms_accounts := AList.update (acc_id a) [a] (ms_accounts st)\<rparr>))"

definition checked_succ64 :: "u64 \<Rightarrow> u64 option" where
  "checked_succ64 v = (if v = - 1 then None else Some (v + 1))"

definition append_account_version :: "account \<Rightarrow> mem_store \<Rightarrow> (store_error + nat) \<times> mem_store" where
  "append_account_version a st =
     (case map_of (ms_accounts st) (acc_id a) of
        None \<Rightarrow> (Inr 0, st)
      | Some versions \<Rightarrow>
          (case checked_succ64 (case last_opt versions of Some c \<Rightarrow> acc_version c | None \<Rightarrow> 0) of
             None \<Rightarrow> (Inl (Internal AccountVersionOverflow), st)
           | Some expected \<Rightarrow>
               if acc_version a \<noteq> expected then (Inr 0, st)
               else (Inr 1, st\<lparr>ms_accounts := AList.update (acc_id a) (versions @ [a]) (ms_accounts st)\<rparr>)))"

definition get_account_history :: "account_id \<Rightarrow> mem_store \<Rightarrow> store_error + account list" where
  "get_account_history aid st = ok_or (NotFound (EntAccount aid)) (map_of (ms_accounts st) aid)"

definition list_accounts :: "hash_order \<Rightarrow> mem_store \<Rightarrow> account list" where
  "list_accounts h st = ho_accounts h (List.map_filter last_opt (map snd (ms_accounts st)))"

section \<open>Postings\<close>

definition get_postings :: "posting_id list \<Rightarrow> mem_store \<Rightarrow> store_error + posting list" where
  "get_postings ids st =
     try_map (\<lambda>i. ok_or (NotFound (EntPosting i)) (map_of (pt_immutable (ms_postings st)) i)) ids"

definition posting_matches :: "i64 \<Rightarrow> i64 option \<Rightarrow> asset_id option \<Rightarrow> posting \<Rightarrow> bool" where
  "posting_matches i sub asset p \<longleftrightarrow> aid_id (p_owner p) = i
     \<and> (case sub of None \<Rightarrow> True | Some s \<Rightarrow> aid_sub (p_owner p) = s)
     \<and> (case asset of None \<Rightarrow> True | Some a \<Rightarrow> p_asset p = a)"

definition postings_in :: "posting_filter \<Rightarrow> posting_tables \<Rightarrow> posting list" where
  "postings_in f t = (case f of
     FilterActive \<Rightarrow> map snd (pt_active t)
   | FilterReserved \<Rightarrow> map (fst \<circ> snd) (pt_reserved t)
   | FilterLive \<Rightarrow> map snd (pt_active t) @ map (fst \<circ> snd) (pt_reserved t)
   | FilterAll \<Rightarrow> map snd (pt_immutable t))"

definition get_postings_by_account ::
  "hash_order \<Rightarrow> i64 \<Rightarrow> i64 option \<Rightarrow> asset_id option \<Rightarrow> posting_filter \<Rightarrow> mem_store \<Rightarrow> posting list" where
  "get_postings_by_account h i sub asset f st =
     sort_key p_id (ho_postings h (filter (posting_matches i sub asset) (postings_in f (ms_postings st))))"

definition query_postings :: "hash_order \<Rightarrow> posting_query \<Rightarrow> mem_store \<Rightarrow> posting page" where
  "query_postings h q st =
     paginate (get_postings_by_account h (pq_account q) (pq_sub q) (pq_asset q) (pq_filter q) st)
       (pq_offset q) (pq_limit q)"

definition posting_state_of :: "posting_tables \<Rightarrow> posting_id \<Rightarrow> posting_state" where
  "posting_state_of t i =
     (if contains_key (pt_active t) i then StateActive
      else case map_of (pt_reserved t) i of
        Some (_, rid) \<Rightarrow> StateReserved rid
      | None \<Rightarrow> if contains_key (pt_immutable t) i then StateSpent else StateMissing)"

definition get_posting_states :: "posting_id list \<Rightarrow> mem_store \<Rightarrow> posting_state list" where
  "get_posting_states ids st = map (posting_state_of (ms_postings st)) ids"

text \<open>The loops over the posting tables count the rows they change.\<close>

definition reserve_one :: "reservation_id \<Rightarrow> posting_id \<Rightarrow> nat \<times> posting_tables \<Rightarrow> nat \<times> posting_tables" where
  "reserve_one rid i = (\<lambda>(n, t). case map_of (pt_active t) i of
     None \<Rightarrow> (n, t)
   | Some p \<Rightarrow> (Suc n, t\<lparr>pt_active := AList.delete i (pt_active t),
                         pt_reserved := AList.update i (p, rid) (pt_reserved t)\<rparr>))"

definition reserve_postings :: "posting_id list \<Rightarrow> reservation_id \<Rightarrow> mem_store \<Rightarrow> nat \<times> mem_store" where
  "reserve_postings ids rid st =
     (let (n, t) = fold (reserve_one rid) ids (0, ms_postings st) in (n, st\<lparr>ms_postings := t\<rparr>))"

definition release_one :: "reservation_id \<Rightarrow> posting_id \<Rightarrow> nat \<times> posting_tables \<Rightarrow> nat \<times> posting_tables" where
  "release_one rid i = (\<lambda>(n, t).
     if map_option snd (map_of (pt_reserved t) i) = Some rid then
       (case map_of (pt_reserved t) i of
          None \<Rightarrow> (n, t)
        | Some (p, _) \<Rightarrow> (Suc n, t\<lparr>pt_reserved := AList.delete i (pt_reserved t),
                                   pt_active := AList.update i p (pt_active t)\<rparr>))
     else (n, t))"

definition release_postings :: "posting_id list \<Rightarrow> reservation_id \<Rightarrow> mem_store \<Rightarrow> nat \<times> mem_store" where
  "release_postings ids rid st =
     (let (n, t) = fold (release_one rid) ids (0, ms_postings st) in (n, st\<lparr>ms_postings := t\<rparr>))"

definition deactivate_one ::
  "reservation_id option \<Rightarrow> posting_id \<Rightarrow> nat \<times> posting_tables \<Rightarrow> nat \<times> posting_tables" where
  "deactivate_one r i = (\<lambda>(n, t). case r of
     None \<Rightarrow> if contains_key (pt_active t) i
             then (Suc n, t\<lparr>pt_active := AList.delete i (pt_active t)\<rparr>) else (n, t)
   | Some rid \<Rightarrow> if map_option snd (map_of (pt_reserved t) i) = Some rid
                then (Suc n, t\<lparr>pt_reserved := AList.delete i (pt_reserved t)\<rparr>) else (n, t))"

definition deactivate_postings ::
  "posting_id list \<Rightarrow> reservation_id option \<Rightarrow> mem_store \<Rightarrow> nat \<times> mem_store" where
  "deactivate_postings ids r st =
     (let (n, t) = fold (deactivate_one r) ids (0, ms_postings st) in (n, st\<lparr>ms_postings := t\<rparr>))"

definition insert_one :: "posting \<Rightarrow> nat \<times> posting_tables \<Rightarrow> nat \<times> posting_tables" where
  "insert_one p = (\<lambda>(n, t).
     if contains_key (pt_immutable t) (p_id p) then (n, t)
     else (Suc n, t\<lparr>pt_immutable := AList.update (p_id p) p (pt_immutable t),
                    pt_active := AList.update (p_id p) p (pt_active t)\<rparr>))"

definition insert_postings :: "posting list \<Rightarrow> mem_store \<Rightarrow> nat \<times> mem_store" where
  "insert_postings ps st =
     (let (n, t) = fold insert_one ps (0, ms_postings st) in (n, st\<lparr>ms_postings := t\<rparr>))"

section \<open>Transfers\<close>

definition get_transfer :: "envelope_id \<Rightarrow> mem_store \<Rightarrow> envelope_record option" where
  "get_transfer tid st = map_of (ms_transfers st) tid"

definition store_transfer :: "envelope_record \<Rightarrow> account_id list \<Rightarrow> mem_store \<Rightarrow> nat \<times> mem_store" where
  "store_transfer r involved st =
     (let tid = r_transfer_id (er_receipt r);
          st' = st\<lparr>ms_transfer_accounts := AList.update tid involved (ms_transfer_accounts st)\<rparr>
      in if contains_key (ms_transfers st') tid then (0, st')
         else (1, st'\<lparr>ms_transfers := AList.update tid r (ms_transfers st')\<rparr>))"

definition account_matches :: "i64 \<Rightarrow> i64 option \<Rightarrow> account_id \<Rightarrow> bool" where
  "account_matches i sub ow \<longleftrightarrow> aid_id ow = i \<and> (case sub of None \<Rightarrow> True | Some s \<Rightarrow> aid_sub ow = s)"

definition get_transfers_for_account ::
  "hash_order \<Rightarrow> i64 \<Rightarrow> i64 option \<Rightarrow> mem_store \<Rightarrow> envelope_record list" where
  "get_transfers_for_account h i sub st =
     sort_key er_created_at (ho_records h
       (List.map_filter (\<lambda>(tid, _). map_of (ms_transfers st) tid)
         (filter (\<lambda>(_, accounts). list_ex (account_matches i sub) accounts) (ms_transfer_accounts st))))"

definition query_transfers :: "hash_order \<Rightarrow> transfer_query \<Rightarrow> mem_store \<Rightarrow> envelope_record page" where
  "query_transfers h q st =
     (let cands = (case tq_account q of
            Some a \<Rightarrow> get_transfers_for_account h a (tq_sub q) st
          | None \<Rightarrow> sort_key er_created_at (ho_records h (map snd (ms_transfers st))))
      in paginate (filter_transfers cands q) (tq_offset q) (tq_limit q))"

section \<open>Events\<close>

definition find_event :: "ledger_event_kind \<Rightarrow> ledger_event list \<Rightarrow> ledger_event option" where
  "find_event k evs = (case event_dedup_key k of
     None \<Rightarrow> None
   | Some key \<Rightarrow> List.find (\<lambda>e. event_dedup_key (ev_kind e) = Some key) evs)"

definition append_event_locked ::
  "int \<Rightarrow> ledger_event \<Rightarrow> ledger_event list \<times> auto_id \<Rightarrow> ledger_event list \<times> auto_id" where
  "append_event_locked clock ev = (\<lambda>(evs, g). case find_event (ev_kind ev) evs of
     Some _ \<Rightarrow> (evs, g)
   | None \<Rightarrow> (let (i, g') = ai_next clock g
             in (evs @ [\<lparr>ev_seq = word_of_int i, ev_timestamp = ev_timestamp ev, ev_kind = ev_kind ev\<rparr>], g')))"

definition append_event :: "int \<Rightarrow> ledger_event \<Rightarrow> mem_store \<Rightarrow> u64 \<times> mem_store" where
  "append_event clock ev st = (case find_event (ev_kind ev) (ms_events st) of
     Some existing \<Rightarrow> (ev_seq existing, st)
   | None \<Rightarrow> (let (i, g') = ai_next clock (ms_autoid st); sq = word_of_int i
             in (sq, st\<lparr>ms_events := ms_events st @
                   [\<lparr>ev_seq = sq, ev_timestamp = ev_timestamp ev, ev_kind = ev_kind ev\<rparr>], ms_autoid := g'\<rparr>)))"

definition get_events_since :: "u64 \<Rightarrow> u32 \<Rightarrow> mem_store \<Rightarrow> ledger_event list" where
  "get_events_since after_seq lim st = take (unat lim) (filter (\<lambda>e. ev_seq e > after_seq) (ms_events st))"

section \<open>Atomic commit\<close>

text \<open>The ways a commit stops early: a store error, or a rejection value.\<close>

datatype commit_exit = ExitError store_error | ExitReject commit_rejection

definition account_of :: "mem_store \<Rightarrow> account_id \<Rightarrow> commit_exit + account" where
  "account_of st aid = ok_or (ExitError (Internal (CommitAccountMissing aid))) (head_version st aid)"

definition commit_flag_guard :: "mem_store \<Rightarrow> account_id \<Rightarrow> commit_exit option" where
  "commit_flag_guard st aid = (case account_of st aid of
     Inl x \<Rightarrow> Some x
   | Inr a \<Rightarrow> if is_frozen a then Some (ExitReject (RejectFrozen aid))
             else if is_closed a then Some (ExitReject (RejectClosed aid)) else None)"

definition commit_spend_guard :: "mem_store \<Rightarrow> posting_id \<Rightarrow> commit_exit option" where
  "commit_spend_guard st i =
     (if contains_key (pt_active (ms_postings st)) i then None else Some (ExitReject (DoubleSpend i)))"

definition commit_assets :: "hash_order \<Rightarrow> commit_request \<Rightarrow> mem_store \<Rightarrow> account_id \<Rightarrow> asset_id list" where
  "commit_assets h req st aid = ho_assets h (remdups
     (map p_asset (filter (\<lambda>p. p_owner p = aid) (cr_create req)) @
      map p_asset (filter (\<lambda>p. p_owner p = aid)
        (List.map_filter (map_of (pt_active (ms_postings st))) (cr_consume req)))))"

definition live_after :: "commit_request \<Rightarrow> mem_store \<Rightarrow> account_id \<Rightarrow> asset_id \<Rightarrow> posting list" where
  "live_after req st aid asset = filter (\<lambda>p. p_owner p = aid \<and> p_asset p = asset \<and> p_id p \<notin> set (cr_consume req))
     (map snd (pt_active (ms_postings st)))"

definition created_for :: "commit_request \<Rightarrow> account_id \<Rightarrow> asset_id \<Rightarrow> posting list" where
  "created_for req aid asset = filter (\<lambda>p. p_owner p = aid \<and> p_asset p = asset) (cr_create req)"

definition overflow_exit :: "overflow_error + 'a \<Rightarrow> commit_exit + 'a" where
  "overflow_exit m = map_err (\<lambda>_. ExitError (Internal CommitOverflow)) m"

definition commit_floor_asset ::
  "hash_order \<Rightarrow> commit_request \<Rightarrow> mem_store \<Rightarrow> account_id \<Rightarrow> asset_id \<Rightarrow> commit_exit option" where
  "commit_floor_asset h req st aid asset =
     (case rbind (overflow_exit (checked_sum (map p_value (ho_postings h (live_after req st aid asset))))) (\<lambda>live_sum.
           rbind (overflow_exit (checked_sum (map p_value (created_for req aid asset)))) (\<lambda>created_sum.
           overflow_exit (checked_add live_sum created_sum))) of
        Inl x \<Rightarrow> Some x
      | Inr projected \<Rightarrow>
          if is_negative projected then Some (ExitReject (RejectOverdraft aid asset projected)) else None)"

definition commit_floor_guard ::
  "hash_order \<Rightarrow> commit_request \<Rightarrow> mem_store \<Rightarrow> account_id \<Rightarrow> commit_exit option" where
  "commit_floor_guard h req st aid = (case account_of st aid of
     Inl x \<Rightarrow> Some x
   | Inr a \<Rightarrow> if \<not> forbids_overdraft a then None
             else try_each (commit_floor_asset h req st aid) (commit_assets h req st aid))"

definition commit_guards :: "hash_order \<Rightarrow> commit_request \<Rightarrow> mem_store \<Rightarrow> commit_exit + unit" where
  "commit_guards h req st =
     rbind (guard_each (commit_flag_guard st) (cr_involved req)) (\<lambda>_.
     rbind (guard_each (commit_spend_guard st) (cr_consume req)) (\<lambda>_.
     guard_each (commit_floor_guard h req st) (cr_involved req)))"

definition apply_create :: "posting \<Rightarrow> posting_tables \<Rightarrow> posting_tables" where
  "apply_create p t = t\<lparr>
     pt_immutable := (if contains_key (pt_immutable t) (p_id p) then pt_immutable t
                      else AList.update (p_id p) p (pt_immutable t)),
     pt_active := AList.update (p_id p) p (pt_active t)\<rparr>"

definition commit_tables :: "commit_request \<Rightarrow> posting_tables \<Rightarrow> posting_tables" where
  "commit_tables req t = fold apply_create (cr_create req)
     (fold (\<lambda>i t. t\<lparr>pt_active := AList.delete i (pt_active t)\<rparr>) (cr_consume req) t)"

definition commit_apply :: "int \<Rightarrow> commit_request \<Rightarrow> mem_store \<Rightarrow> mem_store" where
  "commit_apply clock req st =
     (let tid = cr_transfer_id req;
          (evs, g) = append_event_locked clock (cr_event req) (ms_events st, ms_autoid st)
      in st\<lparr>ms_postings := commit_tables req (ms_postings st),
            ms_transfer_accounts := AList.update tid (cr_involved req) (ms_transfer_accounts st),
            ms_transfers := AList.update tid (cr_record req) (ms_transfers st),
            ms_events := evs, ms_autoid := g\<rparr>)"

definition commit_envelope ::
  "hash_order \<Rightarrow> int \<Rightarrow> commit_request \<Rightarrow> mem_store \<Rightarrow> (store_error + commit_outcome) \<times> mem_store" where
  "commit_envelope h clock req st =
     (case map_of (ms_transfers st) (cr_transfer_id req) of
        Some existing \<Rightarrow> (Inr (AlreadyCommitted (er_receipt existing)), st)
      | None \<Rightarrow> (case commit_guards h req st of
            Inl (ExitError e) \<Rightarrow> (Inl e, st)
          | Inl (ExitReject r) \<Rightarrow> (Inr (CommitRejected r), st)
          | Inr _ \<Rightarrow> (Inr (Committed (er_receipt (cr_record req))), commit_apply clock req st)))"

definition with_event :: "int \<Rightarrow> ledger_event \<Rightarrow> mem_store \<Rightarrow> mem_store" where
  "with_event clock ev st = (let (evs, g) = append_event_locked clock ev (ms_events st, ms_autoid st)
     in st\<lparr>ms_events := evs, ms_autoid := g\<rparr>)"

definition commit_transition ::
  "int \<Rightarrow> account \<Rightarrow> ledger_event \<Rightarrow> mem_store \<Rightarrow> (store_error + transition_outcome) \<times> mem_store" where
  "commit_transition clock nxt ev st =
     (let aid = acc_id nxt in
      case map_of (ms_accounts st) aid of
        None \<Rightarrow> (Inl (Internal (TransitionAccountMissing aid)), st)
      | Some versions \<Rightarrow> (case last_opt versions of
          None \<Rightarrow> (Inl (Internal (TransitionNoVersion aid)), st)
        | Some current \<Rightarrow>
            if is_closed current then (Inr (TransitionRejected (AlreadyClosed aid)), st)
            else if acc_version current \<ge> acc_version nxt then (Inr AlreadyApplied, with_event clock ev st)
            else (case checked_succ64 (acc_version current) of
                None \<Rightarrow> (Inl (Internal AccountVersionOverflow), st)
              | Some expected \<Rightarrow>
                  if acc_version nxt \<noteq> expected
                  then (Inr (TransitionRejected (VersionConflict aid (acc_version nxt))), st)
                  else (Inr Applied, with_event clock ev
                         (st\<lparr>ms_accounts := AList.update aid (versions @ [nxt]) (ms_accounts st)\<rparr>)))))"

section \<open>Books\<close>

definition create_book :: "book \<Rightarrow> mem_store \<Rightarrow> nat \<times> mem_store" where
  "create_book b st =
     (if contains_key (ms_books st) (b_id b) then (0, st)
      else (1, st\<lparr>ms_books := AList.update (b_id b) b (ms_books st)\<rparr>))"

definition get_book :: "book_id \<Rightarrow> mem_store \<Rightarrow> store_error + book" where
  "get_book i st = ok_or (NotFound (EntBook i)) (map_of (ms_books st) i)"

definition list_books :: "hash_order \<Rightarrow> mem_store \<Rightarrow> book list" where
  "list_books h st = ho_books h (map snd (ms_books st))"

end
