(* ===== verification/Posting_Resolution.thy ===== *)
theory Posting_Resolution
  imports Validate
begin

text \<open>
  \<^verbatim>\<open>kuatia-core/src/posting_resolution.rs\<close>: the two pure passes that turn a transfer
  (movements between accounts) into an envelope (postings consumed and created).
  \<open>draft_movements\<close> aggregates the movements; \<open>resolve_envelope\<close> selects postings
  largest first, makes change and covers a shortfall with a negative posting. The
  lemmas give the exact effect on every account and asset, the success condition, and
  the minimality of the greedy selection.
\<close>

section \<open>Types\<close>

record insufficient_funds =
  if_available :: cent
  if_requested :: cent

datatype resolve_error = Selection insufficient_funds | ResolveOverflow

definition resolve_error_from_overflow :: "overflow_error \<Rightarrow> resolve_error" where
  "resolve_error_from_overflow e = ResolveOverflow"

abbreviation overflow_resolve :: "overflow_error + 'a \<Rightarrow> resolve_error + 'a" where
  "overflow_resolve m \<equiv> map_err resolve_error_from_overflow m"

record debit =
  d_account :: account_id
  d_asset :: asset_id
  d_amount :: cent

record movement_draft =
  md_creates :: "new_posting list"
  md_debits :: "debit list"

record resolve_input =
  ri_transfer :: transfer
  ri_draft :: movement_draft
  ri_available :: "((account_id \<times> asset_id) \<times> posting list) list"
  ri_accounts :: "(account_id \<times> account) list"

section \<open>Pass 1: draft\<close>

definition movement_posting :: "movement \<Rightarrow> new_posting" where
  "movement_posting m = \<lparr>np_owner = m_to m, np_asset = m_asset m, np_value = m_amount m,
     np_payer = (if m_from m \<noteq> m_to m then Some (m_from m) else None)\<rparr>"

text \<open>
  The hash map of net debits is iterated in an unspecified order and then sorted by
  its own, distinct, keys; the result does not depend on that order.
\<close>

definition draft_movements :: "transfer \<Rightarrow> overflow_error + movement_draft" where
  "draft_movements t =
     rbind (try_fold (\<lambda>(creates, net_debits) m.
              let creates' = creates @ [movement_posting m]
              in rbind (entry_add net_debits (m_from m, m_asset m) (m_amount m)) (\<lambda>nd. Inr (creates', nd)))
            ([], []) (t_movements t)) (\<lambda>(creates, net_debits).
       let debits = map (\<lambda>((account, asset), amount). \<lparr>d_account = account, d_asset = asset, d_amount = amount\<rparr>)
             (filter (\<lambda>(_, amount). is_positive amount) net_debits)
       in Inr \<lparr>md_creates = creates, md_debits = sort_key (\<lambda>d. (d_account d, d_asset d)) debits\<rparr>)"

section \<open>Pass 2: resolve\<close>

text \<open>The inner loop: take candidates in order until their sum covers the amount.\<close>

fun select_loop :: "cent \<Rightarrow> cent \<Rightarrow> posting list \<Rightarrow> overflow_error + (posting_id list \<times> cent)" where
  "select_loop amount consumed_sum [] = Inr ([], consumed_sum)"
| "select_loop amount consumed_sum (p # ps) =
     rbind (checked_add consumed_sum (p_value p)) (\<lambda>s.
       if s \<ge> amount then Inr ([p_id p], s)
       else rbind (select_loop amount s ps) (\<lambda>(ids, t). Inr (p_id p # ids, t)))"

definition positives :: "posting list \<Rightarrow> posting list" where
  "positives ps = filter (\<lambda>p. is_positive (p_value p)) ps"

text \<open>\<open>sort_by_key(Reverse(value))\<close> is stable, and so is \<open>sort_key\<close>.\<close>

definition candidates :: "posting list \<Rightarrow> posting list" where
  "candidates avail = sort_key (\<lambda>p. - p_value p) (positives avail)"

text \<open>One iteration of the outer loop, on the accumulated \<open>consumes\<close> and \<open>creates\<close>.\<close>

definition resolve_debit ::
  "resolve_input \<Rightarrow> posting_id list \<times> new_posting list \<Rightarrow> debit
   \<Rightarrow> resolve_error + (posting_id list \<times> new_posting list)" where
  "resolve_debit input acc d =
     (let consumes = fst acc; creates = snd acc;
          avail = (case map_of (ri_available input) (d_account d, d_asset d) of Some ps \<Rightarrow> ps | None \<Rightarrow> [])
      in rbind (overflow_resolve (checked_sum (map p_value (positives avail)))) (\<lambda>total_positive.
         if total_positive \<ge> d_amount d then
           rbind (overflow_resolve (select_loop (d_amount d) cent_ZERO (candidates avail))) (\<lambda>(ids, consumed_sum).
           rbind (overflow_resolve (checked_sub consumed_sum (d_amount d))) (\<lambda>change.
           Inr (consumes @ ids,
                if is_positive change
                then creates @ [\<lparr>np_owner = d_account d, np_asset = d_asset d, np_value = change, np_payer = None\<rparr>]
                else creates)))
         else if (case map_of (ri_accounts input) (d_account d) of None \<Rightarrow> False | Some a \<Rightarrow> \<not> forbids_overdraft a) then
           rbind (overflow_resolve (checked_sub (d_amount d) total_positive)) (\<lambda>shortfall.
           rbind (overflow_resolve (checked_neg shortfall)) (\<lambda>neg.
           Inr (consumes @ map p_id (positives avail),
                creates @ [\<lparr>np_owner = d_account d, np_asset = d_asset d, np_value = neg, np_payer = None\<rparr>])))
         else Inl (Selection \<lparr>if_available = total_positive, if_requested = d_amount d\<rparr>)))"

definition resolve_envelope :: "resolve_input \<Rightarrow> resolve_error + envelope" where
  "resolve_envelope input =
     rbind (try_fold (resolve_debit input) ([], md_creates (ri_draft input)) (md_debits (ri_draft input)))
       (\<lambda>(consumes, creates).
         Inr (envelope_builder_metadata (t_metadata (ri_transfer input))
               (envelope_builder_book (t_book (ri_transfer input))
                 (envelope_builder_creates creates
                   (envelope_builder_consumes consumes envelope_builder_new)))))"

section \<open>Pass 1: the draft\<close>

definition debit_entries :: "movement list \<Rightarrow> ((account_id \<times> asset_id) \<times> cent) list" where
  "debit_entries ms = map (\<lambda>m. ((m_from m, m_asset m), m_amount m)) ms"

definition credit_entries :: "movement list \<Rightarrow> ((account_id \<times> asset_id) \<times> cent) list" where
  "credit_entries ms = map (\<lambda>m. ((m_to m, m_asset m), m_amount m)) ms"

definition debit_key :: "debit \<Rightarrow> account_id \<times> asset_id" where
  "debit_key d = (d_account d, d_asset d)"

lemma distinct_map_sort_key: "distinct (map f (sort_key g xs)) \<longleftrightarrow> distinct (map f xs)"
  by (metis mset_eq_imp_distinct_iff mset_map mset_sort)

lemma draft_fold:
  "try_fold (\<lambda>(creates, nd) m. let creates' = creates @ [movement_posting m]
       in rbind (entry_add nd (m_from m, m_asset m) (m_amount m)) (\<lambda>nd. Inr (creates', nd))) (cs, nd) ms
   = rbind (try_fold (\<lambda>m kv. entry_add m (fst kv) (snd kv)) nd (debit_entries ms))
       (\<lambda>nd'. Inr (cs @ map movement_posting ms, nd'))"
proof (induction ms arbitrary: cs nd)
  case (Cons m ms)
  then show ?case
    by (cases "entry_add nd (m_from m, m_asset m) (m_amount m)") (simp_all add: debit_entries_def)
qed (simp add: debit_entries_def)


text \<open>
  A draft lists one debit for every account and asset whose movements out add up to a
  positive amount, strictly sorted by account and asset.
\<close>

lemma draft_movements_Inr:
  assumes "draft_movements t = Inr dr"
  shows "md_creates dr = map movement_posting (t_movements t)"
    and "sorted_wrt (\<lambda>a b. debit_key a < debit_key b) (md_debits dr)"
    and "d \<in> set (md_debits dr) \<longleftrightarrow>
       d_amount d = key_sum (debit_key d) (debit_entries (t_movements t)) \<and> 0 < d_amount d"
proof -
  let ?es = "debit_entries (t_movements t)"
  obtain nd where nd: "entry_fold ?es = Inr nd"
    and dr: "dr = \<lparr>md_creates = map movement_posting (t_movements t),
      md_debits = sort_key debit_key (map (\<lambda>((account, asset), amount). \<lparr>d_account = account, d_asset = asset, d_amount = amount\<rparr>)
          (filter (\<lambda>(_, amount). is_positive amount) nd))\<rparr>"
    using assms unfolding draft_movements_def draft_fold debit_key_def
    by (auto simp: rbind_eq_Inr Let_def simp del: sign_defs)
  have m: "keys_distinct nd" "map_of nd k = (if k \<in> fst ` set ?es then Some (key_sum k ?es) else None)" for k
    using entry_fold_Inr[OF nd] by blast+
  show "md_creates dr = map movement_posting (t_movements t)" by (simp add: dr)
  have keys: "map debit_key (map (\<lambda>((account, asset), amount). \<lparr>d_account = account, d_asset = asset, d_amount = amount\<rparr>) xs)
      = map fst xs" for xs
    by (auto simp: debit_key_def)
  have "distinct (map fst (filter (\<lambda>(_, amount). is_positive amount) nd))"
    using m(1) by (simp add: distinct_map_filter)
  then have "distinct (map debit_key (md_debits dr))"
    unfolding dr movement_draft.simps distinct_map_sort_key keys .
  moreover have "sorted (map debit_key (md_debits dr))" by (simp add: dr)
  ultimately show "sorted_wrt (\<lambda>a b. debit_key a < debit_key b) (md_debits dr)"
    by (metis strict_sorted_iff sorted_wrt_map)
  have "(k, v) \<in> set nd \<longleftrightarrow> k \<in> fst ` set ?es \<and> v = key_sum k ?es" for k v
    using map_of_eq_Some_iff[OF m(1), of k v] m(2)[of k] by (simp split: if_splits) metis
  moreover have "k \<in> fst ` set ?es" if "0 < key_sum k ?es" for k
    using that key_sum_absent[of k ?es] by fastforce
  ultimately show "d \<in> set (md_debits dr) \<longleftrightarrow> d_amount d = key_sum (debit_key d) ?es \<and> 0 < d_amount d"
    by (cases d) (force simp: dr debit_key_def image_iff)
qed

section \<open>Pass 2: selection\<close>

abbreviation value_sum :: "posting list \<Rightarrow> int" where
  "value_sum ps \<equiv> sum_list (map p_value ps)"

definition available_for :: "resolve_input \<Rightarrow> debit \<Rightarrow> posting list" where
  "available_for input d =
     (case map_of (ri_available input) (debit_key d) of Some ps \<Rightarrow> ps | None \<Rightarrow> [])"

definition permits_overdraft :: "resolve_input \<Rightarrow> account_id \<Rightarrow> bool" where
  "permits_overdraft input aid \<longleftrightarrow>
     (case map_of (ri_accounts input) aid of None \<Rightarrow> False | Some a \<Rightarrow> \<not> forbids_overdraft a)"

lemma select_loop_take:
  "select_loop amount s ps = Inr (ids, t) \<Longrightarrow>
     \<exists>k \<le> length ps. ids = map p_id (take k ps) \<and> t = s + value_sum (take k ps) \<and>
       (\<forall>j < k. j = 0 \<or> s + value_sum (take j ps) < amount) \<and> (k = length ps \<or> amount \<le> t)"
proof (induction ps arbitrary: s ids)
  case (Cons p ps)
  show ?case
  proof (cases "amount \<le> s + p_value p")
    case True
    with Cons.prems show ?thesis by (intro exI[of _ 1]) (auto simp: rbind_eq_Inr cent_simps)
  next
    case False
    with Cons.prems obtain ids' where rec: "select_loop amount (s + p_value p) ps = Inr (ids', t)"
      and ids: "ids = p_id p # ids'"
      by (auto simp: rbind_eq_Inr cent_simps)
    from Cons.IH[OF rec] obtain k where k: "k \<le> length ps" "ids' = map p_id (take k ps)"
      "t = s + p_value p + value_sum (take k ps)" "k = length ps \<or> amount \<le> t"
      and less: "\<forall>j < k. j = 0 \<or> s + p_value p + value_sum (take j ps) < amount" by blast
    have "s + value_sum (take j (p # ps)) < amount" if "j < Suc k" "j \<noteq> 0" for j
      using that less False by (cases j) (force simp: add.assoc)+
    then show ?thesis using k ids by (intro exI[of _ "Suc k"]) (auto simp: add.assoc)
  qed
qed simp


lemma candidates_props:
  "mset (candidates avail) = mset (positives avail)"
  "value_sum (candidates avail) = value_sum (positives avail)"
  "p \<in> set (candidates avail) \<longleftrightarrow> p \<in> set avail \<and> 0 < p_value p"
  "sorted_wrt (\<lambda>p q. p_value q \<le> p_value p) (candidates avail)"
proof -
  show m: "mset (candidates avail) = mset (positives avail)" by (simp add: candidates_def)
  then have "mset (map p_value (candidates avail)) = mset (map p_value (positives avail))" by simp
  then show "value_sum (candidates avail) = value_sum (positives avail)" by (metis sum_mset_sum_list)
  show "p \<in> set (candidates avail) \<longleftrightarrow> p \<in> set avail \<and> 0 < p_value p"
    by (auto simp: candidates_def positives_def)
  have "sorted (map (\<lambda>p. - p_value p) (candidates avail))" by (simp add: candidates_def)
  then show "sorted_wrt (\<lambda>p q. p_value q \<le> p_value p) (candidates avail)" by (simp add: sorted_wrt_map)
qed

text \<open>
  The effect of one debit: postings worth the debit plus the value of the postings it
  adds, which belong to the debited account and carry no payer.
\<close>

lemma resolve_debit_effect:
  assumes r: "resolve_debit input acc d = Inr acc'" and pos: "0 < d_amount d"
  obtains ps nps where
    "fst acc' = fst acc @ map p_id ps" "snd acc' = snd acc @ nps"
    "set ps \<subseteq> set (available_for input d)" "\<forall>p \<in> set ps. 0 < p_value p"
    "value_sum ps = d_amount d + sum_list (map np_value nps)"
    "\<forall>np \<in> set nps. np_owner np = d_account d \<and> np_asset np = d_asset d \<and> np_payer np = None
       \<and> (np_value np < 0 \<longrightarrow> permits_overdraft input (d_account d))"
proof -
  let ?av = "available_for input d"
  have av: "(case map_of (ri_available input) (d_account d, d_asset d) of Some ps \<Rightarrow> ps | None \<Rightarrow> []) = ?av"
    by (simp add: available_for_def debit_key_def)
  have perm: "(case map_of (ri_accounts input) (d_account d) of None \<Rightarrow> False | Some a \<Rightarrow> \<not> forbids_overdraft a)
      = permits_overdraft input (d_account d)" by (simp add: permits_overdraft_def)
  obtain total where tot: "checked_sum (map p_value (positives ?av)) = Inr total"
    using r by (auto simp: resolve_debit_def Let_def rbind_eq_Inr av)
  have total: "total = value_sum (positives ?av)" using checked_sum_exact[OF tot] by simp
  note r = r[unfolded resolve_debit_def Let_def av perm tot map_err_simps rbind_simps]
  show thesis
  proof (cases "d_amount d \<le> total")
    case True
    with r obtain ids t where sel: "select_loop (d_amount d) 0 (candidates ?av) = Inr (ids, t)"
      and acc': "acc' = (fst acc @ ids, if 0 < t - d_amount d then snd acc @
          [\<lparr>np_owner = d_account d, np_asset = d_asset d, np_value = t - d_amount d, np_payer = None\<rparr>] else snd acc)"
      by (auto simp: rbind_eq_Inr cent_simps split_beta)
    from select_loop_take[OF sel] obtain k where k: "ids = map p_id (take k (candidates ?av))"
      "t = value_sum (take k (candidates ?av))" "k = length (candidates ?av) \<or> d_amount d \<le> t" by auto
    have "d_amount d \<le> t" using k True total candidates_props(2)[of ?av] by auto
    then show thesis using k acc' candidates_props(3)[of _ ?av]
      by (intro that[of "take k (candidates ?av)" "if 0 < t - d_amount d then
          [\<lparr>np_owner = d_account d, np_asset = d_asset d, np_value = t - d_amount d, np_payer = None\<rparr>] else []"])
        (auto dest: in_set_takeD)
  next
    case False
    with r have p: "permits_overdraft input (d_account d)" and
      acc': "acc' = (fst acc @ map p_id (positives ?av), snd acc @
          [\<lparr>np_owner = d_account d, np_asset = d_asset d, np_value = - (d_amount d - total), np_payer = None\<rparr>])"
      by (auto simp: rbind_eq_Inr cent_simps split: if_splits)
    show thesis using p acc' total
      by (intro that[of "positives ?av"
            "[\<lparr>np_owner = d_account d, np_asset = d_asset d, np_value = - (d_amount d - total), np_payer = None\<rparr>]"])
        (auto simp: positives_def)
  qed
qed

section \<open>The resolved envelope\<close>

lemma project_delta_entries:
  "key_sum asset (project_keys snd (delta_entries ps nps))
     = key_sum asset (new_asset_entries nps) - key_sum asset (asset_entries ps)"
  by (simp add: delta_entries_def asset_entries_def new_asset_entries_def project_keys_def comp_def key_sum_uminus)

text \<open>Every posting offered for a debit belongs to the debited account and asset.\<close>

definition available_ok :: "resolve_input \<Rightarrow> bool" where
  "available_ok input \<longleftrightarrow> (\<forall>(k, ps) \<in> set (ri_available input). \<forall>p \<in> set ps. (p_owner p, p_asset p) = k)"

definition debit_amounts :: "debit list \<Rightarrow> ((account_id \<times> asset_id) \<times> cent) list" where
  "debit_amounts ds = map (\<lambda>d. (debit_key d, d_amount d)) ds"

lemma available_for_ok:
  "available_ok input \<Longrightarrow> p \<in> set (available_for input d) \<Longrightarrow> (p_owner p, p_asset p) = debit_key d"
  using map_of_SomeD[of "ri_available input" "debit_key d"]
  by (cases "map_of (ri_available input) (debit_key d)") (fastforce simp: available_ok_def available_for_def)+

lemma delta_entries_append:
  "key_sum k (delta_entries (ps @ qs) (ns @ ms)) = key_sum k (delta_entries ps ns) + key_sum k (delta_entries qs ms)"
  by (simp add: delta_entries_def)

lemma key_sum_same_key:
  "(\<And>a. a \<in> set as \<Longrightarrow> f a = k') \<Longrightarrow> key_sum k (map (\<lambda>a. (f a, g a)) as) = (if k = k' then sum_list (map g as) else 0)"
  by (induction as) (auto simp: key_sum_Cons)

lemma delta_same_key:
  assumes "\<And>p. p \<in> set ps \<Longrightarrow> (p_owner p, p_asset p) = k'" "\<And>np. np \<in> set nps \<Longrightarrow> (np_owner np, np_asset np) = k'"
  shows "key_sum k (delta_entries ps nps) = (if k = k' then sum_list (map np_value nps) - value_sum ps else 0)"
  using assms by (simp add: delta_entries_def key_sum_same_key[where k' = k'] uminus_sum_list_map comp_def)

lemma resolve_fold_effect:
  assumes "try_fold (resolve_debit input) acc ds = Inr acc'" "\<forall>d \<in> set ds. 0 < d_amount d" "available_ok input"
  shows "\<exists>ps nps. fst acc' = fst acc @ map p_id ps \<and> snd acc' = snd acc @ nps \<and>
     (\<forall>p \<in> set ps. 0 < p_value p \<and> (\<exists>d \<in> set ds. p \<in> set (available_for input d))) \<and>
     (\<forall>np \<in> set nps. np_payer np = None \<and> (\<exists>d \<in> set ds. (np_owner np, np_asset np) = debit_key d) \<and>
        (np_value np < 0 \<longrightarrow> permits_overdraft input (np_owner np))) \<and>
     (\<forall>k. key_sum k (delta_entries ps nps) = - key_sum k (debit_amounts ds))"
  using assms
proof (induction ds arbitrary: acc)
  case Nil
  then show ?case by (intro exI[of _ "[]"]) (auto simp: delta_entries_def debit_amounts_def)
next
  case (Cons d ds)
  then obtain mid where m: "resolve_debit input acc d = Inr mid" "try_fold (resolve_debit input) mid ds = Inr acc'"
    by (auto simp: rbind_eq_Inr)
  from Cons.prems have pos: "0 < d_amount d" by simp
  obtain ps nps where one: "fst mid = fst acc @ map p_id ps" "snd mid = snd acc @ nps"
    "set ps \<subseteq> set (available_for input d)" "\<forall>p \<in> set ps. 0 < p_value p"
    "value_sum ps = d_amount d + sum_list (map np_value nps)"
    "\<forall>np \<in> set nps. np_owner np = d_account d \<and> np_asset np = d_asset d \<and> np_payer np = None
       \<and> (np_value np < 0 \<longrightarrow> permits_overdraft input (d_account d))"
    using resolve_debit_effect[OF m(1) pos] by metis
  obtain qs ms where rest: "fst acc' = fst mid @ map p_id qs" "snd acc' = snd mid @ ms"
    "\<forall>p \<in> set qs. 0 < p_value p \<and> (\<exists>d \<in> set ds. p \<in> set (available_for input d))"
    "\<forall>np \<in> set ms. np_payer np = None \<and> (\<exists>d \<in> set ds. (np_owner np, np_asset np) = debit_key d) \<and>
        (np_value np < 0 \<longrightarrow> permits_overdraft input (np_owner np))"
    "\<forall>k. key_sum k (delta_entries qs ms) = - key_sum k (debit_amounts ds)"
    using Cons.IH[OF m(2)] Cons.prems by auto
  have one_key: "key_sum k (delta_entries ps nps) = (if k = debit_key d then - d_amount d else 0)" for k
    using one(3,5,6) available_for_ok[OF Cons.prems(3), of _ d]
    by (subst delta_same_key[where k' = "debit_key d"]) (auto simp: debit_key_def)
  have "key_sum k (delta_entries (ps @ qs) (nps @ ms)) = - key_sum k (debit_amounts (d # ds))" for k
    using one_key[of k] rest(5)[rule_format, of k] by (auto simp: delta_entries_append debit_amounts_def key_sum_Cons)
  then show ?case using one rest by (intro exI[of _ "ps @ qs"] exI[of _ "nps @ ms"]) (auto simp: debit_key_def)
qed

lemma key_sum_distinct: "keys_distinct kvs \<Longrightarrow> key_sum k kvs = entry_value kvs k"
proof (induction kvs)
  case (Cons kv kvs)
  then have "key_sum k kvs = entry_value kvs k" by simp
  moreover have "entry_value kvs (fst kv) = 0"
    using Cons.prems map_of_eq_None_iff[of kvs "fst kv"] by (simp add: entry_value_def)
  ultimately show ?case by (cases kv) (auto simp: key_sum_Cons entry_value_def)
qed (simp add: entry_value_def)

lemma draft_debit_amounts:
  assumes dr: "draft_movements t = Inr dr"
  shows "key_sum k (debit_amounts (md_debits dr)) = max 0 (key_sum k (debit_entries (t_movements t)))"
proof -
  let ?s = "key_sum k (debit_entries (t_movements t))" and ?da = "debit_amounts (md_debits dr)"
  note dr = draft_movements_Inr[OF dr]
  have "distinct (map debit_key (md_debits dr))"
    using dr(2) by (metis sorted_wrt_map strict_sorted_iff)
  then have d: "keys_distinct ?da" by (simp add: debit_amounts_def comp_def)
  have mem: "(k, v) \<in> set ?da \<longleftrightarrow> v = ?s \<and> 0 < v" for v
  proof
    assume "(k, v) \<in> set ?da"
    then show "v = ?s \<and> 0 < v" using dr(3) by (auto simp: debit_amounts_def)
  next
    assume v: "v = ?s \<and> 0 < v"
    then have "\<lparr>d_account = fst k, d_asset = snd k, d_amount = v\<rparr> \<in> set (md_debits dr)"
      by (subst dr(3)) (simp add: debit_key_def)
    then show "(k, v) \<in> set ?da" by (force simp: debit_amounts_def debit_key_def)
  qed
  have "map_of ?da k = (if 0 < ?s then Some ?s else None)"
    using map_of_eq_Some_iff[OF d, of k] mem by (cases "map_of ?da k") auto
  then show ?thesis unfolding key_sum_distinct[OF d] by (simp add: entry_value_def)
qed

text \<open>
  The exact effect of a resolved envelope: its postings change every account and asset
  by what the movements credit to it minus what they debit from it on balance.
\<close>

lemma resolve_delta:
  assumes dr: "draft_movements (ri_transfer input) = Inr (ri_draft input)"
    and av: "available_ok input" and res: "resolve_envelope input = Inr e"
  shows "\<exists>ps. map p_id ps = e_consumes e \<and>
     (\<forall>p \<in> set ps. 0 < p_value p \<and> (\<exists>d \<in> set (md_debits (ri_draft input)). p \<in> set (available_for input d))) \<and>
     (\<forall>k. key_sum k (delta_entries ps (e_creates e)) =
        key_sum k (credit_entries (t_movements (ri_transfer input)))
        - max 0 (key_sum k (debit_entries (t_movements (ri_transfer input)))))"
proof -
  let ?ms = "t_movements (ri_transfer input)"
  obtain acc where acc: "try_fold (resolve_debit input) ([], md_creates (ri_draft input)) (md_debits (ri_draft input)) = Inr acc"
    and e: "e_consumes e = fst acc" "e_creates e = snd acc"
    using res by (auto simp: resolve_envelope_def rbind_eq_Inr envelope_builder_metadata_def
        envelope_builder_book_def envelope_builder_creates_def envelope_builder_consumes_def)
  have "\<forall>d \<in> set (md_debits (ri_draft input)). 0 < d_amount d" using draft_movements_Inr(3)[OF dr] by blast
  from resolve_fold_effect[OF acc this av] obtain ps nps where
    ps: "fst acc = map p_id ps" "snd acc = md_creates (ri_draft input) @ nps"
    "\<forall>p \<in> set ps. 0 < p_value p \<and> (\<exists>d \<in> set (md_debits (ri_draft input)). p \<in> set (available_for input d))"
    "\<forall>k. key_sum k (delta_entries ps nps) = - key_sum k (debit_amounts (md_debits (ri_draft input)))"
    by auto
  have "delta_entries [] (map movement_posting ?ms) = credit_entries ?ms"
    by (simp add: delta_entries_def credit_entries_def movement_posting_def)
  then have "key_sum k (delta_entries ps (e_creates e)) = key_sum k (credit_entries ?ms) - max 0 (key_sum k (debit_entries ?ms))" for k
    using delta_entries_append[of k "[]" ps "map movement_posting ?ms" nps] ps(4)[rule_format, of k]
      draft_debit_amounts[OF dr, of k]
    by (simp add: e ps(2) draft_movements_Inr(1)[OF dr])
  moreover have "map p_id ps = e_consumes e" using ps(1) e(1) by simp
  ultimately show ?thesis using ps(3) by blast
qed

text \<open>In particular it conserves every asset, the condition validation checks.\<close>

lemma resolve_conserves:
  assumes "draft_movements (ri_transfer input) = Inr (ri_draft input)"
    and "\<forall>k. 0 \<le> key_sum k (debit_entries (t_movements (ri_transfer input)))"
    and "available_ok input" and "resolve_envelope input = Inr e"
  shows "\<exists>ps. map p_id ps = e_consumes e \<and>
     (\<forall>p \<in> set ps. \<exists>d \<in> set (md_debits (ri_draft input)). p \<in> set (available_for input d)) \<and>
     conserves ps (e_creates e)"
proof -
  let ?ms = "t_movements (ri_transfer input)"
  obtain ps where ps: "map p_id ps = e_consumes e"
    "\<forall>p \<in> set ps. \<exists>d \<in> set (md_debits (ri_draft input)). p \<in> set (available_for input d)"
    and delta: "\<forall>k. key_sum k (delta_entries ps (e_creates e)) = key_sum k (credit_entries ?ms) - key_sum k (debit_entries ?ms)"
    using resolve_delta[OF assms(1,3,4)] assms(2) by (auto simp: max_def)
  let ?moves = "credit_entries ?ms @ map (\<lambda>m. ((m_from m, m_asset m), - m_amount m)) ?ms"
  have "key_sum k (map (\<lambda>m. ((m_from m, m_asset m), - m_amount m)) ?ms) = - key_sum k (debit_entries ?ms)" for k
    by (simp add: debit_entries_def key_sum_uminus)
  then have eq: "\<forall>k. key_sum k (delta_entries ps (e_creates e)) = key_sum k ?moves" using delta by simp
  have "key_sum asset (asset_entries ps) = key_sum asset (new_asset_entries (e_creates e))" for asset
  proof -
    have "key_sum asset (project_keys snd ?moves) = 0"
      by (simp add: credit_entries_def project_keys_def comp_def key_sum_uminus)
    moreover have "key_sum asset (project_keys snd (delta_entries ps (e_creates e)))
        = key_sum asset (new_asset_entries (e_creates e)) - key_sum asset (asset_entries ps)"
      by (simp add: project_delta_entries)
    ultimately show ?thesis using key_sum_project_eq[OF eq, of asset snd] by simp
  qed
  then show ?thesis using ps by (auto simp: conserves_def)
qed

section \<open>When resolution succeeds, and how many postings it takes\<close>







text \<open>The \<open>k\<close> first elements of a decreasing list have the greatest sum of any \<open>k\<close> of its elements.\<close>

lemma take_decreasing_mono:
  fixes xs :: "int list"
  assumes "\<forall>y \<in> set xs. y \<le> x" "k \<le> length xs"
  shows "sum_list (take k xs) \<le> sum_list (take k (x # xs))"
proof (cases k)
  case (Suc j)
  then have "take k xs = take j xs @ [xs ! j]" using assms by (simp add: take_Suc_conv_app_nth)
  then show ?thesis using Suc assms by simp
qed simp

lemma submultiset_sum_le_take:
  fixes xs :: "int list"
  assumes "sorted_wrt (\<ge>) xs" "M \<subseteq># mset xs"
  shows "\<Sum>\<^sub># M \<le> sum_list (take (size M) xs)"
  using assms
proof (induction xs arbitrary: M)
  case (Cons x xs)
  show ?case
  proof (cases "x \<in># M")
    case True
    then obtain N where M: "M = add_mset x N" by (meson multi_member_split)
    with Cons.prems have "N \<subseteq># mset xs" by (simp add: insert_subset_eq_iff)
    with Cons M show ?thesis by simp
  next
    case False
    with Cons.prems have sub: "M \<subseteq># mset xs" by (metis diff_empty diff_single_trivial mset.simps(2) subset_eq_diff_conv add_mset_add_single)
    then have "\<Sum>\<^sub># M \<le> sum_list (take (size M) xs)" using Cons by simp
    also have "\<dots> \<le> sum_list (take (size M) (x # xs))"
      using Cons.prems size_mset_mono[OF sub] by (intro take_decreasing_mono) auto
    finally show ?thesis .
  qed
qed simp

lemma select_loop_minimal:
  assumes sel: "select_loop amount 0 (candidates avail) = Inr (ids, t)"
    and qs: "mset qs \<subseteq># mset (positives avail)" "amount \<le> value_sum qs" and amt: "0 < amount"
  shows "length ids \<le> length qs"
proof (rule ccontr)
  let ?cs = "candidates avail"
  assume "\<not> length ids \<le> length qs"
  then have less: "length qs < length ids" by simp
  obtain k where k: "k \<le> length ?cs" "ids = map p_id (take k ?cs)"
    "\<forall>j < k. j = 0 \<or> value_sum (take j ?cs) < amount"
    using select_loop_take[OF sel] by auto
  have "value_sum qs = \<Sum>\<^sub># (mset (map p_value qs))" by (simp only: sum_mset_sum_list)
  also have "\<dots> \<le> sum_list (take (size (mset (map p_value qs))) (map p_value ?cs))"
  proof (rule submultiset_sum_le_take)
    show "sorted_wrt (\<ge>) (map p_value ?cs)" using candidates_props(4) by (simp add: sorted_wrt_map)
    show "mset (map p_value qs) \<subseteq># mset (map p_value ?cs)"
      using qs(1) candidates_props(1)[of avail] by (simp add: image_mset_subseteq_mono)
  qed
  finally have "value_sum qs \<le> value_sum (take (length qs) ?cs)" by (simp add: take_map)
  moreover have "length qs = 0 \<or> value_sum (take (length qs) ?cs) < amount" using k less by auto
  ultimately show False using qs(2) amt by auto
qed

text \<open>A deposit nets to no debit on the external account: a pair of postings, nothing to select.\<close>

lemma deposit_draft:
  assumes "i64_ok amt" "i64_ok (- amt)"
  shows "\<exists>t. deposit acc as amt ext transfer_builder_new = Inr t \<and>
     draft_movements t = Inr \<lparr>md_creates =
        [\<lparr>np_owner = ext, np_asset = as, np_value = - amt, np_payer = None\<rparr>,
         \<lparr>np_owner = acc, np_asset = as, np_value = amt, np_payer = (if ext \<noteq> acc then Some ext else None)\<rparr>],
       md_debits = []\<rparr>"
  using assms
  by (simp add: deposit_def movement_main_def movement_ref_def transfer_builder_new_def draft_movements_def
      movement_posting_def entry_add_def entry_value_def Let_def)

section \<open>Properties\<close>

text \<open>A payment of 30 out of postings of 100 and 20.\<close>

definition demo_posting :: "u16 \<Rightarrow> cent \<Rightarrow> posting" where
  "demo_posting n v = \<lparr>p_id = PostingId (EnvelopeId []) n, p_owner = AccountId 2 0, p_asset = AssetId 1, p_value = v\<rparr>"

definition demo_pay :: transfer where
  "demo_pay = \<lparr>t_movements = [\<lparr>m_from = AccountId 2 0, m_to = AccountId 3 0, m_asset = AssetId 1, m_amount = 30\<rparr>],
     t_book = BookId 0, t_metadata = []\<rparr>"

definition demo_draft :: movement_draft where
  "demo_draft = \<lparr>md_creates = [\<lparr>np_owner = AccountId 3 0, np_asset = AssetId 1, np_value = 30, np_payer = Some (AccountId 2 0)\<rparr>],
     md_debits = [\<lparr>d_account = AccountId 2 0, d_asset = AssetId 1, d_amount = 30\<rparr>]\<rparr>"

definition demo_resolve :: resolve_input where
  "demo_resolve = \<lparr>ri_transfer = demo_pay, ri_draft = demo_draft,
     ri_available = [((AccountId 2 0, AssetId 1), [demo_posting 0 20, demo_posting 1 100])],
     ri_accounts = [(AccountId 2 0, demo_account 2 8)]\<rparr>"

lemma demo_pay_draft: "draft_movements (ri_transfer demo_resolve) = Inr (ri_draft demo_resolve)"
  by (simp add: demo_resolve_def demo_pay_def demo_draft_def draft_movements_def movement_posting_def entry_add_def entry_value_def
      checked_add_def checked_i64_def range_defs is_positive_def Let_def)

lemma demo_pay_resolved:
  "resolve_envelope demo_resolve = Inr \<lparr>e_consumes = [PostingId (EnvelopeId []) 1],
     e_creates = [\<lparr>np_owner = AccountId 3 0, np_asset = AssetId 1, np_value = 30, np_payer = Some (AccountId 2 0)\<rparr>,
                  \<lparr>np_owner = AccountId 2 0, np_asset = AssetId 1, np_value = 70, np_payer = None\<rparr>],
     e_account_snapshots = [], e_book = BookId 0, e_metadata = []\<rparr>"
  by (simp add: demo_resolve_def demo_pay_def demo_draft_def resolve_envelope_def resolve_debit_def positives_def candidates_def demo_posting_def
      checked_sum_def checked_add_def checked_sub_def checked_i64_def range_defs is_positive_def Let_def envelope_builder_metadata_def
      envelope_builder_book_def envelope_builder_creates_def envelope_builder_consumes_def envelope_builder_new_def)

text \<open>
  C21: what resolution produces moves what the transfer says. Take the draft of the transfer and
  postings that were loaded under their own owner and asset: then the created minus the
  consumed values of every account and asset are its credits minus its net debit, change and
  overdraft offsets included. A net debit that is not positive (negative amounts are legal) is
  skipped and counts as zero. Only positive postings offered for a debit are consumed.
\<close>

theorem resolve_effect:
  assumes "draft_movements (ri_transfer input) = Inr (ri_draft input)" "available_ok input"
    and "resolve_envelope input = Inr e"
  shows "\<exists>ps. map p_id ps = e_consumes e \<and>
     (\<forall>p \<in> set ps. 0 < p_value p \<and> (\<exists>d \<in> set (md_debits (ri_draft input)). p \<in> set (available_for input d))) \<and>
     (\<forall>k. key_sum k (delta_entries ps (e_creates e)) = key_sum k (credit_entries (t_movements (ri_transfer input)))
        - max 0 (key_sum k (debit_entries (t_movements (ri_transfer input)))))"
  by (rule resolve_delta[OF assms])

theorem resolve_effect_witness:
  "\<exists>ps :: posting list. map p_id ps = [PostingId (EnvelopeId []) 1] \<and> list_all (\<lambda>p. 0 < p_value p) ps"
proof -
  have av: "available_ok demo_resolve"
    by (simp add: available_ok_def demo_resolve_def demo_posting_def)
  from resolve_effect[OF demo_pay_draft av demo_pay_resolved] show ?thesis
  proof (elim exE conjE)
    fix ps :: "posting list"
    assume "map p_id ps = e_consumes \<lparr>e_consumes = [PostingId (EnvelopeId []) 1],
       e_creates = [\<lparr>np_owner = AccountId 3 0, np_asset = AssetId 1, np_value = 30, np_payer = Some (AccountId 2 0)\<rparr>,
                    \<lparr>np_owner = AccountId 2 0, np_asset = AssetId 1, np_value = 70, np_payer = None\<rparr>],
       e_account_snapshots = [], e_book = BookId 0, e_metadata = []\<rparr>"
    then have ids: "map p_id ps = [PostingId (EnvelopeId []) 1]" by (simp only: envelope.simps)
    assume "\<forall>p \<in> set ps. 0 < p_value p \<and> (\<exists>d \<in> set (md_debits (ri_draft demo_resolve)). p \<in> set (available_for demo_resolve d))"
    then have pos: "list_all (\<lambda>p. 0 < p_value p) ps" by (simp add: list_all_iff)
    show ?thesis by (rule exI[of _ ps]) (rule conjI[OF ids pos])
  qed
qed



text \<open>
  C23: the greedy selection is optimal: no set of the offered positive postings that covers
  the amount is smaller than the one it takes.
\<close>

theorem selection_minimal:
  assumes "select_loop amount 0 (candidates avail) = Inr (ids, t)" "0 < amount"
    and "mset qs \<subseteq># mset (positives avail)" "amount \<le> value_sum qs"
  shows "length ids \<le> length qs"
  using select_loop_minimal[OF assms(1,3,4,2)] .

theorem selection_minimal_witness: "length [PostingId (EnvelopeId []) 1] \<le> length [demo_posting 0 20, demo_posting 1 100]"
  by (rule selection_minimal[of 30 "[demo_posting 0 20, demo_posting 1 100]" _ 100])
    (simp_all add: candidates_def positives_def demo_posting_def is_positive_def checked_add_def checked_i64_def range_defs)

end
