(* ===== verification/Ledger_Base.thy ===== *)
theory Ledger_Base
  imports Mem_Store Posting_Resolution
begin

text \<open>
  \<^verbatim>\<open>kuatia/src/error.rs\<close> and \<^verbatim>\<open>kuatia/src/ledger.rs\<close>: the unified error, the ledger handle and
  the clock. A ledger method is a function from the world (the store, the number of
  clock readings taken and the background work spawned) to a result and the next world;
  every store call in it is one atomic step on the store. The environment fixes what the
  program does not control: SHA-256, hash iteration orders and the clock readings.
\<close>

section \<open>Errors\<close>

datatype ledger_error =
    Validation validation_error
  | Store store_error
  | LSelection insufficient_funds
  | TransferNotFound envelope_id
  | PostingNotReversible posting_id
  | LDoubleSpend posting_id
  | LAccountNotFound account_id
  | AccountNotEmpty account_id
  | AccountAlreadyClosed account_id
  | AccountAlreadyExists account_id
  | AccountVersionConflict account_id u64
  | BookNotFound book_id
  | BookAlreadyExists book_id
  | InflightNotFound envelope_id
  | NotInflightTransaction envelope_id
  | InflightAlreadyOpen account_id
  | InflightLegNotFound account_id asset_id
  | InflightSelfMovement account_id
  | LOverflow
  | UnderFetchedState account_id asset_id
  | CompensationFailed ledger_error ledger_error
  | EncodeFailed

text \<open>\<open>EncodeFailed\<close> is the \<open>StoreError::Internal\<close> that carries a CBOR encoder's message.\<close>

definition ledger_error_from_validation :: "validation_error fault \<Rightarrow> ledger_error fault" where
  "ledger_error_from_validation e = (case e of Fail v \<Rightarrow> Fail (Validation v) | Panic \<Rightarrow> Panic)"

definition ledger_error_from_store :: "store_error \<Rightarrow> ledger_error" where
  "ledger_error_from_store e = Store e"

definition ledger_error_from_resolve :: "resolve_error \<Rightarrow> ledger_error" where
  "ledger_error_from_resolve e = (case e of Selection s \<Rightarrow> LSelection s | ResolveOverflow \<Rightarrow> LOverflow)"

definition ledger_error_from_overflow :: "overflow_error \<Rightarrow> ledger_error" where
  "ledger_error_from_overflow e = LOverflow"

section \<open>The world and its computations\<close>

record ledger_env =
  le_ext :: externs
  le_hash :: hash_order
  le_clock :: "nat \<Rightarrow> int"

record ledger =
  projection_grace_ms :: i64
  snapshot_interval :: u64

record world =
  w_store :: mem_store
  w_tick :: nat
  w_spawned :: "(account_id \<times> asset_id) list"

type_synonym 'a action = "world \<Rightarrow> (ledger_error fault + 'a) \<times> world"

definition lreturn :: "'a \<Rightarrow> 'a action" where
  "lreturn a w = (Inr a, w)"

definition lfail :: "ledger_error \<Rightarrow> 'a action" where
  "lfail e w = (Inl (Fail e), w)"

definition lbind :: "'a action \<Rightarrow> ('a \<Rightarrow> 'b action) \<Rightarrow> 'b action" where
  "lbind m f w = (case m w of (Inl e, w') \<Rightarrow> (Inl e, w') | (Inr a, w') \<Rightarrow> f a w')"

text \<open>A pure result, a read of the store, and a write of the store.\<close>

definition lift :: "ledger_error fault + 'a \<Rightarrow> 'a action" where
  "lift r w = (r, w)"

definition lread :: "(mem_store \<Rightarrow> store_error + 'a) \<Rightarrow> 'a action" where
  "lread f w = (map_err (Fail \<circ> ledger_error_from_store) (f (w_store w)), w)"

definition lget :: "(mem_store \<Rightarrow> 'a) \<Rightarrow> 'a action" where
  "lget f w = (Inr (f (w_store w)), w)"

definition lwrite :: "(mem_store \<Rightarrow> 'a \<times> mem_store) \<Rightarrow> 'a action" where
  "lwrite f w = (let (a, st) = f (w_store w) in (Inr a, w\<lparr>w_store := st\<rparr>))"

definition lwrite_err :: "(mem_store \<Rightarrow> (store_error + 'a) \<times> mem_store) \<Rightarrow> 'a action" where
  "lwrite_err f w = (let (r, st) = f (w_store w) in (map_err (Fail \<circ> ledger_error_from_store) r, w\<lparr>w_store := st\<rparr>))"

text \<open>A reading of the system clock, and \<open>now_millis\<close>.\<close>

definition read_clock :: "ledger_env \<Rightarrow> int action" where
  "read_clock env w = (Inr (le_clock env (w_tick w)), w\<lparr>w_tick := Suc (w_tick w)\<rparr>)"

definition now_millis :: "ledger_env \<Rightarrow> i64 action" where
  "now_millis env = lbind (read_clock env) (\<lambda>c.
     if c < 0 then lfail LOverflow else lreturn (sint (word_of_int c :: u64)))"

text \<open>A \<open>for\<close> loop whose body is an action on an accumulator.\<close>

fun lfold :: "('s \<Rightarrow> 'a \<Rightarrow> 's action) \<Rightarrow> 's \<Rightarrow> 'a list \<Rightarrow> 's action" where
  "lfold f s [] = lreturn s"
| "lfold f s (a # as) = lbind (f s a) (\<lambda>s'. lfold f s' as)"

definition DEFAULT_PROJECTION_GRACE_MS :: i64 where "DEFAULT_PROJECTION_GRACE_MS = 60000"
definition DEFAULT_SNAPSHOT_INTERVAL :: u64 where "DEFAULT_SNAPSHOT_INTERVAL = 128"

definition ledger_new :: ledger where
  "ledger_new = \<lparr>projection_grace_ms = DEFAULT_PROJECTION_GRACE_MS, snapshot_interval = DEFAULT_SNAPSHOT_INTERVAL\<rparr>"

definition with_projection_grace_ms :: "i64 \<Rightarrow> ledger \<Rightarrow> ledger" where
  "with_projection_grace_ms g l = l\<lparr>projection_grace_ms := g\<rparr>"

definition with_snapshot_interval :: "u64 \<Rightarrow> ledger \<Rightarrow> ledger" where
  "with_snapshot_interval n l = l\<lparr>snapshot_interval := n\<rparr>"

definition world_new :: world where
  "world_new = \<lparr>w_store = mem_store_new, w_tick = 0, w_spawned = []\<rparr>"

section \<open>Reasoning about actions\<close>

named_theorems action_simps \<open>evaluation of actions\<close>

lemma lbind_eq: "lbind m f w = (case fst (m w) of Inl e \<Rightarrow> (Inl e, snd (m w)) | Inr a \<Rightarrow> f a (snd (m w)))"
  by (cases "m w") (simp add: lbind_def split: sum.splits)

lemma lbind_cases:
  assumes "lbind m f w = (r, w')"
  obtains (stop) e where "m w = (Inl e, w')" "r = Inl e" | (go) a w1 where "m w = (Inr a, w1)" "f a w1 = (r, w')"
  using assms by (cases "m w"; cases "fst (m w)") (auto simp: lbind_def)

lemma lbind_Inr: "lbind m f w = (Inr b, w') \<longleftrightarrow> (\<exists>a w1. m w = (Inr a, w1) \<and> f a w1 = (Inr b, w'))"
  by (cases "m w"; cases "fst (m w)") (auto simp: lbind_def)

lemma action_simps_basic [simp, action_simps]:
  "lreturn a w = (Inr a, w)" "lfail e w = (Inl (Fail e), w)" "lift r w = (r, w)"
  "lget f w = (Inr (f (w_store w)), w)"
  by (simp_all add: lreturn_def lfail_def lift_def lget_def)

text \<open>
  A property of the store that the pieces of an action preserve, the action preserves.
  This is the induction principle for reachable states over one method.
\<close>

definition preserves :: "(mem_store \<Rightarrow> mem_store \<Rightarrow> bool) \<Rightarrow> 'a action \<Rightarrow> bool" where
  "preserves R m \<longleftrightarrow> (\<forall>w. R (w_store w) (w_store (snd (m w))))"

locale store_relation =
  fixes R :: "mem_store \<Rightarrow> mem_store \<Rightarrow> bool"
  assumes refl: "R s s" and trans: "R s t \<Longrightarrow> R t u \<Longrightarrow> R s u"
begin

lemma preserves_bind: "preserves R m \<Longrightarrow> (\<And>a. preserves R (f a)) \<Longrightarrow> preserves R (lbind m f)"
  unfolding preserves_def lbind_eq by (auto split: sum.splits intro: trans)

lemma preserves_pure [simp]:
  "preserves R (lreturn a)" "preserves R (lfail e)" "preserves R (lift r)" "preserves R (lread g)"
  "preserves R (lget g')" "preserves R (read_clock env)"
  by (simp_all add: preserves_def lread_def read_clock_def refl)

lemma preserves_now [simp]: "preserves R (now_millis env)"
  unfolding now_millis_def by (rule preserves_bind) simp_all

lemma preserves_write: "(\<And>s. R s (snd (g s))) \<Longrightarrow> preserves R (lwrite g)"
  by (simp add: preserves_def lwrite_def split_beta Let_def)

lemma preserves_write_err: "(\<And>s. R s (snd (g s))) \<Longrightarrow> preserves R (lwrite_err g)"
  by (simp add: preserves_def lwrite_err_def split_beta Let_def)

lemma preserves_fold: "(\<And>s a. preserves R (f s a)) \<Longrightarrow> preserves R (lfold f s as)"
  by (induction as arbitrary: s) (simp_all add: preserves_bind)

end

end
