(* ===== verification/Ledger_Balance.thy ===== *)
theory Ledger_Balance
  imports Ledger_Base
begin

text \<open>
  \<^verbatim>\<open>kuatia/src/ledger/balance.rs\<close>: the authoritative balance (the sum of the live
  postings), the cached read (the closest cache point plus the folded tail of later
  transfers) and the cache points. \<open>tokio::spawn\<close> records the work in the world;
  \<open>run_spawned\<close> is the background task.
\<close>

record sub_account_balance =
  sb_account :: account_id
  sb_value :: cent

definition overflow_action :: "overflow_error + 'a \<Rightarrow> 'a action" where
  "overflow_action r = lift (map_err (Fail \<circ> ledger_error_from_overflow) r)"

section \<open>Folding transfer deltas\<close>

text \<open>The created side: credits of the account and asset, and how many there are.\<close>

definition fold_created :: "account_id \<Rightarrow> asset_id \<Rightarrow> envelope_record list \<Rightarrow> overflow_error + (cent \<times> u64)" where
  "fold_created acc asset records = try_fold (\<lambda>(delta, n) np.
       if np_owner np = acc \<and> np_asset np = asset
       then rbind (checked_add delta (np_value np)) (\<lambda>d. Inr (d, n + 1)) else Inr (delta, n))
     (cent_ZERO, 0) (concat (map (\<lambda>r. e_creates (er_envelope r)) records))"

text \<open>The consumed ids of the window, each once, in order of first occurrence.\<close>

fun unseen :: "'a list \<Rightarrow> 'a list \<Rightarrow> 'a list" where
  "unseen seen [] = []"
| "unseen seen (x # xs) = (if x \<in> set seen then unseen seen xs else x # unseen (x # seen) xs)"

definition consumed_ids :: "envelope_record list \<Rightarrow> posting_id list" where
  "consumed_ids records = unseen [] (concat (map (\<lambda>r. e_consumes (er_envelope r)) records))"

definition fold_consumed ::
  "account_id \<Rightarrow> asset_id \<Rightarrow> cent \<times> u64 \<Rightarrow> posting list \<Rightarrow> overflow_error + (cent \<times> u64)" where
  "fold_consumed acc asset s ps = try_fold (\<lambda>(delta, n) p.
       if p_owner p = acc \<and> p_asset p = asset
       then rbind (checked_sub delta (p_value p)) (\<lambda>d. Inr (d, n + 1)) else Inr (delta, n)) s ps"

definition fold_account_delta :: "account_id \<Rightarrow> asset_id \<Rightarrow> envelope_record list \<Rightarrow> (cent \<times> u64) action" where
  "fold_account_delta acc asset records =
     lbind (overflow_action (fold_created acc asset records)) (\<lambda>s.
     let ids = consumed_ids records
     in if ids = [] then lreturn s
        else lbind (lread (get_postings ids)) (\<lambda>ps. overflow_action (fold_consumed acc asset s ps)))"

definition tail_query :: "account_id \<Rightarrow> i64 option \<Rightarrow> i64 option \<Rightarrow> transfer_query" where
  "tail_query acc from_ts to_ts = \<lparr>tq_account = Some (aid_id acc), tq_sub = Some (aid_sub acc),
     tq_from_ts = from_ts, tq_to_ts = to_ts, tq_book = None, tq_limit = None, tq_offset = None\<rparr>"

definition fold_tail ::
  "ledger_env \<Rightarrow> account_id \<Rightarrow> asset_id \<Rightarrow> i64 option \<Rightarrow> i64 option \<Rightarrow> (cent \<times> u64) action" where
  "fold_tail env acc asset from_ts to_ts =
     lbind (lget (\<lambda>st. pg_items (query_transfers (le_hash env) (tail_query acc from_ts to_ts) st)))
       (\<lambda>records. fold_account_delta acc asset records)"

section \<open>Cache points\<close>

definition sat_i64 :: "int \<Rightarrow> i64" where
  "sat_i64 v = (if v < i64_min then i64_min else if v > i64_max then i64_max else v)"

definition saturating_sub :: "i64 \<Rightarrow> i64 \<Rightarrow> i64" where
  "saturating_sub a b = sat_i64 (a - b)"

definition saturating_add :: "i64 \<Rightarrow> i64 \<Rightarrow> i64" where
  "saturating_add a b = sat_i64 (a + b)"

definition append_cache_point ::
  "ledger_env \<Rightarrow> i64 \<Rightarrow> u64 \<Rightarrow> i64 \<Rightarrow> account_id \<Rightarrow> asset_id \<Rightarrow> unit action" where
  "append_cache_point env grace_ms min_new debounce_ms acc asset =
     lbind (now_millis env) (\<lambda>now.
     let new_watermark = saturating_sub now grace_ms in
     lbind (lget (get_closest_balance_projection acc asset new_watermark)) (\<lambda>closest.
     let go = (\<lambda>snapshot from_ts.
           lbind (fold_tail env acc asset from_ts (Some (saturating_add new_watermark 1))) (\<lambda>(fld, n).
           if n < min_new then lreturn ()
           else lbind (overflow_action (checked_add snapshot fld)) (\<lambda>bal.
                lbind (read_clock env) (\<lambda>c.
                lwrite (\<lambda>st. ((), append_balance_projection c acc asset bal new_watermark st))))))
     in case closest of
          Some p \<Rightarrow> if saturating_sub new_watermark (bp_watermark p) < debounce_ms then lreturn ()
                   else if bp_watermark p \<ge> new_watermark then lreturn ()
                   else go (bp_balance p) (Some (saturating_add (bp_watermark p) 1))
        | None \<Rightarrow> go cent_ZERO None))"

section \<open>Reads\<close>

definition compute_balance :: "ledger_env \<Rightarrow> account_id \<Rightarrow> asset_id \<Rightarrow> cent action" where
  "compute_balance env acc asset =
     lbind (lget (get_postings_by_account (le_hash env) (aid_id acc) (Some (aid_sub acc)) (Some asset) FilterLive))
       (\<lambda>ps. overflow_action (checked_sum (map p_value ps)))"

definition spawn_append :: "account_id \<Rightarrow> asset_id \<Rightarrow> unit action" where
  "spawn_append acc asset w = (Inr (), w\<lparr>w_spawned := w_spawned w @ [(acc, asset)]\<rparr>)"

definition ledger_balance :: "ledger_env \<Rightarrow> ledger \<Rightarrow> account_id \<Rightarrow> asset_id \<Rightarrow> cent action" where
  "ledger_balance env l acc asset =
     lbind (now_millis env) (\<lambda>now.
     lbind (lget (get_closest_balance_projection acc asset now)) (\<lambda>closest.
     case closest of
       Some p \<Rightarrow>
         lbind (fold_tail env acc asset (Some (saturating_add (bp_watermark p) 1)) None) (\<lambda>(tail, n).
         lbind (if n \<ge> snapshot_interval l then spawn_append acc asset else lreturn ()) (\<lambda>_.
         overflow_action (checked_add (bp_balance p) tail)))
     | None \<Rightarrow>
         lbind (compute_balance env acc asset) (\<lambda>bal.
         lbind (spawn_append acc asset) (\<lambda>_. lreturn bal))))"

definition list_subaccounts :: "ledger_env \<Rightarrow> account_id \<Rightarrow> account_id list action" where
  "list_subaccounts env acc =
     lbind (lget (list_accounts (le_hash env))) (\<lambda>as.
       lreturn (sort (map acc_id (filter (\<lambda>a. aid_id (acc_id a) = aid_id acc \<and> \<not> is_closed a) as))))"

definition ledger_balances ::
  "ledger_env \<Rightarrow> ledger \<Rightarrow> account_id \<Rightarrow> asset_id \<Rightarrow> i64 option \<Rightarrow> sub_account_balance list action" where
  "ledger_balances env l acc asset sub =
     lbind (list_subaccounts env acc) (\<lambda>subs.
     lfold (\<lambda>result sa.
         if (case sub of Some s \<Rightarrow> aid_sub sa \<noteq> s | None \<Rightarrow> False) then lreturn result
         else lbind (ledger_balance env l sa asset) (\<lambda>v.
              lreturn (result @ [\<lparr>sb_account = sa, sb_value = v\<rparr>]))) [] subs)"

text \<open>The spawned task: an error is logged and dropped.\<close>

definition run_spawned :: "ledger_env \<Rightarrow> ledger \<Rightarrow> account_id \<Rightarrow> asset_id \<Rightarrow> unit action" where
  "run_spawned env l acc asset w =
     (Inr (), snd (append_cache_point env (projection_grace_ms l) (snapshot_interval l) (projection_grace_ms l) acc asset w))"

definition ledger_append_cache_point :: "ledger_env \<Rightarrow> ledger \<Rightarrow> account_id \<Rightarrow> asset_id \<Rightarrow> unit action" where
  "ledger_append_cache_point env l acc asset =
     append_cache_point env (projection_grace_ms l) 0 0 acc asset"

end
