(* ===== verification/Ledger_Commit.thy ===== *)
theory Ledger_Commit
  imports Ledger_Balance
begin

text \<open>
  \<^verbatim>\<open>kuatia/src/ledger/commit.rs\<close>: load the state an envelope needs, validate it with the
  pure core, and hand the plan to the atomic commit of the store; resolve a transfer into
  an envelope; reverse a committed envelope.
\<close>

section \<open>Load and plan\<close>

record loaded_state =
  ls_consumed_postings :: "posting list"
  ls_accounts :: "(account_id \<times> account) list"
  ls_balances :: "((account_id \<times> asset_id) \<times> cent) list"
  ls_book :: "book option"

text \<open>Collecting into a hash map: a later entry with the same key replaces an earlier one.\<close>

definition collect_map :: "('k \<times> 'v) list \<Rightarrow> ('k \<times> 'v) list" where
  "collect_map kvs = foldl (\<lambda>m kv. AList.update (fst kv) (snd kv) m) [] kvs"

definition load_book :: "book_id \<Rightarrow> book option action" where
  "load_book bid = lbind (lget (get_book bid)) (\<lambda>r. case r of
     Inr b \<Rightarrow> lreturn (Some b)
   | Inl (NotFound _) \<Rightarrow> if bid = DEFAULT_BOOK then lreturn None else lfail (BookNotFound bid)
   | Inl e \<Rightarrow> lfail (ledger_error_from_store e))"

definition load :: "ledger_env \<Rightarrow> envelope \<Rightarrow> loaded_state action" where
  "load env e =
     lbind (if e_consumes e = [] then lreturn [] else lread (get_postings (e_consumes e))) (\<lambda>consumed.
     let required = required_state e consumed in
     lbind (lread (get_accounts (rs_accounts required))) (\<lambda>accs.
     lbind (lfold (\<lambda>m (acc, asset).
              lbind (compute_balance env acc asset) (\<lambda>bal. lreturn (AList.update (acc, asset) bal m)))
            [] (rs_balances required)) (\<lambda>balances.
     lbind (load_book (e_book e)) (\<lambda>bk.
     lreturn \<lparr>ls_consumed_postings = consumed, ls_accounts = collect_map (map (\<lambda>a. (acc_id a, a)) accs),
              ls_balances = balances, ls_book = bk\<rparr>))))"

definition plan_input_of :: "envelope \<Rightarrow> loaded_state \<Rightarrow> plan_input" where
  "plan_input_of e s = \<lparr>pi_envelope = e, pi_consumed_postings = ls_consumed_postings s,
     pi_accounts = ls_accounts s, pi_balances = ls_balances s, pi_book = ls_book s\<rparr>"

definition ledger_plan :: "ledger_env \<Rightarrow> envelope \<Rightarrow> loaded_state \<Rightarrow> ledger_error fault + plan" where
  "ledger_plan env e s =
     (case List.find (\<lambda>k. \<not> contains_key (ls_balances s) k) (rs_balances (required_state e (ls_consumed_postings s))) of
        Some (acc, asset) \<Rightarrow> Inl (Fail (UnderFetchedState acc asset))
      | None \<Rightarrow> map_err ledger_error_from_validation (validate_and_plan (le_ext env) (plan_input_of e s)))"

section \<open>Resolve\<close>

definition resolve_snapshots :: "ledger_env \<Rightarrow> account_id list \<Rightarrow> account_snapshot_id list action" where
  "resolve_snapshots env ids =
     lbind (lread (get_accounts ids)) (\<lambda>as. lreturn (map (account_snapshot_id_of (x_sha (le_ext env))) as))"

definition load_debit ::
  "ledger_env \<Rightarrow> ((account_id \<times> asset_id) \<times> posting list) list \<times> (account_id \<times> account) list \<Rightarrow> debit
   \<Rightarrow> (((account_id \<times> asset_id) \<times> posting list) list \<times> (account_id \<times> account) list) action" where
  "load_debit env = (\<lambda>(available, accounts) d.
     lbind (lget (get_postings_by_account (le_hash env) (aid_id (d_account d)) (Some (aid_sub (d_account d)))
              (Some (d_asset d)) FilterActive)) (\<lambda>ps.
     let available' = AList.update (d_account d, d_asset d) ps available in
     if contains_key accounts (d_account d) then lreturn (available', accounts)
     else lbind (lread (get_account (d_account d))) (\<lambda>a.
          lreturn (available', AList.update (d_account d) a accounts))))"

definition resolve :: "ledger_env \<Rightarrow> transfer \<Rightarrow> envelope action" where
  "resolve env t =
     lbind (overflow_action (draft_movements t)) (\<lambda>dr.
     lbind (lfold (load_debit env) ([], []) (md_debits dr)) (\<lambda>(available, accounts).
     lbind (lift (map_err (Fail \<circ> ledger_error_from_resolve) (resolve_envelope
              \<lparr>ri_transfer = t, ri_draft = dr, ri_available = available, ri_accounts = accounts\<rparr>))) (\<lambda>e.
     lbind (resolve_snapshots env (referenced_accounts e)) (\<lambda>ss.
     lreturn (set_account_snapshots ss e)))))"

section \<open>Commit\<close>

definition map_rejection :: "commit_rejection \<Rightarrow> ledger_error" where
  "map_rejection r = (case r of
     DoubleSpend i \<Rightarrow> LDoubleSpend i
   | RejectFrozen a \<Rightarrow> Validation (AccountFrozen a)
   | RejectClosed a \<Rightarrow> Validation (AccountClosed a)
   | RejectOverdraft a s v \<Rightarrow> Validation (OverdraftExceeded a s v))"

text \<open>The request built from a plan at time \<open>ts\<close>.\<close>

definition build_request :: "envelope \<Rightarrow> loaded_state \<Rightarrow> plan \<Rightarrow> i64 \<Rightarrow> commit_request" where
  "build_request e s p ts =
     (let involved = sort_dedup (map p_owner (plan_postings_to_create p) @ map p_owner (ls_consumed_postings s));
          rcpt = \<lparr>r_transfer_id = plan_transfer_id p\<rparr>
      in \<lparr>cr_transfer_id = plan_transfer_id p, cr_consume = plan_postings_to_deactivate p,
          cr_create = plan_postings_to_create p,
          cr_record = \<lparr>er_envelope = e, er_receipt = rcpt, er_created_at = ts\<rparr>,
          cr_involved = involved,
          cr_event = \<lparr>ev_seq = 0, ev_timestamp = ts, ev_kind = TransferCommitted (plan_transfer_id p)\<rparr>\<rparr>)"

definition pin_snapshots :: "ledger_env \<Rightarrow> envelope \<Rightarrow> envelope action" where
  "pin_snapshots env e =
     (if e_account_snapshots e = []
      then lbind (resolve_snapshots env (sort_dedup (map np_owner (e_creates e)))) (\<lambda>ss.
           lreturn (set_account_snapshots ss e))
      else lreturn e)"

definition ledger_commit_envelope :: "ledger_env \<Rightarrow> envelope \<Rightarrow> receipt action" where
  "ledger_commit_envelope env e0 =
     lbind (pin_snapshots env e0) (\<lambda>e.
     let tid = envelope_id (x_sha (le_ext env)) e in
     lbind (lget (get_transfer tid)) (\<lambda>found. case found of
       Some r \<Rightarrow> lreturn (er_receipt r)
     | None \<Rightarrow>
       lbind (load env e) (\<lambda>loaded.
       lbind (lift (ledger_plan env e loaded)) (\<lambda>p.
       lbind (now_millis env) (\<lambda>ts.
       lbind (read_clock env) (\<lambda>c.
       lbind (lwrite_err (commit_envelope (le_hash env) c (build_request e loaded p ts))) (\<lambda>outcome.
       case outcome of
         Committed r \<Rightarrow> lreturn r
       | AlreadyCommitted r \<Rightarrow> lreturn r
       | CommitRejected rej \<Rightarrow> lfail (map_rejection rej))))))))"

definition ledger_commit :: "ledger_env \<Rightarrow> transfer \<Rightarrow> receipt action" where
  "ledger_commit env t = lbind (resolve env t) (ledger_commit_envelope env)"

section \<open>Reverse\<close>

definition reversal_of :: "envelope_record \<Rightarrow> posting list \<Rightarrow> envelope" where
  "reversal_of r consumed =
     (let original = er_envelope r;
          ids = map (\<lambda>(i, _). PostingId (r_transfer_id (er_receipt r)) (word_of_nat i)) (enumerate 0 (e_creates original));
          nps = map (\<lambda>p. \<lparr>np_owner = p_owner p, np_asset = p_asset p, np_value = p_value p, np_payer = None\<rparr>) consumed
      in envelope_builder_metadata (e_metadata original) (envelope_builder_book (e_book original)
           (envelope_builder_creates nps (envelope_builder_consumes ids envelope_builder_new))))"

definition reverse :: "ledger_env \<Rightarrow> envelope_id \<Rightarrow> receipt action" where
  "reverse env tid =
     lbind (lget (get_transfer tid)) (\<lambda>found. case found of
       None \<Rightarrow> lfail (TransferNotFound tid)
     | Some r \<Rightarrow>
         lbind (if e_consumes (er_envelope r) = [] then lreturn []
                else lread (get_postings (e_consumes (er_envelope r)))) (\<lambda>consumed.
         ledger_commit_envelope env (reversal_of r consumed)))"

end
