(* ===== verification/Ledger_Lifecycle.thy ===== *)
theory Ledger_Lifecycle
  imports Ledger_Balance
begin

text \<open>
  \<^verbatim>\<open>kuatia/src/ledger/lifecycle.rs\<close>, \<^verbatim>\<open>transition.rs\<close> and \<^verbatim>\<open>query.rs\<close>: account creation, the
  version transition shared by freeze, unfreeze and close, and the read-only queries.
\<close>

section \<open>Transition\<close>

text \<open>What the ledger computes from the version it read: the next version and its event.\<close>

definition next_version :: "(account_flags \<Rightarrow> account_flags) \<Rightarrow> account \<Rightarrow> account option" where
  "next_version mutate a =
     map_option (\<lambda>v. a\<lparr>acc_version := v, acc_flags := mutate (acc_flags a)\<rparr>) (checked_succ64 (acc_version a))"

definition transition ::
  "ledger_env \<Rightarrow> account_id \<Rightarrow> (account_flags \<Rightarrow> account_flags) \<Rightarrow> (account_id \<Rightarrow> u64 \<Rightarrow> ledger_event_kind) \<Rightarrow> unit action" where
  "transition env aid mutate make_event =
     lbind (lget (get_account aid)) (\<lambda>r. case r of
       Inl _ \<Rightarrow> lfail (LAccountNotFound aid)
     | Inr current \<Rightarrow>
         if is_closed current then lfail (AccountAlreadyClosed aid)
         else case next_version mutate current of
           None \<Rightarrow> lfail LOverflow
         | Some nxt \<Rightarrow>
             lbind (now_millis env) (\<lambda>ts.
             let ev = \<lparr>ev_seq = 0, ev_timestamp = ts, ev_kind = make_event aid (acc_version nxt)\<rparr> in
             lbind (read_clock env) (\<lambda>c.
             lbind (lwrite_err (commit_transition c nxt ev)) (\<lambda>outcome. case outcome of
               Applied \<Rightarrow> lreturn ()
             | AlreadyApplied \<Rightarrow> lreturn ()
             | TransitionRejected (AlreadyClosed a) \<Rightarrow> lfail (AccountAlreadyClosed a)
             | TransitionRejected (VersionConflict a v) \<Rightarrow> lfail (AccountVersionConflict a v)))))"

section \<open>Lifecycle\<close>

definition ledger_create_account :: "ledger_env \<Rightarrow> account \<Rightarrow> unit action" where
  "ledger_create_account env a =
     lbind (lwrite (create_account a)) (\<lambda>n.
     if n = 0 then lfail (AccountAlreadyExists (acc_id a))
     else lbind (now_millis env) (\<lambda>ts.
          lbind (read_clock env) (\<lambda>c.
          lbind (lwrite (append_event c \<lparr>ev_seq = 0, ev_timestamp = ts, ev_kind = EvAccountCreated (acc_id a)\<rparr>))
            (\<lambda>_. lreturn ()))))"

definition freeze_flags :: "account_flags \<Rightarrow> account_flags" where
  "freeze_flags f = flags_insert f FROZEN"

definition unfreeze_flags :: "account_flags \<Rightarrow> account_flags" where
  "unfreeze_flags f = flags_remove f FROZEN"

definition close_flags :: "account_flags \<Rightarrow> account_flags" where
  "close_flags f = flags_remove (flags_insert f CLOSED) FROZEN"

definition freeze :: "ledger_env \<Rightarrow> account_id \<Rightarrow> unit action" where
  "freeze env aid = transition env aid freeze_flags EvAccountFrozen"

definition unfreeze :: "ledger_env \<Rightarrow> account_id \<Rightarrow> unit action" where
  "unfreeze env aid = transition env aid unfreeze_flags EvAccountUnfrozen"

definition has_live_postings :: "ledger_env \<Rightarrow> account_id \<Rightarrow> bool action" where
  "has_live_postings env aid =
     lbind (lget (get_postings_by_account (le_hash env) (aid_id aid) (Some (aid_sub aid)) None FilterLive))
       (\<lambda>ps. lreturn (ps \<noteq> []))"

definition close :: "ledger_env \<Rightarrow> account_id \<Rightarrow> unit action" where
  "close env aid =
     lbind (has_live_postings env aid) (\<lambda>live.
     if live then lfail (AccountNotEmpty aid) else transition env aid close_flags EvAccountClosed)"

section \<open>Queries\<close>

definition ledger_list_accounts :: "ledger_env \<Rightarrow> account list action" where
  "ledger_list_accounts env = lget (list_accounts (le_hash env))"

definition ledger_get_account :: "account_id \<Rightarrow> account action" where
  "ledger_get_account aid = lbind (lget (get_account aid)) (\<lambda>r. case r of
     Inl _ \<Rightarrow> lfail (LAccountNotFound aid) | Inr a \<Rightarrow> lreturn a)"

definition history :: "ledger_env \<Rightarrow> account_id \<Rightarrow> envelope_record list action" where
  "history env aid = lget (get_transfers_for_account (le_hash env) (aid_id aid) (Some (aid_sub aid)))"

definition ledger_query_transfers :: "ledger_env \<Rightarrow> transfer_query \<Rightarrow> envelope_record page action" where
  "ledger_query_transfers env q = lget (query_transfers (le_hash env) q)"

definition ledger_postings :: "ledger_env \<Rightarrow> account_id \<Rightarrow> posting list action" where
  "ledger_postings env aid =
     lget (get_postings_by_account (le_hash env) (aid_id aid) (Some (aid_sub aid)) None FilterAll)"

definition postings_with_state :: "ledger_env \<Rightarrow> account_id \<Rightarrow> (posting \<times> posting_state) list action" where
  "postings_with_state env aid =
     lbind (ledger_postings env aid) (\<lambda>ps.
     lbind (lget (get_posting_states (map p_id ps))) (\<lambda>states. lreturn (zip ps states)))"

definition ledger_query_postings :: "ledger_env \<Rightarrow> posting_query \<Rightarrow> posting page action" where
  "ledger_query_postings env q = lget (query_postings (le_hash env) q)"

definition account_history :: "account_id \<Rightarrow> account list action" where
  "account_history aid = lread (get_account_history aid)"

definition ledger_create_book :: "book \<Rightarrow> unit action" where
  "ledger_create_book b = lbind (lwrite (create_book b)) (\<lambda>n.
     if n = 0 then lfail (BookAlreadyExists (b_id b)) else lreturn ())"

definition ledger_get_book :: "book_id \<Rightarrow> book action" where
  "ledger_get_book i = lread (get_book i)"

definition ledger_list_books :: "ledger_env \<Rightarrow> book list action" where
  "ledger_list_books env = lget (list_books (le_hash env))"

definition ledger_get_events_since :: "u64 \<Rightarrow> u32 \<Rightarrow> ledger_event list action" where
  "ledger_get_events_since after_seq lim = lget (get_events_since after_seq lim)"

end
