(* ===== verification/Saga.thy ===== *)
theory Saga
  imports Ledger_Commit
begin

text \<open>
  \<^verbatim>\<open>kuatia/src/saga.rs\<close>: a sequence of transfers committed in order; on the first commit
  that fails, the receipts so far are reversed, last first.
\<close>

record pay_input =
  pay_from :: account_id
  pay_to :: account_id
  pay_asset :: asset_id
  pay_amount :: cent

record deposit_input =
  dep_to :: account_id
  dep_asset :: asset_id
  dep_amount :: cent
  dep_external :: account_id

datatype saga_movement = Pay pay_input | Deposit deposit_input

definition movement_build :: "saga_movement \<Rightarrow> ledger_error fault + transfer" where
  "movement_build m = (case m of
     Pay p \<Rightarrow> Inr (pay (pay_from p) (pay_to p) (pay_asset p) (pay_amount p) transfer_builder_new)
   | Deposit d \<Rightarrow> map_err (Fail \<circ> ledger_error_from_overflow)
       (deposit (dep_to d) (dep_asset d) (dep_amount d) (dep_external d) transfer_builder_new))"

text \<open>The compensation: reverse the given receipts in order, then report \<open>err\<close>.\<close>

fun unwind :: "ledger_env \<Rightarrow> ledger_error \<Rightarrow> receipt list \<Rightarrow> receipt list action" where
  "unwind env err [] w = (Inl (Fail err), w)"
| "unwind env err (r # rs) w = (case reverse env (r_transfer_id r) w of
     (Inr _, w') \<Rightarrow> unwind env err rs w'
   | (Inl (Fail c), w') \<Rightarrow> (Inl (Fail (CompensationFailed err c)), w')
   | (Inl Panic, w') \<Rightarrow> (Inl Panic, w'))"

fun run_loop :: "ledger_env \<Rightarrow> receipt list \<Rightarrow> saga_movement list \<Rightarrow> receipt list action" where
  "run_loop env receipts [] w = (Inr receipts, w)"
| "run_loop env receipts (m # ms) w = (case movement_build m of
     Inl e \<Rightarrow> (Inl e, w)
   | Inr t \<Rightarrow> (case ledger_commit env t w of
       (Inr r, w') \<Rightarrow> run_loop env (receipts @ [r]) ms w'
     | (Inl (Fail err), w') \<Rightarrow> unwind env err (rev receipts) w'
     | (Inl Panic, w') \<Rightarrow> (Inl Panic, w')))"

definition run_movements :: "ledger_env \<Rightarrow> saga_movement list \<Rightarrow> receipt list action" where
  "run_movements env ms = run_loop env [] ms"

end
