(* ===== verification/Mem_Store_Laws.thy ===== *)
theory Mem_Store_Laws
  imports Mem_Store
begin

text \<open>
  Laws of the in-memory store. The posting tables keep their invariant and move a
  posting only along missing, active, reserved, spent; the interface \<open>posting_index\<close>
  states that contract of \<open>PostingStore\<close> as a locale and derives what its callers rely
  on. The atomic commit and the lifecycle transition either apply everything or nothing.
\<close>

section \<open>The posting tables\<close>

declare map_of_eq_Some_iff [simp del] map_of_eq_Some_iff' [simp del]

text \<open>
  One id in the three tables: its row, its active copy, its reserved copy. The invariant
  and the lifecycle state are functions of this slot, and every operation on one posting
  changes one slot.
\<close>

definition slot_ok :: "posting_id \<Rightarrow> posting option \<Rightarrow> posting option \<Rightarrow> (posting \<times> reservation_id) option \<Rightarrow> bool" where
  "slot_ok i row ac re \<longleftrightarrow> (case row of None \<Rightarrow> ac = None \<and> re = None
     | Some p \<Rightarrow> p_id p = i \<and> (ac = None \<or> ac = Some p \<and> re = None) \<and> (case re of None \<Rightarrow> True | Some (q, _) \<Rightarrow> q = p))"

definition slot_state :: "posting option \<Rightarrow> posting option \<Rightarrow> (posting \<times> reservation_id) option \<Rightarrow> posting_state" where
  "slot_state row ac re = (if ac \<noteq> None then StateActive
     else case re of Some (_, r) \<Rightarrow> StateReserved r | None \<Rightarrow> if row \<noteq> None then StateSpent else StateMissing)"

abbreviation tables_slot :: "posting_tables \<Rightarrow> posting_id \<Rightarrow> bool" where
  "tables_slot t i \<equiv> slot_ok i (map_of (pt_immutable t) i) (map_of (pt_active t) i) (map_of (pt_reserved t) i)"

definition tables_ok :: "posting_tables \<Rightarrow> bool" where
  "tables_ok t \<longleftrightarrow>
     keys_distinct (pt_immutable t) \<and> keys_distinct (pt_active t) \<and> keys_distinct (pt_reserved t) \<and>
     (\<forall>i. tables_slot t i)"

lemma posting_state_of_slot:
  "posting_state_of t i = slot_state (map_of (pt_immutable t) i) (map_of (pt_active t) i) (map_of (pt_reserved t) i)"
  by (cases "map_of (pt_immutable t) i") (simp_all add: posting_state_of_def slot_state_def contains_key_def)

lemmas map_of_alist = map_of_update map_of_delete_eq fun_upd_apply
lemmas slot_defs = slot_ok_def slot_state_def

lemma tables_ok_new: "tables_ok (ms_postings mem_store_new)"
  by (simp add: tables_ok_def slot_ok_def mem_store_new_def)

lemma tables_okD: "tables_ok t \<Longrightarrow> tables_slot t i"
  by (simp add: tables_ok_def)

lemma state_active_iff: "posting_state_of t i = StateActive \<longleftrightarrow> map_of (pt_active t) i \<noteq> None"
  by (auto simp: posting_state_of_slot slot_state_def split: option.splits)

lemma state_reserved_iff:
  "tables_ok t \<Longrightarrow> posting_state_of t i = StateReserved r \<longleftrightarrow> map_option snd (map_of (pt_reserved t) i) = Some r"
  using tables_okD[of t i]
  by (cases "map_of (pt_reserved t) i"; cases "map_of (pt_active t) i"; cases "map_of (pt_immutable t) i")
    (auto simp: posting_state_of_slot slot_defs)

lemma state_missing_iff: "tables_ok t \<Longrightarrow> posting_state_of t i = StateMissing \<longleftrightarrow> map_of (pt_immutable t) i = None"
  using tables_okD[of t i]
  by (cases "map_of (pt_reserved t) i"; cases "map_of (pt_active t) i"; cases "map_of (pt_immutable t) i")
    (auto simp: posting_state_of_slot slot_defs)

lemma active_row: "tables_ok t \<Longrightarrow> map_of (pt_active t) i = Some p \<Longrightarrow> map_of (pt_immutable t) i = Some p \<and> p_id p = i"
  using tables_okD[of t i] by (auto simp: slot_ok_def split: option.splits)

text \<open>
  A loop whose body changes the state of one id from a class of states to a fixed
  state outside it: what the loop does to every id, and what it counts.
\<close>

lemma fold_lifecycle_gen:
  fixes inv :: "'s \<Rightarrow> bool" and st :: "'s \<Rightarrow> posting_id \<Rightarrow> posting_state"
  assumes step: "\<And>x n t. inv t \<Longrightarrow>
       inv (snd (f x (n, t))) \<and>
       (\<forall>j. st (snd (f x (n, t))) j
          = (if j = key x \<and> P (st t (key x)) then c else st t j)) \<and>
       fst (f x (n, t)) = n + (if P (st t (key x)) then 1 else 0)"
    and out: "\<not> P c" and ok: "inv t"
  shows "inv (snd (fold f xs (n, t))) \<and>
     (\<forall>j. st (snd (fold f xs (n, t))) j
        = (if j \<in> key ` set xs \<and> P (st t j) then c else st t j)) \<and>
     fst (fold f xs (n, t)) = n + card {j \<in> key ` set xs. P (st t j)}"
  using ok
proof (induction xs arbitrary: n t)
  case (Cons x xs)
  obtain n' t' where ft: "f x (n, t) = (n', t')" by fastforce
  note s = step[OF Cons.prems, of x n, unfolded ft fst_conv snd_conv]
  note ih = Cons.IH[of t' n']
  let ?A = "{j \<in> key ` set xs. P (st t' j)}"
  have "{j \<in> key ` set (x # xs). P (st t j)} = (if P (st t (key x)) then insert (key x) ?A else ?A)"
    using s out by auto
  moreover have "P (st t (key x)) \<Longrightarrow> key x \<notin> ?A" using s out by auto
  ultimately show ?case using ih s out ft by auto
qed simp

lemmas fold_lifecycle = fold_lifecycle_gen[where inv = tables_ok and st = posting_state_of]

text \<open>A change of one slot.\<close>

lemma one_slot:
  assumes ok: "tables_ok t"
    and dist: "keys_distinct (pt_immutable t')" "keys_distinct (pt_active t')" "keys_distinct (pt_reserved t')"
    and same: "\<And>j. j \<noteq> i \<Longrightarrow> map_of (pt_immutable t') j = map_of (pt_immutable t) j \<and>
      map_of (pt_active t') j = map_of (pt_active t) j \<and> map_of (pt_reserved t') j = map_of (pt_reserved t) j"
    and slot: "tables_slot t' i" and st: "posting_state_of t' i = c"
  shows "tables_ok t' \<and> (\<forall>j. posting_state_of t' j = (if j = i then c else posting_state_of t j))"
proof -
  have "tables_slot t' j" for j using slot same[of j] tables_okD[OF ok, of j] by (cases "j = i") simp_all
  moreover have "posting_state_of t' j = (if j = i then c else posting_state_of t j)" for j
    using st same[of j] by (simp add: posting_state_of_slot)
  ultimately show ?thesis using dist by (simp add: tables_ok_def)
qed

text \<open>The four loop bodies.\<close>

lemma reserve_one_step:
  assumes ok: "tables_ok t"
  shows "tables_ok (snd (reserve_one r i (n, t))) \<and>
     (\<forall>j. posting_state_of (snd (reserve_one r i (n, t))) j
        = (if j = i \<and> posting_state_of t i = StateActive then StateReserved r else posting_state_of t j)) \<and>
     fst (reserve_one r i (n, t)) = n + (if posting_state_of t i = StateActive then 1 else 0)"
proof (cases "map_of (pt_active t) i")
  case None
  then show ?thesis using ok state_active_iff[of t i] by (simp add: reserve_one_def)
next
  case (Some p)
  let ?t = "t\<lparr>pt_active := AList.delete i (pt_active t), pt_reserved := AList.update i (p, r) (pt_reserved t)\<rparr>"
  have "tables_ok ?t \<and> (\<forall>j. posting_state_of ?t j = (if j = i then StateReserved r else posting_state_of t j))"
    by (rule one_slot[OF ok]) (use ok Some tables_okD[OF ok, of i] active_row[OF ok Some] in
      \<open>simp_all add: tables_ok_def posting_state_of_slot slot_defs\<close>)
  then show ?thesis using Some state_active_iff[of t i] by (simp add: reserve_one_def)
qed

lemma release_one_step:
  assumes ok: "tables_ok t"
  shows "tables_ok (snd (release_one r i (n, t))) \<and>
     (\<forall>j. posting_state_of (snd (release_one r i (n, t))) j
        = (if j = i \<and> posting_state_of t i = StateReserved r then StateActive else posting_state_of t j)) \<and>
     fst (release_one r i (n, t)) = n + (if posting_state_of t i = StateReserved r then 1 else 0)"
proof (cases "map_option snd (map_of (pt_reserved t) i) = Some r")
  case False
  then show ?thesis using ok state_reserved_iff[OF ok, of i r] by (simp add: release_one_def)
next
  case True
  then obtain p where p: "map_of (pt_reserved t) i = Some (p, r)" by auto
  let ?t = "t\<lparr>pt_reserved := AList.delete i (pt_reserved t), pt_active := AList.update i p (pt_active t)\<rparr>"
  have "tables_ok ?t \<and> (\<forall>j. posting_state_of ?t j = (if j = i then StateActive else posting_state_of t j))"
    by (rule one_slot[OF ok]) (use ok p tables_okD[OF ok, of i] in
      \<open>auto simp: tables_ok_def posting_state_of_slot slot_defs split: option.splits\<close>)
  then show ?thesis using p True state_reserved_iff[OF ok, of i r] by (simp add: release_one_def)
qed

lemma deactivate_one_step:
  fixes r :: "reservation_id option"
  assumes ok: "tables_ok t"
  defines "target \<equiv> (case r of None \<Rightarrow> StateActive | Some rid \<Rightarrow> StateReserved rid)"
  shows "tables_ok (snd (deactivate_one r i (n, t))) \<and>
     (\<forall>j. posting_state_of (snd (deactivate_one r i (n, t))) j
        = (if j = i \<and> posting_state_of t i = target then StateSpent else posting_state_of t j)) \<and>
     fst (deactivate_one r i (n, t)) = n + (if posting_state_of t i = target then 1 else 0)"
proof (cases "posting_state_of t i = target")
  case False
  then show ?thesis using ok state_active_iff[of t i] state_reserved_iff[OF ok, of i]
    by (cases r) (simp_all add: target_def deactivate_one_def contains_key_def)
next
  case True
  define t' where "t' = (case r of None \<Rightarrow> t\<lparr>pt_active := AList.delete i (pt_active t)\<rparr>
      | Some _ \<Rightarrow> t\<lparr>pt_reserved := AList.delete i (pt_reserved t)\<rparr>)"
  have "tables_ok t' \<and> (\<forall>j. posting_state_of t' j = (if j = i then StateSpent else posting_state_of t j))"
  proof (rule one_slot[OF ok])
    show "keys_distinct (pt_immutable t')" "keys_distinct (pt_active t')" "keys_distinct (pt_reserved t')"
      using ok by (simp_all add: t'_def tables_ok_def split: option.splits)
    show "tables_slot t' i" "posting_state_of t' i = StateSpent"
      using True tables_okD[OF ok, of i] state_reserved_iff[OF ok, of i] state_active_iff[of t i]
      by (auto simp: t'_def target_def posting_state_of_slot slot_defs split: option.splits)
  qed (simp add: t'_def split: option.splits)
  moreover have "deactivate_one r i (n, t) = (Suc n, t')"
    using True state_active_iff[of t i] state_reserved_iff[OF ok, of i]
    by (cases r) (simp_all add: target_def deactivate_one_def contains_key_def t'_def)
  ultimately show ?thesis using True by simp
qed

lemma insert_one_step:
  assumes ok: "tables_ok t"
  shows "tables_ok (snd (insert_one p (n, t))) \<and>
     (\<forall>j. posting_state_of (snd (insert_one p (n, t))) j
        = (if j = p_id p \<and> posting_state_of t (p_id p) = StateMissing then StateActive else posting_state_of t j)) \<and>
     fst (insert_one p (n, t)) = n + (if posting_state_of t (p_id p) = StateMissing then 1 else 0)"
proof (cases "map_of (pt_immutable t) (p_id p)")
  case None
  let ?t = "t\<lparr>pt_immutable := AList.update (p_id p) p (pt_immutable t), pt_active := AList.update (p_id p) p (pt_active t)\<rparr>"
  have "tables_ok ?t \<and> (\<forall>j. posting_state_of ?t j = (if j = p_id p then StateActive else posting_state_of t j))"
    by (rule one_slot[OF ok]) (use ok None tables_okD[OF ok, of "p_id p"] in
      \<open>auto simp: tables_ok_def posting_state_of_slot slot_defs\<close>)
  then show ?thesis using None state_missing_iff[OF ok, of "p_id p"] by (simp add: insert_one_def contains_key_def)
next
  case (Some q)
  then show ?thesis using ok state_missing_iff[OF ok, of "p_id p"] by (simp add: insert_one_def contains_key_def)
qed

section \<open>The contract of a posting store\<close>

text \<open>
  What \<open>PostingStore\<close> promises of its four lifecycle writes: which ids change state, to
  which state, and the number of rows reported.
\<close>

locale posting_index =
  fixes inv :: "'s \<Rightarrow> bool" and state :: "'s \<Rightarrow> posting_id \<Rightarrow> posting_state"
    and reserve :: "posting_id list \<Rightarrow> reservation_id \<Rightarrow> 's \<Rightarrow> nat \<times> 's"
    and release :: "posting_id list \<Rightarrow> reservation_id \<Rightarrow> 's \<Rightarrow> nat \<times> 's"
    and deactivate :: "posting_id list \<Rightarrow> reservation_id option \<Rightarrow> 's \<Rightarrow> nat \<times> 's"
    and add :: "posting list \<Rightarrow> 's \<Rightarrow> nat \<times> 's"
  assumes reserve_law: "inv s \<Longrightarrow> inv (snd (reserve ids r s)) \<and>
       (\<forall>j. state (snd (reserve ids r s)) j = (if j \<in> set ids \<and> state s j = StateActive then StateReserved r else state s j)) \<and>
       fst (reserve ids r s) = card {j \<in> set ids. state s j = StateActive}"
    and release_law: "inv s \<Longrightarrow> inv (snd (release ids r s)) \<and>
       (\<forall>j. state (snd (release ids r s)) j = (if j \<in> set ids \<and> state s j = StateReserved r then StateActive else state s j)) \<and>
       fst (release ids r s) = card {j \<in> set ids. state s j = StateReserved r}"
    and deactivate_law: "inv s \<Longrightarrow> inv (snd (deactivate ids ro s)) \<and>
       (\<forall>j. state (snd (deactivate ids ro s)) j =
          (if j \<in> set ids \<and> state s j = (case ro of None \<Rightarrow> StateActive | Some r \<Rightarrow> StateReserved r) then StateSpent else state s j)) \<and>
       fst (deactivate ids ro s) = card {j \<in> set ids. state s j = (case ro of None \<Rightarrow> StateActive | Some r \<Rightarrow> StateReserved r)}"
    and add_law: "inv s \<Longrightarrow> inv (snd (add ps s)) \<and>
       (\<forall>j. state (snd (add ps s)) j = (if j \<in> p_id ` set ps \<and> state s j = StateMissing then StateActive else state s j)) \<and>
       fst (add ps s) = card {j \<in> p_id ` set ps. state s j = StateMissing}"
begin

text \<open>A reservation that has won its ids leaves nothing to a second one.\<close>

lemma reserve_exclusive:
  "inv s \<Longrightarrow> fst (reserve ids r' (snd (reserve ids r s))) = 0"
  using reserve_law[of s ids r] reserve_law[of "snd (reserve ids r s)" ids r'] by auto

text \<open>Releasing undoes reserving.\<close>

lemma release_reserve:
  assumes "inv s" "\<forall>j \<in> set ids. state s j = StateActive"
  shows "state (snd (release ids r (snd (reserve ids r s)))) = state s"
    and "fst (release ids r (snd (reserve ids r s))) = fst (reserve ids r s)"
proof -
  note r = reserve_law[OF assms(1), of ids r]
  note l = release_law[OF conjunct1[OF r], of ids r]
  show "state (snd (release ids r (snd (reserve ids r s)))) = state s"
    by (rule ext) (use r l assms(2) in auto)
  have "{j \<in> set ids. state (snd (reserve ids r s)) j = StateReserved r} = {j \<in> set ids. state s j = StateActive}"
    using r assms(2) by auto
  then show "fst (release ids r (snd (reserve ids r s))) = fst (reserve ids r s)" using r l by simp
qed

text \<open>What one reservation holds, no other holder can spend or release.\<close>

lemma reserved_protected:
  assumes "inv s" "state s j = StateReserved r" "r' \<noteq> r"
  shows "state (snd (release ids r' s)) j = StateReserved r"
    and "state (snd (deactivate ids (Some r') s)) j = StateReserved r"
    and "state (snd (deactivate ids None s)) j = StateReserved r"
  using assms release_law[of s ids r'] deactivate_law[of s ids "Some r'"] deactivate_law[of s ids None] by auto

text \<open>A spent posting stays spent.\<close>

lemma spent_final:
  assumes "inv s" "state s j = StateSpent"
  shows "state (snd (reserve ids r s)) j = StateSpent" "state (snd (release ids r s)) j = StateSpent"
    "state (snd (deactivate ids ro s)) j = StateSpent" "state (snd (add ps s)) j = StateSpent"
  using assms reserve_law[of s ids r] release_law[of s ids r] deactivate_law[of s ids ro] add_law[of s ps]
  by (auto split: option.splits)

end

text \<open>The in-memory store keeps the contract.\<close>

lemma mem_reserve:
  assumes "tables_ok (ms_postings s)"
  shows "tables_ok (ms_postings (snd (reserve_postings ids r s))) \<and>
       (\<forall>j. posting_state_of (ms_postings (snd (reserve_postings ids r s))) j
          = (if j \<in> set ids \<and> posting_state_of (ms_postings s) j = StateActive then StateReserved r else posting_state_of (ms_postings s) j)) \<and>
       fst (reserve_postings ids r s) = card {j \<in> set ids. posting_state_of (ms_postings s) j = StateActive}"
  using fold_lifecycle[where f = "reserve_one r" and key = "\<lambda>i. i" and P = "\<lambda>c. c = StateActive" and c = "StateReserved r" and n = 0,
      OF reserve_one_step _ assms, of ids]
  by (simp add: reserve_postings_def split_beta Let_def)

lemma mem_release:
  assumes "tables_ok (ms_postings s)"
  shows "tables_ok (ms_postings (snd (release_postings ids r s))) \<and>
       (\<forall>j. posting_state_of (ms_postings (snd (release_postings ids r s))) j
          = (if j \<in> set ids \<and> posting_state_of (ms_postings s) j = StateReserved r then StateActive else posting_state_of (ms_postings s) j)) \<and>
       fst (release_postings ids r s) = card {j \<in> set ids. posting_state_of (ms_postings s) j = StateReserved r}"
  using fold_lifecycle[where f = "release_one r" and key = "\<lambda>i. i" and P = "\<lambda>c. c = StateReserved r" and c = StateActive and n = 0,
      OF release_one_step _ assms, of ids]
  by (simp add: release_postings_def split_beta Let_def)

lemma mem_deactivate:
  assumes "tables_ok (ms_postings s)"
  shows "tables_ok (ms_postings (snd (deactivate_postings ids ro s))) \<and>
       (\<forall>j. posting_state_of (ms_postings (snd (deactivate_postings ids ro s))) j =
          (if j \<in> set ids \<and> posting_state_of (ms_postings s) j = (case ro of None \<Rightarrow> StateActive | Some r \<Rightarrow> StateReserved r)
           then StateSpent else posting_state_of (ms_postings s) j)) \<and>
       fst (deactivate_postings ids ro s)
         = card {j \<in> set ids. posting_state_of (ms_postings s) j = (case ro of None \<Rightarrow> StateActive | Some r \<Rightarrow> StateReserved r)}"
  using fold_lifecycle[where f = "deactivate_one ro" and key = "\<lambda>i. i" and c = StateSpent and n = 0
      and P = "\<lambda>c. c = (case ro of None \<Rightarrow> StateActive | Some r \<Rightarrow> StateReserved r)",
      OF deactivate_one_step _ assms, of ids]
  by (cases ro) (simp_all add: deactivate_postings_def split_beta Let_def)

lemma mem_insert:
  assumes "tables_ok (ms_postings s)"
  shows "tables_ok (ms_postings (snd (insert_postings ps s))) \<and>
       (\<forall>j. posting_state_of (ms_postings (snd (insert_postings ps s))) j
          = (if j \<in> p_id ` set ps \<and> posting_state_of (ms_postings s) j = StateMissing then StateActive else posting_state_of (ms_postings s) j)) \<and>
       fst (insert_postings ps s) = card {j \<in> p_id ` set ps. posting_state_of (ms_postings s) j = StateMissing}"
  using fold_lifecycle[where f = insert_one and key = p_id and P = "\<lambda>c. c = StateMissing" and c = StateActive and n = 0,
      OF insert_one_step _ assms, of ps]
  by (simp add: insert_postings_def split_beta Let_def)

interpretation mem_index: posting_index "\<lambda>s. tables_ok (ms_postings s)" "\<lambda>s. posting_state_of (ms_postings s)"
  reserve_postings release_postings deactivate_postings insert_postings
  by unfold_locales (rule mem_reserve mem_release mem_deactivate mem_insert; assumption)+

section \<open>The atomic commit\<close>

text \<open>Postings as entries of an account and asset.\<close>

definition post_entries :: "posting list \<Rightarrow> ((account_id \<times> asset_id) \<times> cent) list" where
  "post_entries ps = map (\<lambda>p. ((p_owner p, p_asset p), p_value p)) ps"

text \<open>What a well-formed request is: it spends each posting once and creates fresh ids.\<close>

definition request_fresh :: "commit_request \<Rightarrow> posting_tables \<Rightarrow> bool" where
  "request_fresh req t \<longleftrightarrow> distinct (cr_consume req) \<and> distinct (map p_id (cr_create req)) \<and>
     (\<forall>p \<in> set (cr_create req). map_of (pt_immutable t) (p_id p) = None)"

definition consumed_of :: "commit_request \<Rightarrow> posting_tables \<Rightarrow> posting list" where
  "consumed_of req t = List.map_filter (map_of (pt_active t)) (cr_consume req)"

lemma guards_passed:
  assumes "commit_guards h req st = Inr u"
  shows "aid \<in> set (cr_involved req) \<Longrightarrow> \<exists>a. head_version st aid = Some a \<and> \<not> is_frozen a \<and> \<not> is_closed a"
    and "i \<in> set (cr_consume req) \<Longrightarrow> map_of (pt_active (ms_postings st)) i \<noteq> None"
    and "aid \<in> set (cr_involved req) \<Longrightarrow> head_version st aid = Some a \<Longrightarrow> forbids_overdraft a \<Longrightarrow>
       asset \<in> set (commit_assets h req st aid) \<Longrightarrow> commit_floor_asset h req st aid asset = None"
proof -
  have g: "\<forall>aid \<in> set (cr_involved req). commit_flag_guard st aid = None"
    "\<forall>i \<in> set (cr_consume req). commit_spend_guard st i = None"
    "\<forall>aid \<in> set (cr_involved req). commit_floor_guard h req st aid = None"
    using assms by (simp_all add: commit_guards_def rbind_eq_Inr guard_each_Inr)
  show "aid \<in> set (cr_involved req) \<Longrightarrow> \<exists>a. head_version st aid = Some a \<and> \<not> is_frozen a \<and> \<not> is_closed a"
    using g(1) by (cases "head_version st aid") (auto simp: commit_flag_guard_def account_of_def split: if_splits)
  show "i \<in> set (cr_consume req) \<Longrightarrow> map_of (pt_active (ms_postings st)) i \<noteq> None"
    using g(2) by (auto simp: commit_spend_guard_def contains_key_def split: if_splits)
  show "aid \<in> set (cr_involved req) \<Longrightarrow> head_version st aid = Some a \<Longrightarrow> forbids_overdraft a \<Longrightarrow>
       asset \<in> set (commit_assets h req st aid) \<Longrightarrow> commit_floor_asset h req st aid asset = None"
    using g(3) by (auto simp: commit_floor_guard_def account_of_def try_each_None split: if_splits)
qed

lemma fold_delete_active:
  "fold (\<lambda>i t. t\<lparr>pt_active := AList.delete i (pt_active t)\<rparr>) is t = t\<lparr>pt_active := fold AList.delete is (pt_active t)\<rparr>"
  by (induction "is" arbitrary: t) simp_all

lemma apply_create_insert_one:
  "map_of (pt_immutable t) (p_id p) = None \<Longrightarrow> apply_create p t = snd (insert_one p (n, t))"
  by (simp add: apply_create_def insert_one_def contains_key_def)

lemma fold_apply_create:
  assumes "distinct (map p_id ps)" "\<forall>p \<in> set ps. map_of (pt_immutable t) (p_id p) = None"
  shows "fold apply_create ps t = snd (fold insert_one ps (n, t))"
  using assms
proof (induction ps arbitrary: t n)
  case (Cons p ps)
  obtain n' where ins: "insert_one p (n, t) = (n', apply_create p t)"
    using Cons.prems apply_create_insert_one[of t p n] by (metis prod.collapse list.set_intros(1))
  have "\<forall>q \<in> set ps. map_of (pt_immutable (apply_create p t)) (p_id q) = None"
    using Cons.prems by (auto simp: apply_create_def) (metis imageI)
  then show ?case using Cons ins by simp
qed simp

lemma spend_all:
  assumes "tables_ok t" "\<forall>i \<in> set is. map_of (pt_active t) i \<noteq> None" "distinct is"
  defines "t' \<equiv> t\<lparr>pt_active := fold AList.delete is (pt_active t)\<rparr>"
  shows "tables_ok t' \<and> (\<forall>j. posting_state_of t' j = (if j \<in> set is then StateSpent else posting_state_of t j))"
proof -
  have "snd (fold (deactivate_one None) is (n, t)) = t\<lparr>pt_active := fold AList.delete is (pt_active t)\<rparr>" for n
    using assms(2,3)
  proof (induction "is" arbitrary: t n)
    case (Cons i "is")
    then have "deactivate_one None i (n, t) = (Suc n, t\<lparr>pt_active := AList.delete i (pt_active t)\<rparr>)"
      by (simp add: deactivate_one_def contains_key_def)
    moreover have "\<forall>j \<in> set is. map_of (pt_active (t\<lparr>pt_active := AList.delete i (pt_active t)\<rparr>)) j \<noteq> None"
      using Cons.prems by auto
    ultimately show ?case using Cons by simp
  qed simp
  then show ?thesis
    using fold_lifecycle[where f = "deactivate_one None" and key = "\<lambda>i. i" and c = StateSpent and n = 0
        and P = "\<lambda>c. c = StateActive", OF _ _ assms(1), of "is"] deactivate_one_step[where r = None]
      assms(2) state_active_iff[of t]
    by (auto simp: t'_def)
qed

text \<open>The lifecycle effect of a commit that passed its guards.\<close>

lemma commit_tables_states:
  assumes ok: "tables_ok t" and fr: "request_fresh req t" and live: "\<forall>i \<in> set (cr_consume req). map_of (pt_active t) i \<noteq> None"
  shows "tables_ok (commit_tables req t)"
    and "posting_state_of (commit_tables req t) j =
       (if j \<in> p_id ` set (cr_create req) then StateActive
        else if j \<in> set (cr_consume req) then StateSpent else posting_state_of t j)"
proof -
  let ?t = "t\<lparr>pt_active := fold AList.delete (cr_consume req) (pt_active t)\<rparr>"
  note sp = spend_all[OF ok live, unfolded request_fresh_def]
  have d: "distinct (cr_consume req)" using fr by (simp add: request_fresh_def)
  have ct: "commit_tables req t = snd (fold insert_one (cr_create req) (0, ?t))"
    unfolding commit_tables_def fold_delete_active
    by (rule fold_apply_create) (use fr in \<open>simp_all add: request_fresh_def\<close>)
  note f = fold_lifecycle[where f = insert_one and key = p_id and P = "\<lambda>c. c = StateMissing" and c = StateActive and n = 0,
      OF insert_one_step _ conjunct1[OF sp[OF d]], of "cr_create req"]
  show "tables_ok (commit_tables req t)" unfolding ct using f by simp
  have mis: "posting_state_of t j = StateMissing" if "j \<in> p_id ` set (cr_create req)" for j
    using that fr state_missing_iff[OF ok] by (auto simp: request_fresh_def)
  have "j \<notin> set (cr_consume req)" if "j \<in> p_id ` set (cr_create req)" for j
    using mis[OF that] live state_active_iff[of t j] by auto
  then show "posting_state_of (commit_tables req t) j =
       (if j \<in> p_id ` set (cr_create req) then StateActive
        else if j \<in> set (cr_consume req) then StateSpent else posting_state_of t j)"
    unfolding ct using f sp[OF d] mis by auto
qed

text \<open>The effect on balances: what the consumed postings held goes, what the created ones hold comes.\<close>

lemma key_sum_delete:
  assumes "keys_distinct m" "map_of m i = Some p"
  shows "key_sum k (map (\<lambda>e. f (snd e)) (AList.delete i m)) = key_sum k (map (\<lambda>e. f (snd e)) m) - key_sum k [f p]"
  using assms
proof (induction m)
  case (Cons e m)
  show ?case
  proof (cases "fst e = i")
    case True
    then have "i \<notin> fst ` set m" using Cons.prems by auto
    then have "AList.delete i m = m" by (rule AList.delete_id)
    with True Cons.prems show ?thesis by (cases e) (simp add: key_sum_Cons)
  next
    case False
    with Cons show ?thesis by (cases e) (simp add: key_sum_Cons)
  qed
qed simp

lemma map_filter_cong: "(\<And>x. x \<in> set xs \<Longrightarrow> f x = g x) \<Longrightarrow> List.map_filter f xs = List.map_filter g xs"
  by (induction xs) (auto simp: map_filter_simps split: option.splits)

lemma key_sum_deletes:
  assumes "keys_distinct m" "distinct is" "\<forall>i \<in> set is. map_of m i \<noteq> None"
  shows "key_sum k (map (\<lambda>e. f (snd e)) (fold AList.delete is m))
       = key_sum k (map (\<lambda>e. f (snd e)) m) - key_sum k (map f (List.map_filter (map_of m) is))"
  using assms
proof (induction "is" arbitrary: m)
  case Nil
  then show ?case by (simp add: map_filter_simps)
next
  case (Cons i "is")
  then obtain p where p: "map_of m i = Some p" by auto
  have eq: "List.map_filter (map_of (AList.delete i m)) is = List.map_filter (map_of m) is"
    by (rule map_filter_cong) (use Cons.prems(2) in auto)
  have "\<forall>j \<in> set is. map_of (AList.delete i m) j \<noteq> None" using Cons.prems(2,3) by auto
  then have "key_sum k (map (\<lambda>e. f (snd e)) (fold AList.delete is (AList.delete i m)))
      = key_sum k (map (\<lambda>e. f (snd e)) (AList.delete i m)) - key_sum k (map f (List.map_filter (map_of m) is))"
    using Cons.IH[of "AList.delete i m"] Cons.prems(1,2) unfolding eq by simp
  then show ?case using key_sum_delete[OF Cons.prems(1) p, of k f]
    by (simp add: p map_filter_simps key_sum_Cons)
qed

definition live_entries :: "posting_tables \<Rightarrow> ((account_id \<times> asset_id) \<times> cent) list" where
  "live_entries t = post_entries (postings_in FilterLive t)"

definition active_entries :: "posting_tables \<Rightarrow> ((account_id \<times> asset_id) \<times> cent) list" where
  "active_entries t = post_entries (postings_in FilterActive t)"

lemma key_sum_live: "key_sum k (live_entries t) = key_sum k (active_entries t) + key_sum k (post_entries (postings_in FilterReserved t))"
  by (simp add: live_entries_def active_entries_def post_entries_def postings_in_def)

lemma fold_apply_create_active:
  assumes "distinct (map p_id ps)" "\<forall>p \<in> set ps. map_of (pt_active t) (p_id p) = None"
  shows "pt_active (fold apply_create ps t) = pt_active t @ map (\<lambda>p. (p_id p, p)) ps"
    and "pt_reserved (fold apply_create ps t) = pt_reserved t"
proof -
  have "pt_active (fold apply_create ps t) = pt_active t @ map (\<lambda>p. (p_id p, p)) ps \<and>
      pt_reserved (fold apply_create ps t) = pt_reserved t"
    using assms
  proof (induction ps arbitrary: t)
    case (Cons p ps)
    have up: "pt_active (apply_create p t) = pt_active t @ [(p_id p, p)]"
      using Cons.prems by (simp add: apply_create_def update_fresh map_of_eq_None_iff)
    have "\<forall>q \<in> set ps. map_of (pt_active (apply_create p t)) (p_id q) = None"
      using Cons.prems by (auto simp: apply_create_def) (metis imageI)
    moreover have "pt_reserved (apply_create p t) = pt_reserved t" by (simp add: apply_create_def)
    ultimately show ?case using Cons.IH[of "apply_create p t"] Cons.prems up by simp
  qed simp
  then show "pt_active (fold apply_create ps t) = pt_active t @ map (\<lambda>p. (p_id p, p)) ps"
    "pt_reserved (fold apply_create ps t) = pt_reserved t" by simp_all
qed

lemma map_of_fold_delete: "map_of (fold AList.delete is m) j = (if j \<in> set is then None else map_of m j)"
  by (induction "is" arbitrary: m) auto

lemma commit_tables_lists:
  assumes ok: "tables_ok t" and fr: "request_fresh req t"
  shows "pt_active (commit_tables req t) = fold AList.delete (cr_consume req) (pt_active t) @ map (\<lambda>p. (p_id p, p)) (cr_create req)"
    and "pt_reserved (commit_tables req t) = pt_reserved t"
proof -
  let ?t = "t\<lparr>pt_active := fold AList.delete (cr_consume req) (pt_active t)\<rparr>"
  have "\<forall>p \<in> set (cr_create req). map_of (pt_active ?t) (p_id p) = None"
  proof
    fix p assume "p \<in> set (cr_create req)"
    then have "map_of (pt_immutable t) (p_id p) = None" using fr by (simp add: request_fresh_def)
    then have "map_of (pt_active t) (p_id p) = None"
      using active_row[OF ok] by (metis not_None_eq)
    then show "map_of (pt_active ?t) (p_id p) = None" by (simp add: map_of_fold_delete)
  qed
  then show "pt_active (commit_tables req t) = fold AList.delete (cr_consume req) (pt_active t) @ map (\<lambda>p. (p_id p, p)) (cr_create req)"
    "pt_reserved (commit_tables req t) = pt_reserved t"
    unfolding commit_tables_def fold_delete_active
    using fold_apply_create_active[of "cr_create req" ?t] fr by (simp_all add: request_fresh_def)
qed

lemma commit_tables_active:
  assumes ok: "tables_ok t" and fr: "request_fresh req t" and live: "\<forall>i \<in> set (cr_consume req). map_of (pt_active t) i \<noteq> None"
  shows "key_sum k (active_entries (commit_tables req t))
       = key_sum k (active_entries t) - key_sum k (post_entries (consumed_of req t)) + key_sum k (post_entries (cr_create req))"
proof -
  have "keys_distinct (pt_active t)" "distinct (cr_consume req)" using ok fr by (simp_all add: tables_ok_def request_fresh_def)
  from key_sum_deletes[OF this live, of k "\<lambda>p. ((p_owner p, p_asset p), p_value p)"]
  show ?thesis
    by (simp add: active_entries_def post_entries_def postings_in_def commit_tables_lists[OF ok fr] consumed_of_def comp_def)
qed

lemma commit_tables_live:
  assumes "tables_ok t" "request_fresh req t" "\<forall>i \<in> set (cr_consume req). map_of (pt_active t) i \<noteq> None"
  shows "key_sum k (live_entries (commit_tables req t))
       = key_sum k (live_entries t) - key_sum k (post_entries (consumed_of req t)) + key_sum k (post_entries (cr_create req))"
  using commit_tables_active[OF assms] commit_tables_lists[OF assms(1,2)]
  by (simp add: key_sum_live postings_in_def)

lemma commit_tables_rows:
  assumes fr: "request_fresh req t"
  shows "pt_immutable (commit_tables req t) = pt_immutable t @ map (\<lambda>p. (p_id p, p)) (cr_create req)"
proof -
  have "pt_immutable (fold apply_create ps t') = pt_immutable t' @ map (\<lambda>p. (p_id p, p)) ps"
    if "distinct (map p_id ps)" "\<forall>p \<in> set ps. map_of (pt_immutable t') (p_id p) = None" for ps t'
    using that
  proof (induction ps arbitrary: t')
    case (Cons p ps)
    have up: "pt_immutable (apply_create p t') = pt_immutable t' @ [(p_id p, p)]"
      using Cons.prems by (simp add: apply_create_def contains_key_def update_fresh map_of_eq_None_iff)
    have "\<forall>q \<in> set ps. map_of (pt_immutable (apply_create p t')) (p_id q) = None"
      using Cons.prems by (auto simp: apply_create_def) (metis imageI)
    then show ?case using Cons.IH[of "apply_create p t'"] Cons.prems up by simp
  qed simp
  then show ?thesis unfolding commit_tables_def fold_delete_active
    using fr by (simp add: request_fresh_def)
qed

text \<open>The overdraft floor: an account that forbids overdraft ends with no negative active balance it touched.\<close>

lemma floor_asset_passed:
  assumes h: "hash_order_ok h" and pass: "commit_floor_asset h req st aid asset = None"
  shows "0 \<le> sum_list (map p_value (live_after req st aid asset)) + sum_list (map p_value (created_for req aid asset))"
proof -
  let ?L = "live_after req st aid asset" and ?C = "created_for req aid asset"
  obtain l c where l: "checked_sum (map p_value (ho_postings h ?L)) = Inr l" and c: "checked_sum (map p_value ?C) = Inr c"
    and lc: "0 \<le> l + c"
    using pass by (auto simp: commit_floor_asset_def overflow_exit_def rbind_eq_Inl map_err_eq_Inl rbind_eq_Inr cent_simps
        split: sum.splits if_splits)
  have "mset (map p_value (ho_postings h ?L)) = mset (map p_value ?L)" using h by (simp add: hash_order_ok_def)
  then have "sum_list (map p_value (ho_postings h ?L)) = sum_list (map p_value ?L)" by (metis sum_mset_sum_list)
  then show ?thesis using lc checked_sum_exact[OF l] checked_sum_exact[OF c] by simp
qed

lemma key_sum_post_filter:
  "key_sum (ow, asset) (post_entries ps) = sum_list (map p_value (filter (\<lambda>p. p_owner p = ow \<and> p_asset p = asset) ps))"
  unfolding post_entries_def by (induction ps) (auto simp: key_sum_Cons)

lemma fold_delete_filter: "fold AList.delete is m = filter (\<lambda>e. fst e \<notin> set is) m"
proof (induction "is" arbitrary: m)
  case (Cons i "is")
  have "AList.delete i m = filter (\<lambda>e. fst e \<noteq> i) m" by (induction m) auto
  with Cons show ?case by (auto intro: filter_cong)
qed simp

lemma live_after_entries:
  assumes ok: "tables_ok (ms_postings st)"
  shows "sum_list (map p_value (live_after req st aid asset))
       = key_sum (aid, asset) (post_entries (map snd (fold AList.delete (cr_consume req) (pt_active (ms_postings st)))))"
proof -
  have "p_id (snd e) = fst e" if "e \<in> set (pt_active (ms_postings st))" for e
    using that ok active_row[OF ok, of "fst e" "snd e"] by (simp add: tables_ok_def map_of_eq_Some_iff)
  then have "filter (\<lambda>p. p_id p \<notin> set (cr_consume req)) (map snd (pt_active (ms_postings st)))
      = map snd (fold AList.delete (cr_consume req) (pt_active (ms_postings st)))"
    unfolding fold_delete_filter filter_map comp_def by (intro arg_cong[where f = "map snd"] filter_cong) auto
  moreover have "live_after req st aid asset = filter (\<lambda>p. p_owner p = aid \<and> p_asset p = asset)
      (filter (\<lambda>p. p_id p \<notin> set (cr_consume req)) (map snd (pt_active (ms_postings st))))"
    by (simp add: live_after_def conj_comms)
  ultimately show ?thesis by (simp add: key_sum_post_filter)
qed

lemma commit_floor:
  assumes h: "hash_order_ok h" and ok: "tables_ok (ms_postings st)" and fr: "request_fresh req (ms_postings st)"
    and g: "commit_guards h req st = Inr u"
    and inv: "set (map p_owner (cr_create req)) \<subseteq> set (cr_involved req)"
      "set (map p_owner (consumed_of req (ms_postings st))) \<subseteq> set (cr_involved req)"
    and acc: "head_version st aid = Some a" "forbids_overdraft a"
    and before: "0 \<le> key_sum (aid, asset) (active_entries (ms_postings st))"
  shows "0 \<le> key_sum (aid, asset) (active_entries (commit_tables req (ms_postings st)))"
proof -
  let ?t = "ms_postings st"
  have live: "\<forall>i \<in> set (cr_consume req). map_of (pt_active ?t) i \<noteq> None" using guards_passed(2)[OF g] by blast
  have touched: "asset \<in> set (commit_assets h req st aid) \<longleftrightarrow>
      (aid, asset) \<in> fst ` set (post_entries (consumed_of req ?t)) \<union> fst ` set (post_entries (cr_create req))"
  proof -
    have "set (ho_assets h xs) = set xs" for xs using h by (metis hash_order_ok_def set_mset_mset)
    then show ?thesis by (auto simp: commit_assets_def consumed_of_def post_entries_def image_image)
  qed
  show ?thesis
  proof (cases "asset \<in> set (commit_assets h req st aid)")
    case True
    then have "aid \<in> set (cr_involved req)" using touched inv by (auto simp: post_entries_def)
    then have "0 \<le> sum_list (map p_value (live_after req st aid asset)) + sum_list (map p_value (created_for req aid asset))"
      using floor_asset_passed[OF h guards_passed(3)[OF g _ acc True]] by simp
    then show ?thesis
      unfolding live_after_entries[OF ok] created_for_def key_sum_post_filter[symmetric]
      by (simp add: active_entries_def postings_in_def commit_tables_lists[OF ok fr] post_entries_def comp_def)
  next
    case False
    then have "key_sum (aid, asset) (post_entries (consumed_of req ?t)) = 0" "key_sum (aid, asset) (post_entries (cr_create req)) = 0"
      using touched by (simp_all add: key_sum_absent)
    then show ?thesis using before commit_tables_active[OF ok fr live, of "(aid, asset)"] by simp
  qed
qed

section \<open>Properties\<close>

text \<open>
  The lifecycle of a posting under the reservation interface: a second reservation of
  the same ids wins nothing, what one reservation holds no other holder can release
  or spend, and a spent posting stays spent under every operation, a replayed insert
  included.
\<close>

theorem posting_lifecycle:
  assumes "tables_ok (ms_postings s)"
  shows "fst (reserve_postings ids r' (snd (reserve_postings ids r s))) = 0 \<and>
    (posting_state_of (ms_postings s) j = StateReserved r \<and> r' \<noteq> r \<longrightarrow>
       posting_state_of (ms_postings (snd (release_postings ids r' s))) j = StateReserved r \<and>
       posting_state_of (ms_postings (snd (deactivate_postings ids (Some r') s))) j = StateReserved r \<and>
       posting_state_of (ms_postings (snd (deactivate_postings ids None s))) j = StateReserved r) \<and>
    (posting_state_of (ms_postings s) j = StateSpent \<longrightarrow>
       posting_state_of (ms_postings (snd (reserve_postings ids r s))) j = StateSpent \<and>
       posting_state_of (ms_postings (snd (release_postings ids r s))) j = StateSpent \<and>
       posting_state_of (ms_postings (snd (deactivate_postings ids ro s))) j = StateSpent \<and>
       posting_state_of (ms_postings (snd (insert_postings ps s))) j = StateSpent)"
  using mem_index.reserve_exclusive[OF assms] mem_index.reserved_protected[OF assms] mem_index.spent_final[OF assms] by auto

theorem posting_lifecycle_witness:
  "let i = PostingId (EnvelopeId []) 0; p = \<lparr>p_id = i, p_owner = AccountId 1 0, p_asset = AssetId 1, p_value = 5\<rparr>;
       s = snd (reserve_postings [i] (ReservationId 1) (snd (insert_postings [p] mem_store_new)))
   in posting_state_of (ms_postings s) i = StateReserved (ReservationId 1) \<and>
      posting_state_of (ms_postings (snd (release_postings [i] (ReservationId 2) s))) i = StateReserved (ReservationId 1)"
proof -
  define i where "i = PostingId (EnvelopeId []) 0"
  define p where "p = \<lparr>p_id = i, p_owner = AccountId 1 0, p_asset = AssetId 1, p_value = 5\<rparr>"
  define s where "s = snd (reserve_postings [i] (ReservationId 1) (snd (insert_postings [p] mem_store_new)))"
  have "tables_ok (ms_postings (snd (insert_postings [p] mem_store_new)))"
    using mem_insert[OF tables_ok_new, of "[p]"] by blast
  then have "tables_ok (ms_postings s)" unfolding s_def using mem_reserve by blast
  moreover have "posting_state_of (ms_postings s) i = StateReserved (ReservationId 1)"
    by (simp add: s_def reserve_postings_def insert_postings_def insert_one_def reserve_one_def mem_store_new_def contains_key_def
        p_def posting_state_of_def map_of_alist)
  ultimately have "posting_state_of (ms_postings (snd (release_postings [i] (ReservationId 2) s))) i = StateReserved (ReservationId 1)"
    using posting_lifecycle[of s "[i]" "ReservationId 2" "ReservationId 1" i] by simp
  then show ?thesis using \<open>posting_state_of (ms_postings s) i = _\<close> by (simp add: Let_def i_def p_def s_def)
qed

end
