(* ===== verification/Ledger_Steps.thy ===== *)
theory Ledger_Steps
  imports Ledger_Commit Ledger_Lifecycle Saga Mem_Store_Laws
begin

text \<open>
  The store as a state machine. \<open>store_step\<close> lists the atomic writes the ledger issues;
  an interleaving of concurrent ledger calls is a sequence of such steps, each of which
  may rest on stale reads: a commit may use accounts, balances and a book read at any
  earlier time (the consumed postings come from the immutable table, which never
  changes), and a transition may start from any earlier version of the account. Every
  ledger method is such a sequence, whatever its result.
\<close>

section \<open>The step relation\<close>

inductive store_step :: "ledger_env \<Rightarrow> mem_store \<Rightarrow> mem_store \<Rightarrow> bool" for env where
  step_commit: "valid_input (x_sha (le_ext env)) input \<Longrightarrow>
     get_postings (e_consumes (pi_envelope input)) st = Inr (pi_consumed_postings input) \<Longrightarrow>
     ls_consumed_postings s = pi_consumed_postings input \<Longrightarrow>
     store_step env st (snd (commit_envelope (le_hash env) c
       (build_request (pi_envelope input) s (build_plan (x_sha (le_ext env)) (pi_envelope input)) ts) st))"
| step_transition: "map_of (ms_accounts st) aid = Some vs \<Longrightarrow> a \<in> set vs \<Longrightarrow> \<not> is_closed a \<Longrightarrow>
     (mutate, make_event) \<in> {(freeze_flags, EvAccountFrozen), (unfreeze_flags, EvAccountUnfrozen), (close_flags, EvAccountClosed)} \<Longrightarrow>
     next_version mutate a = Some nxt \<Longrightarrow> ev_kind ev = make_event aid (acc_version nxt) \<Longrightarrow>
     store_step env st (snd (commit_transition c nxt ev st))"
| step_create_account: "store_step env st (snd (create_account a st))"
| step_append_event: "ev_kind ev = EvAccountCreated aid \<Longrightarrow> store_step env st (snd (append_event c ev st))"
| step_create_book: "store_step env st (snd (create_book b st))"
| step_projection: "store_step env st (append_balance_projection c acc asset bal wm st)"

abbreviation store_steps :: "ledger_env \<Rightarrow> mem_store \<Rightarrow> mem_store \<Rightarrow> bool" where
  "store_steps env \<equiv> (store_step env)\<^sup>*\<^sup>*"

definition reachable :: "ledger_env \<Rightarrow> mem_store \<Rightarrow> bool" where
  "reachable env st \<longleftrightarrow> store_steps env mem_store_new st"

section \<open>Reads do not change the store\<close>

interpretation ro: store_relation "(=)"
  by unfold_locales simp_all

interpretation steps: store_relation "store_steps env" for env
  by unfold_locales simp_all

abbreviation reads :: "'a action \<Rightarrow> bool" where
  "reads m \<equiv> preserves (=) m"

lemma readsD: "reads m \<Longrightarrow> m w = (r, w') \<Longrightarrow> w_store w' = w_store w"
  unfolding preserves_def by (metis snd_conv)

lemma reads_steps: "reads m \<Longrightarrow> preserves (store_steps env) m"
  unfolding preserves_def by (metis rtranclp.rtrancl_refl)

lemma reads_overflow [simp]: "reads (overflow_action r)"
  by (simp add: overflow_action_def)

lemma reads_compute_balance [simp]: "reads (compute_balance env acc asset)"
  unfolding compute_balance_def by (rule ro.preserves_bind) simp_all

lemma reads_load_book [simp]: "reads (load_book b)"
  unfolding load_book_def by (rule ro.preserves_bind) (simp_all split: sum.splits store_error.splits)

lemma reads_load [simp]: "reads (load env e)"
  unfolding load_def Let_def
  by (intro ro.preserves_bind ro.preserves_fold) (auto intro!: ro.preserves_bind)

lemma reads_resolve_snapshots [simp]: "reads (resolve_snapshots env ids)"
  unfolding resolve_snapshots_def by (rule ro.preserves_bind) simp_all

lemma reads_pin [simp]: "reads (pin_snapshots env e)"
  unfolding pin_snapshots_def by (auto intro!: ro.preserves_bind)

lemma reads_load_debit [simp]: "reads (load_debit env s d)"
  unfolding load_debit_def Let_def split_beta by (auto intro!: ro.preserves_bind)

lemma reads_resolve [simp]: "reads (resolve env t)"
  unfolding resolve_def split_beta by (intro ro.preserves_bind ro.preserves_fold) simp_all

lemma reads_has_live [simp]: "reads (has_live_postings env aid)"
  unfolding has_live_postings_def by (rule ro.preserves_bind) simp_all

lemma reads_fold_tail [simp]: "reads (fold_tail env acc asset lo hi)"
  unfolding fold_tail_def fold_account_delta_def Let_def by (auto intro!: ro.preserves_bind)

lemma reads_spawn [simp]: "reads (spawn_append acc asset)"
  by (simp add: preserves_def spawn_append_def)

lemma reads_balance [simp]: "reads (ledger_balance env l acc asset)"
  unfolding ledger_balance_def split_beta
  by (intro ro.preserves_bind) (auto intro!: ro.preserves_bind split: option.splits)

section \<open>Every ledger method is a sequence of steps\<close>

lemma load_consumed:
  assumes "load env e w = (Inr s, w')"
  shows "get_postings (e_consumes e) (w_store w) = Inr (ls_consumed_postings s)"
  using assms
  by (auto simp: load_def lbind_Inr lread_def get_postings_def Let_def split: if_splits)

lemma plan_validated:
  assumes x: "externs_ok (le_ext env)" and p: "ledger_plan env e s = Inr p"
  shows "valid_input (x_sha (le_ext env)) (plan_input_of e s)" "p = build_plan (x_sha (le_ext env)) e"
  using p validate_iff[OF x, of "plan_input_of e s" p]
  by (auto simp: ledger_plan_def plan_input_of_def split: option.splits)

text \<open>A commit is read-only up to its one write, the atomic commit of a validated request.\<close>

definition commit_write :: "ledger_env \<Rightarrow> envelope \<Rightarrow> loaded_state \<Rightarrow> plan \<Rightarrow> receipt action" where
  "commit_write env e s p =
     lbind (now_millis env) (\<lambda>ts. lbind (read_clock env) (\<lambda>c.
       lbind (lwrite_err (commit_envelope (le_hash env) c (build_request e s p ts))) (\<lambda>outcome. case outcome of
         Committed r \<Rightarrow> lreturn r | AlreadyCommitted r \<Rightarrow> lreturn r
       | CommitRejected rej \<Rightarrow> lfail (map_rejection rej))))"

definition commit_new :: "ledger_env \<Rightarrow> envelope \<Rightarrow> receipt action" where
  "commit_new env e = lbind (load env e) (\<lambda>s. lbind (lift (ledger_plan env e s)) (commit_write env e s))"

lemma ledger_commit_envelope_eq:
  "ledger_commit_envelope env e0 = lbind (pin_snapshots env e0) (\<lambda>e.
     lbind (lget (get_transfer (envelope_id (x_sha (le_ext env)) e))) (\<lambda>found. case found of
       Some r \<Rightarrow> lreturn (er_receipt r) | None \<Rightarrow> commit_new env e))"
  by (simp only: ledger_commit_envelope_def commit_new_def[abs_def] commit_write_def[abs_def] Let_def)

lemma commit_write_cases:
  assumes "commit_write env e s p w = (r, w')"
  obtains (unchanged) "w_store w' = w_store w"
  | (applied) ts c where "w_store w' = snd (commit_envelope (le_hash env) c (build_request e s p ts) (w_store w))"
  using assms unfolding commit_write_def
proof (cases rule: lbind_cases)
  case stop
  then show thesis using readsD[OF ro.preserves_now] unchanged by metis
next
  case (go ts w3)
  have "w_store w3 = w_store w" by (rule readsD[OF ro.preserves_now go(1)])
  then have "w_store w' = snd (commit_envelope (le_hash env) (le_clock env (w_tick w3)) (build_request e s p ts) (w_store w))"
    using go(2)
    by (auto simp: lbind_def read_clock_def lwrite_err_def split_beta Let_def split: sum.splits commit_outcome.splits)
  then show thesis by (rule applied)
qed

lemma commit_new_cases:
  assumes x: "externs_ok (le_ext env)" and run: "commit_new env e w = (r, w')"
  obtains (unchanged) "w_store w' = w_store w"
  | (applied) s ts c where "valid_input (x_sha (le_ext env)) (plan_input_of e s)"
      "get_postings (e_consumes e) (w_store w) = Inr (ls_consumed_postings s)"
      "w_store w' = snd (commit_envelope (le_hash env) c
         (build_request e s (build_plan (x_sha (le_ext env)) e) ts) (w_store w))"
  using run unfolding commit_new_def
proof (cases rule: lbind_cases)
  case stop
  then show thesis using readsD[OF reads_load] unchanged by metis
next
  case (go s w2)
  have w2: "w_store w2 = w_store w" by (rule readsD[OF reads_load go(1)])
  note cons = load_consumed[OF go(1)]
  show thesis
  proof (cases "ledger_plan env e s")
    case (Inl err)
    then show thesis using go(2) w2 unchanged by (simp add: lbind_def)
  next
    case (Inr p)
    then have "commit_write env e s p w2 = (r, w')" using go(2) by (simp add: lbind_def)
    then show thesis
      using applied[OF plan_validated(1)[OF x Inr] cons] plan_validated(2)[OF x Inr] w2 unchanged
      by (cases rule: commit_write_cases) simp_all
  qed
qed

lemma commit_new_steps: "externs_ok (le_ext env) \<Longrightarrow> preserves (store_steps env) (commit_new env e)"
  unfolding preserves_def
proof
  fix w assume x: "externs_ok (le_ext env)"
  obtain r w' where run: "commit_new env e w = (r, w')" by fastforce
  from x run have "store_steps env (w_store w) (w_store w')"
  proof (cases rule: commit_new_cases)
    case (applied s ts c)
    have pe: "pi_envelope (plan_input_of e s) = e" "pi_consumed_postings (plan_input_of e s) = ls_consumed_postings s"
      by (simp_all add: plan_input_of_def)
    show ?thesis unfolding applied(3)
      by (rule r_into_rtranclp, rule step_commit[of env "plan_input_of e s" "w_store w" s c ts, unfolded pe, OF applied(1,2) refl])
  qed simp
  with run show "store_steps env (w_store w) (w_store (snd (commit_new env e w)))" by simp
qed

lemma commit_envelope_steps: "externs_ok (le_ext env) \<Longrightarrow> preserves (store_steps env) (ledger_commit_envelope env e)"
  unfolding ledger_commit_envelope_eq
  by (auto intro!: steps.preserves_bind reads_steps[OF reads_pin] commit_new_steps split: option.splits)

lemma commit_steps: "externs_ok (le_ext env) \<Longrightarrow> preserves (store_steps env) (ledger_commit env t)"
  unfolding ledger_commit_def by (intro steps.preserves_bind reads_steps[OF reads_resolve] commit_envelope_steps)

lemma reverse_steps: "externs_ok (le_ext env) \<Longrightarrow> preserves (store_steps env) (reverse env tid)"
  unfolding reverse_def
  by (intro steps.preserves_bind) (auto intro!: steps.preserves_bind commit_envelope_steps split: option.splits)

lemma unwind_steps: "externs_ok (le_ext env) \<Longrightarrow> store_steps env (w_store w) (w_store (snd (unwind env err rs w)))"
proof (induction rs arbitrary: w)
  case (Cons r rs)
  have "store_steps env (w_store w) (w_store (snd (reverse env (r_transfer_id r) w)))"
    using reverse_steps[OF Cons.prems] by (simp add: preserves_def)
  then show ?case using Cons.IH[OF Cons.prems, of "snd (reverse env (r_transfer_id r) w)"]
    by (auto split: prod.splits sum.splits fault.splits intro: rtranclp_trans)
qed simp

lemma run_loop_steps: "externs_ok (le_ext env) \<Longrightarrow> store_steps env (w_store w) (w_store (snd (run_loop env rcs ms w)))"
proof (induction ms arbitrary: rcs w)
  case (Cons m ms)
  have "store_steps env (w_store w) (w_store (snd (ledger_commit env t w)))" for t
    using commit_steps[OF Cons.prems] by (simp add: preserves_def)
  moreover note Cons.IH[OF Cons.prems] unwind_steps[OF Cons.prems]
  ultimately show ?case
    by (auto split: prod.splits sum.splits fault.splits intro: rtranclp_trans) (metis rtranclp_trans snd_conv)+
qed simp

lemma run_movements_steps: "externs_ok (le_ext env) \<Longrightarrow> preserves (store_steps env) (run_movements env ms)"
  using run_loop_steps by (simp add: preserves_def run_movements_def)

lemma head_version_in:
  "head_version st aid = Some a \<Longrightarrow> \<exists>vs. map_of (ms_accounts st) aid = Some vs \<and> a \<in> set vs"
  by (auto simp: head_version_def bind_eq_Some_conv last_opt_def split: if_splits)

definition transition_write ::
  "ledger_env \<Rightarrow> account_id \<Rightarrow> account \<Rightarrow> (account_id \<Rightarrow> u64 \<Rightarrow> ledger_event_kind) \<Rightarrow> unit action" where
  "transition_write env aid nxt make_event =
     lbind (now_millis env) (\<lambda>ts. lbind (read_clock env) (\<lambda>c.
       lbind (lwrite_err (commit_transition c nxt
                \<lparr>ev_seq = 0, ev_timestamp = ts, ev_kind = make_event aid (acc_version nxt)\<rparr>)) (\<lambda>outcome. case outcome of
         Applied \<Rightarrow> lreturn () | AlreadyApplied \<Rightarrow> lreturn ()
       | TransitionRejected (AlreadyClosed a) \<Rightarrow> lfail (AccountAlreadyClosed a)
       | TransitionRejected (VersionConflict a v) \<Rightarrow> lfail (AccountVersionConflict a v))))"

lemma transition_write_cases:
  assumes "transition_write env aid nxt mk w = (r, w')"
  obtains (unchanged) "w_store w' = w_store w"
  | (applied) c ev where "w_store w' = snd (commit_transition c nxt ev (w_store w))" "ev_kind ev = mk aid (acc_version nxt)"
  using assms unfolding transition_write_def
proof (cases rule: lbind_cases)
  case stop
  then show thesis using readsD[OF ro.preserves_now] unchanged by metis
next
  case (go ts w3)
  have "w_store w3 = w_store w" by (rule readsD[OF ro.preserves_now go(1)])
  then have "w_store w' = snd (commit_transition (le_clock env (w_tick w3)) nxt
      \<lparr>ev_seq = 0, ev_timestamp = ts, ev_kind = mk aid (acc_version nxt)\<rparr> (w_store w))"
    using go(2)
    by (auto simp: lbind_def read_clock_def lwrite_err_def split_beta Let_def
        split: sum.splits transition_outcome.splits transition_rejection.splits)
  then show thesis by (rule applied) simp
qed

lemma transition_steps:
  assumes mk: "(mutate, mk) \<in> {(freeze_flags, EvAccountFrozen), (unfreeze_flags, EvAccountUnfrozen), (close_flags, EvAccountClosed)}"
  shows "preserves (store_steps env) (transition env aid mutate mk)"
  unfolding preserves_def
proof
  fix w
  show "store_steps env (w_store w) (w_store (snd (transition env aid mutate mk w)))"
  proof (cases "\<exists>a nxt. head_version (w_store w) aid = Some a \<and> \<not> is_closed a \<and> next_version mutate a = Some nxt")
    case True
    then obtain a nxt where a: "head_version (w_store w) aid = Some a" "\<not> is_closed a" "next_version mutate a = Some nxt" by blast
    then have run: "transition env aid mutate mk w = transition_write env aid nxt mk w"
      by (simp add: transition_def transition_write_def lbind_def get_account_def Let_def)
    obtain vs where vs: "map_of (ms_accounts (w_store w)) aid = Some vs" "a \<in> set vs" using head_version_in[OF a(1)] by blast
    obtain r w' where w': "transition_write env aid nxt mk w = (r, w')" by fastforce
    then have "store_steps env (w_store w) (w_store w')"
    proof (cases rule: transition_write_cases)
      case (applied c ev)
      show ?thesis unfolding applied(1)
        by (rule r_into_rtranclp, rule step_transition[OF vs a(2) mk a(3) applied(2)])
    qed simp
    then show ?thesis by (simp add: run w')
  next
    case False
    have "snd (transition env aid mutate mk w) = w"
    proof (cases "head_version (w_store w) aid")
      case None
      then show ?thesis by (simp add: transition_def lbind_def get_account_def)
    next
      case (Some a)
      then show ?thesis using False by (auto simp: transition_def lbind_def get_account_def split: option.splits)
    qed
    then show ?thesis by simp
  qed
qed

lemma lifecycle_steps:
  "preserves (store_steps env) (freeze env aid)" "preserves (store_steps env) (unfreeze env aid)"
  "preserves (store_steps env) (close env aid)"
  unfolding freeze_def unfreeze_def close_def
  by (auto intro!: transition_steps steps.preserves_bind reads_steps[OF reads_has_live])

lemma create_account_steps: "preserves (store_steps env) (ledger_create_account env a)"
  unfolding ledger_create_account_def
  by (intro steps.preserves_bind steps.preserves_write)
    (auto intro!: steps.preserves_bind steps.preserves_write r_into_rtranclp store_step.intros)

lemma create_book_steps: "preserves (store_steps env) (ledger_create_book b)"
  unfolding ledger_create_book_def
  by (intro steps.preserves_bind steps.preserves_write) (auto intro!: r_into_rtranclp store_step.intros)

lemma cache_point_steps: "preserves (store_steps env) (append_cache_point env g n d acc asset)"
  unfolding append_cache_point_def Let_def split_beta
  by (intro steps.preserves_bind)
    (auto intro!: steps.preserves_bind steps.preserves_write reads_steps[OF reads_fold_tail] reads_steps[OF reads_overflow]
      r_into_rtranclp step_projection split: option.splits)

lemma run_spawned_steps: "preserves (store_steps env) (run_spawned env l acc asset)"
  using cache_point_steps by (simp add: preserves_def run_spawned_def)

lemmas method_steps = commit_envelope_steps commit_steps reverse_steps run_movements_steps lifecycle_steps
  create_account_steps create_book_steps cache_point_steps run_spawned_steps reads_steps[OF reads_balance]

end
