(* ===== verification/Ledger_Invariants.thy ===== *)
theory Ledger_Invariants
  imports Ledger_Steps
begin

text \<open>
  Invariants of every reachable store. They hold as long as no committed envelope
  creates more than 65536 postings, because the index of a created posting is a
  16-bit integer; the table of transfers only grows, so this is a condition on the
  reached store alone.
\<close>

section \<open>The invariants\<close>

definition small :: "mem_store \<Rightarrow> bool" where
  "small st \<longleftrightarrow> (\<forall>tid r. map_of (ms_transfers st) tid = Some r \<longrightarrow> length (e_creates (er_envelope r)) \<le> 65536)"

text \<open>The version log of an account: its own id, consecutive versions, only the last may be closed.\<close>

definition log_ok :: "account_id \<Rightarrow> account list \<Rightarrow> bool" where
  "log_ok aid vs \<longleftrightarrow> vs \<noteq> [] \<and>
     (\<forall>a \<in> set vs. acc_id a = aid \<and> (forbids_overdraft a \<longleftrightarrow> forbids_overdraft (hd vs))) \<and>
     (\<forall>n. Suc n < length vs \<longrightarrow>
        unat (acc_version (vs ! Suc n)) = Suc (unat (acc_version (vs ! n))) \<and> \<not> is_closed (vs ! n))"

definition accounts_ok :: "mem_store \<Rightarrow> bool" where
  "accounts_ok st \<longleftrightarrow> (\<forall>aid vs. map_of (ms_accounts st) aid = Some vs \<longrightarrow> log_ok aid vs)"

text \<open>
  Transfers and postings: a transfer is stored under the hash of its envelope, its
  created postings are rows, its consumed postings are spent, and no posting is
  consumed by two transfers; every row was created by a transfer for an existing account.
\<close>

definition transfer_ok :: "sha256 \<Rightarrow> mem_store \<Rightarrow> envelope_id \<Rightarrow> envelope_record \<Rightarrow> bool" where
  "transfer_ok sha st tid r \<longleftrightarrow>
     r_transfer_id (er_receipt r) = tid \<and> envelope_id sha (er_envelope r) = tid \<and>
     (\<forall>p \<in> set (created_postings tid (e_creates (er_envelope r))). map_of (pt_immutable (ms_postings st)) (p_id p) = Some p) \<and>
     (\<forall>i \<in> set (e_consumes (er_envelope r)). posting_state_of (ms_postings st) i = StateSpent) \<and>
     distinct (e_consumes (er_envelope r))"

definition single_spend :: "mem_store \<Rightarrow> bool" where
  "single_spend st \<longleftrightarrow> (\<forall>tid tid' r r'. map_of (ms_transfers st) tid = Some r \<longrightarrow> map_of (ms_transfers st) tid' = Some r' \<longrightarrow>
     tid \<noteq> tid' \<longrightarrow> set (e_consumes (er_envelope r)) \<inter> set (e_consumes (er_envelope r')) = {})"

definition row_ok :: "mem_store \<Rightarrow> posting_id \<Rightarrow> posting \<Rightarrow> bool" where
  "row_ok st i p \<longleftrightarrow> head_version st (p_owner p) \<noteq> None \<and>
     (\<exists>r. map_of (ms_transfers st) (pid_transfer i) = Some r \<and> p \<in> set (created_postings (pid_transfer i) (e_creates (er_envelope r)))) \<and>
     (posting_state_of (ms_postings st) i = StateSpent \<longrightarrow>
        (\<exists>tid r. map_of (ms_transfers st) tid = Some r \<and> i \<in> set (e_consumes (er_envelope r))))"

definition books_balance :: "mem_store \<Rightarrow> bool" where
  "books_balance st \<longleftrightarrow> (\<forall>asset. key_sum asset (project_keys snd (active_entries (ms_postings st))) = 0)"

definition floor_ok :: "mem_store \<Rightarrow> bool" where
  "floor_ok st \<longleftrightarrow> (\<forall>aid a asset. head_version st aid = Some a \<longrightarrow> forbids_overdraft a \<longrightarrow>
     0 \<le> key_sum (aid, asset) (active_entries (ms_postings st)))"

definition store_inv :: "sha256 \<Rightarrow> mem_store \<Rightarrow> bool" where
  "store_inv sha st \<longleftrightarrow> tables_ok (ms_postings st) \<and> pt_reserved (ms_postings st) = [] \<and> accounts_ok st \<and>
     (\<forall>tid r. map_of (ms_transfers st) tid = Some r \<longrightarrow> transfer_ok sha st tid r) \<and> single_spend st \<and>
     (\<forall>i p. map_of (pt_immutable (ms_postings st)) i = Some p \<longrightarrow> row_ok st i p) \<and>
     books_balance st \<and> floor_ok st"

lemma store_inv_new: "store_inv sha mem_store_new"
  using tables_ok_new
  by (simp add: store_inv_def mem_store_new_def accounts_ok_def single_spend_def books_balance_def
      floor_ok_def active_entries_def post_entries_def postings_in_def project_keys_def)

section \<open>Created postings\<close>

lemma created_postings_nth:
  "i < length nps \<Longrightarrow> created_postings tid nps ! i =
     posting_new (PostingId tid (word_of_nat i)) (np_owner (nps ! i)) (np_asset (nps ! i)) (np_value (nps ! i))"
  by (simp add: created_postings_def nth_enumerate_eq)

lemma length_created_postings [simp]: "length (created_postings tid nps) = length nps"
  by (simp add: created_postings_def)

lemma created_postings_id: "p \<in> set (created_postings tid nps) \<Longrightarrow> pid_transfer (p_id p) = tid"
  by (auto simp: in_set_conv_nth created_postings_nth posting_new_def)

lemma created_ids_distinct:
  assumes "length nps \<le> 65536"
  shows "distinct (map p_id (created_postings tid nps))"
proof -
  have "(word_of_nat i :: u16) = word_of_nat j \<longleftrightarrow> i = j" if "i < 65536" "j < 65536" for i j
  proof -
    have "unat (word_of_nat i :: u16) = i" "unat (word_of_nat j :: u16) = j" using that by (simp_all add: unat_of_nat)
    then show ?thesis by metis
  qed
  then show ?thesis using assms
    by (auto simp: distinct_conv_nth created_postings_nth posting_new_def)
qed

section \<open>The commit step\<close>

text \<open>What a commit that is applied rests on.\<close>

definition tid_of :: "ledger_env \<Rightarrow> plan_input \<Rightarrow> envelope_id" where
  "tid_of env input = envelope_id (x_sha (le_ext env)) (pi_envelope input)"

definition created_of :: "ledger_env \<Rightarrow> plan_input \<Rightarrow> posting list" where
  "created_of env input = created_postings (tid_of env input) (e_creates (pi_envelope input))"

definition req_of :: "ledger_env \<Rightarrow> plan_input \<Rightarrow> loaded_state \<Rightarrow> i64 \<Rightarrow> commit_request" where
  "req_of env input s ts =
     build_request (pi_envelope input) s (build_plan (x_sha (le_ext env)) (pi_envelope input)) ts"

definition commit_ready :: "ledger_env \<Rightarrow> mem_store \<Rightarrow> plan_input \<Rightarrow> loaded_state \<Rightarrow> i64 \<Rightarrow> bool" where
  "commit_ready env st input s ts \<longleftrightarrow>
     store_inv (x_sha (le_ext env)) st \<and> hash_order_ok (le_hash env) \<and> valid_input (x_sha (le_ext env)) input \<and>
     get_postings (e_consumes (pi_envelope input)) st = Inr (pi_consumed_postings input) \<and>
     ls_consumed_postings s = pi_consumed_postings input \<and> length (e_creates (pi_envelope input)) \<le> 65536 \<and>
     map_of (ms_transfers st) (tid_of env input) = None \<and>
     commit_guards (le_hash env) (req_of env input s ts) st = Inr ()"

lemma req_fields:
  assumes "commit_ready env st input s ts"
  shows "cr_transfer_id (req_of env input s ts) = tid_of env input"
    "cr_consume (req_of env input s ts) = e_consumes (pi_envelope input)"
    "cr_create (req_of env input s ts) = created_of env input"
    "cr_involved (req_of env input s ts) = sort_dedup (map p_owner (created_of env input) @ map p_owner (pi_consumed_postings input))"
    "cr_record (req_of env input s ts) = \<lparr>er_envelope = pi_envelope input, er_receipt = \<lparr>r_transfer_id = tid_of env input\<rparr>, er_created_at = ts\<rparr>"
  using assms by (simp_all add: req_of_def build_request_def build_plan_def Let_def commit_ready_def tid_of_def created_of_def)

lemma readyD:
  assumes "commit_ready env st input s ts"
  shows "tables_ok (ms_postings st)" "pt_reserved (ms_postings st) = []" "distinct (e_consumes (pi_envelope input))"
    "\<forall>i \<in> set (e_consumes (pi_envelope input)). map_of (pt_active (ms_postings st)) i \<noteq> None"
    "conserves (consumed_list input) (e_creates (pi_envelope input))"
    "aid \<in> set (map p_owner (created_of env input) @ map p_owner (pi_consumed_postings input)) \<Longrightarrow>
       \<exists>a. head_version st aid = Some a \<and> \<not> is_frozen a \<and> \<not> is_closed a"
  using assms guards_passed(1,2)[of "le_hash env" "req_of env input s ts" st] req_fields[OF assms]
  by (auto simp: commit_ready_def store_inv_def valid_input_def Let_def)

lemma ready_active_rows:
  assumes rdy: "commit_ready env st input s ts"
  shows "list_all2 (\<lambda>i p. map_of (pt_active (ms_postings st)) i = Some p \<and> p_id p = i)
      (e_consumes (pi_envelope input)) (pi_consumed_postings input)"
proof -
  have "list_all2 (\<lambda>i p. map_of (pt_immutable (ms_postings st)) i = Some p) (e_consumes (pi_envelope input)) (pi_consumed_postings input)"
    using rdy by (simp add: commit_ready_def get_postings_def try_map_Inr_iff)
  then show ?thesis
  proof (rule list.rel_mono_strong)
    fix i p
    assume "i \<in> set (e_consumes (pi_envelope input))" "map_of (pt_immutable (ms_postings st)) i = Some p"
    then show "map_of (pt_active (ms_postings st)) i = Some p \<and> p_id p = i"
      using readyD(4)[OF rdy] active_row[OF readyD(1)[OF rdy], of i] by fastforce
  qed
qed

lemma ready_consumed:
  assumes rdy: "commit_ready env st input s ts"
  shows "consumed_of (req_of env input s ts) (ms_postings st) = pi_consumed_postings input"
    and "map p_id (pi_consumed_postings input) = e_consumes (pi_envelope input)"
    and "consumed_list input = pi_consumed_postings input"
proof -
  have mf: "List.map_filter (map_of m) is = qs"
    if "list_all2 (\<lambda>i p. map_of m i = Some p \<and> p_id p = i) is qs" for m :: "(posting_id \<times> posting) list" and "is" qs
    using that by (induction rule: list_all2_induct) (simp_all add: map_filter_simps)
  show "consumed_of (req_of env input s ts) (ms_postings st) = pi_consumed_postings input"
    using mf[OF ready_active_rows[OF rdy]] by (simp add: consumed_of_def req_fields[OF rdy])
  show ids: "map p_id (pi_consumed_postings input) = e_consumes (pi_envelope input)"
    using ready_active_rows[OF rdy] by (induction rule: list_all2_induct) simp_all
  have d: "distinct (map p_id (pi_consumed_postings input))" unfolding ids by (rule readyD(3)[OF rdy])
  then have "consumed_by_id (pi_consumed_postings input) (p_id p) = Some p" if "p \<in> set (pi_consumed_postings input)" for p
    using that by (auto simp: consumed_by_id_def comp_def distinct_map rev_map intro!: map_of_is_SomeI)
  then show "consumed_list input = pi_consumed_postings input"
    unfolding consumed_list_def ids[symmetric] by (simp add: comp_def map_idI)
qed

lemma ready_fresh:
  assumes rdy: "commit_ready env st input s ts"
  shows "request_fresh (req_of env input s ts) (ms_postings st)"
proof -
  have "map_of (pt_immutable (ms_postings st)) (p_id p) = None" if "p \<in> set (created_of env input)" for p
  proof (rule ccontr)
    assume "map_of (pt_immutable (ms_postings st)) (p_id p) \<noteq> None"
    then obtain q where "map_of (pt_immutable (ms_postings st)) (p_id p) = Some q" by blast
    then have "row_ok st (p_id p) q" using rdy by (simp add: commit_ready_def store_inv_def)
    then show False
      using rdy created_postings_id[of p] that by (auto simp: row_ok_def commit_ready_def created_of_def)
  qed
  then show ?thesis using readyD(3)[OF rdy] rdy
    by (simp add: request_fresh_def req_fields[OF rdy] created_of_def created_ids_distinct commit_ready_def)
qed

section \<open>An applied commit keeps the invariants\<close>

lemma commit_apply_fields:
  "ms_postings (commit_apply c req st) = commit_tables req (ms_postings st)"
  "ms_accounts (commit_apply c req st) = ms_accounts st"
  "map_of (ms_transfers (commit_apply c req st)) = (map_of (ms_transfers st))(cr_transfer_id req \<mapsto> cr_record req)"
  "head_version (commit_apply c req st) = head_version st"
  by (simp_all add: commit_apply_def split_beta Let_def head_version_def[abs_def])

lemma ready_tables:
  assumes rdy: "commit_ready env st input s ts"
  shows "tables_ok (commit_tables (req_of env input s ts) (ms_postings st))"
    and "posting_state_of (commit_tables (req_of env input s ts) (ms_postings st)) j =
       (if j \<in> p_id ` set (created_of env input) then StateActive
        else if j \<in> set (e_consumes (pi_envelope input)) then StateSpent else posting_state_of (ms_postings st) j)"
    and "map_of (pt_immutable (commit_tables (req_of env input s ts) (ms_postings st))) i = Some p \<longleftrightarrow>
       map_of (pt_immutable (ms_postings st)) i = Some p \<or> p \<in> set (created_of env input) \<and> p_id p = i"
    and "pt_reserved (commit_tables (req_of env input s ts) (ms_postings st)) = []"
proof -
  note fr = ready_fresh[OF rdy] and d = readyD[OF rdy] and rf = req_fields[OF rdy]
  show "tables_ok (commit_tables (req_of env input s ts) (ms_postings st))"
    by (rule commit_tables_states(1)) (use d fr in \<open>simp_all add: rf\<close>)
  show "posting_state_of (commit_tables (req_of env input s ts) (ms_postings st)) j =
       (if j \<in> p_id ` set (created_of env input) then StateActive
        else if j \<in> set (e_consumes (pi_envelope input)) then StateSpent else posting_state_of (ms_postings st) j)"
    using commit_tables_states(2)[OF d(1) fr] d(4) by (simp add: rf)
  show "pt_reserved (commit_tables (req_of env input s ts) (ms_postings st)) = []"
    using commit_tables_lists(2)[OF d(1) fr] d(2) by simp
  let ?new = "map (\<lambda>p. (p_id p, p)) (created_of env input)"
  have dist: "keys_distinct ?new" "\<forall>p \<in> set (created_of env input). map_of (pt_immutable (ms_postings st)) (p_id p) = None"
    using fr by (simp_all add: request_fresh_def rf comp_def)
  have "map_of ?new i = Some p \<longleftrightarrow> p \<in> set (created_of env input) \<and> p_id p = i"
    using map_of_eq_Some_iff[OF dist(1), of i p] by auto
  then show "map_of (pt_immutable (commit_tables (req_of env input s ts) (ms_postings st))) i = Some p \<longleftrightarrow>
       map_of (pt_immutable (ms_postings st)) i = Some p \<or> p \<in> set (created_of env input) \<and> p_id p = i"
    using dist(2) by (auto simp: commit_tables_rows[OF fr] rf map_add_Some_iff)
qed

lemma ready_active_sum:
  assumes rdy: "commit_ready env st input s ts"
  shows "key_sum k (active_entries (commit_tables (req_of env input s ts) (ms_postings st)))
     = key_sum k (active_entries (ms_postings st)) + key_sum k (delta_entries (pi_consumed_postings input) (e_creates (pi_envelope input)))"
proof -
  note fr = ready_fresh[OF rdy] and d = readyD[OF rdy] and rf = req_fields[OF rdy]
  have "post_entries (created_postings t nps) = map (\<lambda>np. ((np_owner np, np_asset np), np_value np)) nps" for t nps
    by (rule nth_equalityI) (simp_all add: post_entries_def created_postings_nth posting_new_def)
  then have "key_sum k (delta_entries (pi_consumed_postings input) (e_creates (pi_envelope input)))
      = key_sum k (post_entries (created_of env input)) - key_sum k (post_entries (pi_consumed_postings input))"
    by (simp add: delta_entries_def created_of_def post_entries_def key_sum_uminus)
  then show ?thesis
    using commit_tables_active[OF d(1) fr, of k] d(4) by (simp add: rf ready_consumed(1)[OF rdy])
qed

lemma ready_books_balance:
  assumes rdy: "commit_ready env st input s ts"
  shows "books_balance (commit_apply c (req_of env input s ts) st)"
  unfolding books_balance_def commit_apply_fields
proof
  fix asset
  let ?d = "delta_entries (pi_consumed_postings input) (e_creates (pi_envelope input))"
  let ?es = "active_entries (ms_postings st) @ ?d"
  have "\<forall>k. key_sum k (active_entries (commit_tables (req_of env input s ts) (ms_postings st))) = key_sum k ?es"
    using ready_active_sum[OF rdy] by simp
  from key_sum_project_eq[OF this, of asset snd]
  have "key_sum asset (project_keys snd (active_entries (commit_tables (req_of env input s ts) (ms_postings st))))
      = key_sum asset (project_keys snd (active_entries (ms_postings st))) + key_sum asset (project_keys snd ?d)"
    by (simp add: project_keys_def)
  moreover have "key_sum asset (project_keys snd ?d) = 0"
    using readyD(5)[OF rdy] by (simp add: project_delta_entries ready_consumed(3)[OF rdy] conserves_def)
  ultimately show "key_sum asset (project_keys snd (active_entries (commit_tables (req_of env input s ts) (ms_postings st)))) = 0"
    using rdy by (simp add: commit_ready_def store_inv_def books_balance_def)
qed

lemma ready_floor:
  assumes rdy: "commit_ready env st input s ts"
  shows "floor_ok (commit_apply c (req_of env input s ts) st)"
  unfolding floor_ok_def commit_apply_fields
proof (intro allI impI)
  fix aid a asset
  assume a: "head_version st aid = Some a" "forbids_overdraft a"
  have "0 \<le> key_sum (aid, asset) (active_entries (ms_postings st))"
    using rdy a by (auto simp: commit_ready_def store_inv_def floor_ok_def)
  then show "0 \<le> key_sum (aid, asset) (active_entries (commit_tables (req_of env input s ts) (ms_postings st)))"
    using commit_floor[of "le_hash env" st "req_of env input s ts" "()" aid a asset] rdy a
      readyD(1)[OF rdy] ready_fresh[OF rdy] ready_consumed(1)[OF rdy] req_fields[OF rdy]
    by (simp add: commit_ready_def)
qed

lemma spent_stays:
  assumes rdy: "commit_ready env st input s ts" and sp: "posting_state_of (ms_postings st) i = StateSpent"
  shows "posting_state_of (commit_tables (req_of env input s ts) (ms_postings st)) i = StateSpent"
proof -
  have "i \<notin> p_id ` set (created_of env input)"
    using ready_fresh[OF rdy] state_missing_iff[OF readyD(1)[OF rdy], of i] sp
    by (auto simp: request_fresh_def req_fields[OF rdy])
  then show ?thesis using sp by (simp add: ready_tables(2)[OF rdy])
qed

lemma ready_transfers:
  assumes rdy: "commit_ready env st input s ts"
    and r: "map_of (ms_transfers (commit_apply c (req_of env input s ts) st)) tid = Some r"
  shows "transfer_ok (x_sha (le_ext env)) (commit_apply c (req_of env input s ts) st) tid r"
proof (cases "tid = tid_of env input")
  case True
  then have "r = cr_record (req_of env input s ts)" using r by (simp add: commit_apply_fields req_fields[OF rdy])
  moreover have "i \<notin> p_id ` set (created_of env input)" if "i \<in> set (e_consumes (pi_envelope input))" for i
    using that readyD(4)[OF rdy] active_row[OF readyD(1)[OF rdy], of i] ready_fresh[OF rdy]
    by (force simp: request_fresh_def req_fields[OF rdy])
  ultimately show ?thesis using True readyD(3)[OF rdy]
    by (auto simp: transfer_ok_def commit_apply_fields req_fields[OF rdy] ready_tables(2,3)[OF rdy] tid_of_def created_of_def)
next
  case False
  then have "map_of (ms_transfers st) tid = Some r" using r by (simp add: commit_apply_fields req_fields[OF rdy])
  then have "transfer_ok (x_sha (le_ext env)) st tid r" using rdy by (simp add: commit_ready_def store_inv_def)
  then show ?thesis using spent_stays[OF rdy]
    by (auto simp: transfer_ok_def commit_apply_fields ready_tables(3)[OF rdy])
qed

lemma ready_single_spend:
  assumes rdy: "commit_ready env st input s ts"
  shows "single_spend (commit_apply c (req_of env input s ts) st)"
proof -
  have "set (e_consumes (pi_envelope input)) \<inter> set (e_consumes (er_envelope r)) = {}"
    if "map_of (ms_transfers st) tid = Some r" for tid r
  proof -
    have "transfer_ok (x_sha (le_ext env)) st tid r" using that rdy by (simp add: commit_ready_def store_inv_def)
    then have "posting_state_of (ms_postings st) i = StateSpent" if "i \<in> set (e_consumes (er_envelope r))" for i
      using that by (simp add: transfer_ok_def)
    moreover have "posting_state_of (ms_postings st) i = StateActive" if "i \<in> set (e_consumes (pi_envelope input))" for i
      using that readyD(4)[OF rdy] state_active_iff[of "ms_postings st" i] by simp
    ultimately show ?thesis by fastforce
  qed
  moreover have "single_spend st" using rdy by (simp add: commit_ready_def store_inv_def)
  ultimately show ?thesis
    by (auto simp: single_spend_def commit_apply_fields req_fields[OF rdy] split: if_splits)
qed

lemma ready_rows_ok:
  assumes rdy: "commit_ready env st input s ts"
    and p: "map_of (pt_immutable (ms_postings (commit_apply c (req_of env input s ts) st))) i = Some p"
  shows "row_ok (commit_apply c (req_of env input s ts) st) i p"
proof -
  let ?st = "commit_apply c (req_of env input s ts) st"
  have tr: "map_of (ms_transfers ?st) (tid_of env input) = Some (cr_record (req_of env input s ts))"
    by (simp add: commit_apply_fields req_fields[OF rdy])
  have mono: "map_of (ms_transfers ?st) tid = Some r" if "map_of (ms_transfers st) tid = Some r" for tid r
    using that rdy by (auto simp: commit_apply_fields req_fields[OF rdy] commit_ready_def)
  have spent: "\<exists>tid r. map_of (ms_transfers ?st) tid = Some r \<and> i \<in> set (e_consumes (er_envelope r))"
    if "i \<in> set (e_consumes (pi_envelope input))"
    using tr that by (intro exI[of _ "tid_of env input"] exI[of _ "cr_record (req_of env input s ts)"]) (simp add: req_fields[OF rdy])
  from p consider (old) "map_of (pt_immutable (ms_postings st)) i = Some p" | (new) "p \<in> set (created_of env input)" "p_id p = i"
    by (auto simp: commit_apply_fields ready_tables(3)[OF rdy])
  then show ?thesis
  proof cases
    case old
    then have "row_ok st i p" using rdy by (simp add: commit_ready_def store_inv_def)
    then have "head_version ?st (p_owner p) \<noteq> None"
      and "\<exists>r. map_of (ms_transfers ?st) (pid_transfer i) = Some r \<and> p \<in> set (created_postings (pid_transfer i) (e_creates (er_envelope r)))"
      using mono by (auto simp: row_ok_def commit_apply_fields(4))
    moreover have "\<exists>tid r. map_of (ms_transfers ?st) tid = Some r \<and> i \<in> set (e_consumes (er_envelope r))"
      if sp: "posting_state_of (ms_postings ?st) i = StateSpent"
    proof (cases "i \<in> set (e_consumes (pi_envelope input))")
      case False
      then have "posting_state_of (ms_postings st) i = StateSpent"
        using sp by (auto simp: commit_apply_fields(1) ready_tables(2)[OF rdy] split: if_splits)
      then show ?thesis using \<open>row_ok st i p\<close> mono by (auto simp: row_ok_def)
    qed (rule spent)
    ultimately show ?thesis by (simp add: row_ok_def)
  next
    case new
    then have "pid_transfer i = tid_of env input" using created_postings_id[of p] by (auto simp: created_of_def)
    moreover have "head_version st (p_owner p) \<noteq> None" using new readyD(6)[OF rdy, of "p_owner p"] by auto
    ultimately show ?thesis using new tr
      by (auto simp: row_ok_def commit_apply_fields(1,4) ready_tables(2)[OF rdy] created_of_def req_fields(5)[OF rdy])
  qed
qed

lemma ready_store_inv:
  assumes rdy: "commit_ready env st input s ts"
  shows "store_inv (x_sha (le_ext env)) (commit_apply c (req_of env input s ts) st)"
proof -
  have "accounts_ok (commit_apply c (req_of env input s ts) st)"
    using rdy by (simp add: commit_ready_def store_inv_def accounts_ok_def commit_apply_fields)
  then show ?thesis
    unfolding store_inv_def using ready_tables(1,4)[OF rdy] ready_transfers[OF rdy] ready_single_spend[OF rdy]
      ready_rows_ok[OF rdy] ready_books_balance[OF rdy] ready_floor[OF rdy]
    by (simp add: commit_apply_fields(1))
qed

section \<open>The other steps\<close>

text \<open>
  Steps that leave postings and transfers alone keep the invariant as soon as every
  account log stays well formed, an existing account keeps its overdraft policy, and
  a new account is one that no posting names.
\<close>

lemma inv_other:
  assumes inv: "store_inv sha st" and same: "ms_postings st' = ms_postings st" "ms_transfers st' = ms_transfers st"
    and acc: "accounts_ok st'"
    and old: "\<And>aid a. head_version st aid = Some a \<Longrightarrow>
      \<exists>b. head_version st' aid = Some b \<and> (forbids_overdraft b \<longleftrightarrow> forbids_overdraft a)"
  shows "store_inv sha st'"
proof -
  let ?t = "ms_postings st"
  have rows: "row_ok st' i p" if "map_of (pt_immutable ?t) i = Some p" for i p
  proof -
    have "row_ok st i p" using inv that by (simp add: store_inv_def)
    then show ?thesis using old by (fastforce simp: row_ok_def same)
  qed
  have "0 \<le> key_sum (aid, asset) (active_entries ?t)" if b: "head_version st' aid = Some b" "forbids_overdraft b" for aid b asset
  proof (cases "head_version st aid")
    case (Some a)
    then show ?thesis using old[OF Some] b inv by (auto simp: store_inv_def floor_ok_def)
  next
    case None
    have "(aid, asset) \<notin> fst ` set (active_entries ?t)"
    proof
      assume "(aid, asset) \<in> fst ` set (active_entries ?t)"
      then obtain i p where "(i, p) \<in> set (pt_active ?t)" "p_owner p = aid"
        by (auto simp: active_entries_def post_entries_def postings_in_def)
      then have "map_of (pt_active ?t) i = Some p" using inv by (simp add: store_inv_def tables_ok_def map_of_eq_Some_iff)
      then have "map_of (pt_immutable ?t) i = Some p" using inv active_row by (simp add: store_inv_def)
      then have "row_ok st i p" using inv by (simp add: store_inv_def)
      then show False using None \<open>p_owner p = aid\<close> by (simp add: row_ok_def)
    qed
    then show ?thesis by (simp add: key_sum_absent)
  qed
  then have "floor_ok st'" by (auto simp: floor_ok_def same)
  then show ?thesis using inv acc rows
    by (simp add: store_inv_def same single_spend_def books_balance_def transfer_ok_def)
qed

lemma inv_same_accounts:
  assumes "store_inv sha st" "ms_postings st' = ms_postings st" "ms_transfers st' = ms_transfers st" "ms_accounts st' = ms_accounts st"
  shows "store_inv sha st'"
  by (rule inv_other[OF assms(1-3)]) (use assms(1,4) in \<open>simp_all add: store_inv_def accounts_ok_def head_version_def\<close>)

lemma inv_create_account:
  assumes inv: "store_inv sha st"
  shows "store_inv sha (snd (create_account a st))"
proof (cases "contains_key (ms_accounts st) (acc_id a)")
  case False
  have acc: "accounts_ok st" using inv by (simp add: store_inv_def)
  have ca: "snd (create_account a st) = st\<lparr>ms_accounts := AList.update (acc_id a) [a] (ms_accounts st)\<rparr>"
    using False by (simp add: create_account_def)
  show ?thesis unfolding ca
  proof (rule inv_other[OF inv])
    show "accounts_ok (st\<lparr>ms_accounts := AList.update (acc_id a) [a] (ms_accounts st)\<rparr>)"
    proof -
      have "log_ok (acc_id a) [a]" by (simp add: log_ok_def)
      with acc show ?thesis by (simp add: accounts_ok_def)
    qed
    show "\<exists>b. head_version (st\<lparr>ms_accounts := AList.update (acc_id a) [a] (ms_accounts st)\<rparr>) aid = Some b \<and>
        (forbids_overdraft b \<longleftrightarrow> forbids_overdraft a')" if "head_version st aid = Some a'" for aid a'
      using that False by (auto simp: head_version_def contains_key_def)
  qed simp_all
qed (use inv in \<open>simp add: create_account_def\<close>)

lemma with_event_fields:
  "ms_postings (with_event c ev st) = ms_postings st" "ms_transfers (with_event c ev st) = ms_transfers st"
  "ms_accounts (with_event c ev st) = ms_accounts st"
  by (simp_all add: with_event_def split_beta Let_def)

text \<open>The log a transition appends to, when it applies.\<close>

lemma log_ok_append:
  assumes log: "log_ok aid vs" and a: "a \<in> set vs"
    and nxt: "acc_id nxt = acc_id a" "forbids_overdraft nxt \<longleftrightarrow> forbids_overdraft a"
    and cur: "\<not> is_closed (last vs)" "checked_succ64 (acc_version (last vs)) = Some (acc_version nxt)"
  shows "log_ok aid (vs @ [nxt])"
proof -
  have "unat (acc_version nxt) = Suc (unat (acc_version (last vs)))"
  proof -
    have "acc_version (last vs) \<noteq> - 1" "acc_version nxt = 1 + acc_version (last vs)"
      using cur(2) by (simp_all add: checked_succ64_def add.commute split: if_splits)
    then show ?thesis using unatSuc[of "acc_version (last vs)"] by (simp add: add_eq_0_iff)
  qed
  then have new: "unat (acc_version nxt) = Suc (unat (acc_version (vs ! (length vs - 1)))) \<and> \<not> is_closed (vs ! (length vs - 1))"
    using log cur(1) by (simp add: log_ok_def last_conv_nth)
  have "unat (acc_version ((vs @ [nxt]) ! Suc n)) = Suc (unat (acc_version ((vs @ [nxt]) ! n))) \<and> \<not> is_closed ((vs @ [nxt]) ! n)"
    if "Suc n < length (vs @ [nxt])" for n
  proof (cases "Suc n = length vs")
    case True
    then have "n = length vs - 1" by simp
    with True new show ?thesis by (simp add: nth_append)
  next
    case False
    then have "Suc n < length vs" using that by simp
    with log show ?thesis by (simp add: log_ok_def nth_append)
  qed
  moreover have "acc_id b = aid \<and> (forbids_overdraft b \<longleftrightarrow> forbids_overdraft (hd (vs @ [nxt])))" if "b \<in> set (vs @ [nxt])" for b
  proof -
    have all: "\<forall>x \<in> set vs. acc_id x = aid \<and> (forbids_overdraft x \<longleftrightarrow> forbids_overdraft (hd vs))" and "hd (vs @ [nxt]) = hd vs"
      using log unfolding log_ok_def by (blast, simp)
    then show ?thesis using that a nxt by (metis UnE empty_iff empty_set insert_iff list.simps(15) set_append)
  qed
  ultimately show ?thesis unfolding log_ok_def by blast
qed

lemma mutate_keeps_overdraft:
  assumes "mutate \<in> {freeze_flags, unfreeze_flags, close_flags}"
  shows "bit (mutate f) 3 \<longleftrightarrow> bit f 3"
  using assms by (auto simp: freeze_flags_def unfreeze_flags_def close_flags_def flag_updates)

lemma next_version_fields:
  assumes "next_version mutate a = Some nxt" "mutate \<in> {freeze_flags, unfreeze_flags, close_flags}"
  shows "acc_id nxt = acc_id a" "forbids_overdraft nxt \<longleftrightarrow> forbids_overdraft a"
    "checked_succ64 (acc_version a) = Some (acc_version nxt)" "acc_flags nxt = mutate (acc_flags a)"
proof -
  obtain v where v: "checked_succ64 (acc_version a) = Some v" "nxt = a\<lparr>acc_version := v, acc_flags := mutate (acc_flags a)\<rparr>"
    using assms(1) by (auto simp: next_version_def)
  then show "acc_id nxt = acc_id a" "checked_succ64 (acc_version a) = Some (acc_version nxt)" "acc_flags nxt = mutate (acc_flags a)"
    by simp_all
  show "forbids_overdraft nxt \<longleftrightarrow> forbids_overdraft a"
    using mutate_keeps_overdraft[OF assms(2), of "acc_flags a"] by (simp add: v(2) forbids_overdraft_def flag_bits)
qed

text \<open>A transition changes nothing, appends an event, or appends a version and its event.\<close>

lemma commit_transition_cases:
  assumes vs: "map_of (ms_accounts st) (acc_id nxt) = Some vs"
  obtains (same) "snd (commit_transition c nxt ev st) = st"
  | (event) "fst (commit_transition c nxt ev st) = Inr AlreadyApplied" "snd (commit_transition c nxt ev st) = with_event c ev st"
  | (append) "fst (commit_transition c nxt ev st) = Inr Applied" "\<not> is_closed (last vs)"
      "checked_succ64 (acc_version (last vs)) = Some (acc_version nxt)"
      "snd (commit_transition c nxt ev st)
         = with_event c ev (st\<lparr>ms_accounts := AList.update (acc_id nxt) (vs @ [nxt]) (ms_accounts st)\<rparr>)"
proof -
  consider "vs = []" | "vs \<noteq> []" "is_closed (last vs)" | "vs \<noteq> []" "\<not> is_closed (last vs)" "acc_version nxt \<le> acc_version (last vs)"
    | "vs \<noteq> []" "\<not> is_closed (last vs)" "\<not> acc_version nxt \<le> acc_version (last vs)"
      "checked_succ64 (acc_version (last vs)) \<noteq> Some (acc_version nxt)"
    | "vs \<noteq> []" "\<not> is_closed (last vs)" "\<not> acc_version nxt \<le> acc_version (last vs)"
      "checked_succ64 (acc_version (last vs)) = Some (acc_version nxt)" by blast
  then show thesis
  proof cases
    case 1 then show thesis using vs by (intro same) (simp add: commit_transition_def last_opt_def Let_def)
  next
    case 2 then show thesis using vs by (intro same) (simp add: commit_transition_def last_opt_def Let_def)
  next
    case 3 then show thesis using vs by (intro event) (simp_all add: commit_transition_def last_opt_def Let_def)
  next
    case 4 then show thesis using vs by (intro same) (auto simp: commit_transition_def last_opt_def Let_def split: option.splits)
  next
    case 5 then show thesis using vs by (intro append) (simp_all add: commit_transition_def last_opt_def Let_def)
  qed
qed

lemma inv_transition:
  assumes inv: "store_inv sha st" and vs: "map_of (ms_accounts st) aid = Some vs" "a \<in> set vs"
    and m: "mutate \<in> {freeze_flags, unfreeze_flags, close_flags}" and nxt: "next_version mutate a = Some nxt"
  shows "store_inv sha (snd (commit_transition c nxt ev st))"
proof -
  have acc: "accounts_ok st" and log: "log_ok aid vs" using inv vs(1) by (auto simp: store_inv_def accounts_ok_def)
  note nf = next_version_fields[OF nxt m]
  have aid: "acc_id nxt = aid" using nf(1) log vs(2) unfolding log_ok_def by metis
  from vs(1) have "map_of (ms_accounts st) (acc_id nxt) = Some vs" by (simp add: aid)
  then show ?thesis
  proof (cases rule: commit_transition_cases[of st nxt vs c ev])
    case append
    let ?st = "st\<lparr>ms_accounts := AList.update (acc_id nxt) (vs @ [nxt]) (ms_accounts st)\<rparr>"
    have new: "log_ok aid (vs @ [nxt])" by (rule log_ok_append[OF log vs(2) nf(1,2) append(2,3)])
    show ?thesis unfolding append(4)
    proof (rule inv_other[OF inv])
      show "accounts_ok (with_event c ev ?st)"
        using acc new by (simp add: accounts_ok_def with_event_fields aid)
      show "\<exists>b. head_version (with_event c ev ?st) i = Some b \<and> (forbids_overdraft b \<longleftrightarrow> forbids_overdraft a')"
        if h: "head_version st i = Some a'" for i a'
      proof (cases "i = aid")
        case True
        then have "a' \<in> set vs" using h vs(1) log by (auto simp: head_version_def last_opt_def split: if_splits)
        then have "forbids_overdraft nxt \<longleftrightarrow> forbids_overdraft a'" using log vs(2) nf(2) unfolding log_ok_def by metis
        then show ?thesis using True by (simp add: head_version_def with_event_fields aid last_opt_def)
      qed (use h in \<open>simp add: head_version_def with_event_fields aid\<close>)
    qed (simp_all add: with_event_fields)
  qed (use inv in \<open>simp_all add: inv_same_accounts[OF inv] with_event_fields\<close>)
qed

section \<open>Reachable stores\<close>

lemma step_transfers_mono:
  "store_step env st st' \<Longrightarrow> map_of (ms_transfers st) tid = Some r \<Longrightarrow> map_of (ms_transfers st') tid = Some r"
proof (induction rule: store_step.induct)
  case (step_commit input st s c ts)
  then show ?case
    by (auto simp: commit_envelope_def commit_apply_fields build_request_def Let_def split: option.splits sum.splits commit_exit.splits)
next
  case (step_transition st aid vs a mutate mk nxt ev c)
  then show ?case
    by (auto simp: commit_transition_def Let_def with_event_fields split: option.splits)
qed (auto simp: create_account_def append_event_def create_book_def append_balance_projection_def split_beta Let_def split: option.splits)

lemma step_small: "store_step env st st' \<Longrightarrow> small st' \<Longrightarrow> small st"
  using step_transfers_mono by (fastforce simp: small_def)

text \<open>A commit step does nothing, or applies a request that passed every check.\<close>

lemma commit_step_cases:
  assumes valid: "valid_input (x_sha (le_ext env)) input"
    "get_postings (e_consumes (pi_envelope input)) st = Inr (pi_consumed_postings input)" "ls_consumed_postings s = pi_consumed_postings input"
    and st': "st' = snd (commit_envelope (le_hash env) c (req_of env input s ts) st)"
    and inv: "store_inv (x_sha (le_ext env)) st" and sm: "small st'" and h: "hash_order_ok (le_hash env)"
  obtains (same) "st' = st" | (ready) "commit_ready env st input s ts" "st' = commit_apply c (req_of env input s ts) st"
proof (cases "map_of (ms_transfers st) (tid_of env input) = None \<and> commit_guards (le_hash env) (req_of env input s ts) st = Inr ()")
  case True
  let ?r = "req_of env input s ts"
  from True have ap: "st' = commit_apply c ?r st"
    by (simp add: st' commit_envelope_def req_of_def build_request_def build_plan_def tid_of_def Let_def)
  have rec: "map_of (ms_transfers st') (tid_of env input) = Some (cr_record ?r)"
    by (simp add: ap commit_apply_fields req_of_def build_request_def build_plan_def tid_of_def Let_def)
  have "length (e_creates (pi_envelope input)) \<le> 65536"
    using sm[unfolded small_def, rule_format, OF rec] by (simp add: req_of_def build_request_def Let_def)
  then have "commit_ready env st input s ts" using True valid inv h by (simp add: commit_ready_def)
  then show thesis using ap by (rule ready)
next
  case False
  then have "st' = st" using st'
    by (auto simp: commit_envelope_def req_of_def build_request_def build_plan_def tid_of_def Let_def
        split: option.splits sum.splits commit_exit.splits)
  then show thesis by (rule same)
qed

lemma step_inv:
  assumes "store_step env st st'" and inv: "store_inv (x_sha (le_ext env)) st" and sm: "small st'" and h: "hash_order_ok (le_hash env)"
  shows "store_inv (x_sha (le_ext env)) st'"
  using assms(1)
proof cases
  case (step_commit input s c ts)
  then show ?thesis
    using commit_step_cases[OF step_commit(2-4) _ inv sm h, of c ts] ready_store_inv inv unfolding req_of_def by metis
next
  case (step_transition aid vs a mutate make_event nxt ev c)
  then show ?thesis using inv_transition[OF inv step_transition(2,3), of mutate nxt c ev] by auto
qed (auto intro!: inv_create_account inv_same_accounts[OF inv] simp: inv append_event_def create_book_def
      append_balance_projection_def split_beta Let_def split: option.splits)

lemma reachable_inv:
  assumes "reachable env st" "small st" and h: "hash_order_ok (le_hash env)"
  shows "store_inv (x_sha (le_ext env)) st"
  using assms(1,2) unfolding reachable_def
proof (induction rule: rtranclp_induct)
  case base
  show ?case by (rule store_inv_new)
next
  case (step st st')
  then show ?case using step_small step_inv h by blast
qed

lemma steps_small: "store_steps env st st' \<Longrightarrow> small st' \<Longrightarrow> small st"
  by (induction rule: rtranclp_induct) (auto dest: step_small)

lemma reachable_steps: "reachable env st \<Longrightarrow> store_steps env st st' \<Longrightarrow> reachable env st'"
  unfolding reachable_def by simp

end
