(* ===== verification/Commit_Laws.thy ===== *)
theory Commit_Laws
  imports Ledger_Invariants
begin

text \<open>
  What a ledger commit does: on failure nothing, on success exactly the effect of its
  envelope, and a repeated commit returns the first receipt. Balances are stated by
  \<open>live_balance\<close>, the plain sum of the live postings of an account and asset.
\<close>

section \<open>Balances\<close>

definition live_balance :: "mem_store \<Rightarrow> account_id \<Rightarrow> asset_id \<Rightarrow> int" where
  "live_balance st acc asset =
     sum_list (map p_value (filter (\<lambda>p. p_owner p = acc \<and> p_asset p = asset) (postings_in FilterLive (ms_postings st))))"

definition asset_total :: "mem_store \<Rightarrow> asset_id \<Rightarrow> int" where
  "asset_total st asset =
     sum_list (map p_value (filter (\<lambda>p. p_asset p = asset) (postings_in FilterLive (ms_postings st))))"

lemma live_balance_entries: "live_balance st acc asset = key_sum (acc, asset) (live_entries (ms_postings st))"
  by (simp add: live_balance_def live_entries_def key_sum_post_filter)

lemma project_post_entries:
  "key_sum asset (project_keys snd (post_entries ps)) = sum_list (map p_value (filter (\<lambda>p. p_asset p = asset) ps))"
  unfolding post_entries_def project_keys_def by (induction ps) (auto simp: key_sum_Cons)

lemma asset_total_entries: "asset_total st asset = key_sum asset (project_keys snd (live_entries (ms_postings st)))"
  by (simp add: asset_total_def live_entries_def project_post_entries)

lemma live_is_active: "pt_reserved (ms_postings st) = [] \<Longrightarrow> live_entries (ms_postings st) = active_entries (ms_postings st)"
  by (simp add: live_entries_def active_entries_def postings_in_def)

text \<open>The authoritative balance of the ledger is that sum, or an overflow.\<close>

lemma account_postings_mset:
  assumes "hash_order_ok h"
  shows "mset (get_postings_by_account h (aid_id acc) (Some (aid_sub acc)) (Some asset) f st)
    = mset (filter (\<lambda>p. p_owner p = acc \<and> p_asset p = asset) (postings_in f (ms_postings st)))"
proof -
  have "posting_matches (aid_id acc) (Some (aid_sub acc)) (Some asset) = (\<lambda>p. p_owner p = acc \<and> p_asset p = asset)"
    by (rule ext) (auto simp: posting_matches_def account_id.expand)
  then show ?thesis using assms by (simp add: get_postings_by_account_def hash_order_ok_def)
qed

lemma compute_balance_value:
  assumes h: "hash_order_ok (le_hash env)"
  shows "compute_balance env acc asset w = (Inr v, w') \<Longrightarrow> v = live_balance (w_store w) acc asset \<and> w' = w"
    and "compute_balance env acc asset w = (Inl err, w') \<Longrightarrow> err = Fail LOverflow \<and> w' = w"
proof -
  let ?ps = "get_postings_by_account (le_hash env) (aid_id acc) (Some (aid_sub acc)) (Some asset) FilterLive (w_store w)"
  have run: "compute_balance env acc asset w = (map_err (Fail \<circ> ledger_error_from_overflow) (checked_sum (map p_value ?ps)), w)"
    by (simp add: compute_balance_def lbind_def overflow_action_def)
  have "sum_list (map p_value ?ps) = live_balance (w_store w) acc asset"
    unfolding live_balance_def by (rule sum_list_mset[OF account_postings_mset[OF h]])
  then show "compute_balance env acc asset w = (Inr v, w') \<Longrightarrow> v = live_balance (w_store w) acc asset \<and> w' = w"
    using run checked_sum_exact by (cases "checked_sum (map p_value ?ps)") (auto simp: map_err_def)
  show "compute_balance env acc asset w = (Inl err, w') \<Longrightarrow> err = Fail LOverflow \<and> w' = w"
    using run by (cases "checked_sum (map p_value ?ps)") (auto simp: map_err_def ledger_error_from_overflow_def)
qed

section \<open>Failure\<close>

lemma commit_write_failure:
  assumes "commit_write env e s p w = (Inl err, w')"
  shows "w_store w' = w_store w"
  using assms
  by (auto simp: commit_write_def lbind_def now_millis_def read_clock_def lwrite_err_def commit_envelope_def Let_def split_beta
      split: if_splits option.splits sum.splits commit_exit.splits commit_outcome.splits prod.splits)

lemma commit_envelope_failure:
  assumes "ledger_commit_envelope env e w = (Inl err, w')"
  shows "w_store w' = w_store w"
  using assms unfolding ledger_commit_envelope_eq
proof (cases rule: lbind_cases)
  case stop
  then show ?thesis using readsD[OF reads_pin] by metis
next
  case (go e' w1)
  then have w1: "w_store w1 = w_store w" using readsD[OF reads_pin] by metis
  from go(2) have "commit_new env e' w1 = (Inl err, w')"
    by (auto simp: lbind_def split: option.splits)
  then have "w_store w' = w_store w1" unfolding commit_new_def
  proof (cases rule: lbind_cases)
    case stop
    then show ?thesis using readsD[OF reads_load] by metis
  next
    case (go s w2)
    then have "w_store w2 = w_store w1" using readsD[OF reads_load] by metis
    moreover have "w_store w' = w_store w2"
      using go(2) commit_write_failure[of env e' s _ w2 err w'] by (cases "ledger_plan env e' s") (auto simp: lbind_def)
    ultimately show ?thesis by simp
  qed
  with w1 show ?thesis by simp
qed

lemma commit_failure:
  assumes "ledger_commit env t w = (Inl err, w')"
  shows "w_store w' = w_store w"
  using assms unfolding ledger_commit_def
proof (cases rule: lbind_cases)
  case (go e w1)
  then show ?thesis using commit_envelope_failure readsD[OF reads_resolve go(1)] by metis
qed (use readsD[OF reads_resolve] in metis)

section \<open>Success\<close>

text \<open>A successful commit is either a replay of a stored transfer or one applied request.\<close>

lemma pin_world: "pin_snapshots env e w = (r, w') \<Longrightarrow> w' = w"
  by (auto simp: pin_snapshots_def resolve_snapshots_def lbind_def lread_def split: if_splits sum.splits)

lemma commit_write_success:
  assumes "commit_write env e s p w = (Inr r, w')" "map_of (ms_transfers (w_store w)) (plan_transfer_id p) = None"
  obtains ts c where "commit_guards (le_hash env) (build_request e s p ts) (w_store w) = Inr ()"
    "r = \<lparr>r_transfer_id = plan_transfer_id p\<rparr>" "w_store w' = commit_apply c (build_request e s p ts) (w_store w)"
proof -
  obtain ts w1 where ts: "now_millis env w = (Inr ts, w1)" and
    go: "lbind (read_clock env) (\<lambda>c. lbind (lwrite_err (commit_envelope (le_hash env) c (build_request e s p ts))) (\<lambda>outcome. case outcome of
         Committed r \<Rightarrow> lreturn r | AlreadyCommitted r \<Rightarrow> lreturn r
       | CommitRejected rej \<Rightarrow> lfail (map_rejection rej))) w1 = (Inr r, w')"
    using assms(1) by (auto simp: commit_write_def lbind_Inr)
  have w1: "w_store w1 = w_store w" by (rule readsD[OF ro.preserves_now ts])
  have "cr_transfer_id (build_request e s p ts) = plan_transfer_id p" "er_receipt (cr_record (build_request e s p ts)) = \<lparr>r_transfer_id = plan_transfer_id p\<rparr>"
    by (simp_all add: build_request_def Let_def)
  then show thesis using go assms(2)
    by (intro that[of ts "le_clock env (w_tick w1)"])
      (auto simp: lbind_def read_clock_def lwrite_err_def commit_envelope_def w1 Let_def split_beta
        split: sum.splits commit_exit.splits)
qed

lemma commit_new_success:
  assumes x: "externs_ok (le_ext env)" and run: "commit_new env e w = (Inr r, w')"
    and new: "map_of (ms_transfers (w_store w)) (envelope_id (x_sha (le_ext env)) e) = None"
  obtains s ts c where "valid_input (x_sha (le_ext env)) (plan_input_of e s)"
    "get_postings (e_consumes e) (w_store w) = Inr (ls_consumed_postings s)"
    "commit_guards (le_hash env) (req_of env (plan_input_of e s) s ts) (w_store w) = Inr ()"
    "r = \<lparr>r_transfer_id = envelope_id (x_sha (le_ext env)) e\<rparr>"
    "w_store w' = commit_apply c (req_of env (plan_input_of e s) s ts) (w_store w)"
proof -
  obtain s w2 where l: "load env e w = (Inr s, w2)" and r2: "lbind (lift (ledger_plan env e s)) (commit_write env e s) w2 = (Inr r, w')"
    using run by (auto simp: commit_new_def lbind_Inr)
  obtain p where p: "ledger_plan env e s = Inr p" and r3: "commit_write env e s p w2 = (Inr r, w')"
    using r2 by (auto simp: lbind_Inr)
  have w2: "w_store w2 = w_store w" by (rule readsD[OF reads_load l])
  note pv = plan_validated[OF x p]
  have tid: "plan_transfer_id p = envelope_id (x_sha (le_ext env)) e" by (simp add: pv(2) build_plan_def Let_def)
  have req: "req_of env (plan_input_of e s) s ts = build_request e s p ts" for ts
    by (simp add: req_of_def pv(2) plan_input_of_def)
  from r3 new show thesis unfolding tid[symmetric] w2[symmetric]
  proof (rule commit_write_success)
    fix ts c
    assume "commit_guards (le_hash env) (build_request e s p ts) (w_store w2) = Inr ()"
      "r = \<lparr>r_transfer_id = plan_transfer_id p\<rparr>" "w_store w' = commit_apply c (build_request e s p ts) (w_store w2)"
    then show thesis using that[OF pv(1) load_consumed[OF l], of ts c] by (simp add: req tid w2)
  qed
qed

lemma commit_envelope_success:
  assumes x: "externs_ok (le_ext env)" and run: "ledger_commit_envelope env e0 w = (Inr r, w')"
  obtains (replay) e rec where "pin_snapshots env e0 w = (Inr e, w)"
      "map_of (ms_transfers (w_store w)) (envelope_id (x_sha (le_ext env)) e) = Some rec" "r = er_receipt rec" "w' = w"
  | (fresh) e s ts c where "pin_snapshots env e0 w = (Inr e, w)"
      "map_of (ms_transfers (w_store w)) (envelope_id (x_sha (le_ext env)) e) = None"
      "valid_input (x_sha (le_ext env)) (plan_input_of e s)"
      "get_postings (e_consumes e) (w_store w) = Inr (ls_consumed_postings s)"
      "commit_guards (le_hash env) (req_of env (plan_input_of e s) s ts) (w_store w) = Inr ()"
      "r = \<lparr>r_transfer_id = envelope_id (x_sha (le_ext env)) e\<rparr>"
      "w_store w' = commit_apply c (req_of env (plan_input_of e s) s ts) (w_store w)"
proof -
  obtain e w1 where p: "pin_snapshots env e0 w = (Inr e, w1)" and
    r1: "(case get_transfer (envelope_id (x_sha (le_ext env)) e) (w_store w1) of
          Some rec \<Rightarrow> lreturn (er_receipt rec) | None \<Rightarrow> commit_new env e) w1 = (Inr r, w')"
    using run by (auto simp: ledger_commit_envelope_eq lbind_Inr)
  have w1: "w1 = w" by (rule pin_world[OF p])
  show thesis
  proof (cases "map_of (ms_transfers (w_store w)) (envelope_id (x_sha (le_ext env)) e)")
    case (Some rec)
    then show thesis using r1 p by (intro replay[of e rec]) (simp_all add: w1 get_transfer_def)
  next
    case None
    then have "commit_new env e w = (Inr r, w')" using r1 by (simp add: w1 get_transfer_def)
    from commit_new_success[OF x this None] show thesis using fresh[OF p[unfolded w1] None] by metis
  qed
qed

section \<open>Idempotence\<close>

lemma pin_same_accounts:
  "ms_accounts (w_store w') = ms_accounts (w_store w) \<Longrightarrow> pin_snapshots env e w = (r, w1) \<Longrightarrow> pin_snapshots env e w' = (r, w')"
  by (auto simp: pin_snapshots_def resolve_snapshots_def lbind_def lread_def get_accounts_def head_version_def
      split: if_splits sum.splits)

lemma commit_replay:
  assumes "pin_snapshots env e0 w = (Inr e, w)"
    "map_of (ms_transfers (w_store w)) (envelope_id (x_sha (le_ext env)) e) = Some rec"
  shows "ledger_commit_envelope env e0 w = (Inr (er_receipt rec), w)"
  using assms by (simp add: ledger_commit_envelope_eq lbind_def get_transfer_def)

section \<open>Which errors a commit can report\<close>

definition fails_in :: "(ledger_error fault \<Rightarrow> bool) \<Rightarrow> 'a action \<Rightarrow> bool" where
  "fails_in P m \<longleftrightarrow> (\<forall>w x. fst (m w) = Inl x \<longrightarrow> P x)"

lemma fails_bind:
  assumes "fails_in P m" "\<And>a w w1. m w = (Inr a, w1) \<Longrightarrow> fails_in P (f a)"
  shows "fails_in P (lbind m f)"
  unfolding fails_in_def
proof (intro allI impI)
  fix w x assume "fst (lbind m f w) = Inl x"
  then obtain w' where "lbind m f w = (Inl x, w')" by (metis prod.collapse)
  then show "P x"
  proof (cases rule: lbind_cases)
    case stop
    then show ?thesis using assms(1) unfolding fails_in_def by (metis Inl_inject fst_conv)
  next
    case (go a w1)
    then show ?thesis using assms(2)[OF go(1)] unfolding fails_in_def by (metis fst_conv)
  qed
qed

lemma fails_fold: "(\<And>s a. fails_in P (f s a)) \<Longrightarrow> fails_in P (lfold f s as)"
  by (induction as arbitrary: s) (auto intro!: fails_bind, simp add: fails_in_def)

definition no_underfetch :: "ledger_error fault \<Rightarrow> bool" where
  "no_underfetch x \<longleftrightarrow> (case x of Panic \<Rightarrow> False | Fail (UnderFetchedState _ _) \<Rightarrow> False | Fail _ \<Rightarrow> True)"

lemma no_underfetch_pure [simp]:
  "fails_in no_underfetch (lreturn a)" "fails_in no_underfetch (lread g)" "fails_in no_underfetch (lget g')"
  "fails_in no_underfetch (read_clock env)" "fails_in no_underfetch (lwrite_err g'')"
  "fails_in no_underfetch (overflow_action q)" "no_underfetch (Fail (Store se))" "no_underfetch (Fail (BookNotFound b))"
  by (auto simp: fails_in_def no_underfetch_def lread_def read_clock_def lwrite_err_def overflow_action_def
      ledger_error_from_store_def ledger_error_from_overflow_def map_err_def split_beta Let_def split: sum.splits prod.splits)

lemma no_underfetch_fail [simp]: "fails_in P (lfail e) \<longleftrightarrow> P (Fail e)"
  by (simp add: fails_in_def)

lemma no_underfetch_now [simp]: "fails_in no_underfetch (now_millis env)"
  unfolding now_millis_def by (rule fails_bind) (simp_all add: no_underfetch_def)

lemma no_underfetch_load [simp]: "fails_in no_underfetch (load env e)"
  unfolding load_def Let_def load_book_def compute_balance_def
  by (intro fails_bind fails_fold)
    (auto intro!: fails_bind simp: ledger_error_from_store_def split: sum.splits store_error.splits)

lemma no_underfetch_pin [simp]: "fails_in no_underfetch (pin_snapshots env e)"
  unfolding pin_snapshots_def resolve_snapshots_def by (auto intro!: fails_bind)

text \<open>The loader fetches a balance for every key that validation reads.\<close>

lemma lfold_update_keys:
  assumes "lfold (\<lambda>m k. lbind (g k) (\<lambda>b. lreturn (AList.update k b m))) m ks w = (Inr m', w')"
  shows "\<forall>k \<in> set ks \<union> fst ` set m. contains_key m' k"
  using assms
proof (induction ks arbitrary: m w)
  case (Cons k ks)
  then obtain b w1 where "lfold (\<lambda>m k. lbind (g k) (\<lambda>b. lreturn (AList.update k b m))) (AList.update k b m) ks w1 = (Inr m', w')"
    unfolding lfold.simps lbind_Inr lreturn_def prod.inject by blast
  from Cons.IH[OF this] show ?case by (auto simp: dom_update)
qed (auto simp: contains_key_iff)

lemma load_complete:
  assumes "load env e w = (Inr s, w')" "k \<in> set (rs_balances (required_state e (ls_consumed_postings s)))"
  shows "contains_key (ls_balances s) k"
proof -
  let ?f = "\<lambda>m k. lbind (compute_balance env (fst k) (snd k)) (\<lambda>b. lreturn (AList.update k b m))"
  have f: "(\<lambda>m (acc, asset). lbind (compute_balance env acc asset) (\<lambda>b. lreturn (AList.update (acc, asset) b m))) = ?f"
    by (auto simp: fun_eq_iff)
  obtain consumed w2 bals w3 where
    "lfold ?f [] (rs_balances (required_state e consumed)) w2 = (Inr bals, w3)" "ls_consumed_postings s = consumed" "ls_balances s = bals"
    using assms(1) unfolding load_def Let_def f lbind_Inr lreturn_def by auto
  then show ?thesis using lfold_update_keys[of "\<lambda>k. compute_balance env (fst k) (snd k)"] assms(2) by fastforce
qed

lemma no_underfetch_plan:
  assumes x: "externs_ok (le_ext env)" and l: "load env e w = (Inr s, w')" and p: "ledger_plan env e s = Inl err"
  shows "no_underfetch err"
proof -
  have "List.find (\<lambda>k. \<not> contains_key (ls_balances s) k) (rs_balances (required_state e (ls_consumed_postings s))) = None"
    using load_complete[OF l] by (simp add: find_None_iff)
  then have "err = Fail (Validation v)" if "validate_and_plan (le_ext env) (plan_input_of e s) = Inl (Fail v)" for v
    using p that by (simp add: ledger_plan_def map_err_def ledger_error_from_validation_def)
  moreover have "\<exists>v. validate_and_plan (le_ext env) (plan_input_of e s) = Inl (Fail v)"
    using p validate_no_panic[OF x, of "plan_input_of e s"] \<open>List.find _ _ = None\<close>
    by (auto simp: ledger_plan_def map_err_def split: sum.splits) (metis fault.exhaust)
  ultimately show ?thesis by (auto simp: no_underfetch_def)
qed

lemma no_underfetch_write: "fails_in no_underfetch (commit_write env e s p)"
  unfolding commit_write_def
  by (intro fails_bind)
    (auto simp: map_rejection_def no_underfetch_def split: commit_outcome.splits commit_rejection.splits)

lemma no_underfetch_new: "externs_ok (le_ext env) \<Longrightarrow> fails_in no_underfetch (commit_new env e)"
  unfolding commit_new_def
  by (intro fails_bind no_underfetch_load no_underfetch_write)
    (auto simp: fails_in_def intro: no_underfetch_plan)

lemma no_underfetch_commit: "externs_ok (le_ext env) \<Longrightarrow> fails_in no_underfetch (ledger_commit_envelope env e)"
  unfolding ledger_commit_envelope_eq
  by (intro fails_bind no_underfetch_pin) (auto intro: no_underfetch_new split: option.splits)

section \<open>The effect of a commit\<close>

definition commit_effect :: "sha256 \<Rightarrow> mem_store \<Rightarrow> envelope \<Rightarrow> posting list \<Rightarrow> mem_store \<Rightarrow> bool" where
  "commit_effect sha st e ps st' \<longleftrightarrow>
     (let tid = envelope_id sha e; new = created_postings tid (e_creates e) in
      map p_id ps = e_consumes e \<and>
      (\<forall>p \<in> set ps. posting_state_of (ms_postings st) (p_id p) = StateActive) \<and>
      (\<forall>aid \<in> p_owner ` (set new \<union> set ps). \<exists>a. head_version st aid = Some a \<and> \<not> is_frozen a \<and> \<not> is_closed a) \<and>
      (\<forall>i. posting_state_of (ms_postings st') i =
         (if i \<in> p_id ` set new then StateActive else if i \<in> set (e_consumes e) then StateSpent else posting_state_of (ms_postings st) i)) \<and>
      (\<forall>acc asset. live_balance st' acc asset = live_balance st acc asset + key_sum (acc, asset) (delta_entries ps (e_creates e))) \<and>
      (\<exists>r. map_of (ms_transfers st') = (map_of (ms_transfers st))(tid \<mapsto> r) \<and> er_envelope r = e \<and> r_transfer_id (er_receipt r) = tid) \<and>
      ms_accounts st' = ms_accounts st)"

lemma inv_live: "store_inv sha st \<Longrightarrow> live_balance st acc asset = key_sum (acc, asset) (active_entries (ms_postings st))"
  by (simp add: live_balance_entries live_is_active store_inv_def)

lemma ready_live:
  assumes rdy: "commit_ready env st input s ts"
  shows "live_balance (commit_apply c (req_of env input s ts) st) acc asset = live_balance st acc asset
     + key_sum (acc, asset) (delta_entries (pi_consumed_postings input) (e_creates (pi_envelope input)))"
proof -
  have "store_inv (x_sha (le_ext env)) st" using rdy by (simp add: commit_ready_def)
  then show ?thesis
    using ready_active_sum[OF rdy] by (simp add: inv_live inv_live[OF ready_store_inv[OF rdy]] commit_apply_fields)
qed

lemma ready_effect:
  assumes rdy: "commit_ready env st input s ts"
  shows "commit_effect (x_sha (le_ext env)) st (pi_envelope input) (pi_consumed_postings input) (commit_apply c (req_of env input s ts) st)"
proof -
  have tid: "envelope_id (x_sha (le_ext env)) (pi_envelope input) = tid_of env input"
    "created_postings (tid_of env input) (e_creates (pi_envelope input)) = created_of env input"
    by (simp_all add: tid_of_def created_of_def)
  have act: "posting_state_of (ms_postings st) (p_id p) = StateActive" if "p \<in> set (pi_consumed_postings input)" for p
  proof -
    have "p_id p \<in> set (e_consumes (pi_envelope input))" using that ready_consumed(2)[OF rdy] by (metis image_eqI set_map)
    then show ?thesis using readyD(4)[OF rdy] by (simp add: state_active_iff)
  qed
  have own: "\<exists>a. head_version st aid = Some a \<and> \<not> is_frozen a \<and> \<not> is_closed a"
    if "aid \<in> p_owner ` (set (created_of env input) \<union> set (pi_consumed_postings input))" for aid
    using readyD(6)[OF rdy, of aid] that by auto
  show ?thesis
    unfolding commit_effect_def Let_def tid
    by (intro conjI allI ballI exI[of _ "cr_record (req_of env input s ts)"])
      (use act own ready_consumed(2)[OF rdy] in \<open>simp_all add: ready_live[OF rdy] commit_apply_fields ready_tables(2)[OF rdy] req_fields[OF rdy]\<close>)
qed

lemma commit_envelope_ready:
  assumes x: "externs_ok (le_ext env)" and h: "hash_order_ok (le_hash env)" and inv: "store_inv (x_sha (le_ext env)) (w_store w)"
    and sm: "small (w_store w')" and run: "ledger_commit_envelope env e0 w = (Inr r, w')"
    and new: "map_of (ms_transfers (w_store w)) (r_transfer_id r) = None"
  obtains e s ts c where "pin_snapshots env e0 w = (Inr e, w)" "r_transfer_id r = envelope_id (x_sha (le_ext env)) e"
    "get_postings (e_consumes e) (w_store w) = Inr (ls_consumed_postings s)" "commit_ready env (w_store w) (plan_input_of e s) s ts"
    "w_store w' = commit_apply c (req_of env (plan_input_of e s) s ts) (w_store w)"
  using x run
proof (cases rule: commit_envelope_success)
  case (replay e rec)
  then have "r_transfer_id r = envelope_id (x_sha (le_ext env)) e" using inv by (auto simp: store_inv_def transfer_ok_def)
  then show thesis using new replay by simp
next
  case (fresh e s ts c)
  let ?i = "plan_input_of e s"
  have i: "pi_envelope ?i = e" "pi_consumed_postings ?i = ls_consumed_postings s" by (simp_all add: plan_input_of_def)
  have "small (commit_apply c (req_of env ?i s ts) (w_store w))" using sm fresh(7) by simp
  then have "length (e_creates e) \<le> 65536"
    unfolding small_def commit_apply_fields
    by (auto simp: req_of_def build_request_def Let_def i dest!: spec[of _ "cr_transfer_id (req_of env ?i s ts)"])
  then have "commit_ready env (w_store w) ?i s ts"
    using fresh inv h by (simp add: commit_ready_def i tid_of_def)
  then show thesis using that[OF fresh(1) _ fresh(4) _ fresh(7)] fresh(6) by simp
qed

lemma commit_envelope_effect:
  assumes x: "externs_ok (le_ext env)" and h: "hash_order_ok (le_hash env)" and inv: "store_inv (x_sha (le_ext env)) (w_store w)"
    and sm: "small (w_store w')" and run: "ledger_commit_envelope env e0 w = (Inr r, w')"
    and new: "map_of (ms_transfers (w_store w)) (r_transfer_id r) = None"
  obtains e ps where "pin_snapshots env e0 w = (Inr e, w)" "r_transfer_id r = envelope_id (x_sha (le_ext env)) e"
    "get_postings (e_consumes e) (w_store w) = Inr ps" "commit_effect (x_sha (le_ext env)) (w_store w) e ps (w_store w')"
  using assms
proof (rule commit_envelope_ready)
  fix e s ts c
  assume f: "pin_snapshots env e0 w = (Inr e, w)" "r_transfer_id r = envelope_id (x_sha (le_ext env)) e"
    "get_postings (e_consumes e) (w_store w) = Inr (ls_consumed_postings s)" "commit_ready env (w_store w) (plan_input_of e s) s ts"
    "w_store w' = commit_apply c (req_of env (plan_input_of e s) s ts) (w_store w)"
  from ready_effect[OF f(4), of c] show thesis using that[OF f(1-3)] f(5) by (simp add: plan_input_of_def)
qed

section \<open>Reversal\<close>

lemma pin_fields: "pin_snapshots env e0 w = (Inr e, w') \<Longrightarrow> e_consumes e = e_consumes e0 \<and> e_creates e = e_creates e0"
  by (auto simp: pin_snapshots_def resolve_snapshots_def lbind_def lread_def set_account_snapshots_def split: if_splits sum.splits)

lemma key_sum_delta:
  "key_sum k (delta_entries ps nps) = key_sum k (map (\<lambda>np. ((np_owner np, np_asset np), np_value np)) nps) - key_sum k (post_entries ps)"
  by (simp add: delta_entries_def post_entries_def key_sum_uminus)

lemma created_entries:
  "post_entries (created_postings tid nps) = map (\<lambda>np. ((np_owner np, np_asset np), np_value np)) nps"
  by (rule nth_equalityI) (simp_all add: post_entries_def created_postings_nth posting_new_def)

lemma reversal_fields:
  "e_consumes (reversal_of r ps) = map p_id (created_postings (r_transfer_id (er_receipt r)) (e_creates (er_envelope r)))"
  "e_creates (reversal_of r ps) = map (\<lambda>p. \<lparr>np_owner = p_owner p, np_asset = p_asset p, np_value = p_value p, np_payer = None\<rparr>) ps"
  by (simp_all add: reversal_of_def Let_def envelope_builder_metadata_def envelope_builder_book_def envelope_builder_creates_def
      envelope_builder_consumes_def created_postings_def posting_new_def split_beta comp_def)

text \<open>The rows a reversal consumes are the postings its transfer created.\<close>

lemma created_rows:
  assumes "transfer_ok sha st tid r"
  shows "get_postings (e_consumes (reversal_of r ps)) st = Inr (created_postings tid (e_creates (er_envelope r)))"
proof -
  have "r_transfer_id (er_receipt r) = tid" using assms by (simp add: transfer_ok_def)
  then show ?thesis using assms unfolding reversal_fields get_postings_def try_map_Inr_iff
    by (auto simp: transfer_ok_def list_all2_map1 intro!: list.rel_refl_strong)
qed

lemma reversal_delta:
  "key_sum k (delta_entries (created_postings tid (e_creates (er_envelope r))) (e_creates (reversal_of r ps)))
     = - key_sum k (delta_entries ps (e_creates (er_envelope r)))"
  unfolding key_sum_delta created_entries reversal_fields by (simp add: post_entries_def comp_def)

lemma reverse_run:
  assumes "reverse env tid w = (Inr r, w')" "get_transfer tid (w_store w) = Some rec"
  obtains ps where "get_postings (e_consumes (er_envelope rec)) (w_store w) = Inr ps"
    "ledger_commit_envelope env (reversal_of rec ps) w = (Inr r, w')"
  using assms by (auto simp: reverse_def lbind_def lread_def get_postings_def split: if_splits sum.splits)

lemma reverse_effect:
  assumes x: "externs_ok (le_ext env)" and h: "hash_order_ok (le_hash env)" and inv: "store_inv (x_sha (le_ext env)) (w_store w)"
    and sm: "small (w_store w')" and run: "reverse env tid w = (Inr r, w')"
    and new: "map_of (ms_transfers (w_store w)) (r_transfer_id r) = None" and rec: "map_of (ms_transfers (w_store w)) tid = Some rec"
  obtains ps where "get_postings (e_consumes (er_envelope rec)) (w_store w) = Inr ps"
    "\<And>acc asset. live_balance (w_store w') acc asset = live_balance (w_store w) acc asset
       - key_sum (acc, asset) (delta_entries ps (e_creates (er_envelope rec)))"
    "\<And>i. i \<in> p_id ` set (created_postings tid (e_creates (er_envelope rec))) \<Longrightarrow> posting_state_of (ms_postings (w_store w)) i = StateActive"
proof -
  have tok: "transfer_ok (x_sha (le_ext env)) (w_store w) tid rec" using inv rec by (simp add: store_inv_def)
  obtain ps where ps: "get_postings (e_consumes (er_envelope rec)) (w_store w) = Inr ps"
    and cr: "ledger_commit_envelope env (reversal_of rec ps) w = (Inr r, w')"
    using reverse_run[OF run] rec by (metis get_transfer_def)
  obtain e qs where e: "pin_snapshots env (reversal_of rec ps) w = (Inr e, w)" "get_postings (e_consumes e) (w_store w) = Inr qs"
    "commit_effect (x_sha (le_ext env)) (w_store w) e qs (w_store w')"
    using commit_envelope_effect[OF x h inv sm cr new] by metis
  note pf = pin_fields[OF e(1)]
  have qs: "qs = created_postings tid (e_creates (er_envelope rec))"
    using e(2) created_rows[OF tok, of ps] pf by simp
  show thesis
  proof (rule that[OF ps])
    show "live_balance (w_store w') acc asset = live_balance (w_store w) acc asset
       - key_sum (acc, asset) (delta_entries ps (e_creates (er_envelope rec)))" for acc asset
      using e(3) pf reversal_delta[of "(acc, asset)" tid rec ps] unfolding commit_effect_def Let_def qs by simp
    show "posting_state_of (ms_postings (w_store w)) i = StateActive"
      if "i \<in> p_id ` set (created_postings tid (e_creates (er_envelope rec)))" for i
      using e(3) that unfolding commit_effect_def Let_def qs by auto
  qed
qed

section \<open>Posting indices\<close>

lemma created_ids_wrap:
  assumes "length nps > 65536"
  shows "p_id (created_postings tid nps ! 65536) = p_id (created_postings tid nps ! 0)"
proof -
  have "(65536 :: u16) = 0" by simp
  moreover have "0 < length nps" using assms by (rule le_less_trans[rotated]) simp
  ultimately show ?thesis using assms by (simp add: created_postings_nth posting_new_def)
qed

lemma created_ids_card: "card (p_id ` set (created_postings tid nps)) \<le> 65536"
proof -
  have "p_id ` set (created_postings tid nps) \<subseteq> range (PostingId tid)"
    by (auto simp: in_set_conv_nth created_postings_nth posting_new_def)
  then have "card (p_id ` set (created_postings tid nps)) \<le> card (range (PostingId tid))" by (intro card_mono) simp_all
  also have "\<dots> \<le> card (UNIV :: u16 set)" by (rule card_image_le) simp
  also have "\<dots> = 65536" by (simp add: card_word)
  finally show ?thesis .
qed

end
