(* ===== verification/Inflight_Projection.thy ===== *)
theory Inflight_Projection
  imports Ledger_Lifecycle
begin

text \<open>
  \<^verbatim>\<open>kuatia/src/inflight/projection.rs\<close> and the data types of \<^verbatim>\<open>kuatia/src/inflight.rs\<close>: the leg
  table, its grouping by holding account, the derived status and the split of a voided
  balance among the funders. The CBOR codec is a parameter.
\<close>

section \<open>Types\<close>

record inflight_leg =
  il_destination :: account_id
  il_hold :: account_id
  il_funder :: account_id
  il_asset :: asset_id
  il_amount :: cent

record authorization =
  au_inflight :: envelope_id
  au_legs :: "inflight_leg list"

definition authorization_receipt :: "authorization \<Rightarrow> receipt" where
  "authorization_receipt a = \<lparr>r_transfer_id = au_inflight a\<rparr>"

datatype inflight_state = Held | PartiallyConfirmed | Confirmed | Voided | Mixed

record inflight_leg_status =
  ls_destination :: account_id
  ls_hold :: account_id
  ls_asset :: asset_id
  ls_authorized :: cent
  ls_confirmed :: cent
  ls_voided :: cent
  ls_held :: cent

record inflight_status =
  is_inflight :: envelope_id
  is_legs :: "inflight_leg_status list"
  is_state :: inflight_state

datatype inflight_meta =
    MetaAuthorize "inflight_leg list"
  | MetaHold account_id
  | MetaConfirm envelope_id account_id
  | MetaVoid envelope_id account_id

text \<open>
  The CBOR library: encoding may fail, decoding may reject. \<open>codec_ok\<close> is its documented
  behaviour: what was encoded decodes to itself. \<open>enc_transfer\<close> is the buffer left by
  encoding a transfer, an error being ignored by the caller.
\<close>

record codec =
  enc_meta :: "inflight_meta \<Rightarrow> byte list option"
  dec_meta :: "byte list \<Rightarrow> inflight_meta option"
  enc_transfer :: "transfer \<Rightarrow> byte list"

definition codec_ok :: "codec \<Rightarrow> bool" where
  "codec_ok cd \<longleftrightarrow> (\<forall>m bs. enc_meta cd m = Some bs \<longrightarrow> dec_meta cd bs = Some m)"

section \<open>Metadata\<close>

definition K_INFLIGHT :: "byte list" where
  "K_INFLIGHT = map of_char ''inflight''"

definition encode_meta :: "codec \<Rightarrow> inflight_meta \<Rightarrow> ledger_error + byte list" where
  "encode_meta cd m = ok_or EncodeFailed (enc_meta cd m)"

definition meta_map :: "codec \<Rightarrow> inflight_meta \<Rightarrow> ledger_error + metadata" where
  "meta_map cd m = rbind (encode_meta cd m) (\<lambda>bs. Inr (meta_insert K_INFLIGHT bs metadata_new))"

definition read_meta :: "codec \<Rightarrow> metadata \<Rightarrow> inflight_meta option" where
  "read_meta cd md = Option.bind (map_of md K_INFLIGHT) (dec_meta cd)"

section \<open>Hold groups\<close>

record hold_group =
  hg_hold :: account_id
  hg_destination :: account_id
  hg_assets :: "asset_id list"

definition holds_of :: "inflight_leg list \<Rightarrow> account_id list" where
  "holds_of legs = sort_dedup (map il_hold legs)"

definition assets_of :: "inflight_leg list \<Rightarrow> account_id \<Rightarrow> asset_id list" where
  "assets_of legs hold = sort_dedup (map il_asset (filter (\<lambda>l. il_hold l = hold) legs))"

definition destination_of :: "inflight_leg list \<Rightarrow> account_id \<Rightarrow> envelope_id \<Rightarrow> ledger_error + account_id" where
  "destination_of legs hold inflight =
     ok_or (NotInflightTransaction inflight) (map_option il_destination (List.find (\<lambda>l. il_hold l = hold) legs))"

definition group_holds :: "inflight_leg list \<Rightarrow> envelope_id \<Rightarrow> ledger_error + hold_group list" where
  "group_holds legs inflight = try_map (\<lambda>hold.
     rbind (destination_of legs hold inflight) (\<lambda>dest.
       Inr \<lparr>hg_hold = hold, hg_destination = dest, hg_assets = assets_of legs hold\<rparr>)) (holds_of legs)"

section \<open>Status\<close>

record status_input =
  si_inflight :: envelope_id
  si_legs :: "inflight_leg list"
  si_hold_history :: "(account_id \<times> envelope_record list) list"
  si_held :: "((account_id \<times> asset_id) \<times> cent) list"

definition ledger_overflow :: "overflow_error + 'a \<Rightarrow> ledger_error + 'a" where
  "ledger_overflow r = map_err ledger_error_from_overflow r"

definition authorized_totals :: "inflight_leg list \<Rightarrow> ledger_error + ((account_id \<times> asset_id) \<times> cent) list" where
  "authorized_totals legs =
     try_fold (\<lambda>m l. ledger_overflow (entry_add m (il_hold l, il_asset l) (il_amount l))) [] legs"

text \<open>The settled amounts of one record go to the bucket its tag names.\<close>

definition settle_record ::
  "codec \<Rightarrow> account_id \<Rightarrow> ((account_id \<times> asset_id) \<times> cent) list \<times> ((account_id \<times> asset_id) \<times> cent) list \<Rightarrow> envelope_record
   \<Rightarrow> ledger_error + (((account_id \<times> asset_id) \<times> cent) list \<times> ((account_id \<times> asset_id) \<times> cent) list)" where
  "settle_record cd hold = (\<lambda>(confirmed, voided) r.
     let add_out = (\<lambda>bucket. try_fold (\<lambda>m np. if np_owner np = hold then Inr m
           else ledger_overflow (entry_add m (hold, np_asset np) (np_value np))) bucket (e_creates (er_envelope r)))
     in case read_meta cd (e_metadata (er_envelope r)) of
          Some (MetaConfirm _ _) \<Rightarrow> rbind (add_out confirmed) (\<lambda>c. Inr (c, voided))
        | Some (MetaVoid _ _) \<Rightarrow> rbind (add_out voided) (\<lambda>v. Inr (confirmed, v))
        | _ \<Rightarrow> Inr (confirmed, voided))"

definition overall_state :: "inflight_leg_status list \<Rightarrow> inflight_state" where
  "overall_state lines =
     (let any_held = list_ex (\<lambda>l. is_positive (ls_held l)) lines;
          any_confirmed = list_ex (\<lambda>l. is_positive (ls_confirmed l)) lines;
          any_voided = list_ex (\<lambda>l. is_positive (ls_voided l)) lines
      in if any_held then (if \<not> any_confirmed \<and> \<not> any_voided then Held else PartiallyConfirmed)
         else if any_voided then (if any_confirmed then Mixed else Voided)
         else Confirmed)"

definition status_line ::
  "((account_id \<times> asset_id) \<times> cent) list \<Rightarrow> ((account_id \<times> asset_id) \<times> cent) list
   \<Rightarrow> ((account_id \<times> asset_id) \<times> cent) list \<Rightarrow> ((account_id \<times> asset_id) \<times> cent) list
   \<Rightarrow> hold_group \<Rightarrow> asset_id \<Rightarrow> inflight_leg_status" where
  "status_line authorized confirmed voided held g asset =
     (let k = (hg_hold g, asset) in
      \<lparr>ls_destination = hg_destination g, ls_hold = hg_hold g, ls_asset = asset,
       ls_authorized = entry_value authorized k, ls_confirmed = entry_value confirmed k,
       ls_voided = entry_value voided k, ls_held = entry_value held k\<rparr>)"

definition derive_status :: "codec \<Rightarrow> status_input \<Rightarrow> ledger_error + inflight_status" where
  "derive_status cd input =
     rbind (group_holds (si_legs input) (si_inflight input)) (\<lambda>groups.
     rbind (authorized_totals (si_legs input)) (\<lambda>authorized.
     let by_hold = map_of (rev (si_hold_history input)) in
     rbind (try_fold (\<lambda>s g. try_fold (settle_record cd (hg_hold g)) s
              (case by_hold (hg_hold g) of Some rs \<Rightarrow> rs | None \<Rightarrow> [])) ([], []) groups) (\<lambda>(confirmed, voided).
     let lines = concat (map (\<lambda>g. map (status_line authorized confirmed voided (si_held input) g) (hg_assets g)) groups)
     in Inr \<lparr>is_inflight = si_inflight input, is_legs = lines, is_state = overall_state lines\<rparr>)))"

section \<open>Void distribution\<close>

record funder_payout =
  fp_funder :: account_id
  fp_give :: cent

text \<open>The cap of the last funder is lifted to \<open>i64::MAX\<close>.\<close>

definition funder_caps :: "inflight_leg list \<Rightarrow> account_id \<Rightarrow> asset_id \<Rightarrow> (account_id \<times> cent) list" where
  "funder_caps legs hold asset =
     (let fs = map (\<lambda>l. (il_funder l, il_amount l)) (filter (\<lambda>l. il_hold l = hold \<and> il_asset l = asset) legs)
      in if fs = [] then [] else butlast fs @ [(fst (last fs), i64_max)])"

fun distribute_loop :: "(account_id \<times> cent) list \<Rightarrow> cent \<Rightarrow> overflow_error + funder_payout list" where
  "distribute_loop [] remaining = Inr []"
| "distribute_loop ((funder, cap) # fs) remaining =
     (if \<not> is_positive remaining then Inr []
      else let give = (if cap < remaining then cap else remaining)
           in if is_positive give
              then rbind (checked_sub remaining give) (\<lambda>rest.
                   rbind (distribute_loop fs rest) (\<lambda>ps. Inr (\<lparr>fp_funder = funder, fp_give = give\<rparr> # ps)))
              else distribute_loop fs remaining)"

definition distribute_to_funders ::
  "inflight_leg list \<Rightarrow> account_id \<Rightarrow> asset_id \<Rightarrow> cent \<Rightarrow> overflow_error + funder_payout list" where
  "distribute_to_funders legs hold asset remaining = distribute_loop (funder_caps legs hold asset) remaining"

section \<open>Facts\<close>

lemma read_meta_map:
  assumes "codec_ok cd" "meta_map cd m = Inr md"
  shows "read_meta cd md = Some m"
  using assms by (auto simp: meta_map_def encode_meta_def rbind_eq_Inr read_meta_def codec_ok_def metadata_new_def)

lemma destination_of_total: "hold \<in> set (map il_hold legs) \<Longrightarrow> \<exists>d. destination_of legs hold i = Inr d"
  by (cases "List.find (\<lambda>l. il_hold l = hold) legs") (auto simp: destination_of_def find_None_iff)

text \<open>
  Grouping a leg table never fails: one group for each hold, in order, each with
  its assets and the destination of one of its legs.
\<close>

theorem group_holds_total:
  "\<exists>gs. group_holds legs i = Inr gs \<and> map hg_hold gs = holds_of legs \<and>
     (\<forall>g \<in> set gs. hg_assets g = assets_of legs (hg_hold g) \<and>
        (\<exists>l \<in> set legs. il_hold l = hg_hold g \<and> il_destination l = hg_destination g))"
proof -
  have "\<exists>gs. try_map (\<lambda>hold. rbind (destination_of legs hold i) (\<lambda>dest.
       Inr \<lparr>hg_hold = hold, hg_destination = dest, hg_assets = assets_of legs hold\<rparr>)) hs = Inr gs \<and> map hg_hold gs = hs \<and>
     (\<forall>g \<in> set gs. hg_assets g = assets_of legs (hg_hold g) \<and>
        (\<exists>l \<in> set legs. il_hold l = hg_hold g \<and> il_destination l = hg_destination g))"
    if "set hs \<subseteq> set (map il_hold legs)" for hs
    using that
  proof (induction hs)
    case (Cons h hs)
    then obtain d where d: "destination_of legs h i = Inr d" using destination_of_total[of h legs i] by auto
    then obtain l where "l \<in> set legs" "il_hold l = h" "il_destination l = d"
      by (auto simp: destination_of_def find_Some_iff dest: nth_mem)
    with Cons d show ?case by fastforce
  qed simp
  then show ?thesis by (simp add: group_holds_def holds_of_def)
qed

definition demo_leg :: "i64 \<Rightarrow> cent \<Rightarrow> inflight_leg" where
  "demo_leg f v = \<lparr>il_destination = AccountId 9 0, il_hold = AccountId 9 5, il_funder = AccountId f 0,
     il_asset = AssetId 1, il_amount = v\<rparr>"

theorem group_holds_total_witness:
  "\<exists>gs. group_holds [demo_leg 1 40, demo_leg 2 60] (EnvelopeId []) = Inr gs \<and> map hg_hold gs = [AccountId 9 5]"
proof -
  have "holds_of [demo_leg 1 40, demo_leg 2 60] = [AccountId 9 5]"
    by (simp add: holds_of_def demo_leg_def sort_dedup_def)
  then show ?thesis using group_holds_total[of "[demo_leg 1 40, demo_leg 2 60]" "EnvelopeId []"] by auto
qed

text \<open>
  A non-empty funder list whose last cap is lifted pays out exactly the positive
  remainder, in positive amounts, and the arithmetic cannot overflow.
\<close>

lemma distribute_loop_exact:
  assumes "fs \<noteq> []" "snd (last fs) = i64_max" "i64_ok r"
  shows "\<exists>ps. distribute_loop fs r = Inr ps \<and> sum_list (map fp_give ps) = max 0 r \<and> (\<forall>p \<in> set ps. 0 < fp_give p) \<and>
     set (map fp_funder ps) \<subseteq> fst ` set fs"
  using assms
proof (induction fs arbitrary: r)
  case (Cons f fs)
  obtain funder cap where f: "f = (funder, cap)" by (cases f)
  show ?case
  proof (cases "0 < r")
    case False
    then show ?thesis by (simp add: f)
  next
    case pos: True
    define give where "give = (if cap < r then cap else r)"
    show ?thesis
    proof (cases "0 < give")
      case give: True
      have "i64_ok (r - give)" using pos give Cons.prems(3) by (auto simp: give_def range_defs)
      moreover have "\<exists>ps. distribute_loop fs (r - give) = Inr ps \<and> sum_list (map fp_give ps) = r - give \<and>
          (\<forall>p \<in> set ps. 0 < fp_give p) \<and> set (map fp_funder ps) \<subseteq> fst ` set fs"
      proof (cases "fs = []")
        case True
        then have "give = r" using Cons.prems f by (auto simp: give_def range_defs)
        with True show ?thesis by simp
      next
        case False
        then show ?thesis using Cons.IH[of "r - give"] Cons.prems calculation by (auto simp: give_def split: if_splits)
      qed
      ultimately show ?thesis using pos give by (force simp: f give_def[symmetric] Let_def)
    next
      case False
      then have "fs \<noteq> []" using pos Cons.prems f by (auto simp: give_def range_defs split: if_splits)
      then show ?thesis using False pos Cons.IH[of r] Cons.prems by (force simp: f give_def[symmetric] Let_def)
    qed
  qed
qed simp

text \<open>
  C30: voiding splits exactly the remaining balance: the payouts are positive, go to funders
  of that hold and asset only, and sum to the remaining balance.
\<close>

theorem distribute_exact:
  assumes "\<exists>l \<in> set legs. il_hold l = hold \<and> il_asset l = asset" "i64_ok r"
  shows "\<exists>ps. distribute_to_funders legs hold asset r = Inr ps \<and> sum_list (map fp_give ps) = max 0 r \<and>
     (\<forall>p \<in> set ps. 0 < fp_give p \<and> (\<exists>l \<in> set legs. il_hold l = hold \<and> il_asset l = asset \<and> il_funder l = fp_funder p))"
proof -
  let ?fs = "map (\<lambda>l. (il_funder l, il_amount l)) (filter (\<lambda>l. il_hold l = hold \<and> il_asset l = asset) legs)"
  have ne: "?fs \<noteq> []" using assms(1) by (auto simp: filter_empty_conv)
  have caps: "funder_caps legs hold asset = butlast ?fs @ [(fst (last ?fs), i64_max)]"
    using ne unfolding funder_caps_def Let_def by (simp only: if_False)
  have "fst ` set (funder_caps legs hold asset) = fst ` set ?fs"
  proof -
    have "fst ` set (butlast fs @ [(fst (last fs), m)]) = fst ` set fs" if "fs \<noteq> []" for fs :: "(account_id \<times> cent) list" and m
      using that by (induction fs rule: rev_induct) auto
    then show ?thesis using ne unfolding caps by blast
  qed
  then have sub: "fst ` set (funder_caps legs hold asset) \<subseteq> il_funder ` {l \<in> set legs. il_hold l = hold \<and> il_asset l = asset}" by auto
  have "funder_caps legs hold asset \<noteq> []" "snd (last (funder_caps legs hold asset)) = i64_max" by (simp_all add: caps)
  from distribute_loop_exact[OF this assms(2)] obtain ps where
    ps: "distribute_loop (funder_caps legs hold asset) r = Inr ps" "sum_list (map fp_give ps) = max 0 r"
      "\<forall>p \<in> set ps. 0 < fp_give p" "set (map fp_funder ps) \<subseteq> fst ` set (funder_caps legs hold asset)" by blast
  have "\<exists>l \<in> set legs. il_hold l = hold \<and> il_asset l = asset \<and> il_funder l = fp_funder p" if "p \<in> set ps" for p
  proof -
    have "fp_funder p \<in> set (map fp_funder ps)" using that by simp
    then have "fp_funder p \<in> il_funder ` {l \<in> set legs. il_hold l = hold \<and> il_asset l = asset}" using ps(4) sub by blast
    then show ?thesis by auto
  qed
  then show ?thesis using ps(1-3) unfolding distribute_to_funders_def by blast
qed

theorem distribute_exact_witness:
  "\<exists>ps. distribute_to_funders [demo_leg 1 40, demo_leg 2 60] (AccountId 9 5) (AssetId 1) 70 = Inr ps \<and>
     sum_list (map fp_give ps) = 70"
  using distribute_exact[of "[demo_leg 1 40, demo_leg 2 60]" "AccountId 9 5" "AssetId 1" 70]
  by (simp add: demo_leg_def range_defs) metis

end
