(* ===== verification/Account_Code.thy ===== *)
theory Account_Code
  imports Ledger_Types
begin

text \<open>
  \<^verbatim>\<open>kuatia-types/src/account_code.rs\<close>: the 20-character account code, an 18-character
  base-36 body and two ISO 7064 mod-97 check digits. The packed \<open>(id, sub)\<close> pair runs
  through a keyed Feistel permutation restricted to 93 bits by cycle walking. The
  process-global seed is an argument. The cycle-walking loops are
  \<open>partial_function (option)\<close>: \<open>None\<close> is a loop that never ends, and the lemmas show that
  it does not occur.
\<close>

section \<open>Bit packing\<close>

definition ID_BITS :: nat where "ID_BITS = 63"
definition SUB_BITS :: nat where "SUB_BITS = 30"
definition BODY_LEN :: nat where "BODY_LEN = 18"
definition PACK_MASK :: u128 where "PACK_MASK = push_bit (ID_BITS + SUB_BITS) 1 - 1"

text \<open>\<open>as u128\<close> of a signed integer sign-extends; \<open>as i64\<close> keeps the low 64 bits.\<close>

definition as_i64 :: "u128 \<Rightarrow> i64" where
  "as_i64 p = sint (ucast p :: u64)"

definition ac_pack :: "i64 \<Rightarrow> i64 \<Rightarrow> u128" where
  "ac_pack i s =
     (let i' = (word_of_int i :: u128) AND (push_bit ID_BITS 1 - 1);
          s' = (word_of_int s :: u128) AND (push_bit SUB_BITS 1 - 1)
      in push_bit SUB_BITS i' OR s')"

definition ac_unpack :: "u128 \<Rightarrow> i64 \<times> i64" where
  "ac_unpack p = (as_i64 (drop_bit SUB_BITS p), as_i64 (p AND (push_bit SUB_BITS 1 - 1)))"

section \<open>Base 36 and the checksum\<close>

definition D36 :: rstr where
  "D36 = lit ''0123456789ABCDEFGHIJKLMNOPQRSTUVWXYZ''"

text \<open>The loop that fills the body from the right; \<open>i\<close> positions are left.\<close>

fun base36_loop :: "nat \<Rightarrow> u128 \<Rightarrow> rstr \<Rightarrow> rstr" where
  "base36_loop 0 v out = out"
| "base36_loop (Suc i) v out =
     (if v > 0 then base36_loop i (v div 36) (out[i := D36 ! unat (v mod 36)]) else out)"

definition base36_body :: "u128 \<Rightarrow> rstr" where
  "base36_body v = base36_loop BODY_LEN v (replicate BODY_LEN 48)"

definition iban_expand :: "rstr \<Rightarrow> rstr" where
  "iban_expand s = concat (map (\<lambda>c. if is_ascii_digit c then [c] else show_nat (c - 65 + 10)) s)"

definition mod97 :: "rstr \<Rightarrow> nat" where
  "mod97 digits = foldl (\<lambda>r b. (r * 10 + (b - 48)) mod 97) 0 digits"

definition check_digits :: "rstr \<Rightarrow> nat" where
  "check_digits body = 98 - mod97 (iban_expand (body @ lit ''00''))"

section \<open>The permutation\<close>

definition DEFAULT_ID_SEED :: u64 where "DEFAULT_ID_SEED = 0x9E3779B97F4A7C15"
definition FEISTEL_ROUNDS :: nat where "FEISTEL_ROUNDS = 4"
definition FEISTEL_HALF_BITS :: nat where "FEISTEL_HALF_BITS = 47"
definition FEISTEL_HALF_MASK :: u128 where "FEISTEL_HALF_MASK = push_bit FEISTEL_HALF_BITS 1 - 1"

definition mix64 :: "u64 \<Rightarrow> u64" where
  "mix64 z0 =
     (let z1 = (z0 XOR drop_bit 30 z0) * 0xBF58476D1CE4E5B9;
          z2 = (z1 XOR drop_bit 27 z1) * 0x94D049BB133111EB
      in z2 XOR drop_bit 31 z2)"

definition round_key :: "u64 \<Rightarrow> nat \<Rightarrow> u64" where
  "round_key seed round = mix64 (seed XOR (word_of_nat round * 0x9E3779B97F4A7C15))"

definition round_mask :: "u64 \<Rightarrow> nat \<Rightarrow> u128 \<Rightarrow> u128" where
  "round_mask seed round half =
     (ucast (mix64 (ucast half XOR round_key seed round)) :: u128) AND FEISTEL_HALF_MASK"

definition feistel94 :: "u128 \<Rightarrow> u64 \<Rightarrow> u128" where
  "feistel94 block seed =
     (let l0 = drop_bit FEISTEL_HALF_BITS block AND FEISTEL_HALF_MASK; r0 = block AND FEISTEL_HALF_MASK;
          (l, r) = fold (\<lambda>round (l, r).
             let f = round_mask seed round r; nxt = (l XOR f) AND FEISTEL_HALF_MASK in (r, nxt))
             [0..<FEISTEL_ROUNDS] (l0, r0)
      in push_bit FEISTEL_HALF_BITS l OR r)"

definition feistel94_inv :: "u128 \<Rightarrow> u64 \<Rightarrow> u128" where
  "feistel94_inv block seed =
     (let l0 = drop_bit FEISTEL_HALF_BITS block AND FEISTEL_HALF_MASK; r0 = block AND FEISTEL_HALF_MASK;
          (l, r) = fold (\<lambda>round (l, r).
             let f = round_mask seed round l; prev = (r XOR f) AND FEISTEL_HALF_MASK in (prev, l))
             (rev [0..<FEISTEL_ROUNDS]) (l0, r0)
      in push_bit FEISTEL_HALF_BITS l OR r)"

text \<open>The loop of \<open>obfuscate\<close> and \<open>deobfuscate\<close>: apply the permutation until the value is in the domain.\<close>

partial_function (option) walk_loop :: "(u128 \<Rightarrow> u128) \<Rightarrow> u128 \<Rightarrow> u128 option" where
  "walk_loop f v = (let v' = f v in if v' \<le> PACK_MASK then Some v' else walk_loop f v')"

definition obfuscate :: "u128 \<Rightarrow> u64 \<Rightarrow> u128 option" where
  "obfuscate p seed = walk_loop (\<lambda>v. feistel94 v seed) p"

definition deobfuscate :: "u128 \<Rightarrow> u64 \<Rightarrow> u128 option" where
  "deobfuscate y seed = walk_loop (\<lambda>v. feistel94_inv v seed) y"

section \<open>Display and parsing\<close>

definition account_id_to_string :: "u64 \<Rightarrow> account_id \<Rightarrow> rstr option" where
  "account_id_to_string seed a =
     Option.bind (obfuscate (ac_pack (aid_id a) (aid_sub a)) seed) (\<lambda>o'.
       let body = base36_body o' in Some (body @ pad_left 2 (show_nat (check_digits body))))"

fun group_chars :: "nat \<Rightarrow> rstr \<Rightarrow> rstr" where
  "group_chars i [] = []"
| "group_chars i (c # cs) = (if i > 0 \<and> i mod 4 = 0 then [32, c] else [c]) @ group_chars (Suc i) cs"

definition to_grouped :: "u64 \<Rightarrow> account_id \<Rightarrow> rstr option" where
  "to_grouped seed a = map_option (group_chars 0) (account_id_to_string seed a)"

datatype parse_account_id_error = ParseAccountIdError

text \<open>
  \<open>&s[0..n]\<close> and \<open>&s[n..]\<close> split at byte offset \<open>n\<close>; the slice panics (\<open>None\<close>) when
  \<open>n\<close> is not a character boundary.
\<close>

fun split_at_byte :: "nat \<Rightarrow> rstr \<Rightarrow> (rstr \<times> rstr) option" where
  "split_at_byte n [] = (if n = 0 then Some ([], []) else None)"
| "split_at_byte n (c # cs) =
     (if n = 0 then Some ([], c # cs)
      else if n < utf8_len c then None
      else map_option (\<lambda>(a, b). (c # a, b)) (split_at_byte (n - utf8_len c) cs))"

text \<open>\<open>u128::from_str_radix(_, 36)\<close> of upper-case base-36 digits; \<open>None\<close> is an overflow.\<close>

definition digit36 :: "uchar \<Rightarrow> nat" where
  "digit36 c = (if is_ascii_digit c then c - 48 else c - 55)"

definition from_str_radix36 :: "rstr \<Rightarrow> u128 option" where
  "from_str_radix36 s =
     (let v = foldl (\<lambda>acc c. acc * 36 + digit36 c) 0 s
      in if v < 2 ^ 128 then Some (word_of_nat v) else None)"

definition clean_code :: "rstr \<Rightarrow> rstr" where
  "clean_code s = map to_ascii_uppercase (filter (\<lambda>c. \<not> is_whitespace c \<and> c \<noteq> 45) s)"

definition account_id_from_str :: "u64 \<Rightarrow> rstr \<Rightarrow> (parse_account_id_error fault + account_id) option" where
  "account_id_from_str seed s =
     (let cleaned = clean_code s; perr = Some (Inl (Fail ParseAccountIdError))
      in if byte_len cleaned \<noteq> BODY_LEN + 2 then perr
         else case split_at_byte BODY_LEN cleaned of
           None \<Rightarrow> Some (Inl Panic)
         | Some (body, check) \<Rightarrow>
             if \<not> list_all is_ascii_digit check
                \<or> \<not> list_all (\<lambda>b. is_ascii_digit b \<or> is_ascii_uppercase b) body then perr
             else if mod97 (iban_expand (body @ check)) \<noteq> 1 then perr
             else case from_str_radix36 body of
               None \<Rightarrow> perr
             | Some obf \<Rightarrow>
                 if obf > PACK_MASK then perr
                 else Option.bind (deobfuscate obf seed) (\<lambda>p.
                   let (i, sb) = ac_unpack p in Some (Inr (AccountId i sb))))"

section \<open>The Feistel network is a permutation of the 94-bit blocks\<close>

abbreviation half :: "u128 \<Rightarrow> bool" where
  "half x \<equiv> take_bit 47 x = x"

definition feistel_step :: "u64 \<Rightarrow> nat \<Rightarrow> u128 \<times> u128 \<Rightarrow> u128 \<times> u128" where
  "feistel_step seed = (\<lambda>k (l, r). (r, take_bit 47 (l XOR round_mask seed k r)))"

definition feistel_back :: "u64 \<Rightarrow> nat \<Rightarrow> u128 \<times> u128 \<Rightarrow> u128 \<times> u128" where
  "feistel_back seed = (\<lambda>k (l, r). (take_bit 47 (r XOR round_mask seed k l), l))"

definition halves :: "u128 \<Rightarrow> u128 \<times> u128" where
  "halves b = (take_bit 47 (drop_bit 47 b), take_bit 47 b)"

definition join :: "u128 \<times> u128 \<Rightarrow> u128" where
  "join = (\<lambda>(l, r). push_bit 47 l OR r)"

definition block94 :: "u128 set" where
  "block94 = {b. take_bit 94 b = b}"

lemma and_half_mask: "x AND FEISTEL_HALF_MASK = take_bit 47 x"
  by (simp add: take_bit_eq_mask FEISTEL_HALF_MASK_def FEISTEL_HALF_BITS_def mask_eq_exp_minus_1)

lemma feistel94_eq: "feistel94 b seed = join (fold (feistel_step seed) [0..<4] (halves b))"
  by (simp add: feistel94_def feistel_step_def halves_def join_def Let_def and_half_mask
      FEISTEL_HALF_BITS_def FEISTEL_ROUNDS_def split_beta del: upt_Suc)

lemma feistel94_inv_eq: "feistel94_inv b seed = join (fold (feistel_back seed) (rev [0..<4]) (halves b))"
  by (simp add: feistel94_inv_def feistel_back_def halves_def join_def Let_def and_half_mask
      FEISTEL_HALF_BITS_def FEISTEL_ROUNDS_def split_beta del: upt_Suc)

lemma half_round_mask: "half (round_mask seed k x)"
  by (simp add: round_mask_def and_half_mask)

lemma feistel_back_step:
  assumes "half l" "half r"
  shows "feistel_back seed k (feistel_step seed k (l, r)) = (l, r)"
    and "feistel_step seed k (feistel_back seed k (l, r)) = (l, r)"
  using assms half_round_mask[of seed k]
  by (simp_all add: feistel_step_def feistel_back_def take_bit_xor xor.assoc)

definition halves_ok :: "u128 \<times> u128 \<Rightarrow> bool" where
  "halves_ok st \<longleftrightarrow> half (fst st) \<and> half (snd st)"

lemma halves_ok_step:
  "halves_ok st \<Longrightarrow> halves_ok (feistel_step seed k st)" "halves_ok st \<Longrightarrow> halves_ok (feistel_back seed k st)"
  by (auto simp: halves_ok_def feistel_step_def feistel_back_def split_beta)

lemma fold_undo:
  assumes "\<And>k st. P st \<Longrightarrow> P (f k st)" "\<And>k st. P st \<Longrightarrow> g k (f k st) = st" "P st"
  shows "fold g (rev ks) (fold f ks st) = st \<and> P (fold f ks st)"
  using assms(3)
proof (induction ks arbitrary: st)
  case (Cons k ks)
  then show ?case using assms(1,2) by simp
qed simp

lemma feistel_rounds:
  assumes "halves_ok st"
  shows "fold (feistel_back seed) (rev [0..<4]) (fold (feistel_step seed) [0..<4] st) = st"
    and "fold (feistel_step seed) [0..<4] (fold (feistel_back seed) (rev [0..<4]) st) = st"
    and "halves_ok (fold (feistel_step seed) [0..<4] st)"
    and "halves_ok (fold (feistel_back seed) (rev [0..<4]) st)"
proof -
  have inv: "halves_ok st \<Longrightarrow> feistel_back seed k (feistel_step seed k st) = st"
    "halves_ok st \<Longrightarrow> feistel_step seed k (feistel_back seed k st) = st" for k st
    using feistel_back_step[of "fst st" "snd st"] by (simp_all add: halves_ok_def)
  show "fold (feistel_back seed) (rev [0..<4]) (fold (feistel_step seed) [0..<4] st) = st"
    "halves_ok (fold (feistel_step seed) [0..<4] st)"
    using fold_undo[of halves_ok "feistel_step seed" "feistel_back seed" st "[0..<4]"] halves_ok_step inv assms
    by blast+
  show "fold (feistel_step seed) [0..<4] (fold (feistel_back seed) (rev [0..<4]) st) = st"
    "halves_ok (fold (feistel_back seed) (rev [0..<4]) st)"
    using fold_undo[of halves_ok "feistel_back seed" "feistel_step seed" st "rev [0..<4]"] halves_ok_step inv assms
    unfolding rev_rev_ident by blast+
qed

lemma halves_ok_halves [simp]: "halves_ok (halves b)"
  by (simp add: halves_ok_def halves_def)

lemma join_halves: "b \<in> block94 \<Longrightarrow> join (halves b) = b"
proof -
  assume "b \<in> block94"
  then have b: "take_bit 94 b = b" by (simp add: block94_def)
  have "push_bit 47 (take_bit 47 (drop_bit 47 b)) OR take_bit 47 b = take_bit 94 b"
    by (rule bit_word_eqI) (auto simp: bit_simps)
  with b show ?thesis by (simp add: join_def halves_def)
qed

lemma halves_join:
  assumes "halves_ok st"
  shows "halves (join st) = st" and "join st \<in> block94"
proof -
  obtain l r where st: "st = (l, r)" "half l" "half r" using assms by (cases st) (simp add: halves_ok_def)
  have "bit l n \<Longrightarrow> n < 47" "bit r n \<Longrightarrow> n < 47" for n
    using st(2,3) by (metis bit_take_bit_iff)+
  then have "take_bit 47 (drop_bit 47 (push_bit 47 l OR r)) = l" "take_bit 47 (push_bit 47 l OR r) = r"
    "take_bit 94 (push_bit 47 l OR r) = push_bit 47 l OR r"
    by (intro bit_word_eqI; fastforce simp: bit_simps)+
  then show "halves (join st) = st" "join st \<in> block94"
    by (simp_all add: st join_def halves_def block94_def)
qed

lemma feistel94_closed: "feistel94 b seed \<in> block94" "feistel94_inv b seed \<in> block94"
  by (simp_all only: feistel94_eq feistel94_inv_eq halves_join(2) feistel_rounds halves_ok_halves)

lemma feistel94_inverse:
  assumes "b \<in> block94"
  shows "feistel94_inv (feistel94 b seed) seed = b" and "feistel94 (feistel94_inv b seed) seed = b"
  using assms by (simp_all only: feistel94_eq feistel94_inv_eq halves_join(1) feistel_rounds halves_ok_halves join_halves)

section \<open>Cycle walking\<close>

text \<open>
  What cycle walking needs of a permutation and its inverse: both keep a set of blocks,
  undo each other on it, and every value of the domain is a block.
\<close>

locale cycle_walk =
  fixes enc dec :: "u128 \<Rightarrow> u128" and blocks :: "u128 set"
  assumes enc_closed: "b \<in> blocks \<Longrightarrow> enc b \<in> blocks"
    and dec_enc: "b \<in> blocks \<Longrightarrow> dec (enc b) = b"
    and in_blocks: "b \<le> PACK_MASK \<Longrightarrow> b \<in> blocks"
begin

lemma iterate_closed: "b \<in> blocks \<Longrightarrow> (enc ^^ n) b \<in> blocks"
  by (induction n) (simp_all add: enc_closed)

lemma iterate_undo: "b \<in> blocks \<Longrightarrow> i \<le> n \<Longrightarrow> (dec ^^ i) ((enc ^^ n) b) = (enc ^^ (n - i)) b"
proof (induction i)
  case (Suc i)
  then have "n - i = Suc (n - Suc i)" by simp
  with Suc show ?case by (simp add: dec_enc iterate_closed)
qed simp

text \<open>An orbit returns to its start, because there are only finitely many blocks.\<close>

lemma returns:
  assumes "b \<in> blocks"
  shows "\<exists>n > 0. (enc ^^ n) b = b"
proof -
  have "\<not> inj (\<lambda>n. (enc ^^ n) b)"
    using finite_imageD[OF finite, of "\<lambda>n. (enc ^^ n) b" UNIV] by auto
  then obtain i j where "i < j" "(enc ^^ i) b = (enc ^^ j) b"
    unfolding inj_def by (metis linorder_neqE_nat)
  then have "(enc ^^ (j - i)) b = b"
    using iterate_undo[OF assms, of i i] iterate_undo[OF assms, of i j] by simp
  with \<open>i < j\<close> show ?thesis by (intro exI[of _ "j - i"]) simp
qed

lemma walk_ends:
  "0 < n \<Longrightarrow> (f ^^ n) v \<le> PACK_MASK \<Longrightarrow> (\<And>i. 0 < i \<Longrightarrow> i < n \<Longrightarrow> \<not> (f ^^ i) v \<le> PACK_MASK) \<Longrightarrow>
     walk_loop f v = Some ((f ^^ n) v)"
proof (induction n arbitrary: v)
  case (Suc n)
  show ?case
  proof (cases n)
    case 0
    then show ?thesis using Suc.prems by (subst walk_loop.simps) simp
  next
    case (Suc m)
    have "\<not> f v \<le> PACK_MASK" using Suc.prems(3)[of 1] Suc by simp
    moreover have "walk_loop f (f v) = Some ((f ^^ n) (f v))"
    proof (rule Suc.IH)
      show "0 < n" using Suc by simp
      show "(f ^^ n) (f v) \<le> PACK_MASK" using Suc.prems(2) by (simp add: funpow_swap1)
      show "\<not> (f ^^ i) (f v) \<le> PACK_MASK" if "0 < i" "i < n" for i
        using Suc.prems(3)[of "Suc i"] that by (simp add: funpow_swap1)
    qed
    ultimately show ?thesis by (subst walk_loop.simps) (simp add: funpow_swap1)
  qed
qed simp

text \<open>Both loops end, stay in the domain, and the second undoes the first.\<close>

lemma walk_roundtrip:
  assumes "p \<le> PACK_MASK"
  shows "\<exists>y. walk_loop enc p = Some y \<and> y \<le> PACK_MASK \<and> walk_loop dec y = Some p"
proof -
  let ?P = "\<lambda>n. 0 < n \<and> (enc ^^ n) p \<le> PACK_MASK"
  define n where "n = (LEAST n. ?P n)"
  have p: "p \<in> blocks" by (rule in_blocks[OF assms])
  then have "\<exists>n. ?P n" using returns assms by metis
  then have n: "?P n" unfolding n_def by (rule LeastI_ex)
  have least: "\<not> (enc ^^ i) p \<le> PACK_MASK" if "0 < i" "i < n" for i
    using not_less_Least[of i ?P] that by (auto simp: n_def)
  have "walk_loop enc p = Some ((enc ^^ n) p)" by (rule walk_ends) (use n least in auto)
  moreover have "walk_loop dec ((enc ^^ n) p) = Some ((dec ^^ n) ((enc ^^ n) p))"
  proof (rule walk_ends)
    show "(dec ^^ n) ((enc ^^ n) p) \<le> PACK_MASK" using iterate_undo[OF p, of n n] assms by simp
    show "\<not> (dec ^^ i) ((enc ^^ n) p) \<le> PACK_MASK" if "0 < i" "i < n" for i
      using iterate_undo[OF p, of i n] least[of "n - i"] that by simp
  qed (use n in simp)
  ultimately show ?thesis using n iterate_undo[OF p, of n n] by simp
qed

end

lemma pack_mask_eq: "PACK_MASK = mask 93"
  by (simp add: PACK_MASK_def ID_BITS_def SUB_BITS_def mask_eq_exp_minus_1)

lemma pack_domain: "b \<le> PACK_MASK \<longleftrightarrow> take_bit 93 b = b"
proof -
  have "b \<le> mask 93 \<longleftrightarrow> uint b < 2 ^ 93"
    unfolding word_le_def by (simp add: mask_eq_exp_minus_1) linarith
  also have "\<dots> \<longleftrightarrow> take_bit 93 (uint b) = uint b" by (simp add: take_bit_int_eq_self_iff)
  finally show ?thesis by (simp only: pack_mask_eq word_uint_eq_iff unsigned_take_bit_eq)
qed

lemma pack_in_block94: "b \<le> PACK_MASK \<Longrightarrow> b \<in> block94"
proof -
  assume "b \<le> PACK_MASK"
  then have b: "take_bit 93 b = b" by (simp add: pack_domain)
  have "take_bit 94 (take_bit 93 b) = take_bit 93 b" by simp
  then show ?thesis unfolding b block94_def by simp
qed

interpretation feistel: cycle_walk "\<lambda>v. feistel94 v seed" "\<lambda>v. feistel94_inv v seed" block94 for seed
  by unfold_locales (simp_all add: feistel94_closed feistel94_inverse pack_in_block94)

interpretation unfeistel: cycle_walk "\<lambda>v. feistel94_inv v seed" "\<lambda>v. feistel94 v seed" block94 for seed
  by unfold_locales (simp_all add: feistel94_closed feistel94_inverse pack_in_block94)

section \<open>Packing and base 36\<close>

lemma ac_pack_value:
  shows "ac_pack i sb \<le> PACK_MASK" and "ac_unpack (ac_pack i sb) = (i mod 2 ^ 63, sb mod 2 ^ 30)"
proof -
  have m: "(push_bit n 1 - 1 :: u128) = mask n" for n by (simp add: mask_eq_exp_minus_1)
  let ?i = "take_bit 63 (word_of_int i :: u128)" and ?s = "take_bit 30 (word_of_int sb :: u128)"
  have pk: "ac_pack i sb = push_bit 30 ?i OR ?s"
    unfolding ac_pack_def ID_BITS_def SUB_BITS_def m take_bit_eq_mask Let_def ..
  have ui: "uint ?i = i mod 2 ^ 63" and us: "uint ?s = sb mod 2 ^ 30"
    by (simp_all add: unsigned_take_bit_eq unsigned_of_int flip: take_bit_eq_mod) (simp_all add: take_bit_eq_mod)
  have "take_bit 93 (push_bit 30 ?i OR ?s) = push_bit 30 ?i OR ?s"
    by (rule bit_word_eqI) (auto simp: bit_simps)
  then show "ac_pack i sb \<le> PACK_MASK" unfolding pack_domain pk .
  have hi: "drop_bit 30 (push_bit 30 ?i OR ?s) = ?i" and lo: "take_bit 30 (push_bit 30 ?i OR ?s) = ?s"
    by (rule bit_word_eqI; auto simp: bit_simps)+
  have as: "as_i64 w = uint w" if "uint w < 2 ^ 63" for w :: u128
  proof -
    have "take_bit 64 (uint w) = uint w" "signed_take_bit 63 (uint w) = uint w"
      using that by (simp_all add: take_bit_int_eq_self_iff signed_take_bit_int_eq_self_iff order_trans[OF _ uint_nonnegative])
    then show ?thesis by (simp add: as_i64_def sint_uint unsigned_ucast_eq)
  qed
  have "i mod 2 ^ 63 < 2 ^ 63" "sb mod 2 ^ 30 < 2 ^ 63"
    using pos_mod_bound[of "2 ^ 63" i] pos_mod_bound[of "2 ^ 30" sb] by simp_all
  then show "ac_unpack (ac_pack i sb) = (i mod 2 ^ 63, sb mod 2 ^ 30)"
    unfolding ac_unpack_def pk SUB_BITS_def m take_bit_eq_mask[symmetric] hi lo
    using as[of ?i] as[of ?s] by (simp add: ui us)
qed

fun d36 :: "nat \<Rightarrow> nat \<Rightarrow> rstr" where
  "d36 0 v = []"
| "d36 (Suc n) v = d36 n (v div 36) @ [D36 ! (v mod 36)]"

lemma D36_props:
  assumes "k < 36"
  shows "digit36 (D36 ! k) = k" "is_ascii_digit (D36 ! k) \<or> is_ascii_uppercase (D36 ! k)"
proof -
  have "list_all (\<lambda>k. digit36 (D36 ! k) = k \<and> (is_ascii_digit (D36 ! k) \<or> is_ascii_uppercase (D36 ! k))) [0..<36]"
    by code_simp
  with assms show "digit36 (D36 ! k) = k" "is_ascii_digit (D36 ! k) \<or> is_ascii_uppercase (D36 ! k)"
    by (simp_all add: list_all_iff)
qed

lemma D36_0: "D36 ! 0 = 48"
  by (simp add: D36_def lit_def)

lemma length_d36 [simp]: "length (d36 n v) = n"
  by (induction n arbitrary: v) auto

lemma d36_zero: "d36 n 0 = replicate n 48"
  by (induction n) (simp_all add: D36_0 replicate_append_same)

lemma base36_loop_d36:
  "base36_loop n v (replicate n 48 @ rest) = d36 n (unat v) @ rest"
proof (induction n arbitrary: v rest)
  case (Suc n)
  show ?case
  proof (cases "v > 0")
    case True
    have "(replicate (Suc n) 48 @ rest)[n := c] = replicate n 48 @ c # rest" for c :: uchar
      using list_update_length[of "replicate n (48 :: uchar)" 48 rest c] by (simp add: replicate_app_Cons_same)
    with True Suc[of "v div 36"] show ?thesis by (simp add: unat_div unat_mod del: replicate_Suc)
  next
    case False
    then have "v = 0" by (simp add: word_gt_0)
    then show ?thesis using d36_zero[of "Suc n"] by simp
  qed
qed simp

lemma base36_body_d36: "base36_body v = d36 18 (unat v)"
  using base36_loop_d36[of 18 v "[]"] by (simp add: base36_body_def BODY_LEN_def)

lemma d36_value: "foldl (\<lambda>acc c. acc * 36 + digit36 c) 0 (d36 n v) = v mod 36 ^ n"
proof (induction n arbitrary: v)
  case (Suc n)
  have "(v div 36) mod 36 ^ n * 36 + v mod 36 = v mod (36 * 36 ^ n)"
    by (simp add: mod_mult2_eq mult.commute)
  with Suc D36_props(1)[of "v mod 36"] show ?case by simp
qed simp

lemma set_d36: "c \<in> set (d36 n v) \<Longrightarrow> is_ascii_digit c \<or> is_ascii_uppercase c"
proof (induction n arbitrary: v)
  case (Suc n)
  then show ?case using D36_props(2)[of "v mod 36"] by auto
qed simp

lemma radix36_roundtrip:
  assumes "v \<le> PACK_MASK"
  shows "from_str_radix36 (base36_body v) = Some v"
proof -
  have "unat v \<le> unat (mask 93 :: u128)" using assms by (simp add: pack_mask_eq word_le_nat_alt)
  then have le: "unat v < 2 ^ 93" by (simp add: mask_eq_exp_minus_1)
  have "(2 :: nat) ^ 93 < 36 ^ 18" "(2 :: nat) ^ 93 < 2 ^ 128" by simp_all
  then have "unat v mod 36 ^ 18 = unat v" "unat v < 2 ^ 128" using le by (simp_all only: mod_less less_trans)
  moreover have "word_of_nat (unat v) = v" by simp
  ultimately show ?thesis by (simp only: from_str_radix36_def base36_body_d36 d36_value Let_def if_True)
qed

section \<open>The checksum\<close>

lemma mod97_value: "mod97 ds = digits_val ds mod 97"
proof (induction ds rule: rev_induct)
  case (snoc c ds)
  have "mod97 (ds @ [c]) = (mod97 ds * 10 + (c - 48)) mod 97" by (simp add: mod97_def)
  also have "\<dots> = (digits_val ds * 10 + (c - 48)) mod 97" unfolding snoc by (metis mod_add_left_eq mod_mult_left_eq)
  finally show ?case by simp
qed (simp add: mod97_def)

lemma iban_expand_append: "iban_expand (s @ t) = iban_expand s @ iban_expand t"
  by (simp add: iban_expand_def)

lemma iban_expand_digits: "list_all is_ascii_digit s \<Longrightarrow> iban_expand s = s"
  by (induction s) (simp_all add: iban_expand_def)

lemma two_digits:
  assumes "n < 100"
  shows "length (pad_left 2 (show_nat n)) = 2" "list_all is_ascii_digit (pad_left 2 (show_nat n))"
  using assms length_show_nat[of n 2] by (simp add: pad_left_def) simp

text \<open>The appended check digits make the whole code congruent to one, whatever the body.\<close>

lemma mod_98_97: "98 mod 97 = (1 :: nat)"
  by simp

lemma checksum_valid:
  "mod97 (iban_expand (body @ pad_left 2 (show_nat (check_digits body)))) = 1"
proof -
  let ?v = "digits_val (iban_expand body)" and ?c = "check_digits body"
  have "iban_expand (lit ''00'') = lit ''00''"
    by (rule iban_expand_digits) (simp add: lit_def is_ascii_digit_def)
  moreover have "digits_val (lit ''00'') = 0" "length (lit ''00'') = 2" by (simp_all add: lit_def digits_val_def)
  ultimately have c: "?c = 98 - ?v * 100 mod 97"
    by (simp add: check_digits_def mod97_value iban_expand_append digits_val_append)
  then have "?c < 100" by simp
  then have "mod97 (iban_expand (body @ pad_left 2 (show_nat ?c))) = (?v * 100 + ?c) mod 97"
    by (simp add: mod97_value iban_expand_append iban_expand_digits two_digits digits_val_append)
  also have "\<dots> = 1"
  proof -
    have "?v * 100 mod 97 < 97" by simp
    then have "?v * 100 mod 97 + ?c = 98" using c by linarith
    then show ?thesis by (metis mod_add_left_eq mod_98_97)
  qed
  finally show ?thesis .
qed

section \<open>Parsing a printed code\<close>

lemma alnum_plain:
  assumes "is_ascii_digit c \<or> is_ascii_uppercase c"
  shows "c < 128" "\<not> is_whitespace c" "c \<noteq> 45" "to_ascii_uppercase c = c"
  using assms by (auto simp: is_ascii_digit_def is_ascii_uppercase_def is_whitespace_def to_ascii_uppercase_def)

lemma clean_code_alnum: "(\<And>c. c \<in> set s \<Longrightarrow> is_ascii_digit c \<or> is_ascii_uppercase c) \<Longrightarrow> clean_code s = s"
  by (induction s) (simp_all add: clean_code_def alnum_plain)

lemma clean_code_group: "clean_code (group_chars i s) = clean_code s"
  by (induction i s rule: group_chars.induct) (auto simp: clean_code_def is_whitespace_def)

lemma split_at_byte_ascii:
  "(\<And>c. c \<in> set s \<Longrightarrow> c < 128) \<Longrightarrow> split_at_byte (length s) (s @ t) = Some (s, t)"
proof (induction s)
  case Nil
  then show ?case by (cases t) simp_all
qed (simp add: utf8_len_def)

definition code_chars :: "rstr \<Rightarrow> bool" where
  "code_chars s \<longleftrightarrow> (\<forall>c \<in> set s. is_ascii_digit c \<or> is_ascii_uppercase c)"

lemma code_string:
  assumes "obfuscate (ac_pack (aid_id a) (aid_sub a)) seed = Some v"
  shows "account_id_to_string seed a = Some (base36_body v @ pad_left 2 (show_nat (check_digits (base36_body v))))"
    and "code_chars (base36_body v @ pad_left 2 (show_nat (check_digits (base36_body v))))"
    and "length (base36_body v) = 18" "length (pad_left 2 (show_nat (check_digits (base36_body v)))) = 2"
    and "list_all is_ascii_digit (pad_left 2 (show_nat (check_digits (base36_body v))))"
proof -
  have c: "check_digits (base36_body v) < 100" by (simp add: check_digits_def)
  show "account_id_to_string seed a = Some (base36_body v @ pad_left 2 (show_nat (check_digits (base36_body v))))"
    using assms by (simp add: account_id_to_string_def Let_def)
  show "length (base36_body v) = 18" by (simp add: base36_body_d36)
  show "length (pad_left 2 (show_nat (check_digits (base36_body v)))) = 2" by (rule two_digits(1)[OF c])
  show d: "list_all is_ascii_digit (pad_left 2 (show_nat (check_digits (base36_body v))))" by (rule two_digits(2)[OF c])
  then show "code_chars (base36_body v @ pad_left 2 (show_nat (check_digits (base36_body v))))"
    by (auto simp: code_chars_def base36_body_d36 list_all_iff dest: set_d36)
qed

lemma parse_code:
  assumes dom: "v \<le> PACK_MASK" and bwd: "deobfuscate v seed = Some p" "ac_unpack p = (i, sb)"
    and clean: "clean_code s = base36_body v @ pad_left 2 (show_nat (check_digits (base36_body v)))"
  shows "account_id_from_str seed s = Some (Inr (AccountId i sb))"
proof -
  let ?b = "base36_body v" and ?c = "pad_left 2 (show_nat (check_digits (base36_body v)))"
  have chars: "code_chars (?b @ ?c)" and len: "length ?b = 18" "length ?c = 2" and dig: "list_all is_ascii_digit ?c"
    using two_digits[of "check_digits ?b"]
    by (auto simp: code_chars_def base36_body_d36 list_all_iff check_digits_def dest: set_d36)
  have ascii: "c < 128" if "c \<in> set (?b @ ?c)" for c
    using that chars alnum_plain(1) unfolding code_chars_def by blast
  have bl: "byte_len (?b @ ?c) = BODY_LEN + 2"
    using byte_len_ascii[of "?b @ ?c"] ascii by (simp add: len BODY_LEN_def)
  have sp: "split_at_byte BODY_LEN (?b @ ?c) = Some (?b, ?c)"
    using split_at_byte_ascii[of ?b ?c] ascii len(1) unfolding BODY_LEN_def by simp
  have body: "list_all (\<lambda>b. is_ascii_digit b \<or> is_ascii_uppercase b) ?b"
    using chars by (simp add: code_chars_def list_all_iff)
  show ?thesis
    unfolding account_id_from_str_def Let_def clean bl sp
    using dig body checksum_valid[of ?b] radix36_roundtrip[OF dom] dom bwd by simp
qed

text \<open>Printing ends for every id, also one out of range, whose high bits are cut off.\<close>

lemma ac_pack_domain: "ac_pack i s \<le> PACK_MASK"
proof -
  have m: "(push_bit n 1 - 1 :: u128) = mask n" for n by (simp add: mask_eq_exp_minus_1)
  have "take_bit 93 (push_bit 30 (take_bit 63 a) OR take_bit 30 b) = push_bit 30 (take_bit 63 a) OR take_bit 30 b" for a b :: u128
    by (rule bit_word_eqI) (auto simp: bit_simps)
  then show ?thesis
    unfolding pack_domain ac_pack_def ID_BITS_def SUB_BITS_def m take_bit_eq_mask[symmetric] Let_def .
qed

lemma code_printed:
  obtains s where "account_id_to_string seed a = Some s" "code_chars s" "length s = 20"
proof -
  obtain v where "obfuscate (ac_pack (aid_id a) (aid_sub a)) seed = Some v"
    using feistel.walk_roundtrip[OF ac_pack_domain] unfolding obfuscate_def by blast
  note cs = code_string[OF this]
  show ?thesis by (rule that[OF cs(1,2)]) (simp add: cs(3,4))
qed

text \<open>What a code can carry of an id: 63 bits of the account and 30 of the subaccount.\<close>

definition encodable_part :: "account_id \<Rightarrow> account_id" where
  "encodable_part a = AccountId (aid_id a mod 2 ^ 63) (aid_sub a mod 2 ^ 30)"

lemma encodable_part_same [simp]:
  "0 \<le> aid_id a \<Longrightarrow> aid_id a < 2 ^ 63 \<Longrightarrow> 0 \<le> aid_sub a \<Longrightarrow> aid_sub a < 2 ^ 30 \<Longrightarrow> encodable_part a = a"
  by (cases a) (simp add: encodable_part_def)

lemma code_reads:
  "\<exists>s. account_id_to_string seed a = Some s \<and> length s = 20 \<and>
     account_id_from_str seed s = Some (Inr (encodable_part a)) \<and>
     account_id_from_str seed (group_chars 0 s) = Some (Inr (encodable_part a))"
proof -
  obtain v where v: "obfuscate (ac_pack (aid_id a) (aid_sub a)) seed = Some v" "v \<le> PACK_MASK"
    "deobfuscate v seed = Some (ac_pack (aid_id a) (aid_sub a))"
    using feistel.walk_roundtrip[OF ac_pack_value(1)] unfolding obfuscate_def deobfuscate_def by blast
  note cs = code_string[OF v(1)]
  let ?s = "base36_body v @ pad_left 2 (show_nat (check_digits (base36_body v)))"
  have "clean_code ?s = ?s" using cs(2) clean_code_alnum unfolding code_chars_def by blast
  then have "account_id_from_str seed ?s = Some (Inr (encodable_part a))" "account_id_from_str seed (group_chars 0 ?s) = Some (Inr (encodable_part a))"
    using parse_code[OF v(2,3) ac_pack_value(2)] clean_code_group by (simp_all add: encodable_part_def)
  then show ?thesis using cs(1,3,4) by simp
qed

lemma code_roundtrip:
  assumes "0 \<le> aid_id a" "aid_id a < 2 ^ 63" "0 \<le> aid_sub a" "aid_sub a < 2 ^ 30"
  shows "\<exists>s. account_id_to_string seed a = Some s \<and> length s = 20 \<and>
     account_id_from_str seed s = Some (Inr a) \<and> account_id_from_str seed (group_chars 0 s) = Some (Inr a)"
  using code_reads[of seed a] assms by simp

text \<open>
  C24: every account id has a code of twenty characters, for every seed, and parsing the code,
  plain or grouped, gives back the 63 low bits of the account and the 30 low bits of the
  subaccount: the id itself when it is in that range (\<open>encodable_part_same\<close>), and otherwise the
  id it is truncated to. The cycle walks of the permutation end.
\<close>

theorem account_code_roundtrip:
  "\<exists>s. account_id_to_string seed a = Some s \<and> length s = 20 \<and>
     account_id_from_str seed s = Some (Inr (encodable_part a)) \<and>
     account_id_from_str seed (group_chars 0 s) = Some (Inr (encodable_part a))"
  by (rule code_reads)

theorem account_code_roundtrip_witness:
  "\<exists>s. account_id_to_string 42 (AccountId 1234567890123 7) = Some s \<and> length s = 20 \<and>
     account_id_from_str 42 s = Some (Inr (AccountId 1234567890123 7)) \<and>
     account_id_from_str 42 (group_chars 0 s) = Some (Inr (AccountId 1234567890123 7))"
  using account_code_roundtrip[of 42 "AccountId 1234567890123 7"] by simp

lemma code_parse_ends: "\<exists>r. account_id_from_str seed s = Some r"
proof -
  have "\<exists>p. deobfuscate v seed = Some p" if "v \<le> PACK_MASK" for v
    using unfeistel.walk_roundtrip[OF that, of seed] unfolding deobfuscate_def by blast
  then show ?thesis
    by (fastforce simp: account_id_from_str_def Let_def not_less split: option.splits prod.splits)
qed

text \<open>
  C25: parsing a code ends on every input.
\<close>

theorem account_id_from_str_total: "\<exists>r. account_id_from_str seed s = Some r"
  by (rule code_parse_ends)

text \<open>
  A string whose cleaned form has twenty bytes but no character boundary after the
  eighteenth makes the parser panic instead of reporting an error: seventeen zeros
  and a euro sign.
\<close>

theorem account_id_from_str_panics:
  "account_id_from_str seed (lit ''00000000000000000'' @ [8364]) = Some (Inl Panic)"
  by (simp add: account_id_from_str_def clean_code_def is_whitespace_def to_ascii_uppercase_def byte_len_def utf8_len_def
      BODY_LEN_def lit_def)

end
