(* ===== verification/Inflight.thy ===== *)
theory Inflight
  imports Inflight_Projection Ledger_Steps Account_Code
begin

text \<open>
  \<^verbatim>\<open>kuatia/src/inflight.rs\<close>: authorize a trade into holding subaccounts, then confirm or
  void it. Every method is a composition of ledger calls; the CBOR codec is a parameter.
\<close>

section \<open>Helpers\<close>

text \<open>\<open>Err(e) => ...\<close>: handle an error value; a panic passes.\<close>

definition lcatch :: "'a action \<Rightarrow> (ledger_error \<Rightarrow> ledger_error) \<Rightarrow> 'a action" where
  "lcatch m h w = (case m w of (Inl (Fail e), w') \<Rightarrow> (Inl (Fail (h e)), w') | (r, w') \<Rightarrow> (r, w'))"

definition lift_err :: "ledger_error + 'a \<Rightarrow> 'a action" where
  "lift_err r = lift (map_err Fail r)"

definition inflight_subaccount :: "ledger_env \<Rightarrow> codec \<Rightarrow> transfer \<Rightarrow> i64" where
  "inflight_subaccount env cd t =
     (let h = double_sha256 (x_sha (le_ext env)) (enc_transfer cd t);
          first = (word_of_nat (be_val (take 8 h)) :: u64);
          msk = push_bit SUB_BITS 1 - 1
      in sint (first AND msk))"

datatype settle_role = RoleConfirm | RoleVoid

definition settle ::
  "ledger_env \<Rightarrow> codec \<Rightarrow> book_id \<Rightarrow> envelope_id \<Rightarrow> account_id \<Rightarrow> account_id \<Rightarrow> account_id \<Rightarrow> asset_id \<Rightarrow> cent \<Rightarrow> settle_role
   \<Rightarrow> receipt action" where
  "settle env cd bk inflight hold target dest asset amount role =
     (let meta = (case role of RoleConfirm \<Rightarrow> MetaConfirm inflight dest | RoleVoid \<Rightarrow> MetaVoid inflight dest)
      in lbind (lift_err (meta_map cd meta)) (\<lambda>md.
         ledger_commit env (transfer_builder_metadata md
           (pay_ref hold target asset amount (transfer_builder_book bk transfer_builder_new)))))"

definition close_if_drained :: "ledger_env \<Rightarrow> account_id \<Rightarrow> unit action" where
  "close_if_drained env hold =
     lbind (has_live_postings env hold) (\<lambda>live.
     if live then lreturn ()
     else lbind (ledger_get_account hold) (\<lambda>a. if is_closed a then lreturn () else close env hold))"

definition load_inflight :: "codec \<Rightarrow> envelope_id \<Rightarrow> (envelope_record \<times> inflight_leg list) action" where
  "load_inflight cd inflight =
     lbind (lget (get_transfer inflight)) (\<lambda>found. case found of
       None \<Rightarrow> lfail (InflightNotFound inflight)
     | Some r \<Rightarrow> (case read_meta cd (e_metadata (er_envelope r)) of
         Some (MetaAuthorize legs) \<Rightarrow> lreturn (r, legs)
       | _ \<Rightarrow> lfail (NotInflightTransaction inflight)))"

section \<open>Authorize\<close>

definition dest_holds :: "i64 \<Rightarrow> movement list \<Rightarrow> ledger_error + (account_id \<times> account_id) list" where
  "dest_holds sub ms = try_fold (\<lambda>m mv.
     if m_from mv = m_to mv then Inl (InflightSelfMovement (m_from mv))
     else Inr (if contains_key m (m_to mv) then m else AList.update (m_to mv) (with_sub (aid_id (m_to mv)) sub) m)) [] ms"

definition create_hold :: "ledger_env \<Rightarrow> codec \<Rightarrow> book_id \<Rightarrow> account_id \<times> account_id \<Rightarrow> unit action" where
  "create_hold env cd bk = (\<lambda>(dest, hold).
     lbind (lift_err (meta_map cd (MetaHold dest))) (\<lambda>md.
     let acct = (account_new_ref hold)\<lparr>acc_flags := flags_insert INFLIGHT DEBIT_MUST_NOT_EXCEED_CREDIT,
                   acc_book := bk, acc_metadata := md\<rparr>
     in lcatch (ledger_create_account env acct)
          (\<lambda>e. case e of AccountAlreadyExists _ \<Rightarrow> InflightAlreadyOpen hold | _ \<Rightarrow> e)))"

definition legs_of :: "(account_id \<times> account_id) list \<Rightarrow> movement list \<Rightarrow> ledger_error fault + inflight_leg list" where
  "legs_of holds ms = try_map (\<lambda>m. rbind (ok_or Panic (map_of holds (m_to m))) (\<lambda>hold.
     Inr \<lparr>il_destination = m_to m, il_hold = hold, il_funder = m_from m, il_asset = m_asset m, il_amount = m_amount m\<rparr>)) ms"

definition authorize :: "ledger_env \<Rightarrow> codec \<Rightarrow> transfer \<Rightarrow> authorization action" where
  "authorize env cd t =
     (let sub = inflight_subaccount env cd t in
      lbind (lift_err (dest_holds sub (t_movements t))) (\<lambda>holds.
      lbind (lfold (\<lambda>_ dh. create_hold env cd (t_book t) dh) () (sort_key fst holds)) (\<lambda>_.
      lbind (lift (legs_of holds (t_movements t))) (\<lambda>legs.
      lbind (lift_err (encode_meta cd (MetaAuthorize legs))) (\<lambda>bs.
      let b = foldl (\<lambda>b l. movement_ref (il_funder l) (il_hold l) (il_asset l) (il_amount l) b)
                (transfer_builder_book (t_book t) transfer_builder_new) legs;
          rewritten = transfer_builder_metadata (meta_insert K_INFLIGHT bs (t_metadata t)) b
      in lbind (ledger_commit env rewritten) (\<lambda>r.
         lreturn \<lparr>au_inflight = r_transfer_id r, au_legs = legs\<rparr>))))))"

section \<open>Confirm and void\<close>

definition confirm_group ::
  "ledger_env \<Rightarrow> ledger \<Rightarrow> codec \<Rightarrow> book_id \<Rightarrow> envelope_id \<Rightarrow> receipt list \<Rightarrow> hold_group \<Rightarrow> receipt list action" where
  "confirm_group env l cd bk inflight receipts g =
     lbind (lfold (\<lambda>rs asset.
         lbind (ledger_balance env l (hg_hold g) asset) (\<lambda>bal.
         if is_positive bal
         then lbind (settle env cd bk inflight (hg_hold g) (hg_destination g) (hg_destination g) asset bal RoleConfirm)
                (\<lambda>r. lreturn (rs @ [r]))
         else lreturn rs)) receipts (hg_assets g)) (\<lambda>rs.
     lbind (close_if_drained env (hg_hold g)) (\<lambda>_. lreturn rs))"

definition confirm_all :: "ledger_env \<Rightarrow> ledger \<Rightarrow> codec \<Rightarrow> envelope_id \<Rightarrow> receipt list action" where
  "confirm_all env l cd inflight =
     lbind (load_inflight cd inflight) (\<lambda>(r, legs).
     lbind (lift_err (group_holds legs inflight)) (\<lambda>groups.
     lfold (confirm_group env l cd (e_book (er_envelope r)) inflight) [] groups))"

definition confirm_movement ::
  "ledger_env \<Rightarrow> ledger \<Rightarrow> codec \<Rightarrow> book_id \<Rightarrow> envelope_id \<Rightarrow> inflight_leg list
   \<Rightarrow> receipt list \<times> account_id list \<Rightarrow> movement \<Rightarrow> (receipt list \<times> account_id list) action" where
  "confirm_movement env l cd bk inflight legs = (\<lambda>(receipts, touched) m.
     case List.find (\<lambda>g. il_funder g = m_from m \<and> il_destination g = m_to m \<and> il_asset g = m_asset m) legs of
       None \<Rightarrow> lfail (InflightLegNotFound (m_to m) (m_asset m))
     | Some leg \<Rightarrow>
         lbind (ledger_balance env l (il_hold leg) (m_asset m)) (\<lambda>held.
         if m_amount m > held
         then lfail (LSelection \<lparr>if_available = held, if_requested = m_amount m\<rparr>)
         else lbind (settle env cd bk inflight (il_hold leg) (m_to m) (m_to m) (m_asset m) (m_amount m) RoleConfirm)
                (\<lambda>r. lreturn (receipts @ [r], touched @ [il_hold leg]))))"

definition confirm :: "ledger_env \<Rightarrow> ledger \<Rightarrow> codec \<Rightarrow> envelope_id \<Rightarrow> transfer \<Rightarrow> receipt list action" where
  "confirm env l cd inflight confirms =
     lbind (load_inflight cd inflight) (\<lambda>(r, legs).
     lbind (lfold (confirm_movement env l cd (e_book (er_envelope r)) inflight legs) ([], []) (t_movements confirms))
       (\<lambda>(receipts, touched).
     lbind (lfold (\<lambda>_ hold. close_if_drained env hold) () (sort_dedup touched)) (\<lambda>_. lreturn receipts)))"

definition void_asset ::
  "ledger_env \<Rightarrow> ledger \<Rightarrow> codec \<Rightarrow> book_id \<Rightarrow> envelope_id \<Rightarrow> inflight_leg list \<Rightarrow> hold_group \<Rightarrow> receipt list \<Rightarrow> asset_id
   \<Rightarrow> receipt list action" where
  "void_asset env l cd bk inflight legs g receipts asset =
     lbind (ledger_balance env l (hg_hold g) asset) (\<lambda>remaining.
     lbind (overflow_action (distribute_to_funders legs (hg_hold g) asset remaining)) (\<lambda>payouts.
     lfold (\<lambda>rs p. lbind (settle env cd bk inflight (hg_hold g) (fp_funder p) (hg_destination g) asset (fp_give p) RoleVoid)
              (\<lambda>r. lreturn (rs @ [r]))) receipts payouts))"

definition void :: "ledger_env \<Rightarrow> ledger \<Rightarrow> codec \<Rightarrow> envelope_id \<Rightarrow> receipt list action" where
  "void env l cd inflight =
     lbind (load_inflight cd inflight) (\<lambda>(r, legs).
     lbind (lift_err (group_holds legs inflight)) (\<lambda>groups.
     lfold (\<lambda>receipts g.
         lbind (lfold (void_asset env l cd (e_book (er_envelope r)) inflight legs g) receipts (hg_assets g)) (\<lambda>rs.
         lbind (close_if_drained env (hg_hold g)) (\<lambda>_. lreturn rs))) [] groups))"

section \<open>Status and queries\<close>

definition load_group ::
  "ledger_env \<Rightarrow> ledger \<Rightarrow> (account_id \<times> envelope_record list) list \<times> ((account_id \<times> asset_id) \<times> cent) list \<Rightarrow> hold_group
   \<Rightarrow> ((account_id \<times> envelope_record list) list \<times> ((account_id \<times> asset_id) \<times> cent) list) action" where
  "load_group env l = (\<lambda>(hist, held) g.
     lbind (history env (hg_hold g)) (\<lambda>rs.
     lbind (lfold (\<lambda>m asset. lbind (ledger_balance env l (hg_hold g) asset) (\<lambda>bal.
              lreturn (AList.update (hg_hold g, asset) bal m))) held (hg_assets g)) (\<lambda>held'.
     lreturn (hist @ [(hg_hold g, rs)], held'))))"

definition inflight_status_of :: "ledger_env \<Rightarrow> ledger \<Rightarrow> codec \<Rightarrow> envelope_id \<Rightarrow> inflight_status action" where
  "inflight_status_of env l cd inflight =
     lbind (load_inflight cd inflight) (\<lambda>(_, legs).
     lbind (lift_err (group_holds legs inflight)) (\<lambda>groups.
     lbind (lfold (load_group env l) ([], []) groups) (\<lambda>(hist, held).
     lift_err (derive_status cd \<lparr>si_inflight = inflight, si_legs = legs, si_hold_history = hist, si_held = held\<rparr>))))"

definition list_open_inflights :: "ledger_env \<Rightarrow> account_id list action" where
  "list_open_inflights env =
     lbind (ledger_list_accounts env) (\<lambda>as.
       lreturn (map acc_id (filter (\<lambda>a. flags_contains (acc_flags a) INFLIGHT \<and> \<not> is_closed a) as)))"

section \<open>Inflight methods are sequences of ledger steps\<close>

lemma preserves_catch: "preserves R m \<Longrightarrow> preserves R (lcatch m h)"
  by (auto simp: preserves_def lcatch_def split: prod.splits sum.splits fault.splits) (metis snd_conv)+

lemma lift_err_steps [simp]: "preserves (store_steps env) (lift_err r)"
  by (simp add: lift_err_def)

lemma inflight_read_steps [simp]:
  "preserves (store_steps env) (load_inflight cd i)" "preserves (store_steps env) (has_live_postings env a)"
  "preserves (store_steps env) (ledger_get_account a)" "preserves (store_steps env) (history env a)"
  "preserves (store_steps env) (ledger_balance env l a asset)" "preserves (store_steps env) (overflow_action r)"
proof -
  show "preserves (store_steps env) (load_inflight cd i)" "preserves (store_steps env) (ledger_get_account a)"
    unfolding load_inflight_def ledger_get_account_def
    by (auto intro!: steps.preserves_bind split: option.splits sum.splits inflight_meta.splits)
qed (simp_all add: history_def reads_steps)

lemma settle_steps: "externs_ok (le_ext env) \<Longrightarrow> preserves (store_steps env) (settle env cd bk i h tg d asset v role)"
  unfolding settle_def Let_def by (auto intro!: steps.preserves_bind commit_steps)

lemma close_if_drained_steps: "preserves (store_steps env) (close_if_drained env h)"
  unfolding close_if_drained_def by (auto intro!: steps.preserves_bind lifecycle_steps)

lemma create_hold_steps: "preserves (store_steps env) (create_hold env cd bk dh)"
  unfolding create_hold_def split_beta Let_def
  by (auto intro!: steps.preserves_bind preserves_catch create_account_steps)

lemma authorize_steps: "externs_ok (le_ext env) \<Longrightarrow> preserves (store_steps env) (authorize env cd t)"
  unfolding authorize_def Let_def
  by (intro steps.preserves_bind steps.preserves_fold create_hold_steps commit_steps) simp_all

lemma confirm_group_steps: "externs_ok (le_ext env) \<Longrightarrow> preserves (store_steps env) (confirm_group env l cd bk i rs g)"
  unfolding confirm_group_def
  by (intro steps.preserves_bind steps.preserves_fold close_if_drained_steps)
    (auto intro!: steps.preserves_bind settle_steps)

lemma confirm_all_steps: "externs_ok (le_ext env) \<Longrightarrow> preserves (store_steps env) (confirm_all env l cd i)"
  unfolding confirm_all_def split_beta
  by (intro steps.preserves_bind steps.preserves_fold confirm_group_steps) simp_all

lemma confirm_movement_steps:
  "externs_ok (le_ext env) \<Longrightarrow> preserves (store_steps env) (confirm_movement env l cd bk i legs s m)"
  unfolding confirm_movement_def split_beta
  by (auto intro!: steps.preserves_bind settle_steps split: option.splits)

lemma confirm_steps: "externs_ok (le_ext env) \<Longrightarrow> preserves (store_steps env) (confirm env l cd i t)"
  unfolding confirm_def split_beta
  by (intro steps.preserves_bind steps.preserves_fold confirm_movement_steps close_if_drained_steps) simp_all

lemma void_asset_steps:
  "externs_ok (le_ext env) \<Longrightarrow> preserves (store_steps env) (void_asset env l cd bk i legs g rs asset)"
  unfolding void_asset_def
  by (intro steps.preserves_bind steps.preserves_fold settle_steps) simp_all

lemma void_steps: "externs_ok (le_ext env) \<Longrightarrow> preserves (store_steps env) (void env l cd i)"
  unfolding void_def split_beta
  by (intro steps.preserves_bind steps.preserves_fold void_asset_steps close_if_drained_steps) simp_all

lemma inflight_status_steps: "preserves (store_steps env) (inflight_status_of env l cd i)"
  unfolding inflight_status_of_def load_group_def split_beta
  by (intro steps.preserves_bind steps.preserves_fold) simp_all

lemmas inflight_steps = authorize_steps confirm_all_steps confirm_steps void_steps inflight_status_steps

end
