(* ===== verification/Ledger_Api.thy ===== *)
theory Ledger_Api
  imports Commit_Laws Inflight
begin

text \<open>
  The public methods of the ledger as one type of calls, and the ledger as seen from
  outside: a balance for every account and asset and the set of committed transfers.
  Every store step is a step of that abstract ledger or leaves it alone.
\<close>

section \<open>The methods\<close>

datatype api_call =
    CallCreateAccount account | CallFreeze account_id | CallUnfreeze account_id | CallClose account_id
  | CallCreateBook book | CallCommit transfer | CallCommitEnvelope envelope | CallReverse envelope_id
  | CallRunMovements "saga_movement list" | CallBalance account_id asset_id | CallCachePoint account_id asset_id
  | CallSpawned account_id asset_id | CallAuthorize transfer | CallConfirmAll envelope_id
  | CallConfirm envelope_id transfer | CallVoid envelope_id | CallStatus envelope_id

text \<open>The world after a call, whatever the call returned.\<close>

fun exec :: "ledger_env \<Rightarrow> ledger \<Rightarrow> codec \<Rightarrow> api_call \<Rightarrow> world \<Rightarrow> world" where
  "exec env l cd (CallCreateAccount a) w = snd (ledger_create_account env a w)"
| "exec env l cd (CallFreeze i) w = snd (freeze env i w)"
| "exec env l cd (CallUnfreeze i) w = snd (unfreeze env i w)"
| "exec env l cd (CallClose i) w = snd (close env i w)"
| "exec env l cd (CallCreateBook b) w = snd (ledger_create_book b w)"
| "exec env l cd (CallCommit t) w = snd (ledger_commit env t w)"
| "exec env l cd (CallCommitEnvelope e) w = snd (ledger_commit_envelope env e w)"
| "exec env l cd (CallReverse i) w = snd (reverse env i w)"
| "exec env l cd (CallRunMovements ms) w = snd (run_movements env ms w)"
| "exec env l cd (CallBalance i a) w = snd (ledger_balance env l i a w)"
| "exec env l cd (CallCachePoint i a) w = snd (ledger_append_cache_point env l i a w)"
| "exec env l cd (CallSpawned i a) w = snd (run_spawned env l i a w)"
| "exec env l cd (CallAuthorize t) w = snd (authorize env cd t w)"
| "exec env l cd (CallConfirmAll i) w = snd (confirm_all env l cd i w)"
| "exec env l cd (CallConfirm i t) w = snd (confirm env l cd i t w)"
| "exec env l cd (CallVoid i) w = snd (void env l cd i w)"
| "exec env l cd (CallStatus i) w = snd (inflight_status_of env l cd i w)"

lemma preservesD: "preserves R m \<Longrightarrow> R (w_store w) (w_store (snd (m w)))"
  by (simp add: preserves_def)

lemma exec_steps:
  assumes "externs_ok (le_ext env)"
  shows "store_steps env (w_store w) (w_store (exec env l cd call w))"
  using assms by (cases call) (simp_all add: preservesD method_steps inflight_steps ledger_append_cache_point_def)

lemma run_steps:
  assumes "externs_ok (le_ext env)"
  shows "store_steps env (w_store w) (w_store (fold (exec env l cd) calls w))"
proof (induction calls arbitrary: w)
  case (Cons c cs)
  show ?case using exec_steps[OF assms, of w l cd c] Cons.IH[of "exec env l cd c w"] by simp
qed simp

section \<open>The abstract ledger\<close>

record abstract_ledger =
  al_balance :: "account_id \<times> asset_id \<Rightarrow> int"
  al_done :: "envelope_id set"

definition abs_ledger :: "mem_store \<Rightarrow> abstract_ledger" where
  "abs_ledger st = \<lparr>al_balance = (\<lambda>k. live_balance st (fst k) (snd k)), al_done = fst ` set (ms_transfers st)\<rparr>"

text \<open>One abstract transfer: new, balanced per asset, and above the floor where there is one.\<close>

definition abs_transfer :: "(account_id \<Rightarrow> bool) \<Rightarrow> abstract_ledger \<Rightarrow> abstract_ledger \<Rightarrow> bool" where
  "abs_transfer floored a b \<longleftrightarrow> (\<exists>tid d. tid \<notin> al_done a \<and> al_done b = insert tid (al_done a) \<and>
     (\<forall>k. al_balance b k = al_balance a k + key_sum k d) \<and>
     (\<forall>asset. key_sum asset (project_keys snd d) = 0) \<and>
     (\<forall>aid asset. floored aid \<longrightarrow> 0 \<le> al_balance b (aid, asset)))"

definition floored :: "mem_store \<Rightarrow> account_id \<Rightarrow> bool" where
  "floored st aid \<longleftrightarrow> (\<exists>a. head_version st aid = Some a \<and> forbids_overdraft a)"

lemma ready_abs_transfer:
  assumes rdy: "commit_ready env st input s ts"
  shows "abs_transfer (floored st) (abs_ledger st) (abs_ledger (commit_apply c (req_of env input s ts) st))"
proof -
  let ?d = "delta_entries (pi_consumed_postings input) (e_creates (pi_envelope input))"
  let ?st = "commit_apply c (req_of env input s ts) st"
  have inv: "store_inv (x_sha (le_ext env)) ?st" by (rule ready_store_inv[OF rdy])
  have dom: "fst ` set (ms_transfers st') = dom (map_of (ms_transfers st'))" for st' by (simp add: dom_map_of_conv_image_fst)
  have "tid_of env input \<notin> al_done (abs_ledger st)" using rdy
    by (auto simp: abs_ledger_def dom commit_ready_def)
  moreover have "al_done (abs_ledger ?st) = insert (tid_of env input) (al_done (abs_ledger st))"
    by (simp add: abs_ledger_def dom commit_apply_fields req_fields[OF rdy])
  moreover have "\<forall>k. al_balance (abs_ledger ?st) k = al_balance (abs_ledger st) k + key_sum k ?d"
    using ready_live[OF rdy] by (simp add: abs_ledger_def)
  moreover have "\<forall>asset. key_sum asset (project_keys snd ?d) = 0"
    using readyD(5)[OF rdy] by (simp add: project_delta_entries ready_consumed(3)[OF rdy] conserves_def)
  moreover have "\<forall>aid asset. floored st aid \<longrightarrow> 0 \<le> al_balance (abs_ledger ?st) (aid, asset)"
    using inv inv_live[OF inv] by (auto simp: store_inv_def floor_ok_def floored_def abs_ledger_def commit_apply_fields(4))
  ultimately show ?thesis unfolding abs_transfer_def by blast
qed

lemma abs_same: "ms_postings st' = ms_postings st \<Longrightarrow> ms_transfers st' = ms_transfers st \<Longrightarrow> abs_ledger st' = abs_ledger st"
  by (simp add: abs_ledger_def live_balance_def)

lemma step_abs:
  assumes "store_step env st st'" and inv: "store_inv (x_sha (le_ext env)) st" and sm: "small st'" and h: "hash_order_ok (le_hash env)"
  shows "abs_ledger st' = abs_ledger st \<or> abs_transfer (floored st) (abs_ledger st) (abs_ledger st')"
  using assms(1)
proof cases
  case (step_commit input s c ts)
  then show ?thesis
    using commit_step_cases[OF step_commit(2-4) _ inv sm h, of c ts] ready_abs_transfer unfolding req_of_def by metis
next
  case (step_transition aid vs a mutate make_event nxt ev c)
  then show ?thesis
    by (auto intro!: abs_same simp: commit_transition_def Let_def with_event_fields split: option.splits)
qed (auto intro!: abs_same simp: append_event_def create_book_def create_account_def append_balance_projection_def split_beta Let_def split: option.splits)

end
