(* ===== verification/Balance_Laws.thy ===== *)
theory Balance_Laws
  imports Commit_Laws
begin

text \<open>
  The cached balance. The live balance of an account is the sum of the deltas of all
  transfers in the log, so a cache point that holds the sum up to its watermark, plus the
  folded tail of later transfers, is the live balance.
\<close>

section \<open>The log determines the balances\<close>

text \<open>The rows behind consumed ids, and what one record contributes to an account and asset.\<close>

definition rows :: "mem_store \<Rightarrow> posting_id list \<Rightarrow> posting list" where
  "rows st ids = List.map_filter (map_of (pt_immutable (ms_postings st))) ids"

definition record_delta :: "mem_store \<Rightarrow> account_id \<times> asset_id \<Rightarrow> envelope_record \<Rightarrow> int" where
  "record_delta st k r = key_sum k (delta_entries (rows st (e_consumes (er_envelope r))) (e_creates (er_envelope r)))"

definition log_sum :: "mem_store \<Rightarrow> account_id \<times> asset_id \<Rightarrow> (envelope_record \<Rightarrow> bool) \<Rightarrow> int" where
  "log_sum st k P = sum_list (map (record_delta st k) (filter P (map snd (ms_transfers st))))"

text \<open>The index of involved accounts lists the owners on both sides of every transfer.\<close>

definition involved_ok :: "mem_store \<Rightarrow> envelope_record \<Rightarrow> account_id list \<Rightarrow> bool" where
  "involved_ok st r accs \<longleftrightarrow>
     set accs = np_owner ` set (e_creates (er_envelope r)) \<union> p_owner ` set (rows st (e_consumes (er_envelope r)))"

definition history_inv :: "mem_store \<Rightarrow> bool" where
  "history_inv st \<longleftrightarrow> keys_distinct (ms_transfers st) \<and> map fst (ms_transfer_accounts st) = map fst (ms_transfers st) \<and>
     list_all2 (\<lambda>(tid, r) (tid', accs). involved_ok st r accs) (ms_transfers st) (ms_transfer_accounts st) \<and>
     (\<forall>acc asset. live_balance st acc asset = log_sum st (acc, asset) (\<lambda>_. True))"

lemma history_inv_new: "history_inv mem_store_new"
  by (simp add: history_inv_def mem_store_new_def live_balance_def log_sum_def postings_in_def)

lemma rows_of_consumed:
  assumes "get_postings ids st = Inr ps"
  shows "rows st ids = ps"
proof -
  have "list_all2 (\<lambda>i p. map_of (pt_immutable (ms_postings st)) i = Some p) ids ps"
    using assms by (simp add: get_postings_def try_map_Inr_iff)
  then show ?thesis unfolding rows_def by (induction rule: list_all2_induct) (simp_all add: map_filter_simps)
qed

text \<open>A commit adds rows but does not change the ones that earlier transfers consumed.\<close>

lemma ready_rows_same:
  assumes rdy: "commit_ready env st input s ts" and r: "map_of (ms_transfers st) tid = Some r"
  shows "rows (commit_apply c (req_of env input s ts) st) (e_consumes (er_envelope r)) = rows st (e_consumes (er_envelope r))"
  unfolding rows_def
proof (rule map_filter_cong)
  fix i assume i: "i \<in> set (e_consumes (er_envelope r))"
  have inv: "store_inv (x_sha (le_ext env)) st" using rdy by (simp add: commit_ready_def)
  then have "posting_state_of (ms_postings st) i = StateSpent" using r i by (auto simp: store_inv_def transfer_ok_def)
  then obtain p where "map_of (pt_immutable (ms_postings st)) i = Some p"
    using state_missing_iff[OF readyD(1)[OF rdy], of i] by fastforce
  then show "map_of (pt_immutable (ms_postings (commit_apply c (req_of env input s ts) st))) i = map_of (pt_immutable (ms_postings st)) i"
    using ready_tables(3)[OF rdy] by (metis commit_apply_fields(1))
qed

lemma ready_rows_new:
  assumes rdy: "commit_ready env st input s ts"
  shows "rows (commit_apply c (req_of env input s ts) st) (e_consumes (pi_envelope input)) = pi_consumed_postings input"
proof -
  have "map_of (pt_immutable (ms_postings (commit_apply c (req_of env input s ts) st))) i = map_of (pt_immutable (ms_postings st)) i"
    if "i \<in> set (e_consumes (pi_envelope input))" for i
    using readyD(4)[OF rdy] active_row[OF readyD(1)[OF rdy], of i] that ready_tables(3)[OF rdy, of i]
    by (fastforce simp: commit_apply_fields(1))
  then have "rows (commit_apply c (req_of env input s ts) st) (e_consumes (pi_envelope input)) = rows st (e_consumes (pi_envelope input))"
    unfolding rows_def by (rule map_filter_cong)
  also have "\<dots> = pi_consumed_postings input" using rdy by (intro rows_of_consumed) (simp add: commit_ready_def)
  finally show ?thesis .
qed

lemma ready_log_sum:
  assumes rdy: "commit_ready env st input s ts" and d: "keys_distinct (ms_transfers st)"
  shows "log_sum (commit_apply c (req_of env input s ts) st) k P = log_sum st k P +
     (if P (cr_record (req_of env input s ts)) then key_sum k (delta_entries (pi_consumed_postings input) (e_creates (pi_envelope input))) else 0)"
proof -
  let ?st = "commit_apply c (req_of env input s ts) st" and ?r = "cr_record (req_of env input s ts)"
  have "tid_of env input \<notin> fst ` set (ms_transfers st)" using rdy by (simp add: commit_ready_def map_of_eq_None_iff)
  then have tr: "ms_transfers ?st = ms_transfers st @ [(tid_of env input, ?r)]"
    by (simp add: commit_apply_def split_beta Let_def req_fields(1)[OF rdy] update_fresh)
  have "record_delta ?st k r = record_delta st k r" if r: "r \<in> set (map snd (ms_transfers st))" for r
  proof -
    obtain tid where "map_of (ms_transfers st) tid = Some r" using r d by (auto simp: map_of_eq_Some_iff)
    then show ?thesis by (simp add: record_delta_def ready_rows_same[OF rdy])
  qed
  then have old: "map (record_delta ?st k) (filter P (map snd (ms_transfers st))) = map (record_delta st k) (filter P (map snd (ms_transfers st)))"
    by (intro map_cong) auto
  have "record_delta ?st k ?r = key_sum k (delta_entries (pi_consumed_postings input) (e_creates (pi_envelope input)))"
    by (simp add: record_delta_def req_fields(5)[OF rdy] ready_rows_new[OF rdy])
  then show ?thesis unfolding log_sum_def tr by (simp add: old del: map_map filter_map)
qed

lemma ready_history:
  assumes rdy: "commit_ready env st input s ts" and hist: "history_inv st"
  shows "history_inv (commit_apply c (req_of env input s ts) st)"
proof -
  let ?st = "commit_apply c (req_of env input s ts) st" and ?r = "cr_record (req_of env input s ts)"
  have d: "keys_distinct (ms_transfers st)" and keys: "map fst (ms_transfer_accounts st) = map fst (ms_transfers st)"
    using hist by (simp_all add: history_inv_def)
  have fresh: "tid_of env input \<notin> fst ` set (ms_transfers st)" using rdy by (simp add: commit_ready_def map_of_eq_None_iff)
  moreover have "fst ` set (ms_transfer_accounts st) = fst ` set (ms_transfers st)" using keys by (metis set_map)
  ultimately have tr: "ms_transfers ?st = ms_transfers st @ [(tid_of env input, ?r)]"
    "ms_transfer_accounts ?st = ms_transfer_accounts st @ [(tid_of env input, cr_involved (req_of env input s ts))]"
    by (simp_all add: commit_apply_def split_beta Let_def req_fields(1)[OF rdy] update_fresh)
  have "involved_ok ?st r accs \<longleftrightarrow> involved_ok st r accs" if "(tid, r) \<in> set (ms_transfers st)" for tid r accs
    using that d by (simp add: involved_ok_def ready_rows_same[OF rdy] map_of_eq_Some_iff)
  then have "list_all2 (\<lambda>(tid, r) (tid', accs). involved_ok ?st r accs) (ms_transfers st) (ms_transfer_accounts st)"
    using hist unfolding history_inv_def by (auto elim!: list.rel_mono_strong)
  moreover have "involved_ok ?st ?r (cr_involved (req_of env input s ts))"
  proof -
    have "p_owner ` set (created_of env input) = np_owner ` set (e_creates (pi_envelope input))"
      by (force simp: created_of_def in_set_conv_nth created_postings_nth posting_new_def image_iff)
    then show ?thesis by (simp add: involved_ok_def req_fields[OF rdy] ready_rows_new[OF rdy])
  qed
  moreover have "live_balance ?st acc asset = log_sum ?st (acc, asset) (\<lambda>_. True)" for acc asset
    using ready_live[OF rdy] ready_log_sum[OF rdy d] hist by (simp add: history_inv_def)
  ultimately show ?thesis using d keys fresh unfolding history_inv_def tr by (auto intro!: list_all2_appendI)
qed

lemma history_same:
  assumes "history_inv st" "ms_postings st' = ms_postings st" "ms_transfers st' = ms_transfers st"
    "ms_transfer_accounts st' = ms_transfer_accounts st"
  shows "history_inv st'"
proof -
  have "rows st' = rows st" using assms(2) by (simp add: rows_def fun_eq_iff)
  then show ?thesis using assms
    by (simp add: history_inv_def involved_ok_def[abs_def] log_sum_def record_delta_def[abs_def] live_balance_def)
qed

lemma step_history:
  assumes "store_step env st st'" "store_inv (x_sha (le_ext env)) st" "small st'" "hash_order_ok (le_hash env)" "history_inv st"
  shows "history_inv st'"
  using assms(1)
proof cases
  case (step_commit input s c ts)
  then show ?thesis
    using commit_step_cases[OF step_commit(2-4) _ assms(2-4), of c ts] ready_history[OF _ assms(5)] assms(5) unfolding req_of_def by metis
next
  case (step_transition aid vs a mutate mk nxt ev c)
  then show ?thesis
    by (intro history_same[OF assms(5)]) (auto simp: commit_transition_def Let_def with_event_def split_beta split: option.splits)
qed (auto intro!: history_same[OF assms(5)] simp: append_event_def create_book_def create_account_def append_balance_projection_def
    split_beta Let_def split: option.splits)

lemma reachable_history:
  assumes "reachable env st" "small st" and h: "hash_order_ok (le_hash env)"
  shows "history_inv st"
  using assms(1,2) unfolding reachable_def
proof (induction rule: rtranclp_induct)
  case base
  show ?case by (rule history_inv_new)
next
  case (step st st')
  have sm: "small st" by (rule step_small[OF step.hyps(2) step.prems])
  then have "store_inv (x_sha (le_ext env)) st" using reachable_inv[of env st] step.hyps(1) h by (simp add: reachable_def)
  then show ?case using step_history[OF step.hyps(2) _ step.prems h] step.IH[OF sm] by blast
qed

section \<open>Folding a window of the log\<close>

definition in_window :: "i64 option \<Rightarrow> i64 option \<Rightarrow> envelope_record \<Rightarrow> bool" where
  "in_window lo hi r \<longleftrightarrow> (case lo of Some l \<Rightarrow> l \<le> er_created_at r | None \<Rightarrow> True) \<and>
     (case hi of Some h \<Rightarrow> er_created_at r < h | None \<Rightarrow> True)"

lemma fold_created_value:
  assumes "fold_created acc asset rs = Inr (d, n)"
  shows "d = key_sum (acc, asset) (map (\<lambda>np. ((np_owner np, np_asset np), np_value np)) (concat (map (\<lambda>r. e_creates (er_envelope r)) rs)))"
proof -
  have "d = a + key_sum (acc, asset) (map (\<lambda>np. ((np_owner np, np_asset np), np_value np)) nps)"
    if "try_fold (\<lambda>(delta, n) np. if np_owner np = acc \<and> np_asset np = asset
         then rbind (checked_add delta (np_value np)) (\<lambda>d. Inr (d, n + 1)) else Inr (delta, n)) (a, m) nps = Inr (d, n)"
    for a m and nps :: "new_posting list"
    using that
  proof (induction nps arbitrary: a m)
    case (Cons np nps)
    show ?case
    proof (cases "np_owner np = acc \<and> np_asset np = asset")
      case True
      then have "d = (a + np_value np) + key_sum (acc, asset) (map (\<lambda>np. ((np_owner np, np_asset np), np_value np)) nps)"
        using Cons.prems by (intro Cons.IH[of _ "m + 1"]) (simp add: rbind_eq_Inr checked_add_Inr)
      then show ?thesis using True by (simp add: key_sum_Cons)
    next
      case False
      then show ?thesis using Cons by (auto simp: key_sum_Cons)
    qed
  qed simp
  from this[OF assms[unfolded fold_created_def]] show ?thesis by (simp add: cent_ZERO_def)
qed

lemma fold_consumed_value:
  assumes "fold_consumed acc asset (a, m) ps = Inr (d, n)"
  shows "d = a - key_sum (acc, asset) (post_entries ps)"
  using assms unfolding fold_consumed_def post_entries_def
proof (induction ps arbitrary: a m)
  case (Cons p ps)
  show ?case
  proof (cases "p_owner p = acc \<and> p_asset p = asset")
    case True
    then have "d = (a - p_value p) - key_sum (acc, asset) (map (\<lambda>p. ((p_owner p, p_asset p), p_value p)) ps)"
      using Cons.prems by (intro Cons.IH[of _ "m + 1"]) (simp add: rbind_eq_Inr checked_sub_Inr)
    then show ?thesis using True by (simp add: key_sum_Cons)
  next
    case False
    then show ?thesis using Cons by (auto simp: key_sum_Cons)
  qed
qed simp

lemma unseen_distinct: "distinct xs \<Longrightarrow> set seen \<inter> set xs = {} \<Longrightarrow> unseen seen xs = xs"
  by (induction xs arbitrary: seen) auto

lemma distinct_concat_consumes:
  assumes "distinct rs" "\<And>r. r \<in> set rs \<Longrightarrow> distinct (f r)" "\<And>r r'. r \<in> set rs \<Longrightarrow> r' \<in> set rs \<Longrightarrow> r \<noteq> r' \<Longrightarrow> set (f r) \<inter> set (f r') = {}"
  shows "distinct (concat (map f rs))"
  using assms by (induction rs) auto

lemma key_sum_concat: "key_sum k (concat xss) = sum_list (map (key_sum k) xss)"
  by (induction xss) simp_all

lemma rows_concat: "rows st (concat (map f rs)) = concat (map (\<lambda>r. rows st (f r)) rs)"
  unfolding rows_def by (induction rs) (simp_all add: map_filter_simps map_filter_def)

lemma records_sum:
  "key_sum k (map (\<lambda>np. ((np_owner np, np_asset np), np_value np)) (concat (map (\<lambda>r. e_creates (er_envelope r)) rs)))
     - key_sum k (post_entries (rows st (concat (map (\<lambda>r. e_consumes (er_envelope r)) rs)))) = sum_list (map (record_delta st k) rs)"
  unfolding rows_concat
  by (induction rs) (simp_all add: record_delta_def key_sum_delta post_entries_def)

text \<open>Distinct records of the log have disjoint consumed ids.\<close>

lemma transfers_consumes:
  assumes inv: "store_inv sha st" and rs: "distinct rs" "set rs \<subseteq> snd ` set (ms_transfers st)" and d: "keys_distinct (ms_transfers st)"
  shows "distinct (concat (map (\<lambda>r. e_consumes (er_envelope r)) rs))"
proof (rule distinct_concat_consumes[OF rs(1)])
  have tid: "\<exists>tid. map_of (ms_transfers st) tid = Some r" if "r \<in> set rs" for r
    using that rs(2) d by (force simp: map_of_eq_Some_iff)
  show "distinct (e_consumes (er_envelope r))" if "r \<in> set rs" for r
    using tid[OF that] inv by (auto simp: store_inv_def transfer_ok_def)
  show "set (e_consumes (er_envelope r)) \<inter> set (e_consumes (er_envelope r')) = {}" if r: "r \<in> set rs" "r' \<in> set rs" "r \<noteq> r'" for r r'
  proof -
    obtain t t' where "map_of (ms_transfers st) t = Some r" "map_of (ms_transfers st) t' = Some r'" using tid r by blast
    then show ?thesis using inv r(3) unfolding store_inv_def single_spend_def by (metis option.inject)
  qed
qed

lemma fold_account_delta_value:
  assumes run: "fold_account_delta acc asset rs w = (Inr (d, n), w')" and inv: "store_inv sha (w_store w)"
    and rs: "distinct rs" "set rs \<subseteq> snd ` set (ms_transfers (w_store w))" and kd: "keys_distinct (ms_transfers (w_store w))"
  shows "w' = w \<and> d = sum_list (map (record_delta (w_store w) (acc, asset)) rs)"
proof -
  let ?ids = "concat (map (\<lambda>r. e_consumes (er_envelope r)) rs)"
  have ids: "consumed_ids rs = ?ids" unfolding consumed_ids_def
    by (rule unseen_distinct) (use transfers_consumes[OF inv rs kd] in simp_all)
  obtain d0 n0 where c: "fold_created acc asset rs = Inr (d0, n0)"
    using run by (cases "fold_created acc asset rs") (auto simp: fold_account_delta_def lbind_def overflow_action_def)
  note v = fold_created_value[OF c]
  show ?thesis
  proof (cases "?ids = []")
    case True
    then have "w' = w \<and> d = d0" using run c by (simp add: fold_account_delta_def lbind_def overflow_action_def ids Let_def)
    then show ?thesis using records_sum[of "(acc, asset)" rs "w_store w"] v True by (simp add: rows_def post_entries_def map_filter_simps)
  next
    case False
    have "(if ?ids = [] then lreturn (d0, n0)
        else lbind (lread (get_postings ?ids)) (\<lambda>ps. overflow_action (fold_consumed acc asset (d0, n0) ps))) w = (Inr (d, n), w')"
      using run unfolding fold_account_delta_def overflow_action_def Let_def ids lbind_def c by simp
    then have step: "lbind (lread (get_postings ?ids)) (\<lambda>ps. overflow_action (fold_consumed acc asset (d0, n0) ps)) w = (Inr (d, n), w')"
      using False by (simp only: if_False)
    have "\<exists>ps. get_postings ?ids (w_store w) = Inr ps \<and> fold_consumed acc asset (d0, n0) ps = Inr (d, n) \<and> w' = w"
    proof (cases "get_postings ?ids (w_store w)")
      case (Inl err)
      then show ?thesis using step by (simp add: lbind_def lread_def map_err_def)
    next
      case (Inr ps)
      then show ?thesis using step
        by (cases "fold_consumed acc asset (d0, n0) ps") (simp_all add: lbind_def lread_def map_err_def overflow_action_def)
    qed
    then obtain ps where ps: "get_postings ?ids (w_store w) = Inr ps" and f: "fold_consumed acc asset (d0, n0) ps = Inr (d, n)" "w' = w"
      by blast
    then show ?thesis
      using records_sum[of "(acc, asset)" rs "w_store w"] v fold_consumed_value[OF f(1)] rows_of_consumed[OF ps] by simp
  qed
qed


text \<open>The records of a window that name the account, as the store lists them.\<close>

lemma paginate_all: "length xs < 2 ^ 32 \<Longrightarrow> pg_items (paginate xs None None) = xs"
proof -
  assume len: "length xs < 2 ^ 32"
  have "unat (- 1 :: u32) = mask 32" by (simp only: unsigned_minus_1_eq_mask len_num1 len_bit0 One_nat_def numeral_nat) simp
  then show ?thesis using len by (simp add: paginate_def window_def mask_eq_exp_minus_1)
qed

lemma transfers_of_account_mset:
  assumes h: "hash_order_ok h" and kd: "keys_distinct (ms_transfers st)" and hist: "history_inv st"
  shows "mset (get_transfers_for_account h (aid_id acc) (Some (aid_sub acc)) st) =
    mset (filter (\<lambda>r. acc \<in> np_owner ` set (e_creates (er_envelope r)) \<union> p_owner ` set (rows st (e_consumes (er_envelope r))))
      (map snd (ms_transfers st)))"
proof -
  have "account_matches (aid_id acc) (Some (aid_sub acc)) ow \<longleftrightarrow> ow = acc" for ow
    by (auto simp: account_matches_def intro: account_id.expand)
  then have ex: "list_ex (account_matches (aid_id acc) (Some (aid_sub acc))) accs \<longleftrightarrow> acc \<in> set accs" for accs
    by (simp add: list_ex_iff)
  have gen: "List.map_filter (\<lambda>(tid, _). map_of (ms_transfers st) tid) (filter (\<lambda>(_, accs). acc \<in> set accs) xs) =
      filter (\<lambda>r. acc \<in> np_owner ` set (e_creates (er_envelope r)) \<union> p_owner ` set (rows st (e_consumes (er_envelope r)))) (map snd ys)"
    if "list_all2 (\<lambda>(tid, r) (tid', accs). involved_ok st r accs) ys xs" "map fst xs = map fst ys" "set ys \<subseteq> set (ms_transfers st)" for xs ys
    using that
  proof (induction ys xs rule: list_all2_induct)
    case (Cons y ys x xs)
    then have "map_of (ms_transfers st) (fst x) = Some (snd y)" using kd by (cases y) (simp add: map_of_eq_Some_iff)
    then show ?case using Cons by (simp add: map_filter_simps involved_ok_def split_beta)
  qed (simp add: map_filter_simps)
  show ?thesis
    using h gen[of "ms_transfers st" "ms_transfer_accounts st"] hist
    by (simp add: get_transfers_for_account_def ex hash_order_ok_def history_inv_def)
qed

lemma uninvolved_delta:
  assumes "acc \<notin> np_owner ` set (e_creates (er_envelope r)) \<union> p_owner ` set (rows st (e_consumes (er_envelope r)))"
  shows "record_delta st (acc, asset) r = 0"
  using assms unfolding record_delta_def key_sum_def delta_entries_def
  by (subst filter_False) (auto simp: image_iff)

lemma records_distinct:
  assumes "store_inv sha st" "keys_distinct (ms_transfers st)"
  shows "distinct (map snd (ms_transfers st))"
proof -
  have "inj_on snd (set (ms_transfers st))"
  proof (rule inj_onI)
    fix x y assume x: "x \<in> set (ms_transfers st)" "y \<in> set (ms_transfers st)" "snd x = snd y"
    have "map_of (ms_transfers st) (fst x) = Some (snd x)" "map_of (ms_transfers st) (fst y) = Some (snd y)"
      using assms(2) x(1,2) by simp_all
    then have "fst x = r_transfer_id (er_receipt (snd x))" "fst y = r_transfer_id (er_receipt (snd y))"
      using assms(1) by (auto simp: store_inv_def transfer_ok_def)
    then show "x = y" using x(3) by (simp add: prod_eq_iff)
  qed
  then show ?thesis using assms(2) by (simp add: distinct_map)
qed

lemma sum_list_filter_zero:
  "(\<And>x. x \<in> set xs \<Longrightarrow> P x \<Longrightarrow> \<not> Q x \<Longrightarrow> f x = (0::int)) \<Longrightarrow> sum_list (map f (filter (\<lambda>x. Q x \<and> P x) xs)) = sum_list (map f (filter P xs))"
  by (induction xs) auto

lemma window_query:
  "pg_items (query_transfers h (tail_query acc lo hi) st) =
     pg_items (paginate (filter (in_window lo hi) (get_transfers_for_account h (aid_id acc) (Some (aid_sub acc)) st)) None None)"
  by (simp add: query_transfers_def tail_query_def filter_transfers_def in_window_def[abs_def] not_less not_le cong: filter_cong split: option.splits)

lemma fold_tail_value:
  assumes run: "fold_tail env acc asset lo hi w = (Inr (d, n), w')" and inv: "store_inv sha (w_store w)"
    and hist: "history_inv (w_store w)" and h: "hash_order_ok (le_hash env)" and len: "length (ms_transfers (w_store w)) < 2 ^ 32"
  shows "w' = w \<and> d = log_sum (w_store w) (acc, asset) (in_window lo hi)"
proof -
  let ?st = "w_store w"
  let ?inv = "\<lambda>r. acc \<in> np_owner ` set (e_creates (er_envelope r)) \<union> p_owner ` set (rows ?st (e_consumes (er_envelope r)))"
  let ?all = "map snd (ms_transfers ?st)"
  let ?rs = "filter (in_window lo hi) (get_transfers_for_account (le_hash env) (aid_id acc) (Some (aid_sub acc)) ?st)"
  have kd: "keys_distinct (ms_transfers ?st)" using hist by (simp add: history_inv_def)
  have m: "mset ?rs = mset (filter (\<lambda>r. ?inv r \<and> in_window lo hi r) ?all)"
    using transfers_of_account_mset[OF h kd hist, of acc] 
    by (simp only: mset_filter filter_filter_mset)
  have "length ?rs \<le> length ?all" unfolding mset_eq_length[OF m] by (rule length_filter_le)
  then have "length ?rs < 2 ^ 32" using len by simp
  then have "fold_account_delta acc asset ?rs w = (Inr (d, n), w')"
    using run by (simp add: fold_tail_def window_query paginate_all lbind_def)
  moreover have "distinct ?rs" unfolding mset_eq_imp_distinct_iff[OF m] by (rule distinct_filter[OF records_distinct[OF inv kd]])
  moreover have "set ?rs \<subseteq> snd ` set (ms_transfers ?st)" using mset_eq_setD[OF m] by auto
  ultimately have v: "w' = w" "d = sum_list (map (record_delta ?st (acc, asset)) ?rs)"
    using fold_account_delta_value[OF _ inv _ _ kd] by blast+
  have "sum_list (map (record_delta ?st (acc, asset)) ?rs) = sum_list (map (record_delta ?st (acc, asset)) (filter (\<lambda>r. ?inv r \<and> in_window lo hi r) ?all))"
    by (subst (1 2) sum_mset_sum_list[symmetric]) (simp only: mset_map m)
  also have "\<dots> = sum_list (map (record_delta ?st (acc, asset)) (filter (in_window lo hi) ?all))"
    by (rule sum_list_filter_zero) (auto simp: uninvolved_delta)
  finally show ?thesis using v by (simp add: log_sum_def)
qed

section \<open>Cache points\<close>

text \<open>A cache point is exact when it holds the sum of the log up to its watermark.\<close>

definition point_exact :: "mem_store \<Rightarrow> balance_projection \<Rightarrow> bool" where
  "point_exact st p \<longleftrightarrow> bp_balance p =
     log_sum st (bp_account p, bp_asset p) (in_window None (Some (saturating_add (bp_watermark p) 1)))"

definition points_exact :: "mem_store \<Rightarrow> bool" where
  "points_exact st \<longleftrightarrow> list_all (\<lambda>(k, ps). list_all (\<lambda>p. (bp_account p, bp_asset p) = k \<and> point_exact st p) ps) (ms_projections st)"

lemma log_sum_split:
  assumes "\<And>r. P r \<longleftrightarrow> Q r \<or> R r" "\<And>r. \<not> (Q r \<and> R r)"
  shows "log_sum st k P = log_sum st k Q + log_sum st k R"
proof -
  have "sum_list (map f (filter P rs)) = sum_list (map f (filter Q rs)) + sum_list (map f (filter R rs))" for f :: "_ \<Rightarrow> int" and rs
    by (induction rs) (use assms in auto)
  then show ?thesis by (simp only: log_sum_def)
qed

lemma window_split:
  assumes "case lo of Some l \<Rightarrow> l \<le> m | None \<Rightarrow> True" "case hi of Some h \<Rightarrow> m \<le> h | None \<Rightarrow> True"
  shows "log_sum st k (in_window lo hi) = log_sum st k (in_window lo (Some m)) + log_sum st k (in_window (Some m) hi)"
  using assms by (intro log_sum_split) (auto simp: in_window_def split: option.splits)

lemma max_by_key_mem: "max_by_key f xs = Some x \<Longrightarrow> x \<in> set xs"
proof -
  have "foldl (\<lambda>best y. if f best \<le> f y then y else best) a ys \<in> insert a (set ys)" for a and ys :: "'a list"
  proof (induction ys arbitrary: a)
    case (Cons y ys)
    then show ?case using Cons.IH[of "if f a \<le> f y then y else a"] by (auto split: if_splits)
  qed simp
  then show "max_by_key f xs = Some x \<Longrightarrow> x \<in> set xs" by (auto simp: max_by_key_def split: list.splits)
qed

lemma points_at:
  assumes "points_exact st" "map_of (ms_projections st) k = Some ps" "p \<in> set ps"
  shows "(bp_account p, bp_asset p) = k \<and> point_exact st p"
  using assms(1,3) map_of_SomeD[OF assms(2)] unfolding points_exact_def by (fastforce simp: list_all_iff)

lemma closest_point:
  assumes "get_closest_balance_projection acc asset as_of st = Some p" "points_exact st"
  shows "bp_balance p = log_sum st (acc, asset) (in_window None (Some (saturating_add (bp_watermark p) 1)))" "bp_watermark p \<le> as_of"
proof -
  obtain ps where m: "map_of (ms_projections st) (acc, asset) = Some ps" and p: "p \<in> set ps" "bp_watermark p \<le> as_of"
    using assms(1) by (auto simp: get_closest_balance_projection_def bind_eq_Some_conv dest!: max_by_key_mem)
  then have "(bp_account p, bp_asset p) = (acc, asset) \<and> point_exact st p"
    using points_at[OF assms(2) m] by blast
  then show "bp_balance p = log_sum st (acc, asset) (in_window None (Some (saturating_add (bp_watermark p) 1)))" by (simp add: point_exact_def)
qed (use assms(1) in \<open>auto simp: get_closest_balance_projection_def bind_eq_Some_conv dest!: max_by_key_mem\<close>)

text \<open>What the everyday read returns, and that it equals the authoritative sum when the points are exact.\<close>

lemma now_store: "now_millis env w = (r, w1) \<Longrightarrow> w_store w1 = w_store w"
  by (auto simp: now_millis_def lbind_def read_clock_def split: if_splits)

lemma ledger_balance_value:
  assumes run: "ledger_balance env l acc asset w = (Inr v, w')" and inv: "store_inv sha (w_store w)"
    and hist: "history_inv (w_store w)" and h: "hash_order_ok (le_hash env)" and len: "length (ms_transfers (w_store w)) < 2 ^ 32"
  obtains (live) "w_store w' = w_store w" "v = live_balance (w_store w) acc asset"
  | (cached) p now where "w_store w' = w_store w" "get_closest_balance_projection acc asset now (w_store w) = Some p"
     "v = bp_balance p + log_sum (w_store w) (acc, asset) (in_window (Some (saturating_add (bp_watermark p) 1)) None)"
proof -
  obtain now w1 where now: "now_millis env w = (Inr now, w1)" and
    rest: "(case get_closest_balance_projection acc asset now (w_store w1) of
       Some p \<Rightarrow> lbind (fold_tail env acc asset (Some (saturating_add (bp_watermark p) 1)) None) (\<lambda>(tail, n).
         lbind (if n \<ge> snapshot_interval l then spawn_append acc asset else lreturn ()) (\<lambda>_.
         overflow_action (checked_add (bp_balance p) tail)))
     | None \<Rightarrow> lbind (compute_balance env acc asset) (\<lambda>bal. lbind (spawn_append acc asset) (\<lambda>_. lreturn bal))) w1 = (Inr v, w')"
    using run unfolding ledger_balance_def lbind_Inr by auto
  have st: "w_store w1 = w_store w" using now by (rule now_store)
  show thesis
  proof (cases "get_closest_balance_projection acc asset now (w_store w)")
    case None
    then obtain w2 where "compute_balance env acc asset w1 = (Inr v, w2)" "w' = w2\<lparr>w_spawned := w_spawned w2 @ [(acc, asset)]\<rparr>"
      using rest unfolding st by (auto simp: lbind_Inr spawn_append_def)
    then show thesis using compute_balance_value(1)[OF h] st live by fastforce
  next
    case (Some p)
    let ?lo = "Some (saturating_add (bp_watermark p) 1)"
    obtain tail n w2 where t: "fold_tail env acc asset ?lo None w1 = (Inr (tail, n), w2)"
      and r: "lbind (if n \<ge> snapshot_interval l then spawn_append acc asset else lreturn ()) (\<lambda>_. overflow_action (checked_add (bp_balance p) tail)) w2 = (Inr v, w')"
      using rest unfolding st Some by (auto simp: lbind_Inr)
    have "w2 = w1" "tail = log_sum (w_store w) (acc, asset) (in_window ?lo None)"
      using fold_tail_value[OF t] inv hist h len st by simp_all
    moreover have "w_store w' = w_store w2" "v = bp_balance p + tail"
      using r by (cases "checked_add (bp_balance p) tail";
        auto simp: lbind_def spawn_append_def overflow_action_def map_err_def checked_add_Inr split: if_splits)+
    ultimately show thesis using cached[OF _ Some] st by simp
  qed
qed

lemma balance_exact:
  assumes "ledger_balance env l acc asset w = (Inr v, w')" "store_inv sha (w_store w)"
    and hist: "history_inv (w_store w)" and "hash_order_ok (le_hash env)" "length (ms_transfers (w_store w)) < 2 ^ 32"
    and pts: "points_exact (w_store w)"
  shows "w_store w' = w_store w \<and> v = live_balance (w_store w) acc asset"
  using assms(1-5)
proof (cases rule: ledger_balance_value)
  case (cached p now)
  have "v = log_sum (w_store w) (acc, asset) (in_window None None)"
    using cached(3) closest_point(1)[OF cached(2) pts]
      window_split[where lo = None and hi = None and m = "saturating_add (bp_watermark p) 1"] by simp
  also have "in_window None None = (\<lambda>_. True)" by (simp add: fun_eq_iff in_window_def)
  finally show ?thesis using cached(1) hist by (simp add: history_inv_def)
qed simp

text \<open>Appending a cache point keeps the points exact.\<close>

lemma point_same:
  assumes "ms_postings st' = ms_postings st" "ms_transfers st' = ms_transfers st"
  shows "point_exact st' = point_exact st"
  using assms by (simp add: fun_eq_iff point_exact_def log_sum_def record_delta_def[abs_def] rows_def)

lemma projection_appended:
  assumes pts: "points_exact st" and new: "bal = log_sum st (acc, asset) (in_window None (Some (saturating_add wm 1)))"
  shows "points_exact (append_balance_projection c acc asset bal wm st)"
proof -
  obtain i g where ai: "ai_next c (ms_autoid st) = (i, g)" by (cases "ai_next c (ms_autoid st)")
  define old where "old = (case map_of (ms_projections st) (acc, asset) of Some ps \<Rightarrow> ps | None \<Rightarrow> [])"
  let ?new = "\<lparr>bp_id = i, bp_account = acc, bp_asset = asset, bp_balance = bal, bp_watermark = wm\<rparr>"
  let ?st = "append_balance_projection c acc asset bal wm st"
  let ?ok = "\<lambda>(k, ps). list_all (\<lambda>p. (bp_account p, bp_asset p) = k \<and> point_exact st p) ps"
  have st: "?st = st\<lparr>ms_projections := AList.update (acc, asset) (old @ [?new]) (ms_projections st), ms_autoid := g\<rparr>"
    by (simp add: append_balance_projection_def ai old_def)
  have "?ok ((acc, asset), old)" unfolding old_def
    using points_at[OF pts, of "(acc, asset)"] by (cases "map_of (ms_projections st) (acc, asset)") (simp_all add: list_all_iff)
  then have "?ok ((acc, asset), old @ [?new])" using new by (simp add: point_exact_def)
  moreover have "set (AList.update k v xs) \<subseteq> insert (k, v) (set xs)" for k :: "account_id \<times> asset_id" and v :: "balance_projection list" and xs
    by (induction xs) auto
  ultimately have "list_all ?ok (AList.update (acc, asset) (old @ [?new]) (ms_projections st))"
    using pts unfolding points_exact_def list_all_iff by blast
  moreover have "point_exact ?st = point_exact st" unfolding st by (rule point_same) simp_all
  ultimately show ?thesis unfolding points_exact_def st by simp
qed

lemma append_tail_exact:
  assumes inv: "store_inv sha (w_store w)" and hist: "history_inv (w_store w)" and h: "hash_order_ok (le_hash env)"
    and len: "length (ms_transfers (w_store w)) < 2 ^ 32" and pts: "points_exact (w_store w)"
    and snap: "snap + log_sum (w_store w) (acc, asset) (in_window lo (Some (saturating_add wm 1))) =
      log_sum (w_store w) (acc, asset) (in_window None (Some (saturating_add wm 1)))"
  shows "points_exact (w_store (snd (lbind (fold_tail env acc asset lo (Some (saturating_add wm 1))) (\<lambda>(fld, n).
           if n < mn then lreturn ()
           else lbind (overflow_action (checked_add snap fld)) (\<lambda>bal.
                lbind (read_clock env) (\<lambda>c. lwrite (\<lambda>st. ((), append_balance_projection c acc asset bal wm st))))) w)))"
proof (cases "fold_tail env acc asset lo (Some (saturating_add wm 1)) w")
  case (Pair r w1)
  show ?thesis
  proof (cases r)
    case (Inl err)
    then show ?thesis using pts Pair readsD[OF reads_fold_tail Pair] by (simp add: lbind_def)
  next
    case (Inr dn)
    then obtain d n where dn: "fold_tail env acc asset lo (Some (saturating_add wm 1)) w = (Inr (d, n), w1)" using Pair by (cases dn) simp
    have v: "w1 = w" "d = log_sum (w_store w) (acc, asset) (in_window lo (Some (saturating_add wm 1)))"
      using fold_tail_value[OF dn inv hist h len] by simp_all
    show ?thesis
    proof (cases "n < mn")
      case True
      then show ?thesis using pts by (simp add: lbind_def dn v(1))
    next
      case False
      then show ?thesis using pts projection_appended[OF pts, of "snap + d" acc asset wm] snap
        by (cases "checked_add snap d") (simp_all add: lbind_def dn v overflow_action_def map_err_def checked_add_Inr read_clock_def lwrite_def)
    qed
  qed
qed

lemma append_cache_point_exact:
  assumes inv: "store_inv sha (w_store w)" and hist: "history_inv (w_store w)" and h: "hash_order_ok (le_hash env)"
    and len: "length (ms_transfers (w_store w)) < 2 ^ 32" and pts: "points_exact (w_store w)"
  shows "points_exact (w_store (snd (append_cache_point env grace mn deb acc asset w)))"
proof (cases "now_millis env w")
  case (Pair r w1)
  have st: "w_store w1 = w_store w" using Pair by (rule now_store)
  note tail = append_tail_exact[of sha w1, unfolded st, OF inv hist h len pts]
  show ?thesis
  proof (cases r)
    case (Inl err)
    then show ?thesis using pts st by (simp add: append_cache_point_def lbind_def Pair)
  next
    case (Inr now)
    let ?wm = "saturating_sub now grace"
    show ?thesis
    proof (cases "get_closest_balance_projection acc asset ?wm (w_store w)")
      case None
      have "cent_ZERO + log_sum (w_store w) (acc, asset) (in_window None (Some (saturating_add ?wm 1))) =
        log_sum (w_store w) (acc, asset) (in_window None (Some (saturating_add ?wm 1)))" by (simp add: cent_ZERO_def)
      from tail[OF this, of mn] show ?thesis
        unfolding append_cache_point_def Let_def lbind_def[of "now_millis env"] lbind_def[of "lget _"] Pair Inr by (simp add: st None)
    next
      case (Some p)
      let ?m = "saturating_add (bp_watermark p) 1"
      have "?m \<le> saturating_add ?wm 1" using closest_point(2)[OF Some pts] by (auto simp: saturating_add_def sat_i64_def i64_min_def i64_max_def)
      then have "bp_balance p + log_sum (w_store w) (acc, asset) (in_window (Some ?m) (Some (saturating_add ?wm 1))) =
        log_sum (w_store w) (acc, asset) (in_window None (Some (saturating_add ?wm 1)))"
        using closest_point(1)[OF Some pts] window_split[where lo = None and hi = "Some (saturating_add ?wm 1)" and m = ?m] by simp
      from tail[OF this, of mn] show ?thesis using pts
        unfolding append_cache_point_def Let_def lbind_def[of "now_millis env"] lbind_def[of "lget _"] Pair Inr by (simp add: st Some)
    qed
  qed
qed

text \<open>A commit keeps the points exact when its timestamp is past every watermark of the accounts it touches.\<close>

definition past_watermarks :: "mem_store \<Rightarrow> i64 \<Rightarrow> bool" where
  "past_watermarks st ts \<longleftrightarrow> list_all (\<lambda>(k, ps). list_all (\<lambda>p. saturating_add (bp_watermark p) 1 \<le> ts) ps) (ms_projections st)"

lemma ready_points:
  assumes rdy: "commit_ready env st input s ts" and hist: "history_inv st" and pts: "points_exact st"
    and past: "past_watermarks st ts"
  shows "points_exact (commit_apply c (req_of env input s ts) st)"
proof -
  let ?st = "commit_apply c (req_of env input s ts) st"
  have d: "keys_distinct (ms_transfers st)" using hist by (simp add: history_inv_def)
  have ts: "er_created_at (cr_record (req_of env input s ts)) = ts"
    by (simp add: req_of_def build_request_def Let_def)
  have same: "point_exact ?st p = point_exact st p" if "saturating_add (bp_watermark p) 1 \<le> ts" for p
    using that by (simp add: point_exact_def ready_log_sum[OF rdy d] in_window_def ts)
  have "ms_projections ?st = ms_projections st" by (simp add: commit_apply_def split_beta Let_def)
  then show ?thesis using pts past same unfolding points_exact_def past_watermarks_def by (fastforce simp: list_all_iff)
qed

lemma commit_keeps_points:
  assumes x: "externs_ok (le_ext env)" and h: "hash_order_ok (le_hash env)" and inv: "store_inv (x_sha (le_ext env)) (w_store w)"
    and sm: "small (w_store w')" and run: "ledger_commit_envelope env e0 w = (Inr r, w')"
    and new: "map_of (ms_transfers (w_store w)) (r_transfer_id r) = None" and hist: "history_inv (w_store w)" and pts: "points_exact (w_store w)"
    and rec: "map_of (ms_transfers (w_store w')) (r_transfer_id r) = Some rec" "past_watermarks (w_store w) (er_created_at rec)"
  shows "points_exact (w_store w')"
  using x h inv sm run new
proof (rule commit_envelope_ready)
  fix e s ts c
  assume f: "pin_snapshots env e0 w = (Inr e, w)" "r_transfer_id r = envelope_id (x_sha (le_ext env)) e"
    "get_postings (e_consumes e) (w_store w) = Inr (ls_consumed_postings s)" "commit_ready env (w_store w) (plan_input_of e s) s ts"
    "w_store w' = commit_apply c (req_of env (plan_input_of e s) s ts) (w_store w)"
  have "pi_envelope (plan_input_of e s) = e" by (simp add: plan_input_of_def)
  then have "er_created_at rec = ts"
    using rec(1) by (auto simp: f(2,5) commit_apply_fields req_fields[OF f(4)] tid_of_def)
  then show ?thesis unfolding f(5) using ready_points[OF f(4) hist pts] rec(2) by simp
qed

end
