(* ===== verification/Lifecycle_Laws.thy ===== *)
theory Lifecycle_Laws
  imports Ledger_Invariants
begin

text \<open>
  Freeze, unfreeze and close as the user sees them: each appends one version with the
  changed flags, and nothing else changes but the event log. The store's transition also
  answers requests computed from an older version.
\<close>

section \<open>A transition that applies\<close>

lemma commit_transition_applies:
  assumes vs: "map_of (ms_accounts st) (acc_id nxt) = Some vs" "vs \<noteq> []" "\<not> is_closed (last vs)"
    "checked_succ64 (acc_version (last vs)) = Some (acc_version nxt)"
  shows "commit_transition c nxt ev st = (Inr Applied, with_event c ev (st\<lparr>ms_accounts := AList.update (acc_id nxt) (vs @ [nxt]) (ms_accounts st)\<rparr>))"
proof -
  have "acc_version nxt = 1 + acc_version (last vs)" "1 + acc_version (last vs) \<noteq> 0"
    using vs(4) by (auto simp: checked_succ64_def add_eq_0_iff add.commute split: if_splits)
  then have "unat (acc_version nxt) = Suc (unat (acc_version (last vs)))" using unatSuc by metis
  then have "\<not> acc_version (last vs) \<ge> acc_version nxt" by (simp add: word_le_nat_alt)
  then show ?thesis using vs by (simp add: commit_transition_def last_opt_def Let_def)
qed

lemma transition_run:
  assumes inv: "store_inv sha (w_store w)" and vs: "map_of (ms_accounts (w_store w)) aid = Some vs" "last vs = a" "\<not> is_closed a"
    and nxt: "next_version mutate a = Some nxt" and m: "mutate \<in> {freeze_flags, unfreeze_flags, close_flags}"
    and clock: "0 \<le> le_clock env (w_tick w)"
  obtains c ev w' where "transition env aid mutate mk w = (Inr (), w')" "ev_kind ev = mk aid (acc_version nxt)"
    "w_store w' = with_event c ev ((w_store w)\<lparr>ms_accounts := AList.update aid (vs @ [nxt]) (ms_accounts (w_store w))\<rparr>)"
proof -
  have log: "log_ok aid vs" using inv vs(1) by (auto simp: store_inv_def accounts_ok_def)
  then have ne: "vs \<noteq> []" and aid: "acc_id a = aid" using vs(2) unfolding log_ok_def by (blast, metis last_in_set)
  note nf = next_version_fields[OF nxt m]
  have head: "get_account aid (w_store w) = Inr a" using vs(1,2) ne by (simp add: get_account_def head_version_def last_opt_def)
  let ?ts = "sint (word_of_int (le_clock env (w_tick w)) :: u64)"
  let ?ev = "\<lparr>ev_seq = 0, ev_timestamp = ?ts, ev_kind = mk aid (acc_version nxt)\<rparr>"
  let ?c = "le_clock env (Suc (w_tick w))"
  have "commit_transition ?c nxt ?ev (w_store w) =
      (Inr Applied, with_event ?c ?ev ((w_store w)\<lparr>ms_accounts := AList.update (acc_id nxt) (vs @ [nxt]) (ms_accounts (w_store w))\<rparr>))"
    by (rule commit_transition_applies) (use vs ne nf aid in simp_all)
  then have "transition env aid mutate mk w = (Inr (), w\<lparr>w_tick := Suc (Suc (w_tick w)),
      w_store := with_event ?c ?ev ((w_store w)\<lparr>ms_accounts := AList.update aid (vs @ [nxt]) (ms_accounts (w_store w))\<rparr>)\<rparr>)"
    using vs(3) nxt clock nf(1) aid
    by (simp add: transition_def lbind_def head now_millis_def read_clock_def lwrite_err_def Let_def)
  then show thesis by (rule that[where ev = ?ev]) simp_all
qed

text \<open>One version with the given status is appended to the log of one account, and no money moves.\<close>

definition version_appended :: "mem_store \<Rightarrow> account_id \<Rightarrow> account list \<Rightarrow> bool \<Rightarrow> bool \<Rightarrow> mem_store \<Rightarrow> bool" where
  "version_appended st aid vs frozen closed st' \<longleftrightarrow> ms_postings st' = ms_postings st \<and> ms_transfers st' = ms_transfers st \<and>
     (\<exists>nxt. map_of (ms_accounts st') = (map_of (ms_accounts st))(aid \<mapsto> vs @ [nxt]) \<and> acc_version nxt = acc_version (last vs) + 1 \<and>
        is_frozen nxt = frozen \<and> is_closed nxt = closed)"

lemma transition_appends:
  assumes inv: "store_inv sha (w_store w)" and vs: "map_of (ms_accounts (w_store w)) aid = Some vs" "\<not> is_closed (last vs)"
    "acc_version (last vs) \<noteq> - 1" and clock: "0 \<le> le_clock env (w_tick w)"
    and m: "(mutate, frozen, closed) \<in> {(freeze_flags, True, False), (unfreeze_flags, False, False), (close_flags, False, True)}"
  obtains w' where "transition env aid mutate mk w = (Inr (), w')" "version_appended (w_store w) aid vs frozen closed (w_store w')"
proof -
  have m': "mutate \<in> {freeze_flags, unfreeze_flags, close_flags}" using m by auto
  obtain nxt where nxt: "next_version mutate (last vs) = Some nxt" using vs(3) by (simp add: next_version_def checked_succ64_def)
  note nf = next_version_fields[OF nxt m']
  obtain c ev w' where w': "transition env aid mutate mk w = (Inr (), w')"
    "w_store w' = with_event c ev ((w_store w)\<lparr>ms_accounts := AList.update aid (vs @ [nxt]) (ms_accounts (w_store w))\<rparr>)"
    using transition_run[OF inv vs(1) refl vs(2) nxt m' clock] by metis
  have "is_frozen nxt = frozen \<and> is_closed nxt = closed" using m vs(2) nf(4)
    by (auto simp: is_frozen_def is_closed_def freeze_flags_def unfreeze_flags_def close_flags_def flag_bits flag_updates)
  moreover have "acc_version nxt = acc_version (last vs) + 1" using nf(3) vs(3) by (simp add: checked_succ64_def)
  ultimately have "version_appended (w_store w) aid vs frozen closed (w_store w')"
    by (auto simp: version_appended_def w'(2) with_event_fields update_conv')
  then show thesis by (rule that[OF w'(1)])
qed

text \<open>The emptiness test of \<open>close\<close> is about the live postings of exactly that account.\<close>

lemma has_live_iff:
  assumes "hash_order_ok (le_hash env)"
  shows "has_live_postings env aid w = (Inr (\<exists>p \<in> set (postings_in FilterLive (ms_postings (w_store w))). p_owner p = aid), w)"
proof -
  have "posting_matches (aid_id aid) (Some (aid_sub aid)) None = (\<lambda>p. p_owner p = aid)"
    by (rule ext) (auto simp: posting_matches_def account_id.expand)
  then have "set (get_postings_by_account (le_hash env) (aid_id aid) (Some (aid_sub aid)) None FilterLive (w_store w))
      = {p \<in> set (postings_in FilterLive (ms_postings (w_store w))). p_owner p = aid}"
    using assms by (auto simp: get_postings_by_account_def hash_order_ok_def dest!: arg_cong[where f = set_mset] simp flip: set_mset_mset)
  then show ?thesis unfolding has_live_postings_def lbind_def
    by (simp flip: set_empty) blast
qed

section \<open>Two transitions computed from one version\<close>

lemma append_event_locked_events:
  "fst (append_event_locked c ev (evs, g)) = (if find_event (ev_kind ev) evs = None
     then evs @ [\<lparr>ev_seq = word_of_int (fst (ai_next c g)), ev_timestamp = ev_timestamp ev, ev_kind = ev_kind ev\<rparr>] else evs)"
  by (auto simp: append_event_locked_def split_beta Let_def split: option.split)

lemma with_event_events: "ms_events (with_event c ev st) = fst (append_event_locked c ev (ms_events st, ms_autoid st))"
  by (simp add: with_event_def split_beta Let_def)

lemma find_event_None:
  "event_dedup_key k = Some key \<Longrightarrow> find_event k evs = None \<longleftrightarrow> (\<forall>e \<in> set evs. event_dedup_key (ev_kind e) \<noteq> Some key)"
  by (auto simp: find_event_def find_None_iff)

lemma find_event_appended:
  assumes "event_dedup_key k = Some key" "event_dedup_key (ev_kind ev) = Some key"
  shows "find_event k (ms_events (with_event c ev st)) \<noteq> None"
  unfolding with_event_events append_event_locked_events find_event_None[OF assms(1)] find_event_None[OF assms(2)]
  using assms(2) by auto

lemma with_event_known: "find_event (ev_kind ev) (ms_events st) \<noteq> None \<Longrightarrow> with_event c ev st = st"
  by (auto simp: with_event_def append_event_locked_def)

lemma stale_transition:
  assumes "head_version st (acc_id nxt) = Some cur" "\<not> is_closed cur" "acc_version cur \<ge> acc_version nxt"
  shows "commit_transition c nxt ev st = (Inr AlreadyApplied, with_event c ev st)"
  using assms by (auto simp: commit_transition_def head_version_def Let_def bind_eq_Some_conv)

lemma second_transition_lost:
  assumes vs: "map_of (ms_accounts st) aid = Some vs" "vs \<noteq> []" "last vs = a" "acc_id a = aid" "\<not> is_closed a"
    and m: "mutate \<in> {freeze_flags, unfreeze_flags}" and n1: "next_version mutate a = Some n1" and n2: "next_version close_flags a = Some n2"
    and ev: "event_dedup_key (ev_kind e1) = Some (account_version_key aid (acc_version n1))" "ev_kind e2 = EvAccountClosed aid (acc_version n2)"
    and st1_def: "st1 = snd (commit_transition c1 n1 e1 st)"
  shows "fst (commit_transition c1 n1 e1 st) = Inr Applied" "commit_transition c2 n2 e2 st1 = (Inr AlreadyApplied, st1)"
    "head_version st1 aid = Some n1 \<and> \<not> is_closed n1"
proof -
  have f1: "acc_id n1 = aid" "checked_succ64 (acc_version a) = Some (acc_version n1)" "acc_flags n1 = mutate (acc_flags a)"
    using next_version_fields[OF n1] m vs(4) by auto
  have f2: "acc_id n2 = aid" "acc_version n2 = acc_version n1"
    using next_version_fields[OF n2] vs(4) f1(2) by auto
  have run: "commit_transition c1 n1 e1 st = (Inr Applied, with_event c1 e1 (st\<lparr>ms_accounts := AList.update aid (vs @ [n1]) (ms_accounts st)\<rparr>))"
    using commit_transition_applies[of st n1 vs c1 e1] vs f1 by simp
  then show "fst (commit_transition c1 n1 e1 st) = Inr Applied" by simp
  have st1: "st1 = with_event c1 e1 (st\<lparr>ms_accounts := AList.update aid (vs @ [n1]) (ms_accounts st)\<rparr>)" by (simp add: st1_def run)
  have open1: "\<not> is_closed n1" using vs(5) m f1(3)
    by (auto simp: is_closed_def freeze_flags_def unfreeze_flags_def flag_updates flag_bits)
  have head: "head_version st1 aid = Some n1" by (simp add: st1 head_version_def with_event_fields last_opt_def)
  with open1 show "head_version st1 aid = Some n1 \<and> \<not> is_closed n1" by simp
  have "find_event (ev_kind e2) (ms_events st1) \<noteq> None"
    unfolding st1 by (rule find_event_appended[OF _ ev(1)]) (simp add: ev(2) f2)
  then have "with_event c2 e2 st1 = st1" by (rule with_event_known)
  then show "commit_transition c2 n2 e2 st1 = (Inr AlreadyApplied, st1)"
    using stale_transition[of st1 n2 n1 c2 e2] head open1 f2 by simp
qed

end
