(* ===== verification/Event_Laws.thy ===== *)
theory Event_Laws
  imports Lifecycle_Laws
begin

text \<open>
  The event log of a reachable store: it only grows, it holds at most one event for each
  dedup key, a committed transfer and only a committed transfer has its event, and every
  version of an account after the first has one.
\<close>

definition dedup_keys :: "mem_store \<Rightarrow> rstr list" where
  "dedup_keys st = List.map_filter (\<lambda>e. event_dedup_key (ev_kind e)) (ms_events st)"

definition events_inv :: "mem_store \<Rightarrow> bool" where
  "events_inv st \<longleftrightarrow> distinct (dedup_keys st) \<and>
     (\<forall>tid. (\<exists>e \<in> set (ms_events st). ev_kind e = TransferCommitted tid) \<longleftrightarrow> map_of (ms_transfers st) tid \<noteq> None) \<and>
     (\<forall>aid vs n. map_of (ms_accounts st) aid = Some vs \<longrightarrow> 0 < n \<longrightarrow> n < length vs \<longrightarrow>
        account_version_key aid (acc_version (vs ! n)) \<in> set (dedup_keys st))"

lemma set_dedup_keys: "key \<in> set (dedup_keys st) \<longleftrightarrow> (\<exists>e \<in> set (ms_events st). event_dedup_key (ev_kind e) = Some key)"
proof -
  have "key \<in> set (List.map_filter f xs) \<longleftrightarrow> (\<exists>x \<in> set xs. f x = Some key)" for f :: "ledger_event \<Rightarrow> rstr option" and xs
    by (induction xs) (auto simp: map_filter_simps split: option.splits)
  then show ?thesis by (simp add: dedup_keys_def)
qed

lemma events_inv_new: "events_inv mem_store_new"
  by (simp add: events_inv_def mem_store_new_def dedup_keys_def map_filter_simps)

text \<open>Appending an event that is not a commit, and appending the commit event.\<close>

lemma dedup_keys_append:
  "fst (append_event_locked c ev (ms_events st, ms_autoid st)) = ms_events st' \<Longrightarrow> distinct (dedup_keys st) \<Longrightarrow>
   distinct (dedup_keys st') \<and> set (dedup_keys st') = set (dedup_keys st) \<union> set_option (event_dedup_key (ev_kind ev))"
proof -
  assume ev: "fst (append_event_locked c ev (ms_events st, ms_autoid st)) = ms_events st'" and d: "distinct (dedup_keys st)"
  show ?thesis
  proof (cases "event_dedup_key (ev_kind ev)")
    case None
    then have "find_event (ev_kind ev) (ms_events st) = None" by (simp add: find_event_def)
    then have "dedup_keys st' = dedup_keys st" using None ev
      by (simp add: dedup_keys_def append_event_locked_events map_filter_def flip: ev)
    then show ?thesis using None d by simp
  next
    case (Some key)
    show ?thesis
    proof (cases "find_event (ev_kind ev) (ms_events st) = None")
      case True
      then have "dedup_keys st' = dedup_keys st @ [key]" using Some
        by (simp add: dedup_keys_def append_event_locked_events map_filter_def flip: ev)
      moreover have "key \<notin> set (dedup_keys st)" using True find_event_None[OF Some] by (auto simp: set_dedup_keys)
      ultimately show ?thesis using d Some by simp
    next
      case False
      then have "dedup_keys st' = dedup_keys st" by (auto simp: dedup_keys_def append_event_locked_events simp flip: ev)
      moreover have "key \<in> set (dedup_keys st)" using False find_event_None[OF Some] by (auto simp: set_dedup_keys)
      ultimately show ?thesis using d Some by (simp add: insert_absorb)
    qed
  qed
qed

lemma events_append_kinds:
  assumes "fst (append_event_locked c ev (evs, g)) = evs'" "ev_kind ev \<noteq> TransferCommitted tid"
  shows "(\<exists>e \<in> set evs'. ev_kind e = TransferCommitted tid) \<longleftrightarrow> (\<exists>e \<in> set evs. ev_kind e = TransferCommitted tid)"
  using assms(2) by (auto simp: append_event_locked_events simp flip: assms(1))

lemma events_inv_same:
  assumes "events_inv st" "ms_events st' = ms_events st" "ms_transfers st' = ms_transfers st"
    "\<And>aid vs n. map_of (ms_accounts st') aid = Some vs \<Longrightarrow> 0 < n \<Longrightarrow> n < length vs \<Longrightarrow> map_of (ms_accounts st) aid = Some vs"
  shows "events_inv st'"
  using assms by (fastforce simp: events_inv_def dedup_keys_def)

lemma events_inv_other_event:
  assumes inv: "events_inv st" and ev: "fst (append_event_locked c ev (ms_events st, ms_autoid st)) = ms_events st'"
    and kind: "\<And>tid. ev_kind ev \<noteq> TransferCommitted tid" and tr: "ms_transfers st' = ms_transfers st"
    and acc: "\<And>aid vs n. map_of (ms_accounts st') aid = Some vs \<Longrightarrow> 0 < n \<Longrightarrow> n < length vs \<Longrightarrow>
      (\<exists>us. map_of (ms_accounts st) aid = Some us \<and> n < length us \<and> us ! n = vs ! n) \<or>
      event_dedup_key (ev_kind ev) = Some (account_version_key aid (acc_version (vs ! n)))"
  shows "events_inv st'"
proof -
  have d: "distinct (dedup_keys st)" using inv by (simp add: events_inv_def)
  note keys = dedup_keys_append[OF ev d]
  show ?thesis unfolding events_inv_def
  proof (intro conjI allI impI)
    show "distinct (dedup_keys st')" using keys by simp
    show "(\<exists>e \<in> set (ms_events st'). ev_kind e = TransferCommitted tid) \<longleftrightarrow> map_of (ms_transfers st') tid \<noteq> None" for tid
      using events_append_kinds[OF ev kind] inv by (simp add: events_inv_def tr)
    show "account_version_key aid (acc_version (vs ! n)) \<in> set (dedup_keys st')"
      if vs: "map_of (ms_accounts st') aid = Some vs" "0 < n" "n < length vs" for aid vs n
      using acc[OF vs]
    proof (elim disjE exE conjE)
      fix us assume us: "map_of (ms_accounts st) aid = Some us" "n < length us" "us ! n = vs ! n"
      then have "account_version_key aid (acc_version (us ! n)) \<in> set (dedup_keys st)"
        using inv vs(2) unfolding events_inv_def by blast
      then show ?thesis using keys us(3) by simp
    qed (use keys in simp)
  qed
qed

lemma commit_key_unique: "event_dedup_key k = Some (hex (env_hash tid)) \<Longrightarrow> k = TransferCommitted tid"
  using dedup_key_subject[of k _ "TransferCommitted tid"] by (cases k) auto

lemma events_inv_commit:
  assumes inv: "events_inv st" and req: "ev_kind (cr_event req) = TransferCommitted (cr_transfer_id req)"
    and new: "map_of (ms_transfers st) (cr_transfer_id req) = None"
  shows "events_inv (commit_apply c req st)"
proof -
  let ?st = "commit_apply c req st" and ?tid = "cr_transfer_id req"
  have ev: "fst (append_event_locked c (cr_event req) (ms_events st, ms_autoid st)) = ms_events ?st"
    by (simp add: commit_apply_def split_beta Let_def)
  have d: "distinct (dedup_keys st)" using inv by (simp add: events_inv_def)
  have "\<not> (\<exists>e \<in> set (ms_events st). ev_kind e = TransferCommitted ?tid)" using inv new by (simp add: events_inv_def)
  then have "find_event (ev_kind (cr_event req)) (ms_events st) = None"
    by (auto simp: find_event_def find_None_iff req dest: commit_key_unique)
  then have kinds: "ev_kind ` set (ms_events ?st) = insert (TransferCommitted ?tid) (ev_kind ` set (ms_events st))"
    by (simp add: append_event_locked_events req flip: ev)
  have "(\<exists>e \<in> set (ms_events ?st). ev_kind e = TransferCommitted tid) \<longleftrightarrow> tid = ?tid \<or> (\<exists>e \<in> set (ms_events st). ev_kind e = TransferCommitted tid)" for tid
  proof -
    have ex: "(\<exists>e \<in> set evs. ev_kind e = k) \<longleftrightarrow> k \<in> ev_kind ` set evs" for evs :: "ledger_event list" and k by auto
    show ?thesis unfolding ex kinds by simp
  qed
  then show ?thesis using inv dedup_keys_append[OF ev d]
    by (simp add: events_inv_def commit_apply_fields)
qed

lemma step_events:
  assumes "store_step env st st'" "events_inv st" "accounts_ok st"
  shows "events_inv st'"
  using assms(1)
proof cases
  case (step_commit input s c ts)
  let ?req = "build_request (pi_envelope input) s (build_plan (x_sha (le_ext env)) (pi_envelope input)) ts"
  have "ev_kind (cr_event ?req) = TransferCommitted (cr_transfer_id ?req)" by (simp add: build_request_def Let_def)
  then show ?thesis using step_commit(1) assms(2) events_inv_commit[of st ?req c]
    by (auto simp: commit_envelope_def split: option.splits sum.splits commit_exit.splits)
next
  case (step_transition aid vs a mutate mk nxt ev c)
  have m: "mutate \<in> {freeze_flags, unfreeze_flags, close_flags}" using step_transition(5) by auto
  note nf = next_version_fields[OF step_transition(6) m]
  have aid: "acc_id nxt = aid" using nf(1) step_transition(2,3) assms(3) unfolding accounts_ok_def log_ok_def by metis
  have key: "event_dedup_key (ev_kind ev) = Some (account_version_key aid (acc_version nxt))" "\<And>tid. ev_kind ev \<noteq> TransferCommitted tid"
    using step_transition(5,7) by auto
  from step_transition(2) have "map_of (ms_accounts st) (acc_id nxt) = Some vs" by (simp add: aid)
  then show ?thesis
  proof (cases rule: commit_transition_cases[of st nxt vs c ev])
    case same
    then show ?thesis using step_transition(1) assms(2) by simp
  next
    case event
    then show ?thesis using step_transition(1) key
      by (intro events_inv_other_event[OF assms(2), of c ev]) (simp_all add: with_event_events with_event_fields)
  next
    case append
    show ?thesis unfolding step_transition(1) append(4)
      by (rule events_inv_other_event[OF assms(2), of c ev])
        (use key step_transition(2) in \<open>auto simp: with_event_events with_event_def split_beta Let_def aid nth_append less_Suc_eq split: if_splits\<close>)
  qed
next
  case (step_append_event ev aid c)
  show ?thesis unfolding step_append_event(1)
    by (rule events_inv_other_event[OF assms(2), of c ev])
      (use step_append_event(2) in \<open>auto simp: append_event_def append_event_locked_events split_beta Let_def split: option.splits\<close>)
next
  case (step_create_account a)
  show ?thesis unfolding step_create_account
    by (rule events_inv_same[OF assms(2)]) (auto simp: create_account_def contains_key_def split: if_splits)
next
  case (step_create_book b)
  show ?thesis unfolding step_create_book
    by (rule events_inv_same[OF assms(2)]) (auto simp: create_book_def split: if_splits)
next
  case (step_projection c acc asset bal wm)
  show ?thesis unfolding step_projection
    by (rule events_inv_same[OF assms(2)]) (auto simp: append_balance_projection_def split_beta Let_def)
qed

lemma reachable_events:
  assumes "reachable env st" "small st" "hash_order_ok (le_hash env)"
  shows "events_inv st"
  using assms(1,2) unfolding reachable_def
proof (induction rule: rtranclp_induct)
  case base
  show ?case by (rule events_inv_new)
next
  case (step st st')
  have "small st" by (rule step_small[OF step.hyps(2) step.prems])
  then have "accounts_ok st" using reachable_inv[of env st] step.hyps(1) assms(3) by (simp add: reachable_def store_inv_def)
  then show ?case using step_events[OF step.hyps(2)] step.IH \<open>small st\<close> by blast
qed

end
