(* ===== verification/Scenario.thy ===== *)
theory Scenario
  imports Ledger_Api Balance_Laws Event_Laws
begin

text \<open>
  A small concrete run of the ledger: a toy hash and clock, a bank that permits
  overdraft, a customer that does not, and a deposit of 100.
\<close>

definition demo_sha :: sha256 where
  "demo_sha bs = (if length bs = 32 then bs else replicate 32 (word_of_nat (length bs)))"

definition demo_env :: ledger_env where
  "demo_env = \<lparr>le_ext = \<lparr>x_sha = demo_sha, x_asset_order = id, x_key_order = id\<rparr>,
     le_hash = \<lparr>ho_postings = id, ho_assets = id, ho_records = id, ho_accounts = id, ho_books = id\<rparr>,
     le_clock = (\<lambda>n. 1700000000000 + int n)\<rparr>"

lemma demo_env_ok: "externs_ok (le_ext demo_env)" "hash_order_ok (le_hash demo_env)"
  by (simp_all add: demo_env_def externs_ok_def hash_order_ok_def)

lemma demo_env_fields [simp]:
  "x_sha (le_ext demo_env) = demo_sha" "x_asset_order (le_ext demo_env) xs = xs" "x_key_order (le_ext demo_env) ks = ks"
  "ho_postings (le_hash demo_env) ps = ps" "ho_assets (le_hash demo_env) xs = xs" "ho_records (le_hash demo_env) rs = rs"
  "ho_accounts (le_hash demo_env) as = as" "ho_books (le_hash demo_env) bs = bs" "le_clock demo_env n = 1700000000000 + int n"
  by (simp_all add: demo_env_def)

lemma double_demo_sha: "double_sha256 demo_sha d = demo_sha d"
  by (simp add: double_sha256_def demo_sha_def)

abbreviation demo_usd :: asset_id where "demo_usd \<equiv> AssetId 1"
abbreviation bank_id :: account_id where "bank_id \<equiv> AccountId 1 0"
abbreviation alice_id :: account_id where "alice_id \<equiv> AccountId 2 0"

definition bank :: account where
  "bank = \<lparr>acc_id = bank_id, acc_version = 1, acc_flags = 0, acc_book = BookId 0, acc_metadata = []\<rparr>"

definition alice :: account where
  "alice = \<lparr>acc_id = alice_id, acc_version = 1, acc_flags = 8, acc_book = BookId 0, acc_metadata = []\<rparr>"

lemma demo_accounts: "account_new bank_id = bank" "debit_must_not_exceed_credit alice_id = alice"
  by (simp_all add: account_new_def account_new_ref_def debit_must_not_exceed_credit_def bank_def alice_def flags_empty_def
      DEFAULT_BOOK_def metadata_new_def flags_insert_def DEBIT_MUST_NOT_EXCEED_CREDIT_def Let_def)

lemma demo_flags [simp]:
  "forbids_overdraft alice" "\<not> forbids_overdraft bank" "\<not> is_frozen alice" "\<not> is_closed alice" "\<not> is_frozen bank" "\<not> is_closed bank"
  "acc_id alice = alice_id" "acc_id bank = bank_id" "acc_version alice = 1" "acc_version bank = 1"
  by (simp_all add: alice_def bank_def forbids_overdraft_def is_frozen_def is_closed_def flags_contains_def
      DEBIT_MUST_NOT_EXCEED_CREDIT_def FROZEN_def CLOSED_def)

definition opened :: world where
  "opened = snd (ledger_create_account demo_env alice (snd (ledger_create_account demo_env bank world_new)))"

lemmas action_eval = lbind_def lread_def lwrite_def lwrite_err_def read_clock_def now_millis_def map_err_def split_beta Let_def
  ok_or_def rbind_def

lemma opened_eq: "opened = \<lparr>w_store = mem_store_new\<lparr>ms_accounts := [(bank_id, [bank]), (alice_id, [alice])],
    ms_events := ms_events (w_store opened), ms_autoid := ms_autoid (w_store opened)\<rparr>, w_tick = 4, w_spawned = []\<rparr>"
  by (simp add: opened_def ledger_create_account_def action_eval world_new_def mem_store_new_def create_account_def contains_key_def
    append_event_def find_event_def)

definition demo_deposit :: transfer where
  "demo_deposit = \<lparr>t_movements = [\<lparr>m_from = bank_id, m_to = bank_id, m_asset = demo_usd, m_amount = - 100\<rparr>,
       \<lparr>m_from = bank_id, m_to = alice_id, m_asset = demo_usd, m_amount = 100\<rparr>], t_book = BookId 0, t_metadata = []\<rparr>"

lemma demo_deposit_built: "deposit alice_id demo_usd 100 bank_id transfer_builder_new = Inr demo_deposit"
  by (simp add: demo_deposit_def deposit_def transfer_builder_new_def movement_main_def movement_ref_def checked_neg_def
      checked_i64_def range_defs book_id_default_def DEFAULT_BOOK_def metadata_new_def)

definition snap :: "account \<Rightarrow> account_snapshot_id" where
  "snap a = \<lparr>snap_account = acc_id a, snap_snapshot_id = account_hash demo_sha a\<rparr>"

definition deposit_env :: envelope where
  "deposit_env = \<lparr>e_consumes = [], e_creates =
       [\<lparr>np_owner = bank_id, np_asset = demo_usd, np_value = - 100, np_payer = None\<rparr>,
        \<lparr>np_owner = alice_id, np_asset = demo_usd, np_value = 100, np_payer = Some bank_id\<rparr>],
     e_account_snapshots = [snap bank, snap alice], e_book = BookId 0, e_metadata = []\<rparr>"

lemmas account_order = less_eq_account_id_def less_account_id_def less_eq_prod_def less_prod_def

lemma opened_accounts [simp]:
  "ms_accounts (w_store opened) = [(bank_id, [bank]), (alice_id, [alice])]" "ms_transfers (w_store opened) = []"
  "ms_postings (w_store opened) = \<lparr>pt_immutable = [], pt_active = [], pt_reserved = []\<rparr>" "ms_books (w_store opened) = []"
  by (subst opened_eq, simp add: mem_store_new_def)+

text \<open>Worlds that agree with \<open>opened\<close> on the tables a deposit reads, under any clock.\<close>

definition opened_like :: "ledger_env \<Rightarrow> world \<Rightarrow> bool" where
  "opened_like env w \<longleftrightarrow> le_ext env = le_ext demo_env \<and> le_hash env = le_hash demo_env \<and>
     ms_accounts (w_store w) = [(bank_id, [bank]), (alice_id, [alice])] \<and> ms_transfers (w_store w) = [] \<and>
     ms_postings (w_store w) = \<lparr>pt_immutable = [], pt_active = [], pt_reserved = []\<rparr> \<and> ms_books (w_store w) = []"

lemma opened_likeD:
  assumes "opened_like env w"
  shows "le_ext env = le_ext demo_env" "le_hash env = le_hash demo_env" "ms_accounts (w_store w) = [(bank_id, [bank]), (alice_id, [alice])]"
    "ms_transfers (w_store w) = []" "ms_postings (w_store w) = \<lparr>pt_immutable = [], pt_active = [], pt_reserved = []\<rparr>" "ms_books (w_store w) = []"
  using assms by (simp_all add: opened_like_def)

lemma opened_opened_like: "opened_like demo_env opened"
  by (simp add: opened_like_def)

lemma deposit_resolved:
  assumes "opened_like env w"
  shows "resolve env demo_deposit w = (Inr deposit_env, w)"
  by (simp add: opened_likeD[OF assms] resolve_def demo_deposit_def action_eval overflow_action_def draft_movements_def movement_posting_def entry_add_def entry_value_def
     checked_add_def checked_i64_def range_defs resolve_envelope_def envelope_builder_metadata_def
      envelope_builder_book_def envelope_builder_creates_def envelope_builder_consumes_def envelope_builder_new_def
      resolve_snapshots_def referenced_accounts_def sort_dedup_def account_order get_accounts_def head_version_def last_opt_def 
      set_account_snapshots_def deposit_env_def snap_def account_snapshot_id_of_def is_positive_def)

definition deposit_id :: envelope_id where
  "deposit_id = envelope_id demo_sha deposit_env"

definition deposit_loaded :: loaded_state where
  "deposit_loaded = \<lparr>ls_consumed_postings = [], ls_accounts = [(bank_id, bank), (alice_id, alice)],
     ls_balances = [((bank_id, demo_usd), 0), ((alice_id, demo_usd), 0)], ls_book = None\<rparr>"

lemma deposit_required:
  "required_state deposit_env [] = \<lparr>rs_consumed_postings = [], rs_accounts = [bank_id, alice_id],
     rs_balances = [(bank_id, demo_usd), (alice_id, demo_usd)]\<rparr>"
  by (simp add: required_state_def posting_keys_def deposit_env_def sort_dedup_def account_order snap_def Let_def)

lemma opened_balance: "opened_like env w \<Longrightarrow> compute_balance env acc asset w = (Inr 0, w)"
  by (simp add: opened_likeD compute_balance_def action_eval overflow_action_def get_postings_by_account_def postings_in_def checked_sum_def)

lemma deposit_load:
  assumes "opened_like env w"
  shows "load env deposit_env w = (Inr deposit_loaded, w)"
  by (simp add: opened_likeD[OF assms] load_def action_eval deposit_required opened_balance[OF assms] load_book_def deposit_env_def[THEN arg_cong[where f = e_consumes]]
      deposit_env_def[THEN arg_cong[where f = e_book]] get_book_def get_accounts_def head_version_def last_opt_def collect_map_def deposit_loaded_def
      DEFAULT_BOOK_def)

lemma deposit_plan:
  assumes "le_ext env = le_ext demo_env"
  shows "ledger_plan env deposit_env deposit_loaded = Inr (build_plan demo_sha deposit_env)"
proof -
  have keys: "posting_keys deposit_env [] = \<lparr>pk_owners = [bank_id, alice_id], pk_balances = [(bank_id, demo_usd), (alice_id, demo_usd)]\<rparr>"
    by (simp add: posting_keys_def deposit_env_def sort_dedup_def account_order)
  have "validate_and_plan (le_ext demo_env) (plan_input_of deposit_env deposit_loaded) = Inr (build_plan demo_sha deposit_env)"
    by (simp add: validate_and_plan_def Let_def plan_input_of_def keys deposit_loaded_def)
      (simp add: deposit_env_def check_nonempty_def check_no_duplicates_def check_postings_exist_def check_accounts_def guard_each_def
        check_snapshots_def snap_def check_book_def check_conservation_def entry_add_def entry_value_def range_defs
        check_negative_postings_def check_overdraft_def overdraft_guard_def checked_add_def checked_i64_def is_negative_def)
  then show ?thesis by (simp add: assms ledger_plan_def deposit_loaded_def deposit_required contains_key_def)
qed

definition deposit_postings :: "posting list" where
  "deposit_postings = [posting_new (PostingId deposit_id 0) bank_id demo_usd (- 100), posting_new (PostingId deposit_id 1) alice_id demo_usd 100]"

definition deposited :: world where
  "deposited = snd (ledger_commit demo_env demo_deposit opened)"

lemma deposit_plan_eq: "build_plan demo_sha deposit_env =
  \<lparr>plan_transfer_id = deposit_id, plan_postings_to_deactivate = [], plan_postings_to_create = deposit_postings\<rparr>"
  by (simp add: build_plan_def deposit_id_def deposit_env_def[THEN arg_cong[where f = e_consumes]] deposit_postings_def Let_def created_postings_def
     deposit_env_def[THEN arg_cong[where f = e_creates]])

definition deposit_record :: "i64 \<Rightarrow> envelope_record" where
  "deposit_record ts = \<lparr>er_envelope = deposit_env, er_receipt = \<lparr>r_transfer_id = deposit_id\<rparr>, er_created_at = ts\<rparr>"

definition deposit_req :: "i64 \<Rightarrow> commit_request" where
  "deposit_req ts = build_request deposit_env deposit_loaded (build_plan demo_sha deposit_env) ts"

lemma deposit_req_eq: "deposit_req ts = \<lparr>cr_transfer_id = deposit_id, cr_consume = [], cr_create = deposit_postings, cr_record = deposit_record ts,
    cr_involved = [bank_id, alice_id], cr_event = \<lparr>ev_seq = 0, ev_timestamp = ts, ev_kind = TransferCommitted deposit_id\<rparr>\<rparr>"
  by (simp add: deposit_req_def build_request_def deposit_plan_eq deposit_loaded_def Let_def deposit_record_def)
    (simp add: deposit_postings_def posting_new_def sort_dedup_def account_order)

lemma deposit_guards:
  assumes "opened_like env w"
  shows "commit_guards (le_hash env) (deposit_req ts) (w_store w) = Inr ()"
  by (simp add: opened_likeD[OF assms] commit_guards_def deposit_req_eq guard_each_def commit_flag_guard_def account_of_def head_version_def last_opt_def
      commit_floor_guard_def commit_assets_def deposit_postings_def posting_new_def commit_floor_asset_def live_after_def created_for_def
      overflow_exit_def checked_sum_def checked_add_def checked_i64_def range_defs is_negative_def map_filter_simps)

lemma deposit_run:
  assumes w: "opened_like env w" and ts: "le_clock env (w_tick w) = ts" "0 \<le> ts" "ts < 2 ^ 63"
  shows "ledger_commit env demo_deposit w = (Inr \<lparr>r_transfer_id = deposit_id\<rparr>,
     w\<lparr>w_store := commit_apply (le_clock env (Suc (w_tick w))) (deposit_req ts) (w_store w), w_tick := Suc (Suc (w_tick w))\<rparr>)"
proof -
  have pin: "pin_snapshots env deposit_env w = (Inr deposit_env, w)"
    by (simp add: pin_snapshots_def deposit_env_def)
  have "ledger_commit env demo_deposit w = commit_write env deposit_env deposit_loaded (build_plan demo_sha deposit_env) w"
    by (simp add: opened_likeD[OF w] ledger_commit_def lbind_def deposit_resolved[OF w] ledger_commit_envelope_eq pin get_transfer_def commit_new_def
        deposit_load[OF w] deposit_plan)
  moreover have "sint (word_of_int ts :: u64) = ts" using ts by (simp add: sint_sbintrunc' signed_take_bit_int_eq_self)
  moreover have "cr_transfer_id (deposit_req ts) = deposit_id" "er_receipt (cr_record (deposit_req ts)) = \<lparr>r_transfer_id = deposit_id\<rparr>"
    by (simp_all add: deposit_req_eq deposit_record_def)
  ultimately show ?thesis using ts(1,2) opened_likeD(4)[OF w]
    by (simp add: commit_write_def action_eval commit_envelope_def deposit_req_def[symmetric] deposit_guards[OF w])
qed

text \<open>The deposit into the opened ledger.\<close>

lemma opened_tick: "w_tick opened = 4"
  by (subst opened_eq) simp

lemma demo_deposit_run: "ledger_commit demo_env demo_deposit opened =
   (Inr \<lparr>r_transfer_id = deposit_id\<rparr>, opened\<lparr>w_store := commit_apply 1700000000005 (deposit_req 1700000000004) (w_store opened), w_tick := 6\<rparr>)"
  using deposit_run[OF opened_opened_like refl] by (simp add: opened_tick)

lemma deposited_fields [simp]:
  "ms_postings (w_store deposited) = \<lparr>pt_immutable = map (\<lambda>p. (p_id p, p)) deposit_postings,
     pt_active = map (\<lambda>p. (p_id p, p)) deposit_postings, pt_reserved = []\<rparr>"
  "ms_transfers (w_store deposited) = [(deposit_id, deposit_record 1700000000004)]"
  "ms_accounts (w_store deposited) = [(bank_id, [bank]), (alice_id, [alice])]"
  by (simp_all add: deposited_def demo_deposit_run commit_apply_def deposit_req_eq split_beta Let_def)
    (simp add: commit_tables_def deposit_postings_def apply_create_def posting_new_def contains_key_def)

lemma deposited_reachable: "reachable demo_env (w_store deposited)"
proof -
  have "store_steps demo_env (w_store world_new) (w_store opened)"
    using create_account_steps[of demo_env bank] create_account_steps[of demo_env alice]
    unfolding preserves_def opened_def by (meson rtranclp_trans)
  moreover have "store_steps demo_env (w_store opened) (w_store deposited)"
    using commit_steps[OF demo_env_ok(1), of demo_deposit] unfolding preserves_def deposited_def by simp
  ultimately show ?thesis by (auto simp: reachable_def world_new_def)
qed

lemma deposited_small: "small (w_store deposited)"
  by (simp add: small_def deposit_record_def deposit_env_def)

lemma deposit_step: "store_step demo_env (w_store opened) (w_store deposited)"
proof -
  let ?i = "plan_input_of deposit_env deposit_loaded"
  have i: "pi_envelope ?i = deposit_env" "pi_consumed_postings ?i = ls_consumed_postings deposit_loaded" by (simp_all add: plan_input_of_def)
  have v: "valid_input (x_sha (le_ext demo_env)) ?i" by (rule plan_validated(1)[OF demo_env_ok(1) deposit_plan[OF refl]])
  have g: "get_postings (e_consumes deposit_env) (w_store opened) = Inr (ls_consumed_postings deposit_loaded)"
    by (simp add: get_postings_def deposit_env_def deposit_loaded_def)
  have "w_store deposited = snd (commit_envelope (le_hash demo_env) 1700000000005 (deposit_req 1700000000004) (w_store opened))"
    by (simp add: deposited_def demo_deposit_run commit_envelope_def deposit_guards[OF opened_opened_like])
  then show ?thesis
    unfolding deposit_req_def
    using step_commit[of demo_env ?i "w_store opened" deposit_loaded 1700000000005 1700000000004, unfolded i, OF v g refl]
    by (simp only: demo_env_fields)
qed

lemma opened_reachable: "reachable demo_env (w_store opened)"
proof -
  have "store_steps demo_env (w_store world_new) (w_store opened)"
    using create_account_steps[of demo_env bank] create_account_steps[of demo_env alice]
    unfolding preserves_def opened_def by (meson rtranclp_trans)
  then show ?thesis by (simp add: reachable_def world_new_def)
qed

lemma deposit_pinned: "pin_snapshots demo_env deposit_env opened = (Inr deposit_env, opened)"
  by (simp add: pin_snapshots_def deposit_env_def)

lemma deposit_envelope_run: "ledger_commit_envelope demo_env deposit_env opened = (Inr \<lparr>r_transfer_id = deposit_id\<rparr>, deposited)"
  using demo_deposit_run by (simp add: ledger_commit_def lbind_def deposit_resolved[OF opened_opened_like] deposited_def)

text \<open>The customer cannot pay before the deposit.\<close>

definition overdraw :: transfer where
  "overdraw = \<lparr>t_movements = [\<lparr>m_from = alice_id, m_to = bank_id, m_asset = demo_usd, m_amount = 5\<rparr>], t_book = BookId 0, t_metadata = []\<rparr>"

lemma overdraw_fails:
  "ledger_commit demo_env overdraw opened = (Inl (Fail (LSelection \<lparr>if_available = 0, if_requested = 5\<rparr>)), opened)"
  by (simp add: ledger_commit_def resolve_def overdraw_def action_eval overflow_action_def draft_movements_def entry_add_def entry_value_def
      checked_add_def checked_i64_def range_defs is_positive_def load_debit_def get_postings_by_account_def postings_in_def contains_key_def
      get_account_def head_version_def last_opt_def resolve_envelope_def resolve_debit_def positives_def checked_sum_def ledger_error_from_resolve_def)

section \<open>Cache points of the customer\<close>

lemmas tail_eval = fold_tail_def window_query paginate_all in_window_def get_transfers_for_account_def
  fold_account_delta_def overflow_action_def fold_created_def consumed_ids_def map_filter_simps saturating_sub_def saturating_add_def sat_i64_def
  range_defs checked_add_def checked_i64_def account_matches_def

text \<open>A ledger without a grace window, and a clock that stays in one millisecond.\<close>

definition eager :: ledger where
  "eager = with_projection_grace_ms 0 ledger_new"

definition stalled_env :: ledger_env where
  "stalled_env = demo_env\<lparr>le_clock := (\<lambda>_. 1700000000004)\<rparr>"

lemma stalled_fields [simp]: "le_ext stalled_env = le_ext demo_env" "le_hash stalled_env = le_hash demo_env" "le_clock stalled_env n = 1700000000004"
  by (simp_all add: stalled_env_def)

lemma eager_fields [simp]: "projection_grace_ms eager = 0"
  by (simp add: eager_def with_projection_grace_ms_def)

definition cached :: world where
  "cached = snd (ledger_append_cache_point demo_env eager alice_id demo_usd deposited)"

definition precached :: world where
  "precached = snd (ledger_append_cache_point stalled_env eager alice_id demo_usd opened)"

definition late :: world where
  "late = snd (ledger_commit stalled_env demo_deposit precached)"

lemma opened_projections [simp]: "ms_projections (w_store opened) = []" "ms_transfer_accounts (w_store opened) = []"
  by (subst opened_eq, simp add: mem_store_new_def)+

lemma precached_eq: "precached = opened\<lparr>w_store := (w_store opened)\<lparr>ms_projections :=
    [((alice_id, demo_usd), [\<lparr>bp_id = bp_id (hd (snd (hd (ms_projections (w_store precached))))), bp_account = alice_id, bp_asset = demo_usd, bp_balance = 0,
       bp_watermark = 1700000000004\<rparr>])], ms_autoid := ms_autoid (w_store precached)\<rparr>, w_tick := 6\<rparr>"
  by (simp add: precached_def ledger_append_cache_point_def append_cache_point_def action_eval get_closest_balance_projection_def tail_eval append_balance_projection_def opened_tick)

lemma precached_opened_like: "opened_like stalled_env precached"
  by (subst precached_eq) (simp add: opened_like_def)

lemma precached_tick: "w_tick precached = 6"
  by (subst precached_eq) simp

lemma late_run: "ledger_commit stalled_env demo_deposit precached = (Inr \<lparr>r_transfer_id = deposit_id\<rparr>, late)"
  using deposit_run[OF precached_opened_like refl] by (simp add: late_def)

lemma late_eq: "late = precached\<lparr>w_store := commit_apply 1700000000004 (deposit_req 1700000000004) (w_store precached), w_tick := 8\<rparr>"
  using deposit_run[OF precached_opened_like refl] by (simp add: late_def precached_tick)

lemma precached_store [simp]:
  "ms_transfers (w_store precached) = []" "ms_transfer_accounts (w_store precached) = []"
  "ms_postings (w_store precached) = \<lparr>pt_immutable = [], pt_active = [], pt_reserved = []\<rparr>"
  by (subst precached_eq, simp)+

lemma late_fields:
  "ms_transfers (w_store late) = [(deposit_id, deposit_record 1700000000004)]"
  "ms_transfer_accounts (w_store late) = [(deposit_id, [bank_id, alice_id])]"
  "ms_projections (w_store late) = ms_projections (w_store precached)"
  "ms_postings (w_store late) = ms_postings (w_store deposited)"
  by (simp_all add: late_eq commit_apply_def deposit_req_eq split_beta Let_def)
    (simp add: commit_tables_def deposit_postings_def apply_create_def posting_new_def contains_key_def)

lemma precached_projections: "\<exists>i. ms_projections (w_store precached) =
    [((alice_id, demo_usd), [\<lparr>bp_id = i, bp_account = alice_id, bp_asset = demo_usd, bp_balance = 0, bp_watermark = 1700000000004\<rparr>])]"
  by (subst precached_eq) simp

lemma late_balance: "fst (ledger_balance stalled_env eager alice_id demo_usd late) = Inr 0"
proof -
  obtain i where p: "ms_projections (w_store late) =
    [((alice_id, demo_usd), [\<lparr>bp_id = i, bp_account = alice_id, bp_asset = demo_usd, bp_balance = 0, bp_watermark = 1700000000004\<rparr>])]"
    using precached_projections by (auto simp: late_fields)
  show ?thesis
    by (simp add: ledger_balance_def action_eval get_closest_balance_projection_def p max_by_key_def tail_eval late_fields deposit_record_def spawn_append_def)
qed

lemma late_live: "live_balance (w_store late) alice_id demo_usd = 100"
  by (simp add: late_fields live_balance_def postings_in_def deposit_postings_def posting_new_def)

text \<open>A cache point taken after the deposit.\<close>

lemma deposited_tables [simp]: "ms_transfer_accounts (w_store deposited) = [(deposit_id, [bank_id, alice_id])]"
  "ms_projections (w_store deposited) = []" "w_tick deposited = 6"
  by (simp_all add: deposited_def demo_deposit_run commit_apply_def deposit_req_eq split_beta Let_def)

lemma deposit_record_fields [simp]: "er_envelope (deposit_record ts) = deposit_env" "er_created_at (deposit_record ts) = ts"
  by (simp_all add: deposit_record_def)

lemma cached_eq: "cached = deposited\<lparr>w_store := (w_store deposited)\<lparr>ms_projections :=
    [((alice_id, demo_usd), [\<lparr>bp_id = bp_id (hd (snd (hd (ms_projections (w_store cached))))), bp_account = alice_id, bp_asset = demo_usd, bp_balance = 100,
       bp_watermark = 1700000000006\<rparr>])], ms_autoid := ms_autoid (w_store cached)\<rparr>, w_tick := 8\<rparr>"
  by (simp add: cached_def ledger_append_cache_point_def append_cache_point_def action_eval get_closest_balance_projection_def tail_eval
      append_balance_projection_def deposit_env_def)

lemma cached_balance: "\<exists>w'. ledger_balance demo_env eager alice_id demo_usd cached = (Inr 100, w')"
proof -
  obtain i where p: "ms_projections (w_store cached) =
    [((alice_id, demo_usd), [\<lparr>bp_id = i, bp_account = alice_id, bp_asset = demo_usd, bp_balance = 100, bp_watermark = 1700000000006\<rparr>])]"
    by (subst (asm) cached_eq) simp
  have t: "w_tick cached = 8" "ms_transfers (w_store cached) = ms_transfers (w_store deposited)"
    "ms_transfer_accounts (w_store cached) = ms_transfer_accounts (w_store deposited)"
    by (subst cached_eq, simp)+
  show ?thesis
    by (simp add: ledger_balance_def action_eval get_closest_balance_projection_def p max_by_key_def tail_eval t spawn_append_def)
qed

lemma cached_reachable: "reachable demo_env (w_store cached)" "small (w_store cached)"
proof -
  have "store_steps demo_env (w_store deposited) (w_store cached)"
    using cache_point_steps[of demo_env] unfolding cached_def ledger_append_cache_point_def preserves_def by simp
  then show "reachable demo_env (w_store cached)" using deposited_reachable by (simp add: reachable_def)
  show "small (w_store cached)" using deposited_small by (subst cached_eq) (simp add: small_def)
qed

end
