(* ===== verification/Saga_Laws.thy ===== *)
theory Saga_Laws
  imports Ledger_Api
begin

text \<open>
  Compensation of a saga. Every posting row and every transfer of a reachable store stays
  as it is, so the reversal of a receipt takes back exactly what its commit added. A saga
  that unwinds all its receipts therefore leaves every balance where it was, less what
  the receipts had added that were answered from the log.
\<close>

section \<open>What later steps keep\<close>

definition extends :: "mem_store \<Rightarrow> mem_store \<Rightarrow> bool" where
  "extends st st' \<longleftrightarrow> (\<forall>i p. map_of (pt_immutable (ms_postings st)) i = Some p \<longrightarrow> map_of (pt_immutable (ms_postings st')) i = Some p) \<and>
     (\<forall>tid r. map_of (ms_transfers st) tid = Some r \<longrightarrow> map_of (ms_transfers st') tid = Some r)"

lemma extends_refl [simp]: "extends st st"
  by (simp add: extends_def)

lemma extends_trans: "extends a b \<Longrightarrow> extends b c \<Longrightarrow> extends a c"
  by (simp add: extends_def)

lemma ready_extends:
  assumes rdy: "commit_ready env st input s ts"
  shows "extends st (commit_apply c (req_of env input s ts) st)"
  using rdy by (auto simp: extends_def commit_apply_fields ready_tables(3)[OF rdy] req_fields(1)[OF rdy] commit_ready_def)

lemma step_extends:
  assumes "store_step env st st'" "store_inv (x_sha (le_ext env)) st" "small st'" "hash_order_ok (le_hash env)"
  shows "extends st st'"
  using assms(1)
proof cases
  case (step_commit input s c ts)
  then show ?thesis
    using commit_step_cases[OF step_commit(2-4) _ assms(2-4), of c ts] ready_extends extends_refl unfolding req_of_def by metis
next
  case (step_transition aid vs a mutate mk nxt ev c)
  then show ?thesis
    by (auto simp: extends_def commit_transition_def Let_def with_event_def split_beta split: option.splits)
qed (auto simp: extends_def append_event_def create_book_def create_account_def append_balance_projection_def
    split_beta Let_def split: option.splits)

lemma steps_extend:
  assumes "reachable env st" "store_steps env st st'" "small st'" "hash_order_ok (le_hash env)"
  shows "extends st st'"
  using assms(2,3)
proof (induction rule: rtranclp_induct)
  case (step st1 st2)
  have sm: "small st1" by (rule step_small[OF step.hyps(2) step.prems])
  have "store_inv (x_sha (le_ext env)) st1"
    using reachable_inv[OF reachable_steps[OF assms(1) step.hyps(1)] sm assms(4)] .
  then show ?case using step.IH[OF sm] step_extends[OF step.hyps(2) _ step.prems assms(4)] extends_trans by blast
qed simp

section \<open>The delta behind a receipt\<close>

definition receipt_delta :: "mem_store \<Rightarrow> account_id \<times> asset_id \<Rightarrow> receipt \<Rightarrow> int \<Rightarrow> bool" where
  "receipt_delta st k r d \<longleftrightarrow> (\<exists>rec ps. map_of (ms_transfers st) (r_transfer_id r) = Some rec \<and>
     get_postings (e_consumes (er_envelope rec)) st = Inr ps \<and> d = key_sum k (delta_entries ps (e_creates (er_envelope rec))))"

lemma get_postings_extends:
  assumes "get_postings ids st = Inr ps" "extends st st'"
  shows "get_postings ids st' = Inr ps"
  using assms unfolding get_postings_def try_map_Inr_iff
  by (auto simp: extends_def elim!: list.rel_mono_strong)

lemma receipt_delta_extends: "receipt_delta st k r d \<Longrightarrow> extends st st' \<Longrightarrow> receipt_delta st' k r d"
  unfolding receipt_delta_def using get_postings_extends by (metis extends_def)

lemma deltas_extend:
  "list_all2 (receipt_delta st k) rs ds \<Longrightarrow> extends st st' \<Longrightarrow> list_all2 (receipt_delta st' k) rs ds"
  by (erule list_all2_mono) (rule receipt_delta_extends)

text \<open>A stored transfer has a delta, and a commit that answers from the log writes nothing.\<close>

lemma known_delta:
  assumes inv: "store_inv sha st" and rec: "map_of (ms_transfers st) (r_transfer_id r) = Some rec"
  obtains d where "receipt_delta st k r d"
proof -
  have "\<exists>p. map_of (pt_immutable (ms_postings st)) i = Some p" if "i \<in> set (e_consumes (er_envelope rec))" for i
    using inv rec that state_missing_iff[of "ms_postings st" i] by (fastforce simp: store_inv_def transfer_ok_def)
  then have "get_postings (e_consumes (er_envelope rec)) st
      = Inr (map (\<lambda>i. the (map_of (pt_immutable (ms_postings st)) i)) (e_consumes (er_envelope rec)))"
    unfolding get_postings_def try_map_Inr_iff by (fastforce simp: list_all2_map2 intro!: list.rel_refl_strong)
  then show thesis using that rec unfolding receipt_delta_def by blast
qed

lemma commit_known:
  assumes x: "externs_ok (le_ext env)" and run: "ledger_commit env t w = (Inr r, w')"
    and known: "map_of (ms_transfers (w_store w)) (r_transfer_id r) = Some rec"
  shows "w_store w' = w_store w"
proof -
  obtain e0 w1 where e0: "resolve env t w = (Inr e0, w1)" "ledger_commit_envelope env e0 w1 = (Inr r, w')"
    using run unfolding ledger_commit_def lbind_Inr by blast
  have "w_store w1 = w_store w" by (rule readsD[OF reads_resolve e0(1)])
  with commit_envelope_success[OF x e0(2)] known show ?thesis by (metis option.distinct(1) receipt.select_convs(1))
qed

lemma commit_delta:
  assumes x: "externs_ok (le_ext env)" and h: "hash_order_ok (le_hash env)" and inv: "store_inv (x_sha (le_ext env)) (w_store w)"
    and sm: "small (w_store w')" and run: "ledger_commit env t w = (Inr r, w')"
    and new: "map_of (ms_transfers (w_store w)) (r_transfer_id r) = None" and ext: "extends (w_store w) (w_store w')"
  obtains d where "receipt_delta (w_store w') (acc, asset) r d" "live_balance (w_store w') acc asset = live_balance (w_store w) acc asset + d"
proof -
  obtain e0 w1 where e0: "resolve env t w = (Inr e0, w1)" "ledger_commit_envelope env e0 w1 = (Inr r, w')"
    using run unfolding ledger_commit_def lbind_Inr by blast
  have w1: "w_store w1 = w_store w" by (rule readsD[OF reads_resolve e0(1)])
  obtain e ps where e: "r_transfer_id r = envelope_id (x_sha (le_ext env)) e" "get_postings (e_consumes e) (w_store w) = Inr ps"
    "commit_effect (x_sha (le_ext env)) (w_store w) e ps (w_store w')"
    using commit_envelope_effect[OF x h, of w1 w' e0 r] inv sm e0(2) new w1 by metis
  have "receipt_delta (w_store w') (acc, asset) r (key_sum (acc, asset) (delta_entries ps (e_creates e)))"
    using e(3) get_postings_extends[OF e(2) ext] unfolding receipt_delta_def commit_effect_def Let_def e(1) by auto
  moreover have "live_balance (w_store w') acc asset = live_balance (w_store w) acc asset + key_sum (acc, asset) (delta_entries ps (e_creates e))"
    using e(3) unfolding commit_effect_def Let_def by blast
  ultimately show thesis by (rule that)
qed

lemma reverse_delta:
  assumes "externs_ok (le_ext env)" "hash_order_ok (le_hash env)" "store_inv (x_sha (le_ext env)) (w_store w)" "small (w_store w')"
    and "reverse env (r_transfer_id r) w = (Inr r', w')" "map_of (ms_transfers (w_store w)) (r_transfer_id r') = None"
    and d: "receipt_delta (w_store w) (acc, asset) r d"
  shows "live_balance (w_store w') acc asset = live_balance (w_store w) acc asset - d"
proof -
  obtain rec ps where rec: "map_of (ms_transfers (w_store w)) (r_transfer_id r) = Some rec"
    "get_postings (e_consumes (er_envelope rec)) (w_store w) = Inr ps" "d = key_sum (acc, asset) (delta_entries ps (e_creates (er_envelope rec)))"
    using d unfolding receipt_delta_def by blast
  from reverse_effect[OF assms(1-6) rec(1)] show ?thesis using rec(2,3) by (metis sum.inject(2))
qed

section \<open>Unwinding\<close>

text \<open>No commit and no reversal of the run is answered from the log.\<close>

fun unwind_fresh :: "ledger_env \<Rightarrow> receipt list \<Rightarrow> world \<Rightarrow> bool" where
  "unwind_fresh env [] w = True"
| "unwind_fresh env (r # rs) w = (case reverse env (r_transfer_id r) w of
     (Inr r', w') \<Rightarrow> map_of (ms_transfers (w_store w)) (r_transfer_id r') = None \<and> unwind_fresh env rs w'
   | _ \<Rightarrow> True)"

fun run_fresh :: "ledger_env \<Rightarrow> receipt list \<Rightarrow> saga_movement list \<Rightarrow> world \<Rightarrow> bool" where
  "run_fresh env rs [] w = True"
| "run_fresh env rs (m # ms) w = (case movement_build m of
     Inl e \<Rightarrow> False
   | Inr t \<Rightarrow> (case ledger_commit env t w of
       (Inr r, w') \<Rightarrow> map_of (ms_transfers (w_store w)) (r_transfer_id r) = None \<and> run_fresh env (rs @ [r]) ms w'
     | (Inl _, w') \<Rightarrow> unwind_fresh env (rev rs) w'))"

text \<open>No reversal of the run is answered from the log; and the receipts of the run that are.\<close>

fun reversals_fresh :: "ledger_env \<Rightarrow> receipt list \<Rightarrow> saga_movement list \<Rightarrow> world \<Rightarrow> bool" where
  "reversals_fresh env rs [] w = True"
| "reversals_fresh env rs (m # ms) w = (case movement_build m of
     Inl e \<Rightarrow> False
   | Inr t \<Rightarrow> (case ledger_commit env t w of
       (Inr r, w') \<Rightarrow> reversals_fresh env (rs @ [r]) ms w'
     | (Inl _, w') \<Rightarrow> unwind_fresh env (rev rs) w'))"

fun run_replayed :: "ledger_env \<Rightarrow> saga_movement list \<Rightarrow> world \<Rightarrow> receipt list" where
  "run_replayed env [] w = []"
| "run_replayed env (m # ms) w = (case movement_build m of
     Inl e \<Rightarrow> []
   | Inr t \<Rightarrow> (case ledger_commit env t w of
       (Inr r, w') \<Rightarrow> (if map_of (ms_transfers (w_store w)) (r_transfer_id r) = None then [] else [r]) @ run_replayed env ms w'
     | (Inl _, w') \<Rightarrow> []))"

lemma run_fresh_replays: "run_fresh env rs ms w \<Longrightarrow> reversals_fresh env rs ms w \<and> run_replayed env ms w = []"
  by (induction env rs ms w rule: run_fresh.induct) (auto split: sum.splits prod.splits)

definition compensation_failed :: "ledger_error \<Rightarrow> bool" where
  "compensation_failed e \<longleftrightarrow> (case e of CompensationFailed _ _ \<Rightarrow> True | _ \<Rightarrow> False)"

lemma unwind_balance:
  assumes x: "externs_ok (le_ext env)" and h: "hash_order_ok (le_hash env)"
    and "reachable env (w_store w)" "small (w_store w')" "unwind env err rs w = (Inl (Fail e), w')" "\<not> compensation_failed e"
    "unwind_fresh env rs w" "list_all2 (receipt_delta (w_store w) (acc, asset)) rs ds"
  shows "live_balance (w_store w') acc asset = live_balance (w_store w) acc asset - sum_list ds"
  using assms(3-)
proof (induction rs arbitrary: w ds)
  case (Cons r rs)
  obtain d ds' where ds: "ds = d # ds'" "receipt_delta (w_store w) (acc, asset) r d" "list_all2 (receipt_delta (w_store w) (acc, asset)) rs ds'"
    using Cons.prems(6) by (auto simp: list_all2_Cons1)
  obtain r' w1 where rv: "reverse env (r_transfer_id r) w = (Inr r', w1)" "unwind env err rs w1 = (Inl (Fail e), w')"
    using Cons.prems(3,4) by (auto simp: compensation_failed_def split: prod.splits sum.splits fault.splits)
  have fr: "map_of (ms_transfers (w_store w)) (r_transfer_id r') = None" "unwind_fresh env rs w1"
    using Cons.prems(5) rv(1) by simp_all
  have st: "store_steps env (w_store w) (w_store w1)" using preservesD[OF reverse_steps[OF x], of w "r_transfer_id r"] rv(1) by simp
  have "store_steps env (w_store w1) (w_store w')" using unwind_steps[OF x, of w1 err rs] rv(2) by simp
  then have sm1: "small (w_store w1)" by (rule steps_small[OF _ Cons.prems(2)])
  then have inv: "store_inv (x_sha (le_ext env)) (w_store w)" using reachable_inv[OF Cons.prems(1) steps_small[OF st] h] by blast
  have "list_all2 (receipt_delta (w_store w1) (acc, asset)) rs ds'"
    by (rule deltas_extend[OF ds(3) steps_extend[OF Cons.prems(1) st sm1 h]])
  from Cons.IH[OF reachable_steps[OF Cons.prems(1) st] Cons.prems(2) rv(2) Cons.prems(4) fr(2) this] show ?case
    using reverse_delta[OF x h inv sm1 rv(1) fr(1) ds(2)] ds(1) by simp
qed simp

lemma run_balance:
  assumes x: "externs_ok (le_ext env)" and h: "hash_order_ok (le_hash env)"
    and "reachable env (w_store w)" "small (w_store w')" "run_loop env rs ms w = (Inl (Fail e), w')" "\<not> compensation_failed e"
    "reversals_fresh env rs ms w" "list_all2 (receipt_delta (w_store w) (acc, asset)) rs ds"
  shows "\<exists>es. list_all2 (receipt_delta (w_store w') (acc, asset)) (run_replayed env ms w) es \<and>
     live_balance (w_store w') acc asset = live_balance (w_store w) acc asset - sum_list ds - sum_list es"
  using assms(3-)
proof (induction ms arbitrary: w rs ds)
  case (Cons m ms)
  obtain t where t: "movement_build m = Inr t" using Cons.prems(5) by (auto split: sum.splits)
  obtain res w1 where c: "ledger_commit env t w = (res, w1)" by (cases "ledger_commit env t w")
  have st: "store_steps env (w_store w) (w_store w1)" using preservesD[OF commit_steps[OF x], of w t] c by simp
  show ?case
  proof (cases res)
    case (Inl f)
    then obtain err where "f = Fail err" using Cons.prems(3) t c by (cases f) simp_all
    moreover have "w_store w1 = w_store w" using c commit_failure Inl by metis
    ultimately show ?thesis
      using unwind_balance[OF x h, of w1 w' err "rev rs" e acc asset "rev ds"] Cons.prems t c Inl
      by (simp add: list_all2_rev)
  next
    case (Inr r)
    have run: "run_loop env (rs @ [r]) ms w1 = (Inl (Fail e), w')" and fr: "reversals_fresh env (rs @ [r]) ms w1"
      using Cons.prems(3,5) t c Inr by simp_all
    have st': "store_steps env (w_store w1) (w_store w')" using run_loop_steps[OF x, of w1 "rs @ [r]" ms] run by simp
    then have sm1: "small (w_store w1)" by (rule steps_small[OF _ Cons.prems(2)])
    then have inv: "store_inv (x_sha (le_ext env)) (w_store w)" using reachable_inv[OF Cons.prems(1) steps_small[OF st] h] by blast
    have r1: "reachable env (w_store w1)" by (rule reachable_steps[OF Cons.prems(1) st])
    note ext = steps_extend[OF Cons.prems(1) st sm1 h]
    note rest = Cons.IH[OF r1 Cons.prems(2) run Cons.prems(4) fr]
    have ds: "list_all2 (receipt_delta (w_store w1) (acc, asset)) rs ds" by (rule deltas_extend[OF Cons.prems(6) ext])
    show ?thesis
    proof (cases "map_of (ms_transfers (w_store w)) (r_transfer_id r)")
      case None
      obtain d where d: "receipt_delta (w_store w1) (acc, asset) r d" "live_balance (w_store w1) acc asset = live_balance (w_store w) acc asset + d"
        using commit_delta[OF x h inv sm1 _ None ext] c Inr by metis
      show ?thesis using rest[of "ds @ [d]"] ds d t c Inr None by (fastforce simp: list_all2_appendI)
    next
      case (Some rec)
      have w1: "w_store w1 = w_store w" using commit_known[OF x _ Some] c Inr by blast
      obtain d where d: "receipt_delta (w_store w1) (acc, asset) r d" using known_delta[OF inv Some] w1 by metis
      then have "receipt_delta (w_store w') (acc, asset) r d"
        using receipt_delta_extends steps_extend[OF r1 st' Cons.prems(2) h] by blast
      moreover obtain es where "list_all2 (receipt_delta (w_store w') (acc, asset)) (run_replayed env ms w1) es"
        "live_balance (w_store w') acc asset = live_balance (w_store w1) acc asset - sum_list (ds @ [d]) - sum_list es"
        using rest[of "ds @ [d]"] ds d by (auto simp: list_all2_appendI)
      ultimately show ?thesis using w1 t c Inr Some by (intro exI[of _ "d # es"]) simp
    qed
  qed
qed simp

end
