(* ===== verification/Inflight_Laws.thy ===== *)
theory Inflight_Laws
  imports Inflight Ledger_Api
begin

text \<open>
  Authorization reserves its holding accounts before it moves money, and accounts are never
  removed: whatever the first attempt returned, the same trade can never be authorized again.
\<close>

lemma step_keeps_accounts:
  assumes "store_step env st st'" "map_of (ms_accounts st) aid \<noteq> None"
  shows "map_of (ms_accounts st') aid \<noteq> None"
  using assms
  by cases (auto simp: commit_envelope_def commit_transition_def create_account_def append_event_def create_book_def append_balance_projection_def
      commit_apply_def with_event_def split_beta Let_def contains_key_def split: option.splits sum.splits commit_exit.splits)

lemma steps_keep_accounts:
  assumes "store_steps env st st'" "map_of (ms_accounts st) aid \<noteq> None"
  shows "map_of (ms_accounts st') aid \<noteq> None"
  using assms by (induction rule: rtranclp_induct) (auto dest: step_keeps_accounts)

text \<open>The first hold of a trade, and what creating it does.\<close>

definition hold_account :: "book_id \<Rightarrow> metadata \<Rightarrow> account_id \<Rightarrow> account" where
  "hold_account bk md hold = (account_new_ref hold)\<lparr>acc_flags := flags_insert INFLIGHT DEBIT_MUST_NOT_EXCEED_CREDIT, acc_book := bk, acc_metadata := md\<rparr>"

lemma hold_account_id [simp]: "acc_id (hold_account bk md hold) = hold"
  by (simp add: hold_account_def account_new_ref_def)

lemma create_hold_exists:
  assumes "meta_map cd (MetaHold d) = Inr md"
  shows "map_of (ms_accounts (w_store (snd (create_hold env cd bk (d, hold) w)))) hold \<noteq> None"
proof -
  have "map_of (ms_accounts (w_store (snd (ledger_create_account env (hold_account bk md hold) w)))) hold \<noteq> None"
    by (auto simp: ledger_create_account_def lbind_def lwrite_def create_account_def contains_key_def now_millis_def read_clock_def append_event_def
        split_beta Let_def split: option.splits)
  then show ?thesis using assms
    by (auto simp: create_hold_def lbind_def lift_err_def map_err_def lcatch_def hold_account_def Let_def split: prod.splits sum.splits fault.splits)
qed

lemma create_hold_taken:
  assumes "meta_map cd (MetaHold d) = Inr md" "map_of (ms_accounts (w_store w)) hold \<noteq> None"
  shows "create_hold env cd bk (d, hold) w = (Inl (Fail (InflightAlreadyOpen hold)), w)"
proof -
  have "ledger_create_account env (hold_account bk md hold) w = (Inl (Fail (AccountAlreadyExists hold)), w)"
    using assms(2) by (auto simp: ledger_create_account_def lbind_def lwrite_def create_account_def contains_key_def)
  then show ?thesis using assms(1)
    by (simp add: create_hold_def lbind_def lift_err_def map_err_def lcatch_def hold_account_def Let_def)
qed

lemma bind_continues:
  assumes "\<And>a. preserves (store_steps env) (f a)"
  shows "store_steps env (w_store (snd (m w))) (w_store (snd (lbind m f w)))"
  using assms by (auto simp: lbind_eq preserves_def split: sum.splits)

lemma lift_err_bind: "lbind (lift_err (Inr a)) f = f a"
  by (rule ext) (simp add: lbind_def lift_err_def map_err_def)

lemma authorize_creates_hold:
  assumes x: "externs_ok (le_ext env)" and holds: "dest_holds (inflight_subaccount env cd t) (t_movements t) = Inr holds"
    and first: "sort_key fst holds = (d, hold) # rest" and md: "meta_map cd (MetaHold d) = Inr md"
  shows "map_of (ms_accounts (w_store (snd (authorize env cd t w)))) hold \<noteq> None"
proof -
  let ?create = "create_hold env cd (t_book t)"
  let ?all = "lfold (\<lambda>_ dh. ?create dh) () (sort_key fst holds)"
  have "store_steps env (w_store (snd (?create (d, hold) w))) (w_store (snd (?all w)))"
    unfolding first lfold.simps by (rule bind_continues) (intro steps.preserves_fold create_hold_steps)
  moreover have "store_steps env (w_store (snd (?all w))) (w_store (snd (authorize env cd t w)))"
    unfolding authorize_def Let_def holds lift_err_bind
    by (rule bind_continues) (intro steps.preserves_bind commit_steps[OF x]; simp)
  ultimately have "store_steps env (w_store (snd (?create (d, hold) w))) (w_store (snd (authorize env cd t w)))" by simp
  then show ?thesis using create_hold_exists[OF md] by (rule steps_keep_accounts)
qed

lemma authorize_taken:
  assumes holds: "dest_holds (inflight_subaccount env cd t) (t_movements t) = Inr holds"
    and first: "sort_key fst holds = (d, hold) # rest" and md: "meta_map cd (MetaHold d) = Inr md"
    and taken: "map_of (ms_accounts (w_store w)) hold \<noteq> None"
  shows "authorize env cd t w = (Inl (Fail (InflightAlreadyOpen hold)), w)"
  by (simp add: authorize_def lbind_def holds lift_err_def map_err_def first create_hold_taken[OF md taken])

end
