(* ===== verification/Scenario_Reversal.thy ===== *)
theory Scenario_Reversal
  imports Scenario Saga_Laws Inflight_Laws
begin

text \<open>
  The deposit reversed, and a saga whose second movement fails after the deposit.
\<close>

lemma length_demo_sha: "length (demo_sha bs) = 32"
  by (simp add: demo_sha_def)

lemma length_account_hash: "length (account_hash demo_sha a) = 32"
  by (simp add: account_hash_def double_demo_sha length_demo_sha)

lemma length_env_hash: "length (env_hash (envelope_id demo_sha e)) = 32"
  by (simp add: envelope_id_def content_hash_def double_demo_sha length_demo_sha)

lemma demo_id_eq:
  "length (envelope_to_bytes e) \<noteq> 32 \<Longrightarrow> envelope_id demo_sha e = EnvelopeId (replicate 32 (word_of_nat (length (envelope_to_bytes e))))"
  by (simp add: envelope_id_def content_hash_def double_demo_sha demo_sha_def)

definition undo_env :: envelope where
  "undo_env = \<lparr>e_consumes = [PostingId deposit_id 0, PostingId deposit_id 1], e_creates = [], e_account_snapshots = [],
     e_book = BookId 0, e_metadata = []\<rparr>"

definition undo_id :: envelope_id where
  "undo_id = envelope_id demo_sha undo_env"

lemma undo_id_new: "undo_id \<noteq> deposit_id"
proof -
  have "length (envelope_to_bytes deposit_env) = 193"
    by (simp add: envelope_to_bytes_def deposit_env_def write_u32_def new_posting_to_bytes_def asset_id_to_bytes_def cent_to_bytes_def
        account_snapshot_id_to_bytes_def snap_def length_account_hash book_id_to_bytes_def write_i64_def)
  then have "deposit_id = EnvelopeId (replicate 32 193)" unfolding deposit_id_def by (subst demo_id_eq) simp_all
  moreover have "length (envelope_to_bytes undo_env) = 93"
    by (simp add: envelope_to_bytes_def undo_env_def write_u32_def posting_id_to_bytes_def write_u16_def deposit_id_def length_env_hash
        book_id_to_bytes_def write_i64_def)
  then have "undo_id = EnvelopeId (replicate 32 93)" unfolding undo_id_def by (subst demo_id_eq) simp_all
  moreover have "replicate 32 (93 :: byte) \<noteq> replicate 32 193" by (subst replicate_eq_replicate) simp
  ultimately show ?thesis by (metis envelope_id.inject)
qed

lemma undo_reversal: "reversal_of (deposit_record ts) [] = undo_env"
  by (simp add: reversal_of_def deposit_record_def deposit_env_def undo_env_def envelope_builder_metadata_def envelope_builder_book_def
      envelope_builder_creates_def envelope_builder_consumes_def envelope_builder_new_def)

lemma undo_pinned: "pin_snapshots demo_env undo_env w = (Inr undo_env, w)"
  by (simp add: pin_snapshots_def undo_env_def action_eval resolve_snapshots_def get_accounts_def set_account_snapshots_def sort_dedup_def)

definition undo_loaded :: loaded_state where
  "undo_loaded = \<lparr>ls_consumed_postings = deposit_postings, ls_accounts = [(bank_id, bank), (alice_id, alice)],
     ls_balances = [((bank_id, demo_usd), - 100), ((alice_id, demo_usd), 100)], ls_book = None\<rparr>"

lemma deposited_balance:
  "compute_balance demo_env bank_id demo_usd deposited = (Inr (- 100), deposited)"
  "compute_balance demo_env alice_id demo_usd deposited = (Inr 100, deposited)"
  by (simp_all add: compute_balance_def action_eval overflow_action_def get_postings_by_account_def postings_in_def checked_sum_def
      deposit_postings_def posting_new_def posting_matches_def checked_add_def checked_i64_def range_defs)

lemma undo_required:
  "required_state undo_env deposit_postings = \<lparr>rs_consumed_postings = e_consumes undo_env, rs_accounts = [bank_id, alice_id],
     rs_balances = [(bank_id, demo_usd), (alice_id, demo_usd)]\<rparr>"
  by (simp add: required_state_def posting_keys_def undo_env_def sort_dedup_def account_order Let_def deposit_postings_def posting_new_def)

lemma undo_consumed: "get_postings (e_consumes undo_env) (w_store deposited) = Inr deposit_postings"
  by (simp add: get_postings_def undo_env_def deposit_postings_def posting_new_def ok_or_def rbind_def)

lemma deposited_books [simp]: "ms_books (w_store deposited) = []"
  by (simp add: deposited_def demo_deposit_run commit_apply_def deposit_req_eq split_beta Let_def)

lemma undo_load: "load demo_env undo_env deposited = (Inr undo_loaded, deposited)"
proof -
  have u: "e_consumes undo_env \<noteq> []" "e_book undo_env = BookId 0" by (simp_all add: undo_env_def)
  show ?thesis
    by (simp add: load_def action_eval u undo_consumed undo_required deposited_balance load_book_def get_book_def get_accounts_def head_version_def
        last_opt_def collect_map_def undo_loaded_def DEFAULT_BOOK_def)
qed

lemma undo_plan: "ledger_plan demo_env undo_env undo_loaded = Inr (build_plan demo_sha undo_env)"
proof -
  have keys: "posting_keys undo_env deposit_postings = \<lparr>pk_owners = [bank_id, alice_id], pk_balances = [(bank_id, demo_usd), (alice_id, demo_usd)]\<rparr>"
    by (simp add: posting_keys_def undo_env_def sort_dedup_def account_order deposit_postings_def posting_new_def)
  have "validate_and_plan (le_ext demo_env) (plan_input_of undo_env undo_loaded) = Inr (build_plan demo_sha undo_env)"
    by (simp add: validate_and_plan_def Let_def plan_input_of_def keys undo_loaded_def)
      (simp add: undo_env_def deposit_postings_def posting_new_def check_nonempty_def check_no_duplicates_def check_postings_exist_def check_accounts_def guard_each_def
        check_snapshots_def check_book_def check_conservation_def entry_add_def entry_sub_def entry_value_def range_defs consumed_by_id_def
        ok_or_def
        check_negative_postings_def check_overdraft_def overdraft_guard_def checked_add_def checked_sub_def checked_i64_def is_negative_def)
  then show ?thesis by (simp add: ledger_plan_def undo_loaded_def undo_required contains_key_def)
qed

definition undo_req :: commit_request where
  "undo_req = build_request undo_env undo_loaded (build_plan demo_sha undo_env) 1700000000006"

lemma undo_req_eq: "undo_req = \<lparr>cr_transfer_id = undo_id, cr_consume = e_consumes undo_env, cr_create = [],
    cr_record = \<lparr>er_envelope = undo_env, er_receipt = \<lparr>r_transfer_id = undo_id\<rparr>, er_created_at = 1700000000006\<rparr>,
    cr_involved = [bank_id, alice_id], cr_event = \<lparr>ev_seq = 0, ev_timestamp = 1700000000006, ev_kind = TransferCommitted undo_id\<rparr>\<rparr>"
proof -
  have "e_creates undo_env = []" by (simp add: undo_env_def)
  then show ?thesis
    by (simp add: undo_req_def build_request_def build_plan_def undo_id_def undo_loaded_def Let_def created_postings_def)
      (simp add: deposit_postings_def posting_new_def sort_dedup_def account_order)
qed

lemma undo_guards: "commit_guards (le_hash demo_env) undo_req (w_store deposited) = Inr ()"
  by (simp add: commit_guards_def undo_req_eq guard_each_def commit_flag_guard_def account_of_def head_version_def last_opt_def)
    (simp add: undo_env_def deposit_postings_def posting_new_def commit_spend_guard_def contains_key_def account_of_def head_version_def last_opt_def
      commit_floor_guard_def commit_assets_def commit_floor_asset_def live_after_def created_for_def
      overflow_exit_def checked_sum_def checked_add_def checked_i64_def range_defs is_negative_def map_filter_simps)

definition undone :: world where
  "undone = snd (reverse demo_env deposit_id deposited)"

lemma undo_run: "reverse demo_env deposit_id deposited =
   (Inr \<lparr>r_transfer_id = undo_id\<rparr>, deposited\<lparr>w_store := commit_apply 1700000000007 undo_req (w_store deposited), w_tick := 8\<rparr>)"
proof -
  have e: "e_consumes deposit_env = []" by (simp add: deposit_env_def)
  have "reverse demo_env deposit_id deposited = ledger_commit_envelope demo_env undo_env deposited"
    by (simp add: reverse_def lbind_def get_transfer_def e undo_reversal)
  also have "\<dots> = commit_write demo_env undo_env undo_loaded (build_plan demo_sha undo_env) deposited"
    using undo_id_new by (simp add: lbind_def ledger_commit_envelope_eq undo_pinned get_transfer_def commit_new_def undo_load undo_plan undo_id_def[symmetric])
  also have "\<dots> = (Inr \<lparr>r_transfer_id = undo_id\<rparr>, deposited\<lparr>w_store := commit_apply 1700000000007 undo_req (w_store deposited), w_tick := 8\<rparr>)"
  proof -
    have "cr_transfer_id undo_req = undo_id" "er_receipt (cr_record undo_req) = \<lparr>r_transfer_id = undo_id\<rparr>" by (simp_all add: undo_req_eq)
    then show ?thesis using undo_id_new
      by (simp add: commit_write_def action_eval commit_envelope_def undo_req_def[symmetric] undo_guards)
  qed
  finally show ?thesis .
qed

section \<open>A saga that fails after the deposit\<close>

definition saga_deposit :: saga_movement where
  "saga_deposit = Deposit \<lparr>dep_to = alice_id, dep_asset = demo_usd, dep_amount = 100, dep_external = bank_id\<rparr>"

definition saga_pay :: saga_movement where
  "saga_pay = Pay \<lparr>pay_from = alice_id, pay_to = bank_id, pay_asset = demo_usd, pay_amount = 500\<rparr>"

lemma saga_deposit_built: "movement_build saga_deposit = Inr demo_deposit"
  by (simp add: movement_build_def saga_deposit_def demo_deposit_built map_err_def)

lemma saga_pay_fails:
  "ledger_commit demo_env (pay alice_id bank_id demo_usd 500 transfer_builder_new) deposited =
     (Inl (Fail (LSelection \<lparr>if_available = 100, if_requested = 500\<rparr>)), deposited)"
  by (simp add: ledger_commit_def resolve_def pay_def transfer_builder_new_def movement_main_def movement_ref_def action_eval overflow_action_def draft_movements_def entry_add_def entry_value_def
      checked_add_def checked_i64_def range_defs is_positive_def load_debit_def get_postings_by_account_def postings_in_def contains_key_def
      get_account_def head_version_def last_opt_def resolve_envelope_def resolve_debit_def positives_def checked_sum_def ledger_error_from_resolve_def
      deposit_postings_def posting_new_def posting_matches_def)

lemma deposited_run: "ledger_commit demo_env demo_deposit opened = (Inr \<lparr>r_transfer_id = deposit_id\<rparr>, deposited)"
  using demo_deposit_run by (simp add: deposited_def)

lemma saga_pay_built: "movement_build saga_pay = Inr (pay alice_id bank_id demo_usd 500 transfer_builder_new)"
  by (simp add: movement_build_def saga_pay_def)

lemma undone_run: "reverse demo_env deposit_id deposited = (Inr \<lparr>r_transfer_id = undo_id\<rparr>, undone)"
  using undo_run by (simp add: undone_def)

lemma saga_run:
  "run_movements demo_env [saga_deposit, saga_pay] opened = (Inl (Fail (LSelection \<lparr>if_available = 100, if_requested = 500\<rparr>)), undone)"
  by (simp add: run_movements_def saga_deposit_built saga_pay_built deposited_run saga_pay_fails undone_run)

lemma saga_fresh: "run_fresh demo_env [] [saga_deposit, saga_pay] opened"
  using undo_id_new by (simp add: saga_deposit_built saga_pay_built deposited_run saga_pay_fails undone_run)

lemma undone_fields:
  "ms_transfers (w_store undone) = [(deposit_id, deposit_record 1700000000004),
     (undo_id, \<lparr>er_envelope = undo_env, er_receipt = \<lparr>r_transfer_id = undo_id\<rparr>, er_created_at = 1700000000006\<rparr>)]"
  "pt_active (ms_postings (w_store undone)) = []" "pt_reserved (ms_postings (w_store undone)) = []"
  "ms_accounts (w_store undone) = [(bank_id, [bank]), (alice_id, [alice])]"
  using undo_id_new
  by (simp_all add: undone_def undo_run commit_apply_def undo_req_eq split_beta Let_def commit_tables_def)
    (simp_all add: undo_env_def deposit_postings_def apply_create_def posting_new_def)

lemma undone_small: "small (w_store undone)"
  by (auto simp: small_def undone_fields undo_env_def deposit_env_def)

text \<open>A movement whose amount cannot be negated fails while the transfer is built.\<close>

definition saga_overflow :: saga_movement where
  "saga_overflow = Deposit \<lparr>dep_to = alice_id, dep_asset = demo_usd, dep_amount = i64_min, dep_external = bank_id\<rparr>"

lemma saga_overflow_run:
  "run_movements demo_env [saga_deposit, saga_overflow] opened = (Inl (Fail LOverflow), deposited)"
proof -
  have "movement_build saga_overflow = Inl (Fail LOverflow)"
    by (simp add: movement_build_def saga_overflow_def deposit_def checked_neg_def checked_i64_def range_defs map_err_def ledger_error_from_overflow_def)
  then show ?thesis by (simp add: run_movements_def saga_deposit_built deposited_run)
qed

text \<open>The same saga in a ledger that already holds the deposit: the commit is a replay.\<close>

lemma deposit_resolved_again: "resolve demo_env demo_deposit deposited = (Inr deposit_env, deposited)"
  by (simp add: resolve_def demo_deposit_def action_eval overflow_action_def draft_movements_def movement_posting_def entry_add_def entry_value_def
     checked_add_def checked_i64_def range_defs resolve_envelope_def envelope_builder_metadata_def
      envelope_builder_book_def envelope_builder_creates_def envelope_builder_consumes_def envelope_builder_new_def
      resolve_snapshots_def referenced_accounts_def sort_dedup_def account_order get_accounts_def head_version_def last_opt_def 
      set_account_snapshots_def deposit_env_def snap_def account_snapshot_id_of_def is_positive_def)

lemma deposit_replayed: "ledger_commit demo_env demo_deposit deposited = (Inr \<lparr>r_transfer_id = deposit_id\<rparr>, deposited)"
proof -
  have "pin_snapshots demo_env deposit_env deposited = (Inr deposit_env, deposited)" by (simp add: pin_snapshots_def deposit_env_def)
  then show ?thesis
    by (simp add: ledger_commit_def lbind_def deposit_resolved_again ledger_commit_envelope_eq get_transfer_def deposit_id_def[symmetric])
      (simp add: deposit_record_def)
qed

lemma saga_replay_run:
  "run_movements demo_env [saga_deposit, saga_pay] deposited = (Inl (Fail (LSelection \<lparr>if_available = 100, if_requested = 500\<rparr>)), undone)"
  by (simp add: run_movements_def saga_deposit_built saga_pay_built deposit_replayed saga_pay_fails undone_run)

section \<open>An authorization that fails for lack of funds\<close>

definition demo_codec :: codec where
  "demo_codec = \<lparr>enc_meta = (\<lambda>_. Some []), dec_meta = (\<lambda>_. None), enc_transfer = (\<lambda>_. [1])\<rparr>"

abbreviation demo_hold :: account_id where "demo_hold \<equiv> AccountId 1 16843009"

lemma demo_sub: "inflight_subaccount demo_env demo_codec overdraw = 16843009"
proof -
  have "take 8 (demo_sha [1]) = [1, 1, 1, 1, 1, 1, 1, 1]" by (simp add: demo_sha_def numeral_nat)
  moreover have "be_val [1, 1, 1, 1, 1, 1, 1, 1] = 72340172838076673" by (simp add: be_val_def)
  ultimately show ?thesis
    by (simp add: inflight_subaccount_def double_demo_sha demo_codec_def SUB_BITS_def Let_def)
qed

lemma demo_holds: "dest_holds (inflight_subaccount demo_env demo_codec overdraw) (t_movements overdraw) = Inr [(bank_id, demo_hold)]"
  unfolding demo_sub by (simp add: dest_holds_def overdraw_def contains_key_def with_sub_def)

lemma demo_encode [simp]: "encode_meta demo_codec m = Inr []"
  by (simp add: encode_meta_def demo_codec_def)

lemma demo_meta: "meta_map demo_codec (MetaHold bank_id) = Inr (meta_insert K_INFLIGHT [] metadata_new)"
  by (simp add: meta_map_def)

text \<open>The hold is created before the payment is found to be uncovered.\<close>

definition held :: world where
  "held = snd (create_hold demo_env demo_codec (t_book overdraw) (bank_id, demo_hold) opened)"

lemma held_created:
  "create_hold demo_env demo_codec (t_book overdraw) (bank_id, demo_hold) opened = (Inr (), held)"
  "ms_accounts (w_store held) = [(bank_id, [bank]), (alice_id, [alice]),
     (demo_hold, [hold_account (t_book overdraw) (meta_insert K_INFLIGHT [] metadata_new) demo_hold])]"
  "ms_postings (w_store held) = \<lparr>pt_immutable = [], pt_active = [], pt_reserved = []\<rparr>"
  by (simp_all add: held_def create_hold_def demo_meta action_eval lift_err_bind lcatch_def Let_def hold_account_def[symmetric] ledger_create_account_def
      create_account_def contains_key_def opened_tick append_event_def split: option.splits)

lemma authorize_overdraw_fails:
  "authorize demo_env demo_codec overdraw opened = (Inl (Fail (LSelection \<lparr>if_available = 0, if_requested = 5\<rparr>)), held)"
proof -
  let ?legs = "[\<lparr>il_destination = bank_id, il_hold = demo_hold, il_funder = alice_id, il_asset = demo_usd, il_amount = 5\<rparr>]"
  let ?t = "transfer_builder_metadata (meta_insert K_INFLIGHT [] (t_metadata overdraw))
     (movement_ref alice_id demo_hold demo_usd 5 (transfer_builder_book (t_book overdraw) transfer_builder_new))"
  have "legs_of [(bank_id, demo_hold)] (t_movements overdraw) = Inr ?legs"
    by (simp add: legs_of_def overdraw_def ok_or_def rbind_def)
  then have "authorize demo_env demo_codec overdraw opened = lbind (ledger_commit demo_env ?t) (\<lambda>r. lreturn \<lparr>au_inflight = r_transfer_id r, au_legs = ?legs\<rparr>) held"
    unfolding authorize_def Let_def demo_holds lift_err_bind
    by (simp add: held_created(1) lbind_def lift_err_def map_err_def)
  moreover have "ledger_commit demo_env ?t held = (Inl (Fail (LSelection \<lparr>if_available = 0, if_requested = 5\<rparr>)), held)"
    by (simp add: ledger_commit_def resolve_def transfer_builder_metadata_def movement_ref_def transfer_builder_book_def transfer_builder_new_def
      action_eval overflow_action_def draft_movements_def entry_add_def entry_value_def
      checked_add_def checked_i64_def range_defs is_positive_def load_debit_def get_postings_by_account_def postings_in_def contains_key_def
      get_account_def head_version_def last_opt_def resolve_envelope_def resolve_debit_def positives_def checked_sum_def ledger_error_from_resolve_def held_created)
  ultimately show ?thesis by (simp add: lbind_def)
qed

end
