(* ===== verification/Sql_Row.thy ===== *)
theory Sql_Row
  imports Mem_Store
begin

text \<open>
  \<^verbatim>\<open>kuatia-storage-sql/src/row.rs\<close> and the tables of \<^verbatim>\<open>src/migrations\<close>: a table is the list
  of its rows, with the columns the schema gives them: content-addressed ids as
  lower-case hex text, money as decimal text, structured values as JSON text, and the
  unsigned integers of the domain reinterpreted as the signed columns of the database.
  The JSON codec is the crate \<open>serde_json\<close>, which is not part of the repository: it is a
  parameter.
\<close>

section \<open>Tables\<close>

record account_row =
  ar_id :: i64
  ar_subaccount :: i64
  ar_version :: i64
  ar_flags :: int
  ar_book :: i64
  ar_metadata :: rstr

record head_row =
  hr_id :: i64
  hr_subaccount :: i64
  hr_version :: i64

record posting_row =
  pr_transfer_id :: rstr
  pr_idx :: int
  pr_owner :: i64
  pr_subaccount :: i64
  pr_asset :: int
  pr_value :: rstr

record live_row =
  lr_row :: posting_row
  lr_reservation :: "i64 option"

record transfer_row =
  tr_id :: rstr
  tr_transfer :: rstr
  tr_receipt :: rstr
  tr_created_at :: i64
  tr_book :: i64

record transfer_account_row =
  ta_transfer_id :: rstr
  ta_account_id :: i64
  ta_subaccount :: i64

record event_row =
  vr_seq :: i64
  vr_timestamp :: i64
  vr_kind :: rstr
  vr_data :: rstr
  vr_dedup_key :: "rstr option"

record book_row =
  kr_id :: i64
  kr_name :: rstr
  kr_data :: rstr

record projection_row =
  jr_id :: i64
  jr_account :: i64
  jr_subaccount :: i64
  jr_asset :: int
  jr_balance :: rstr
  jr_watermark :: i64

section \<open>Signed columns\<close>

definition as_i16 :: "u16 \<Rightarrow> int" where
  "as_i16 v = sint v"

definition as_i32 :: "u32 \<Rightarrow> int" where
  "as_i32 v = sint v"

definition as_i64 :: "u64 \<Rightarrow> i64" where
  "as_i64 v = sint v"

section \<open>JSON\<close>

text \<open>The serializers of the stored types; \<open>js_event_kind\<close> is never read back.\<close>

record json =
  js_metadata :: "metadata \<Rightarrow> rstr option"
  js_envelope :: "envelope \<Rightarrow> rstr option"
  js_receipt :: "receipt \<Rightarrow> rstr option"
  js_event :: "ledger_event \<Rightarrow> rstr option"
  js_event_kind :: "ledger_event_kind \<Rightarrow> rstr option"
  js_book :: "book \<Rightarrow> rstr option"
  un_metadata :: "rstr \<Rightarrow> metadata option"
  un_envelope :: "rstr \<Rightarrow> envelope option"
  un_receipt :: "rstr \<Rightarrow> receipt option"
  un_event :: "rstr \<Rightarrow> ledger_event option"
  un_book :: "rstr \<Rightarrow> book option"

definition serialize_json :: "('a \<Rightarrow> rstr option) \<Rightarrow> 'a \<Rightarrow> store_error fault + rstr" where
  "serialize_json enc v = ok_or (Fail (Internal JsonSerialization)) (enc v)"

definition deserialize_json :: "(rstr \<Rightarrow> 'a option) \<Rightarrow> rstr \<Rightarrow> store_error fault + 'a" where
  "deserialize_json dec s = ok_or (Fail (Internal BadJson)) (dec s)"

section \<open>Hex\<close>

definition to_hex :: "byte list \<Rightarrow> rstr" where
  "to_hex bytes = concat (map (\<lambda>b. [hex_digit (unat (drop_bit 4 b)), hex_digit (unat (b AND 15))]) bytes)"

text \<open>\<open>char::to_digit(16)\<close>, and \<open>u8::from_str_radix(_, 16)\<close> on two ASCII characters: a leading plus sign is accepted.\<close>

definition hex_val :: "uchar \<Rightarrow> nat option" where
  "hex_val c = (if 48 \<le> c \<and> c \<le> 57 then Some (c - 48) else if 97 \<le> c \<and> c \<le> 102 then Some (c - 87)
     else if 65 \<le> c \<and> c \<le> 70 then Some (c - 55) else None)"

definition hex_pair :: "uchar \<Rightarrow> uchar \<Rightarrow> byte option" where
  "hex_pair c d = (case hex_val d of
     None \<Rightarrow> None
   | Some y \<Rightarrow> if c = 43 then Some (word_of_nat y) else map_option (\<lambda>x. word_of_nat (16 * x + y)) (hex_val c))"

text \<open>
  The slices \<open>s[i..i + 2]\<close> in order: a slice that ends inside a character panics, a
  two-byte character is a slice that is not a number.
\<close>

fun hex_slices :: "rstr \<Rightarrow> store_error fault + byte list" where
  "hex_slices [] = Inr []"
| "hex_slices [c] = (if utf8_len c = 2 then Inl (Fail (Internal BadHex)) else Inl Panic)"
| "hex_slices (c # d # cs) =
     (if utf8_len c = 2 then Inl (Fail (Internal BadHex))
      else if utf8_len c = 1 \<and> utf8_len d = 1 then
        rbind (ok_or (Fail (Internal BadHex)) (hex_pair c d)) (\<lambda>b. rbind (hex_slices cs) (\<lambda>bs. Inr (b # bs)))
      else Inl Panic)"

definition from_hex :: "rstr \<Rightarrow> store_error fault + byte list" where
  "from_hex s = (if byte_len s mod 2 \<noteq> 0 then Inl (Fail (Internal (OddLengthHex s))) else hex_slices s)"

definition envelope_id_to_hex :: "envelope_id \<Rightarrow> rstr" where
  "envelope_id_to_hex i = to_hex (env_hash i)"

definition envelope_id_from_hex :: "rstr \<Rightarrow> store_error fault + envelope_id" where
  "envelope_id_from_hex s = rbind (from_hex s) (\<lambda>bytes.
     if length bytes = 32 then Inr (EnvelopeId bytes) else Inl (Fail (Internal (BadIdLength (length bytes)))))"

section \<open>Row mappers\<close>

definition row_to_account :: "json \<Rightarrow> account_row \<Rightarrow> store_error fault + account" where
  "row_to_account js r = rbind (deserialize_json (un_metadata js) (ar_metadata r)) (\<lambda>md.
     Inr \<lparr>acc_id = with_sub (ar_id r) (ar_subaccount r), acc_version = word_of_int (ar_version r),
          acc_flags = word_of_int (ar_flags r), acc_book = BookId (ar_book r), acc_metadata = md\<rparr>)"

definition parse_cent :: "rstr \<Rightarrow> store_error fault + cent" where
  "parse_cent s = map_err (\<lambda>_. Fail (Internal BadCent)) (cent_from_str s)"

definition row_to_posting :: "posting_row \<Rightarrow> store_error fault + posting" where
  "row_to_posting r = rbind (parse_cent (pr_value r)) (\<lambda>v.
     rbind (envelope_id_from_hex (pr_transfer_id r)) (\<lambda>tid.
     Inr \<lparr>p_id = PostingId tid (word_of_int (pr_idx r)), p_owner = with_sub (pr_owner r) (pr_subaccount r),
          p_asset = asset_id_new (word_of_int (pr_asset r)), p_value = v\<rparr>))"

text \<open>The values the inserts bind.\<close>

definition account_to_row :: "json \<Rightarrow> account \<Rightarrow> store_error fault + account_row" where
  "account_to_row js a = rbind (serialize_json (js_metadata js) (acc_metadata a)) (\<lambda>md.
     Inr \<lparr>ar_id = aid_id (acc_id a), ar_subaccount = aid_sub (acc_id a), ar_version = as_i64 (acc_version a),
          ar_flags = as_i32 (acc_flags a), ar_book = book_raw (acc_book a), ar_metadata = md\<rparr>)"

definition posting_to_row :: "posting \<Rightarrow> posting_row" where
  "posting_to_row p = \<lparr>pr_transfer_id = envelope_id_to_hex (pid_transfer (p_id p)), pr_idx = as_i16 (pid_index (p_id p)),
     pr_owner = aid_id (p_owner p), pr_subaccount = aid_sub (p_owner p), pr_asset = as_i32 (asset_raw (p_asset p)),
     pr_value = cent_to_string (p_value p)\<rparr>"

end
