(* ===== verification/Sql_Store.thy ===== *)
theory Sql_Store
  imports Sql_Row
begin

text \<open>
  \<^verbatim>\<open>kuatia-storage-sql/src\<close>: the SQL store. A statement is its meaning on the tables:
  \<open>SELECT ... WHERE\<close> keeps the rows of a table that match, in an order the engine chooses
  unless an \<open>ORDER BY\<close> sorts them; \<open>INSERT ... ON CONFLICT (key) DO NOTHING\<close> adds a row whose
  key is new and reports how many rows it added; \<open>UPDATE\<close> and \<open>DELETE\<close> report how many rows
  matched. A transaction works on a copy of the tables that replaces them when it
  commits; a return before the commit drops the copy. The engine isolates concurrent
  transactions, so an operation is one function on the database. The id generator is
  not part of the database and is not rolled back.
\<close>

datatype dialect = Postgres | Sqlite

record sql_db =
  db_accounts :: "account_row list"
  db_heads :: "head_row list"
  db_postings :: "posting_row list"
  db_live :: "live_row list"
  db_transfers :: "transfer_row list"
  db_transfer_accounts :: "transfer_account_row list"
  db_events :: "event_row list"
  db_books :: "book_row list"
  db_projections :: "projection_row list"
  db_autoid :: auto_id

text \<open>\<open>SqlStore::new\<close> on a freshly migrated database.\<close>

definition sql_store_new :: sql_db where
  "sql_store_new = \<lparr>db_accounts = [], db_heads = [], db_postings = [], db_live = [], db_transfers = [], db_transfer_accounts = [],
     db_events = [], db_books = [], db_projections = [], db_autoid = auto_id_new\<rparr>"

text \<open>What the store uses but does not define: the JSON codec, row orders and the iteration order of a set.\<close>

record sql_env =
  sq_json :: json
  sq_dialect :: dialect
  sq_postings :: "posting_row list \<Rightarrow> posting_row list"
  sq_live :: "live_row list \<Rightarrow> live_row list"
  sq_accounts :: "account_row list \<Rightarrow> account_row list"
  sq_transfers :: "transfer_row list \<Rightarrow> transfer_row list"
  sq_books :: "book_row list \<Rightarrow> book_row list"
  sq_touched :: "(account_id \<times> asset_id) list \<Rightarrow> (account_id \<times> asset_id) list"

definition sql_env_ok :: "sql_env \<Rightarrow> bool" where
  "sql_env_ok se \<longleftrightarrow> (\<forall>rs. mset (sq_postings se rs) = mset rs) \<and> (\<forall>rs. mset (sq_live se rs) = mset rs) \<and>
     (\<forall>rs. mset (sq_accounts se rs) = mset rs) \<and> (\<forall>rs. mset (sq_transfers se rs) = mset rs) \<and>
     (\<forall>rs. mset (sq_books se rs) = mset rs) \<and> (\<forall>ks. mset (sq_touched se ks) = mset ks)"

text \<open>Documented behaviour of the codec: it reads back what it wrote.\<close>

definition json_ok :: "json \<Rightarrow> bool" where
  "json_ok js \<longleftrightarrow> (\<forall>v s. js_metadata js v = Some s \<longrightarrow> un_metadata js s = Some v) \<and>
     (\<forall>v s. js_envelope js v = Some s \<longrightarrow> un_envelope js s = Some v) \<and>
     (\<forall>v s. js_receipt js v = Some s \<longrightarrow> un_receipt js s = Some v) \<and>
     (\<forall>v s. js_event js v = Some s \<longrightarrow> un_event js s = Some v) \<and>
     (\<forall>v s. js_book js v = Some s \<longrightarrow> un_book js s = Some v)"

section \<open>Statements\<close>

definition insert_ignore :: "('r \<Rightarrow> 'k) \<Rightarrow> 'r \<Rightarrow> 'r list \<Rightarrow> nat \<times> 'r list" where
  "insert_ignore key r rows = (if key r \<in> key ` set rows then (0, rows) else (1, rows @ [r]))"

text \<open>An insert without \<open>ON CONFLICT\<close>: a key that is taken is an error.\<close>

definition insert_row :: "('r \<Rightarrow> 'k) \<Rightarrow> 'r \<Rightarrow> 'r list \<Rightarrow> store_error fault + 'r list" where
  "insert_row key r rows = (if key r \<in> key ` set rows then Inl (Fail (Internal DatabaseError)) else Inr (rows @ [r]))"

definition delete_where :: "('r \<Rightarrow> bool) \<Rightarrow> 'r list \<Rightarrow> nat \<times> 'r list" where
  "delete_where P rows = (length (filter P rows), filter (\<lambda>r. \<not> P r) rows)"

definition update_where :: "('r \<Rightarrow> bool) \<Rightarrow> ('r \<Rightarrow> 'r) \<Rightarrow> 'r list \<Rightarrow> nat \<times> 'r list" where
  "update_where P f rows = (length (filter P rows), map (\<lambda>r. if P r then f r else r) rows)"

section \<open>Accounts\<close>

text \<open>The join of \<open>accounts\<close> with \<open>account_head\<close>.\<close>

definition head_rows :: "sql_db \<Rightarrow> (head_row \<Rightarrow> bool) \<Rightarrow> account_row list" where
  "head_rows db P = concat (map (\<lambda>a. map (\<lambda>_. a) (filter (\<lambda>h. hr_id h = ar_id a \<and> hr_subaccount h = ar_subaccount a \<and>
     hr_version h = ar_version a \<and> P h) (db_heads db))) (db_accounts db))"

definition is_head :: "account_id \<Rightarrow> head_row \<Rightarrow> bool" where
  "is_head aid h \<longleftrightarrow> hr_id h = aid_id aid \<and> hr_subaccount h = aid_sub aid"

text \<open>\<open>fetch_optional\<close>: the first row, if any.\<close>

definition fetch_optional :: "'r list \<Rightarrow> 'r option" where
  "fetch_optional rows = (case rows of [] \<Rightarrow> None | r # _ \<Rightarrow> Some r)"

definition sql_get_account :: "sql_env \<Rightarrow> account_id \<Rightarrow> sql_db \<Rightarrow> store_error fault + account" where
  "sql_get_account se aid db = rbind (ok_or (Fail (NotFound (EntAccount aid)))
     (fetch_optional (sq_accounts se (head_rows db (is_head aid))))) (row_to_account (sq_json se))"

definition sql_get_accounts :: "sql_env \<Rightarrow> account_id list \<Rightarrow> sql_db \<Rightarrow> store_error fault + account list" where
  "sql_get_accounts se ids db = try_map (\<lambda>aid. sql_get_account se aid db) ids"

definition head_key :: "head_row \<Rightarrow> i64 \<times> i64" where
  "head_key h = (hr_id h, hr_subaccount h)"

definition account_key :: "account_row \<Rightarrow> i64 \<times> i64 \<times> i64" where
  "account_key a = (ar_id a, ar_subaccount a, ar_version a)"

definition head_of :: "account \<Rightarrow> head_row" where
  "head_of a = \<lparr>hr_id = aid_id (acc_id a), hr_subaccount = aid_sub (acc_id a), hr_version = as_i64 (acc_version a)\<rparr>"

definition sql_create_account :: "sql_env \<Rightarrow> account \<Rightarrow> sql_db \<Rightarrow> (store_error fault + nat) \<times> sql_db" where
  "sql_create_account se a db =
     (if filter (is_head (acc_id a)) (db_heads db) \<noteq> [] then (Inr 0, db)
      else case account_to_row (sq_json se) a of
        Inl e \<Rightarrow> (Inl e, db)
      | Inr r \<Rightarrow>
          (let (_, accs) = insert_ignore account_key r (db_accounts db);
               (n, heads) = insert_ignore head_key (head_of a) (db_heads db)
           in if n = 0 then (Inr 0, db) else (Inr 1, db\<lparr>db_accounts := accs, db_heads := heads\<rparr>)))"

definition move_head :: "account \<Rightarrow> head_row list \<Rightarrow> store_error fault + head_row list" where
  "move_head a heads = insert_row head_key (head_of a) (snd (delete_where (is_head (acc_id a)) heads))"

definition sql_append_account_version :: "sql_env \<Rightarrow> account \<Rightarrow> sql_db \<Rightarrow> (store_error fault + nat) \<times> sql_db" where
  "sql_append_account_version se a db = (case fetch_optional (filter (is_head (acc_id a)) (db_heads db)) of
     None \<Rightarrow> (Inr 0, db)
   | Some current \<Rightarrow> (case checked_i64 (hr_version current + 1) of
       None \<Rightarrow> (Inl (Fail (Internal AccountVersionOverflow)), db)
     | Some expected \<Rightarrow>
         if as_i64 (acc_version a) \<noteq> expected then (Inr 0, db)
         else case account_to_row (sq_json se) a of
           Inl e \<Rightarrow> (Inl e, db)
         | Inr r \<Rightarrow> (let (n, accs) = insert_ignore account_key r (db_accounts db)
                    in if n = 0 then (Inr 0, db)
                       else case move_head a (db_heads db) of
                         Inl e \<Rightarrow> (Inl e, db)
                       | Inr heads \<Rightarrow> (Inr 1, db\<lparr>db_accounts := accs, db_heads := heads\<rparr>))))"

definition sql_get_account_history :: "sql_env \<Rightarrow> account_id \<Rightarrow> sql_db \<Rightarrow> store_error fault + account list" where
  "sql_get_account_history se aid db =
     (let rows = sort_key ar_version (sq_accounts se (filter (\<lambda>a. ar_id a = aid_id aid \<and> ar_subaccount a = aid_sub aid) (db_accounts db)))
      in if rows = [] then Inl (Fail (NotFound (EntAccount aid))) else try_map (row_to_account (sq_json se)) rows)"

definition sql_list_accounts :: "sql_env \<Rightarrow> sql_db \<Rightarrow> store_error fault + account list" where
  "sql_list_accounts se db = try_map (row_to_account (sq_json se)) (sq_accounts se (head_rows db (\<lambda>_. True)))"

section \<open>Postings\<close>

definition filter_source :: "posting_filter \<Rightarrow> sql_db \<Rightarrow> posting_row list" where
  "filter_source f db = (case f of
     FilterActive \<Rightarrow> map lr_row (filter (\<lambda>l. lr_reservation l = None) (db_live db))
   | FilterReserved \<Rightarrow> map lr_row (filter (\<lambda>l. lr_reservation l \<noteq> None) (db_live db))
   | FilterLive \<Rightarrow> map lr_row (db_live db)
   | FilterAll \<Rightarrow> db_postings db)"

definition MAX_IDS_PER_QUERY :: nat where "MAX_IDS_PER_QUERY = 500"

text \<open>\<open>slice::chunks\<close>: pieces of \<open>n\<close> elements, the last one possibly shorter.\<close>

function chunks :: "nat \<Rightarrow> 'a list \<Rightarrow> 'a list list" where
  "chunks n xs = (if n = 0 \<or> xs = [] then [] else take n xs # chunks n (drop n xs))"
  by pat_completeness auto
termination by (relation "measure (\<lambda>(n, xs). length xs)") auto

declare chunks.simps [simp del]

definition id_key :: "posting_id \<Rightarrow> rstr \<times> int" where
  "id_key i = (envelope_id_to_hex (pid_transfer i), as_i16 (pid_index i))"

definition row_key :: "posting_row \<Rightarrow> rstr \<times> int" where
  "row_key r = (pr_transfer_id r, pr_idx r)"

text \<open>The predicate that \<open>id_predicate\<close> writes for the ids bound to it.\<close>

definition id_predicate :: "posting_id list \<Rightarrow> posting_row \<Rightarrow> bool" where
  "id_predicate ids r \<longleftrightarrow> list_ex (\<lambda>i. pr_transfer_id r = fst (id_key i) \<and> pr_idx r = snd (id_key i)) ids"

definition sql_get_postings :: "sql_env \<Rightarrow> posting_id list \<Rightarrow> sql_db \<Rightarrow> store_error fault + posting list" where
  "sql_get_postings se ids db =
     (if ids = [] then Inr []
      else rbind (try_fold (\<lambda>found chunk.
               try_fold (\<lambda>found r. rbind (row_to_posting r) (\<lambda>p. Inr (AList.update (id_key (p_id p)) p found)))
                 found (sq_postings se (filter (id_predicate chunk) (db_postings db))))
             [] (chunks MAX_IDS_PER_QUERY ids)) (\<lambda>found.
           try_map (\<lambda>i. ok_or (Fail (NotFound (EntPosting i))) (map_of found (id_key i))) ids))"

definition row_matches :: "i64 \<Rightarrow> i64 option \<Rightarrow> asset_id option \<Rightarrow> posting_row \<Rightarrow> bool" where
  "row_matches i sub asset r \<longleftrightarrow> pr_owner r = i \<and> (case sub of None \<Rightarrow> True | Some s \<Rightarrow> pr_subaccount r = s) \<and>
     (case asset of None \<Rightarrow> True | Some a \<Rightarrow> pr_asset r = as_i32 (asset_raw a))"

definition sql_get_postings_by_account ::
  "sql_env \<Rightarrow> i64 \<Rightarrow> i64 option \<Rightarrow> asset_id option \<Rightarrow> posting_filter \<Rightarrow> sql_db \<Rightarrow> store_error fault + posting list" where
  "sql_get_postings_by_account se i sub asset f db =
     try_map row_to_posting (sort_key row_key (sq_postings se (filter (row_matches i sub asset) (filter_source f db))))"

definition sql_query_postings :: "sql_env \<Rightarrow> posting_query \<Rightarrow> sql_db \<Rightarrow> store_error fault + posting page" where
  "sql_query_postings se q db =
     (let rows = filter (row_matches (pq_account q) (pq_sub q) (pq_asset q)) (filter_source (pq_filter q) db);
          (off, lim) = window (pq_offset q) (pq_limit q)
      in rbind (try_map row_to_posting (take (unat lim) (drop (unat off) (sort_key row_key (sq_postings se rows))))) (\<lambda>items.
         Inr \<lparr>pg_items = items, pg_total = length rows\<rparr>))"

definition sql_get_posting_states :: "sql_env \<Rightarrow> posting_id list \<Rightarrow> sql_db \<Rightarrow> posting_state list" where
  "sql_get_posting_states se ids db =
     (if ids = [] then []
      else let (live, present) = foldl (\<lambda>(live, present) chunk.
              (foldl (\<lambda>m l. AList.update (row_key (lr_row l)) (lr_reservation l) m) live
                 (sq_live se (filter (\<lambda>l. id_predicate chunk (lr_row l)) (db_live db))),
               foldl (\<lambda>s r. List.insert (row_key r) s) present (sq_postings se (filter (id_predicate chunk) (db_postings db)))))
            ([], []) (chunks MAX_IDS_PER_QUERY ids)
          in map (\<lambda>i. case map_of live (id_key i) of
                Some None \<Rightarrow> StateActive
              | Some (Some rid) \<Rightarrow> StateReserved (ReservationId rid)
              | None \<Rightarrow> if id_key i \<in> set present then StateSpent else StateMissing) ids)"

text \<open>The id-batch writes: one statement for each chunk, counted over the transaction.\<close>

definition for_chunks :: "(posting_id list \<Rightarrow> live_row list \<Rightarrow> nat \<times> live_row list) \<Rightarrow> posting_id list \<Rightarrow> live_row list \<Rightarrow> nat \<times> live_row list" where
  "for_chunks stmt ids rows = fold (\<lambda>chunk (n, rows). let (k, rows') = stmt chunk rows in (n + k, rows'))
     (chunks MAX_IDS_PER_QUERY ids) (0, rows)"

definition rid_raw :: "reservation_id \<Rightarrow> i64" where
  "rid_raw r = (case r of ReservationId n \<Rightarrow> n)"

definition sql_reserve_postings :: "posting_id list \<Rightarrow> reservation_id \<Rightarrow> sql_db \<Rightarrow> nat \<times> sql_db" where
  "sql_reserve_postings ids rid db =
     (if ids = [] then (0, db)
      else let (n, rows) = for_chunks (\<lambda>chunk. update_where (\<lambda>l. id_predicate chunk (lr_row l) \<and> lr_reservation l = None)
             (\<lambda>l. l\<lparr>lr_reservation := Some (rid_raw rid)\<rparr>)) ids (db_live db)
           in (n, db\<lparr>db_live := rows\<rparr>))"

definition sql_release_postings :: "posting_id list \<Rightarrow> reservation_id \<Rightarrow> sql_db \<Rightarrow> nat \<times> sql_db" where
  "sql_release_postings ids rid db =
     (if ids = [] then (0, db)
      else let (n, rows) = for_chunks (\<lambda>chunk. update_where (\<lambda>l. id_predicate chunk (lr_row l) \<and> lr_reservation l = Some (rid_raw rid))
             (\<lambda>l. l\<lparr>lr_reservation := None\<rparr>)) ids (db_live db)
           in (n, db\<lparr>db_live := rows\<rparr>))"

definition sql_deactivate_postings :: "posting_id list \<Rightarrow> reservation_id option \<Rightarrow> sql_db \<Rightarrow> nat \<times> sql_db" where
  "sql_deactivate_postings ids rid db =
     (if ids = [] then (0, db)
      else let (n, rows) = for_chunks (\<lambda>chunk. delete_where (\<lambda>l. id_predicate chunk (lr_row l) \<and> lr_reservation l = map_option rid_raw rid))
             ids (db_live db)
           in (n, db\<lparr>db_live := rows\<rparr>))"

definition live_key :: "live_row \<Rightarrow> rstr \<times> int" where
  "live_key l = row_key (lr_row l)"

definition insert_live :: "posting \<Rightarrow> live_row list \<Rightarrow> live_row list" where
  "insert_live p rows = snd (insert_ignore live_key \<lparr>lr_row = posting_to_row p, lr_reservation = None\<rparr> rows)"

definition sql_insert_postings :: "posting list \<Rightarrow> sql_db \<Rightarrow> nat \<times> sql_db" where
  "sql_insert_postings ps db = fold (\<lambda>p (n, db).
     let (k, rows) = insert_ignore row_key (posting_to_row p) (db_postings db)
     in if k = 1 then (n + 1, db\<lparr>db_postings := rows, db_live := insert_live p (db_live db)\<rparr>)
        else (n, db\<lparr>db_postings := rows\<rparr>)) ps (0, db)"

section \<open>Transfers\<close>

definition row_to_record :: "json \<Rightarrow> transfer_row \<Rightarrow> store_error fault + envelope_record" where
  "row_to_record js r = rbind (deserialize_json (un_envelope js) (tr_transfer r)) (\<lambda>e.
     rbind (deserialize_json (un_receipt js) (tr_receipt r)) (\<lambda>rc.
     Inr \<lparr>er_envelope = e, er_receipt = rc, er_created_at = tr_created_at r\<rparr>))"

definition sql_get_transfer :: "sql_env \<Rightarrow> envelope_id \<Rightarrow> sql_db \<Rightarrow> store_error fault + envelope_record option" where
  "sql_get_transfer se tid db = (case fetch_optional (filter (\<lambda>r. tr_id r = envelope_id_to_hex tid) (db_transfers db)) of
     None \<Rightarrow> Inr None
   | Some r \<Rightarrow> rbind (row_to_record (sq_json se) r) (\<lambda>rec. Inr (Some rec)))"

definition record_to_row :: "json \<Rightarrow> envelope_id \<Rightarrow> envelope_record \<Rightarrow> store_error fault + transfer_row" where
  "record_to_row js tid r = rbind (serialize_json (js_envelope js) (er_envelope r)) (\<lambda>t.
     rbind (serialize_json (js_receipt js) (er_receipt r)) (\<lambda>rc.
     Inr \<lparr>tr_id = envelope_id_to_hex tid, tr_transfer = t, tr_receipt = rc, tr_created_at = er_created_at r,
          tr_book = book_raw (e_book (er_envelope r))\<rparr>))"

definition index_accounts :: "envelope_id \<Rightarrow> account_id list \<Rightarrow> transfer_account_row list \<Rightarrow> transfer_account_row list" where
  "index_accounts tid involved rows = fold (\<lambda>a rows. snd (insert_ignore id
     \<lparr>ta_transfer_id = envelope_id_to_hex tid, ta_account_id = aid_id a, ta_subaccount = aid_sub a\<rparr> rows)) involved rows"

definition sql_store_transfer :: "sql_env \<Rightarrow> envelope_record \<Rightarrow> account_id list \<Rightarrow> sql_db \<Rightarrow> (store_error fault + nat) \<times> sql_db" where
  "sql_store_transfer se r involved db =
     (let tid = r_transfer_id (er_receipt r)
      in case record_to_row (sq_json se) tid r of
           Inl e \<Rightarrow> (Inl e, db)
         | Inr row \<Rightarrow> (let (n, rows) = insert_ignore tr_id row (db_transfers db)
                      in (Inr n, db\<lparr>db_transfers := rows, db_transfer_accounts := index_accounts tid involved (db_transfer_accounts db)\<rparr>)))"

text \<open>The join of \<open>transfers\<close> with \<open>transfer_accounts\<close>: one row for each matching index row.\<close>

definition join_accounts :: "sql_db \<Rightarrow> (transfer_account_row \<Rightarrow> bool) \<Rightarrow> transfer_row list" where
  "join_accounts db P = concat (map (\<lambda>t. map (\<lambda>_. t) (filter (\<lambda>ta. tr_id t = ta_transfer_id ta \<and> P ta) (db_transfer_accounts db)))
     (db_transfers db))"

definition index_matches :: "i64 \<Rightarrow> i64 option \<Rightarrow> transfer_account_row \<Rightarrow> bool" where
  "index_matches i sub ta \<longleftrightarrow> ta_account_id ta = i \<and> (case sub of None \<Rightarrow> True | Some s \<Rightarrow> ta_subaccount ta = s)"

definition sql_get_transfers_for_account :: "sql_env \<Rightarrow> i64 \<Rightarrow> i64 option \<Rightarrow> sql_db \<Rightarrow> store_error fault + envelope_record list" where
  "sql_get_transfers_for_account se i sub db =
     try_map (row_to_record (sq_json se)) (sort_key tr_created_at (sq_transfers se (join_accounts db (index_matches i sub))))"

definition sql_query_transfers :: "sql_env \<Rightarrow> transfer_query \<Rightarrow> sql_db \<Rightarrow> store_error fault + envelope_record page" where
  "sql_query_transfers se q db =
     (let source = (case tq_account q of
            Some a \<Rightarrow> join_accounts db (index_matches a (tq_sub q))
          | None \<Rightarrow> db_transfers db);
          rows = filter (\<lambda>t. (case tq_from_ts q of Some lo \<Rightarrow> lo \<le> tr_created_at t | None \<Rightarrow> True) \<and>
             (case tq_to_ts q of Some hi \<Rightarrow> tr_created_at t < hi | None \<Rightarrow> True) \<and>
             (case tq_book q of Some b \<Rightarrow> tr_book t = book_raw b | None \<Rightarrow> True)) source;
          (off, lim) = window (tq_offset q) (tq_limit q)
      in rbind (try_map (row_to_record (sq_json se)) (take (unat lim) (drop (unat off) (sort_key tr_created_at (sq_transfers se rows))))) (\<lambda>items.
         Inr \<lparr>pg_items = items, pg_total = length rows\<rparr>))"

section \<open>Events\<close>

text \<open>
  The insert shared by \<open>append_event\<close> and \<open>append_event_tx\<close>: the sequence number is drawn before
  the insert, a dedup key that is taken makes the insert a no-op.
\<close>

definition append_event_tx ::
  "json \<Rightarrow> int \<Rightarrow> ledger_event \<Rightarrow> event_row list \<Rightarrow> auto_id \<Rightarrow> (store_error fault + nat \<times> i64 \<times> event_row list) \<times> auto_id" where
  "append_event_tx js clock ev rows g =
     (case rbind (serialize_json (js_event_kind js) (ev_kind ev)) (\<lambda>k. rbind (serialize_json (js_event js) ev) (\<lambda>d. Inr (k, d))) of
        Inl e \<Rightarrow> (Inl e, g)
      | Inr (k, d) \<Rightarrow>
          (let (sq, g') = ai_next clock g; key = event_dedup_key (ev_kind ev);
               row = \<lparr>vr_seq = sq, vr_timestamp = ev_timestamp ev, vr_kind = k, vr_data = d, vr_dedup_key = key\<rparr>
           in if key \<noteq> None \<and> key \<in> vr_dedup_key ` set rows then (Inr (0, sq, rows), g')
              else (rbind (insert_row vr_seq row rows) (\<lambda>rows'. Inr (1, sq, rows')), g')))"

definition sql_append_event :: "sql_env \<Rightarrow> int \<Rightarrow> ledger_event \<Rightarrow> sql_db \<Rightarrow> (store_error fault + u64) \<times> sql_db" where
  "sql_append_event se clock ev db =
     (case append_event_tx (sq_json se) clock ev (db_events db) (db_autoid db) of
        (Inl e, g) \<Rightarrow> (Inl e, db\<lparr>db_autoid := g\<rparr>)
      | (Inr (n, sq, rows), g) \<Rightarrow>
          (if n = 0 then
             (case fetch_optional (filter (\<lambda>r. vr_dedup_key r = event_dedup_key (ev_kind ev)) rows) of
                None \<Rightarrow> Inl (Fail (Internal DatabaseError)) | Some r \<Rightarrow> Inr (word_of_int (vr_seq r)))
           else Inr (word_of_int sq), db\<lparr>db_events := rows, db_autoid := g\<rparr>))"

definition row_to_event :: "json \<Rightarrow> event_row \<Rightarrow> store_error fault + ledger_event" where
  "row_to_event js r = rbind (deserialize_json (un_event js) (vr_data r)) (\<lambda>ev. Inr (ev\<lparr>ev_seq := word_of_int (vr_seq r)\<rparr>))"

text \<open>The limit is bound as \<open>i32\<close>: a negative limit is no limit for SQLite and an error for PostgreSQL.\<close>

definition sql_get_events_since :: "sql_env \<Rightarrow> u64 \<Rightarrow> u32 \<Rightarrow> sql_db \<Rightarrow> store_error fault + ledger_event list" where
  "sql_get_events_since se after_seq lim db =
     (let rows = sort_key vr_seq (filter (\<lambda>r. vr_seq r > as_i64 after_seq) (db_events db)); n = as_i32 lim
      in if n < 0 \<and> sq_dialect se = Postgres then Inl (Fail (Internal DatabaseError))
         else try_map (row_to_event (sq_json se)) (if n < 0 then rows else take (nat n) rows))"

section \<open>Books and cache points\<close>

definition sql_create_book :: "sql_env \<Rightarrow> book \<Rightarrow> sql_db \<Rightarrow> (store_error fault + nat) \<times> sql_db" where
  "sql_create_book se b db = (case serialize_json (js_book (sq_json se)) b of
     Inl e \<Rightarrow> (Inl e, db)
   | Inr d \<Rightarrow>
       if filter (\<lambda>k. kr_id k = book_raw (b_id b)) (db_books db) \<noteq> [] then (Inr 0, db)
       else let (n, rows) = insert_ignore kr_id \<lparr>kr_id = book_raw (b_id b), kr_name = b_name b, kr_data = d\<rparr> (db_books db)
            in if n = 0 then (Inr 0, db) else (Inr 1, db\<lparr>db_books := rows\<rparr>))"

definition sql_get_book :: "sql_env \<Rightarrow> book_id \<Rightarrow> sql_db \<Rightarrow> store_error fault + book" where
  "sql_get_book se i db = rbind (ok_or (Fail (NotFound (EntBook i))) (fetch_optional (filter (\<lambda>k. kr_id k = book_raw i) (db_books db))))
     (\<lambda>k. deserialize_json (un_book (sq_json se)) (kr_data k))"

definition sql_list_books :: "sql_env \<Rightarrow> sql_db \<Rightarrow> store_error fault + book list" where
  "sql_list_books se db = try_map (\<lambda>k. deserialize_json (un_book (sq_json se)) (kr_data k)) (sq_books se (db_books db))"

definition sql_append_balance_projection ::
  "int \<Rightarrow> account_id \<Rightarrow> asset_id \<Rightarrow> cent \<Rightarrow> i64 \<Rightarrow> sql_db \<Rightarrow> (store_error fault + unit) \<times> sql_db" where
  "sql_append_balance_projection clock acc asset bal wm db =
     (let (i, g) = ai_next clock (db_autoid db);
          row = \<lparr>jr_id = i, jr_account = aid_id acc, jr_subaccount = aid_sub acc, jr_asset = as_i32 (asset_raw asset),
                 jr_balance = cent_to_string bal, jr_watermark = wm\<rparr>
      in case insert_row jr_id row (db_projections db) of
           Inl e \<Rightarrow> (Inl e, db\<lparr>db_autoid := g\<rparr>)
         | Inr rows \<Rightarrow> (Inr (), db\<lparr>db_projections := rows, db_autoid := g\<rparr>))"

definition sql_get_closest_balance_projection ::
  "account_id \<Rightarrow> asset_id \<Rightarrow> i64 \<Rightarrow> sql_db \<Rightarrow> store_error fault + balance_projection option" where
  "sql_get_closest_balance_projection acc asset as_of db =
     (case fetch_optional (rev (sort_key (\<lambda>j. (jr_watermark j, jr_id j)) (filter (\<lambda>j. jr_account j = aid_id acc \<and> jr_subaccount j = aid_sub acc \<and>
          jr_asset j = as_i32 (asset_raw asset) \<and> jr_watermark j \<le> as_of) (db_projections db)))) of
        None \<Rightarrow> Inr None
      | Some j \<Rightarrow> rbind (parse_cent (jr_balance j)) (\<lambda>v.
          Inr (Some \<lparr>bp_id = jr_id j, bp_account = acc, bp_asset = asset, bp_balance = v, bp_watermark = jr_watermark j\<rparr>)))"

section \<open>Atomic commit\<close>

datatype sql_exit = SqlError "store_error fault" | SqlReject commit_rejection

definition locked_account :: "sql_env \<Rightarrow> account_id \<Rightarrow> sql_db \<Rightarrow> store_error fault + account option" where
  "locked_account se aid db = (case fetch_optional (sq_accounts se (head_rows db (is_head aid))) of
     None \<Rightarrow> Inr None
   | Some r \<Rightarrow> rbind (row_to_account (sq_json se) r) (\<lambda>a. Inr (Some a)))"

definition sql_live_balance :: "sql_env \<Rightarrow> account_id \<Rightarrow> asset_id \<Rightarrow> sql_db \<Rightarrow> store_error fault + cent" where
  "sql_live_balance se ow asset db =
     rbind (try_map (\<lambda>l. parse_cent (pr_value (lr_row l)))
       (sq_live se (filter (\<lambda>l. row_matches (aid_id ow) (Some (aid_sub ow)) (Some asset) (lr_row l)) (db_live db)))) (\<lambda>vs.
     map_err (\<lambda>_. Fail (Internal CommitOverflow)) (checked_sum vs))"

definition sql_flag_guard :: "sql_env \<Rightarrow> sql_db \<Rightarrow> account_id \<Rightarrow> sql_exit option" where
  "sql_flag_guard se db aid = (case locked_account se aid db of
     Inl e \<Rightarrow> Some (SqlError e)
   | Inr None \<Rightarrow> Some (SqlError (Fail (Internal (CommitAccountMissing aid))))
   | Inr (Some a) \<Rightarrow> if is_frozen a then Some (SqlReject (RejectFrozen aid))
       else if is_closed a then Some (SqlReject (RejectClosed aid)) else None)"

text \<open>The still active rows of the consumed ids, and the owners and assets they touch.\<close>

definition consumed_rows :: "sql_env \<Rightarrow> posting_id list \<Rightarrow> sql_db \<Rightarrow> live_row list" where
  "consumed_rows se ids db = concat (map (\<lambda>chunk.
     sq_live se (filter (\<lambda>l. id_predicate chunk (lr_row l) \<and> lr_reservation l = None) (db_live db))) (chunks MAX_IDS_PER_QUERY ids))"

definition touched_key :: "posting_row \<Rightarrow> account_id \<times> asset_id" where
  "touched_key r = (with_sub (pr_owner r) (pr_subaccount r), asset_id_new (word_of_int (pr_asset r)))"

definition sql_create_posting :: "posting \<Rightarrow> sql_db \<Rightarrow> sql_db" where
  "sql_create_posting p db = db\<lparr>db_postings := snd (insert_ignore row_key (posting_to_row p) (db_postings db)),
     db_live := insert_live p (db_live db)\<rparr>"

definition sql_floor_guard :: "sql_env \<Rightarrow> sql_db \<Rightarrow> account_id \<times> asset_id \<Rightarrow> sql_exit option" where
  "sql_floor_guard se db = (\<lambda>(ow, asset). case locked_account se ow db of
     Inl e \<Rightarrow> Some (SqlError e)
   | Inr found \<Rightarrow>
       if \<not> (case found of Some a \<Rightarrow> forbids_overdraft a | None \<Rightarrow> False) then None
       else case sql_live_balance se ow asset db of
         Inl e \<Rightarrow> Some (SqlError e)
       | Inr projected \<Rightarrow> if is_negative projected then Some (SqlReject (RejectOverdraft ow asset projected)) else None)"

text \<open>The transaction up to the overdraft floor: the tables with the postings moved, or the reason to stop.\<close>

definition sql_move_postings :: "sql_env \<Rightarrow> commit_request \<Rightarrow> sql_db \<Rightarrow> sql_exit + sql_db" where
  "sql_move_postings se req db =
     rbind (guard_each (sql_flag_guard se db) (cr_involved req)) (\<lambda>_.
     let rows = consumed_rows se (cr_consume req) db; present = map live_key rows in
     case List.find (\<lambda>i. id_key i \<notin> set present) (cr_consume req) of
       Some missing \<Rightarrow> Inl (SqlReject (DoubleSpend missing))
     | None \<Rightarrow>
         let (_, live) = for_chunks (\<lambda>chunk. delete_where (\<lambda>l. id_predicate chunk (lr_row l) \<and> lr_reservation l = None)) (cr_consume req) (db_live db);
             db1 = fold sql_create_posting (cr_create req) (db\<lparr>db_live := live\<rparr>);
             touched = remdups (map (\<lambda>l. touched_key (lr_row l)) rows @ map (\<lambda>p. (p_owner p, p_asset p)) (cr_create req))
         in rbind (guard_each (sql_floor_guard se db1) (sq_touched se touched)) (\<lambda>_. Inr db1))"

definition sql_commit_envelope ::
  "sql_env \<Rightarrow> int \<Rightarrow> commit_request \<Rightarrow> sql_db \<Rightarrow> (store_error fault + commit_outcome) \<times> sql_db" where
  "sql_commit_envelope se clock req db =
     (case fetch_optional (filter (\<lambda>r. tr_id r = envelope_id_to_hex (cr_transfer_id req)) (db_transfers db)) of
        Some r \<Rightarrow> (rbind (deserialize_json (un_receipt (sq_json se)) (tr_receipt r)) (\<lambda>rc. Inr (AlreadyCommitted rc)), db)
      | None \<Rightarrow> (case sql_move_postings se req db of
          Inl (SqlError e) \<Rightarrow> (Inl e, db)
        | Inl (SqlReject r) \<Rightarrow> (Inr (CommitRejected r), db)
        | Inr db1 \<Rightarrow> (case record_to_row (sq_json se) (cr_transfer_id req) (cr_record req) of
            Inl e \<Rightarrow> (Inl e, db)
          | Inr row \<Rightarrow>
              (case append_event_tx (sq_json se) clock (cr_event req) (db_events db1) (db_autoid db1) of
                 (Inl e, g) \<Rightarrow> (Inl e, db\<lparr>db_autoid := g\<rparr>)
               | (Inr (n, sq, evs), g) \<Rightarrow>
                   (Inr (Committed (er_receipt (cr_record req))),
                    db1\<lparr>db_transfers := snd (insert_ignore tr_id row (db_transfers db1)),
                        db_transfer_accounts := index_accounts (cr_transfer_id req) (cr_involved req) (db_transfer_accounts db1),
                        db_events := evs, db_autoid := g\<rparr>)))))"

definition sql_commit_transition ::
  "sql_env \<Rightarrow> int \<Rightarrow> account \<Rightarrow> ledger_event \<Rightarrow> sql_db \<Rightarrow> (store_error fault + transition_outcome) \<times> sql_db" where
  "sql_commit_transition se clock nxt ev db = (case locked_account se (acc_id nxt) db of
     Inl e \<Rightarrow> (Inl e, db)
   | Inr None \<Rightarrow> (Inl (Fail (Internal (TransitionAccountMissing (acc_id nxt)))), db)
   | Inr (Some current) \<Rightarrow>
       let event = (\<lambda>db1 outcome. case append_event_tx (sq_json se) clock ev (db_events db1) (db_autoid db1) of
              (Inl e, g) \<Rightarrow> (Inl e, db\<lparr>db_autoid := g\<rparr>)
            | (Inr (n, sq, evs), g) \<Rightarrow> (Inr outcome, db1\<lparr>db_events := evs, db_autoid := g\<rparr>))
       in if is_closed current then (Inr (TransitionRejected (AlreadyClosed (acc_id nxt))), db)
          else if acc_version current \<ge> acc_version nxt then event db AlreadyApplied
          else case checked_succ64 (acc_version current) of
            None \<Rightarrow> (Inl (Fail (Internal AccountVersionOverflow)), db)
          | Some expected \<Rightarrow>
              if acc_version nxt \<noteq> expected then (Inr (TransitionRejected (VersionConflict (acc_id nxt) (acc_version nxt))), db)
              else case account_to_row (sq_json se) nxt of
                Inl e \<Rightarrow> (Inl e, db)
              | Inr r \<Rightarrow> (case move_head nxt (db_heads db) of
                  Inl e \<Rightarrow> (Inl e, db)
                | Inr heads \<Rightarrow> event (db\<lparr>db_accounts := snd (insert_ignore account_key r (db_accounts db)), db_heads := heads\<rparr>) Applied))"

end
