(* ===== verification/Sql_Posting_Laws.thy ===== *)
theory Sql_Posting_Laws
  imports Sql_Store Mem_Store_Laws
begin

text \<open>
  The posting tables of the SQL store: the row codec loses nothing, a batch of ids split
  into chunks acts like one statement, and the store keeps the contract \<open>posting_index\<close>
  that the in-memory store keeps.
\<close>

section \<open>Codecs\<close>

lemma to_hex_eq: "to_hex bytes = hex bytes"
proof -
  have "unat (drop_bit 4 b) = unat b div 16" "unat (b AND 15) = unat b mod 16" for b :: byte
  proof -
    show "unat (drop_bit 4 b) = unat b div 16" by (simp add: drop_bit_eq_div unat_div)
    have "b AND 15 = take_bit 4 b" by (simp add: take_bit_eq_mask mask_numeral)
    then show "unat (b AND 15) = unat b mod 16" by (simp add: take_bit_eq_mod unat_mod)
  qed
  then show ?thesis by (simp add: to_hex_def hex_def)
qed

lemma to_hex_inject [simp]: "to_hex xs = to_hex ys \<longleftrightarrow> xs = ys"
  by (simp add: to_hex_eq hex_inject)

lemma hex_val_digit: "n < 16 \<Longrightarrow> hex_val (hex_digit n) = Some n \<and> hex_digit n \<noteq> 43 \<and> utf8_len (hex_digit n) = 1"
  by (auto simp: hex_val_def hex_digit_def utf8_len_def)

lemma hex_slices_hex: "hex_slices (hex bs) = Inr bs"
proof (induction bs)
  case (Cons b bs)
  have r: "unat b div 16 < 16" "unat b mod 16 < 16" using unat_byte_less[of b] by auto
  have "word_of_nat (16 * (unat b div 16) + unat b mod 16) = b" by (simp only: mult_div_mod_eq) simp
  then have "hex_pair (hex_digit (unat b div 16)) (hex_digit (unat b mod 16)) = Some b"
    using hex_val_digit[OF r(1)] hex_val_digit[OF r(2)] by (simp add: hex_pair_def del: of_nat_add of_nat_mult)
  then show ?case using Cons hex_val_digit[OF r(1)] hex_val_digit[OF r(2)] by (simp add: hex_def)
qed (simp add: hex_def)

lemma from_hex_to_hex: "from_hex (to_hex bs) = Inr bs"
proof -
  have "byte_len (hex bs) = 2 * length bs"
  proof (induction bs)
    case (Cons b bs)
    have r: "unat b div 16 < 16" "unat b mod 16 < 16" using unat_byte_less[of b] by auto
    show ?case using Cons hex_val_digit[OF r(1)] hex_val_digit[OF r(2)] by (simp add: hex_def byte_len_def)
  qed (simp add: hex_def byte_len_def)
  then show ?thesis by (simp add: from_hex_def to_hex_eq hex_slices_hex)
qed

lemma parse_cent_show: "i64_ok v \<Longrightarrow> parse_cent (cent_to_string v) = Inr v"
  using i64_backing.parse_show[of v] by (simp add: parse_cent_def cent_from_str_def cent_to_string_def)

text \<open>What the Rust types guarantee of a posting.\<close>

definition posting_wf :: "posting \<Rightarrow> bool" where
  "posting_wf p \<longleftrightarrow> length (env_hash (pid_transfer (p_id p))) = 32 \<and> i64_ok (p_value p)"

lemma signed_column_inverse [simp]:
  "word_of_int (as_i16 v) = v" "word_of_int (as_i32 w) = w" "word_of_int (as_i64 x) = x"
  by (simp_all add: as_i16_def as_i32_def as_i64_def)

lemma row_to_posting_row:
  assumes "posting_wf p"
  shows "row_to_posting (posting_to_row p) = Inr p"
proof -
  have "envelope_id_from_hex (envelope_id_to_hex (pid_transfer (p_id p))) = Inr (pid_transfer (p_id p))"
    using assms by (simp add: envelope_id_from_hex_def envelope_id_to_hex_def from_hex_to_hex posting_wf_def)
  then show ?thesis using assms
    by (cases "p_id p") (simp add: row_to_posting_def posting_to_row_def parse_cent_show posting_wf_def with_sub_def asset_id_new_def)
qed

lemma signed_column_inject [simp]: "as_i16 v = as_i16 v' \<longleftrightarrow> v = v'" "as_i32 w = as_i32 w' \<longleftrightarrow> w = w'" "as_i64 x = as_i64 x' \<longleftrightarrow> x = x'"
  by (metis signed_column_inverse)+

lemma id_key_inject [simp]: "id_key i = id_key j \<longleftrightarrow> i = j"
  by (cases i; cases j) (auto simp: id_key_def envelope_id_to_hex_def intro: envelope_id.expand)

lemma row_key_posting [simp]: "row_key (posting_to_row p) = id_key (p_id p)"
  by (simp add: row_key_def posting_to_row_def id_key_def)

lemma id_predicate_iff: "id_predicate ids r \<longleftrightarrow> row_key r \<in> id_key ` set ids"
  by (auto simp: id_predicate_def row_key_def id_key_def list_ex_iff prod_eq_iff)

section \<open>Chunks\<close>

lemma concat_chunks: "0 < n \<Longrightarrow> concat (chunks n xs) = xs"
  by (induction n xs rule: chunks.induct) (subst chunks.simps, simp)

lemma chunks_cover: "(\<Union>c \<in> set (chunks MAX_IDS_PER_QUERY ids). set c) = set ids"
  using concat_chunks[of MAX_IDS_PER_QUERY ids] by (metis MAX_IDS_PER_QUERY_def set_concat zero_less_numeral)

text \<open>Statements that take rows out of their own reach can be run chunk by chunk.\<close>

lemma update_where_chunks:
  assumes "\<And>l. \<not> Q (f l)" "\<And>l. lr_row (f l) = lr_row l"
  shows "fold (\<lambda>chunk (n, rows). let (k, rows') = update_where (\<lambda>l. id_predicate chunk (lr_row l) \<and> Q l) f rows in (n + k, rows')) cs (m, rows)
    = (let (k, rows') = update_where (\<lambda>l. id_predicate (concat cs) (lr_row l) \<and> Q l) f rows in (m + k, rows'))"
proof (induction cs arbitrary: m rows)
  case Nil
  show ?case by (simp add: update_where_def id_predicate_def)
next
  case (Cons c cs)
  have "length (filter (\<lambda>l. id_predicate c (lr_row l) \<and> Q l) rows)
      + length (filter (\<lambda>l. id_predicate (concat cs) (lr_row l) \<and> Q l) (map (\<lambda>l. if id_predicate c (lr_row l) \<and> Q l then f l else l) rows))
    = length (filter (\<lambda>l. id_predicate (c @ concat cs) (lr_row l) \<and> Q l) rows)"
    by (induction rows) (auto simp: assms id_predicate_def)
  moreover have "map (\<lambda>l. if id_predicate (concat cs) (lr_row l) \<and> Q l then f l else l) (map (\<lambda>l. if id_predicate c (lr_row l) \<and> Q l then f l else l) rows)
    = map (\<lambda>l. if id_predicate (c @ concat cs) (lr_row l) \<and> Q l then f l else l) rows"
    by (auto simp: assms id_predicate_def)
  ultimately show ?case using Cons by (simp add: update_where_def Let_def del: map_map)
qed

lemma delete_where_chunks:
  "fold (\<lambda>chunk (n, rows). let (k, rows') = delete_where (\<lambda>l. id_predicate chunk (lr_row l) \<and> Q l) rows in (n + k, rows')) cs (m, rows)
    = (let (k, rows') = delete_where (\<lambda>l. id_predicate (concat cs) (lr_row l) \<and> Q l) rows in (m + k, rows'))"
proof (induction cs arbitrary: m rows)
  case Nil
  show ?case by (simp add: delete_where_def id_predicate_def)
next
  case (Cons c cs)
  have "length (filter (\<lambda>l. id_predicate c (lr_row l) \<and> Q l) rows)
      + length (filter (\<lambda>l. id_predicate (concat cs) (lr_row l) \<and> Q l) (filter (\<lambda>l. \<not> (id_predicate c (lr_row l) \<and> Q l)) rows))
    = length (filter (\<lambda>l. id_predicate (c @ concat cs) (lr_row l) \<and> Q l) rows)"
    by (induction rows) (auto simp: id_predicate_def)
  moreover have "filter (\<lambda>l. \<not> (id_predicate (concat cs) (lr_row l) \<and> Q l)) (filter (\<lambda>l. \<not> (id_predicate c (lr_row l) \<and> Q l)) rows)
    = filter (\<lambda>l. \<not> (id_predicate (c @ concat cs) (lr_row l) \<and> Q l)) rows"
    by (simp add: id_predicate_def) (rule filter_cong, auto)
  ultimately show ?case using Cons by (simp add: delete_where_def Let_def del: filter_filter)
qed

lemma for_chunks_update:
  assumes "\<And>l. \<not> Q (f l)" "\<And>l. lr_row (f l) = lr_row l"
  shows "for_chunks (\<lambda>chunk. update_where (\<lambda>l. id_predicate chunk (lr_row l) \<and> Q l) f) ids rows
    = update_where (\<lambda>l. id_predicate ids (lr_row l) \<and> Q l) f rows"
  unfolding for_chunks_def update_where_chunks[where Q = Q and f = f, OF assms]
  using concat_chunks[of MAX_IDS_PER_QUERY ids] by (simp add: MAX_IDS_PER_QUERY_def split_beta)

lemma for_chunks_delete:
  "for_chunks (\<lambda>chunk. delete_where (\<lambda>l. id_predicate chunk (lr_row l) \<and> Q l)) ids rows
    = delete_where (\<lambda>l. id_predicate ids (lr_row l) \<and> Q l) rows"
  unfolding for_chunks_def delete_where_chunks
  using concat_chunks[of MAX_IDS_PER_QUERY ids] by (simp add: MAX_IDS_PER_QUERY_def split_beta)

section \<open>The posting tables\<close>

text \<open>Keys are unique, and every live row copies its immutable row.\<close>

definition sql_tables_ok :: "sql_db \<Rightarrow> bool" where
  "sql_tables_ok db \<longleftrightarrow> distinct (map row_key (db_postings db)) \<and> distinct (map live_key (db_live db)) \<and>
     lr_row ` set (db_live db) \<subseteq> set (db_postings db)"

text \<open>The state of one id: a function of its live row and of the presence of its immutable row.\<close>

definition sql_state :: "sql_db \<Rightarrow> posting_id \<Rightarrow> posting_state" where
  "sql_state db i = (case map_of (map (\<lambda>l. (live_key l, lr_reservation l)) (db_live db)) (id_key i) of
     Some None \<Rightarrow> StateActive
   | Some (Some rid) \<Rightarrow> StateReserved (ReservationId rid)
   | None \<Rightarrow> if id_key i \<in> row_key ` set (db_postings db) then StateSpent else StateMissing)"

lemma live_lookup:
  assumes "distinct (map live_key rows)"
  shows "map_of (map (\<lambda>l. (live_key l, lr_reservation l)) rows) k = Some r \<longleftrightarrow> (\<exists>l \<in> set rows. live_key l = k \<and> lr_reservation l = r)"
  using assms by (subst map_of_eq_Some_iff) (auto simp: comp_def)

lemma live_lookup_None: "map_of (map (\<lambda>l. (live_key l, lr_reservation l)) rows) k = None \<longleftrightarrow> k \<notin> live_key ` set rows"
  by (simp add: map_of_eq_None_iff image_image)

lemma sql_state_iff:
  assumes "sql_tables_ok db"
  shows "sql_state db i = StateActive \<longleftrightarrow> (\<exists>l \<in> set (db_live db). live_key l = id_key i \<and> lr_reservation l = None)"
    "sql_state db i = StateReserved rid \<longleftrightarrow> (\<exists>l \<in> set (db_live db). live_key l = id_key i \<and> lr_reservation l = Some (rid_raw rid))"
    "sql_state db i = StateMissing \<longleftrightarrow> id_key i \<notin> row_key ` set (db_postings db)"
    "sql_state db i = StateSpent \<longleftrightarrow> id_key i \<in> row_key ` set (db_postings db) \<and> id_key i \<notin> live_key ` set (db_live db)"
proof -
  have d: "distinct (map live_key (db_live db))" and sub: "lr_row ` set (db_live db) \<subseteq> set (db_postings db)"
    using assms by (simp_all add: sql_tables_ok_def)
  have live: "id_key i \<in> row_key ` set (db_postings db)" if "l \<in> set (db_live db)" "live_key l = id_key i" for l
    using that sub by (force simp: live_key_def)
  let ?m = "map_of (map (\<lambda>l. (live_key l, lr_reservation l)) (db_live db)) (id_key i)"
  consider (none) "?m = None" | (active) "?m = Some None" | (res) r where "?m = Some (Some r)" by (cases ?m) auto
  note c = this
  show "sql_state db i = StateActive \<longleftrightarrow> (\<exists>l \<in> set (db_live db). live_key l = id_key i \<and> lr_reservation l = None)"
    unfolding live_lookup[OF d, symmetric] by (cases rule: c) (simp_all add: sql_state_def)
  show "sql_state db i = StateReserved rid \<longleftrightarrow> (\<exists>l \<in> set (db_live db). live_key l = id_key i \<and> lr_reservation l = Some (rid_raw rid))"
    unfolding live_lookup[OF d, symmetric] by (cases rule: c; cases rid) (simp_all add: sql_state_def rid_raw_def)
  show "sql_state db i = StateMissing \<longleftrightarrow> id_key i \<notin> row_key ` set (db_postings db)"
  proof (cases "?m = None")
    case False
    then have "id_key i \<in> row_key ` set (db_postings db)" using live_lookup[OF d, of "id_key i"] live by blast
    with False show ?thesis by (auto simp: sql_state_def split: option.splits)
  qed (simp add: sql_state_def)
  show "sql_state db i = StateSpent \<longleftrightarrow> id_key i \<in> row_key ` set (db_postings db) \<and> id_key i \<notin> live_key ` set (db_live db)"
    using live_lookup_None[of "db_live db" "id_key i"] by (cases rule: c) (auto simp: sql_state_def)
qed

text \<open>A count of matching rows is a count of ids.\<close>

lemma count_rows:
  assumes "distinct (map live_key rows)" "\<And>l. l \<in> set rows \<Longrightarrow> P l \<Longrightarrow> id_predicate ids (lr_row l)"
  shows "length (filter P rows) = card {j \<in> set ids. \<exists>l \<in> set rows. live_key l = id_key j \<and> P l}"
proof -
  have "inj_on live_key (set rows)" "distinct rows" using assms(1) by (simp_all add: distinct_map)
  then have "length (filter P rows) = card (live_key ` set (filter P rows))"
    by (subst card_image) (auto simp: inj_on_def distinct_length_filter intro: arg_cong[where f = card])
  also have "live_key ` set (filter P rows) = id_key ` {j \<in> set ids. \<exists>l \<in> set rows. live_key l = id_key j \<and> P l}"
  proof (intro equalityI subsetI)
    fix k assume "k \<in> live_key ` set (filter P rows)"
    then obtain l where l: "l \<in> set rows" "P l" "k = live_key l" by auto
    then obtain j where "j \<in> set ids" "k = id_key j" using assms(2) by (auto simp: id_predicate_iff live_key_def)
    with l show "k \<in> id_key ` {j \<in> set ids. \<exists>l \<in> set rows. live_key l = id_key j \<and> P l}" by (intro image_eqI[of _ _ j]) auto
  qed force
  also have "card \<dots> = card {j \<in> set ids. \<exists>l \<in> set rows. live_key l = id_key j \<and> P l}"
    by (rule card_image) (simp add: inj_on_def)
  finally show ?thesis .
qed

lemma states_ext:
  assumes "sql_tables_ok db" "sql_tables_ok db'"
    and "\<And>r. (\<exists>l \<in> set (db_live db'). live_key l = id_key i \<and> lr_reservation l = r) \<longleftrightarrow> (\<exists>l \<in> set (db_live db). live_key l = id_key i \<and> lr_reservation l = r)"
    and "id_key i \<in> row_key ` set (db_postings db') \<longleftrightarrow> id_key i \<in> row_key ` set (db_postings db)"
  shows "sql_state db' i = sql_state db i"
proof (cases "sql_state db i")
  case StateActive
  then show ?thesis using assms sql_state_iff(1) by metis
next
  case (StateReserved r)
  then show ?thesis using assms sql_state_iff(2) by metis
next
  case StateMissing
  then show ?thesis using assms sql_state_iff(3) by metis
next
  case StateSpent
  then have "\<not> (\<exists>l \<in> set (db_live db). live_key l = id_key i)" using assms(1) by (metis imageI sql_state_iff(4))
  then have "id_key i \<notin> live_key ` set (db_live db')" using assms(3) by (metis imageE)
  then show ?thesis using StateSpent assms by (metis sql_state_iff(4))
qed

text \<open>An update of the reservation column and a delete, as changes of state.\<close>

lemma update_live_states:
  assumes ok: "sql_tables_ok db" and new: "c' \<noteq> c"
    and P: "\<And>l. P l \<longleftrightarrow> id_predicate ids (lr_row l) \<and> lr_reservation l = c"
  defines "db' \<equiv> db\<lparr>db_live := snd (update_where P (\<lambda>l. l\<lparr>lr_reservation := c'\<rparr>) (db_live db))\<rparr>"
  shows "sql_tables_ok db'" "fst (update_where P (\<lambda>l. l\<lparr>lr_reservation := c'\<rparr>) (db_live db)) =
      card {j \<in> set ids. \<exists>l \<in> set (db_live db). live_key l = id_key j \<and> lr_reservation l = c}"
    "(\<exists>l \<in> set (db_live db'). live_key l = id_key j \<and> lr_reservation l = r) \<longleftrightarrow>
       (if j \<in> set ids \<and> (\<exists>l \<in> set (db_live db). live_key l = id_key j \<and> lr_reservation l = c) then r = c'
        else \<exists>l \<in> set (db_live db). live_key l = id_key j \<and> lr_reservation l = r)"
proof -
  have d: "distinct (map live_key (db_live db))" using ok by (simp add: sql_tables_ok_def)
  have live: "db_live db' = map (\<lambda>l. if P l then l\<lparr>lr_reservation := c'\<rparr> else l) (db_live db)" by (simp add: db'_def update_where_def)
  have row: "lr_row (if P l then l\<lparr>lr_reservation := c'\<rparr> else l) = lr_row l" for l by simp
  then have rows: "map lr_row (db_live db') = map lr_row (db_live db)" by (simp add: live)
  then have keys: "map live_key (db_live db') = map live_key (db_live db)" "lr_row ` set (db_live db') = lr_row ` set (db_live db)"
    by (simp only: live_key_def[abs_def] map_map[symmetric, unfolded comp_def], metis set_map)
  then show "sql_tables_ok db'" using ok by (simp add: sql_tables_ok_def db'_def)
  have "fst (update_where P (\<lambda>l. l\<lparr>lr_reservation := c'\<rparr>) (db_live db)) =
      card {j \<in> set ids. \<exists>l \<in> set (db_live db). live_key l = id_key j \<and> P l}"
    unfolding update_where_def fst_conv by (rule count_rows[OF d]) (simp add: P)
  also have "{j \<in> set ids. \<exists>l \<in> set (db_live db). live_key l = id_key j \<and> P l} =
      {j \<in> set ids. \<exists>l \<in> set (db_live db). live_key l = id_key j \<and> lr_reservation l = c}"
    by (auto simp: P id_predicate_iff live_key_def)
  finally show "fst (update_where P (\<lambda>l. l\<lparr>lr_reservation := c'\<rparr>) (db_live db)) =
      card {j \<in> set ids. \<exists>l \<in> set (db_live db). live_key l = id_key j \<and> lr_reservation l = c}" .
  have Pj: "P l \<longleftrightarrow> j \<in> set ids \<and> lr_reservation l = c" if "live_key l = id_key j" for l
    using that by (auto simp: P id_predicate_iff live_key_def)
  have uniq: "l = l'" if "l \<in> set (db_live db)" "l' \<in> set (db_live db)" "live_key l = live_key l'" for l l'
    using d that by (auto simp: distinct_map inj_on_def)
  have "(\<exists>l \<in> set (db_live db'). live_key l = id_key j \<and> lr_reservation l = r) \<longleftrightarrow>
      (\<exists>l \<in> set (db_live db). live_key l = id_key j \<and> (if P l then c' else lr_reservation l) = r)"
    unfolding live set_map bex_simps(7) by (intro bex_cong refl) (auto simp: live_key_def)
  also have "\<dots> \<longleftrightarrow> (if j \<in> set ids \<and> (\<exists>l \<in> set (db_live db). live_key l = id_key j \<and> lr_reservation l = c) then r = c'
        else \<exists>l \<in> set (db_live db). live_key l = id_key j \<and> lr_reservation l = r)"
  proof (cases "j \<in> set ids \<and> (\<exists>l \<in> set (db_live db). live_key l = id_key j \<and> lr_reservation l = c)")
    case True
    then obtain l where l: "l \<in> set (db_live db)" "live_key l = id_key j" "lr_reservation l = c" by blast
    then have "(\<exists>l \<in> set (db_live db). live_key l = id_key j \<and> (if P l then c' else lr_reservation l) = r) \<longleftrightarrow> (if P l then c' else lr_reservation l) = r"
      using uniq by metis
    then show ?thesis using True Pj[OF l(2)] l(3) by auto
  next
    case False
    then have "\<not> P l" if "l \<in> set (db_live db)" "live_key l = id_key j" for l using that Pj by blast
    then show ?thesis using False by auto
  qed
  finally show "(\<exists>l \<in> set (db_live db'). live_key l = id_key j \<and> lr_reservation l = r) \<longleftrightarrow>
       (if j \<in> set ids \<and> (\<exists>l \<in> set (db_live db). live_key l = id_key j \<and> lr_reservation l = c) then r = c'
        else \<exists>l \<in> set (db_live db). live_key l = id_key j \<and> lr_reservation l = r)" .
qed

definition column_state :: "i64 option \<Rightarrow> posting_state" where
  "column_state c = (case c of None \<Rightarrow> StateActive | Some r \<Rightarrow> StateReserved (ReservationId r))"

lemma column_state_iff:
  "sql_tables_ok db \<Longrightarrow> sql_state db j = column_state c \<longleftrightarrow> (\<exists>l \<in> set (db_live db). live_key l = id_key j \<and> lr_reservation l = c)"
  by (cases c) (simp_all add: column_state_def sql_state_iff rid_raw_def)

lemma update_live_law:
  fixes ids :: "posting_id list"
  assumes ok: "sql_tables_ok db" and new: "c' \<noteq> c"
  defines "u \<equiv> update_where (\<lambda>l. id_predicate ids (lr_row l) \<and> lr_reservation l = c) (\<lambda>l. l\<lparr>lr_reservation := c'\<rparr>) (db_live db)"
  shows "sql_tables_ok (db\<lparr>db_live := snd u\<rparr>) \<and>
     (\<forall>j. sql_state (db\<lparr>db_live := snd u\<rparr>) j = (if j \<in> set ids \<and> sql_state db j = column_state c then column_state c' else sql_state db j)) \<and>
     fst u = card {j \<in> set ids. sql_state db j = column_state c}"
proof -
  note s = update_live_states[OF ok new, where ids = ids and P = "\<lambda>l. id_predicate ids (lr_row l) \<and> lr_reservation l = c", folded u_def, OF refl,
      folded column_state_iff[OF ok]]
  have "sql_state (db\<lparr>db_live := snd u\<rparr>) j = (if j \<in> set ids \<and> sql_state db j = column_state c then column_state c' else sql_state db j)" for j
  proof (cases "j \<in> set ids \<and> sql_state db j = column_state c")
    case True
    then show ?thesis using column_state_iff[OF s(1), of j c'] s(3)[of j c'] by simp
  next
    case False
    have "sql_state (db\<lparr>db_live := snd u\<rparr>) j = sql_state db j"
    proof (rule states_ext[OF ok s(1)])
      show "(\<exists>l \<in> set (db_live (db\<lparr>db_live := snd u\<rparr>)). live_key l = id_key j \<and> lr_reservation l = r) \<longleftrightarrow>
        (\<exists>l \<in> set (db_live db). live_key l = id_key j \<and> lr_reservation l = r)" for r
        using s(3)[of j r] False column_state_iff[OF ok, of j r] by (simp only: if_False)
    qed simp
    then show ?thesis using False by (simp only: if_False)
  qed
  then show ?thesis using s(1,2) by blast
qed

lemma sql_reserve_law:
  assumes ok: "sql_tables_ok db"
  shows "sql_tables_ok (snd (sql_reserve_postings ids rid db)) \<and>
     (\<forall>j. sql_state (snd (sql_reserve_postings ids rid db)) j = (if j \<in> set ids \<and> sql_state db j = StateActive then StateReserved rid else sql_state db j)) \<and>
     fst (sql_reserve_postings ids rid db) = card {j \<in> set ids. sql_state db j = StateActive}"
proof (cases "ids = []")
  case False
  show ?thesis
    using False update_live_law[OF ok, of "Some (rid_raw rid)" None ids] for_chunks_update[of "\<lambda>l. lr_reservation l = None" "\<lambda>l. l\<lparr>lr_reservation := Some (rid_raw rid)\<rparr>" ids "db_live db"]
    by (cases rid) (simp add: sql_reserve_postings_def split_beta column_state_def rid_raw_def)
qed (use ok in \<open>simp add: sql_reserve_postings_def\<close>)

lemma sql_release_law:
  assumes ok: "sql_tables_ok db"
  shows "sql_tables_ok (snd (sql_release_postings ids rid db)) \<and>
     (\<forall>j. sql_state (snd (sql_release_postings ids rid db)) j = (if j \<in> set ids \<and> sql_state db j = StateReserved rid then StateActive else sql_state db j)) \<and>
     fst (sql_release_postings ids rid db) = card {j \<in> set ids. sql_state db j = StateReserved rid}"
proof (cases "ids = []")
  case False
  show ?thesis
    using False update_live_law[OF ok, of None "Some (rid_raw rid)" ids] for_chunks_update[of "\<lambda>l. lr_reservation l = Some (rid_raw rid)" "\<lambda>l. l\<lparr>lr_reservation := None\<rparr>" ids "db_live db"]
    by (cases rid) (simp add: sql_release_postings_def split_beta column_state_def rid_raw_def)
qed (use ok in \<open>simp add: sql_release_postings_def\<close>)

lemma delete_live_law:
  fixes ids :: "posting_id list" and c :: "i64 option"
  assumes ok: "sql_tables_ok db"
  defines "u \<equiv> delete_where (\<lambda>l. id_predicate ids (lr_row l) \<and> lr_reservation l = c) (db_live db)"
  shows "sql_tables_ok (db\<lparr>db_live := snd u\<rparr>) \<and>
     (\<forall>j. sql_state (db\<lparr>db_live := snd u\<rparr>) j = (if j \<in> set ids \<and> sql_state db j = column_state c then StateSpent else sql_state db j)) \<and>
     fst u = card {j \<in> set ids. sql_state db j = column_state c}"
proof -
  have d: "distinct (map live_key (db_live db))" and sub: "lr_row ` set (db_live db) \<subseteq> set (db_postings db)"
    using ok by (simp_all add: sql_tables_ok_def)
  have live: "snd u = filter (\<lambda>l. \<not> (id_predicate ids (lr_row l) \<and> lr_reservation l = c)) (db_live db)" by (simp add: u_def delete_where_def)
  have ok': "sql_tables_ok (db\<lparr>db_live := snd u\<rparr>)" using ok distinct_map_filter[OF d] by (auto simp: sql_tables_ok_def live)
  have P: "id_predicate ids (lr_row l) \<longleftrightarrow> j \<in> set ids" if "live_key l = id_key j" for l j
    using that by (auto simp: id_predicate_iff live_key_def)
  have uniq: "l = l'" if "l \<in> set (db_live db)" "l' \<in> set (db_live db)" "live_key l = live_key l'" for l l'
    using d that by (auto simp: distinct_map inj_on_def)
  have "sql_state (db\<lparr>db_live := snd u\<rparr>) j = (if j \<in> set ids \<and> sql_state db j = column_state c then StateSpent else sql_state db j)" for j
  proof (cases "j \<in> set ids \<and> sql_state db j = column_state c")
    case True
    then obtain l where l: "l \<in> set (db_live db)" "live_key l = id_key j" "lr_reservation l = c" using column_state_iff[OF ok] by blast
    have "id_key j \<notin> live_key ` set (snd u)"
    proof
      assume "id_key j \<in> live_key ` set (snd u)"
      then obtain x where x: "x \<in> set (snd u)" "live_key x = id_key j" by auto
      then have "x = l" using uniq[of x l] l by (simp add: live)
      then show False using x(1) l(3) P[OF l(2)] True by (simp add: live)
    qed
    moreover have "id_key j \<in> row_key ` set (db_postings db)" using l(1,2) sub by (force simp: live_key_def)
    ultimately show ?thesis using True by (simp add: sql_state_iff(4)[OF ok'])
  next
    case False
    have "sql_state (db\<lparr>db_live := snd u\<rparr>) j = sql_state db j"
    proof (rule states_ext[OF ok ok'])
      show "(\<exists>l \<in> set (db_live (db\<lparr>db_live := snd u\<rparr>)). live_key l = id_key j \<and> lr_reservation l = r) \<longleftrightarrow>
        (\<exists>l \<in> set (db_live db). live_key l = id_key j \<and> lr_reservation l = r)" for r
        using False column_state_iff[OF ok, of j c] P unfolding live by auto
    qed simp
    then show ?thesis using False by (simp only: if_False)
  qed
  moreover have "fst u = card {j \<in> set ids. sql_state db j = column_state c}"
  proof -
    have "fst u = card {j \<in> set ids. \<exists>l \<in> set (db_live db). live_key l = id_key j \<and> id_predicate ids (lr_row l) \<and> lr_reservation l = c}"
      unfolding u_def delete_where_def fst_conv by (rule count_rows[OF d]) simp
    also have "{j \<in> set ids. \<exists>l \<in> set (db_live db). live_key l = id_key j \<and> id_predicate ids (lr_row l) \<and> lr_reservation l = c} = {j \<in> set ids. sql_state db j = column_state c}"
      using P by (auto simp: column_state_iff[OF ok])
    finally show ?thesis .
  qed
  ultimately show ?thesis using ok' by blast
qed

lemma sql_deactivate_law:
  assumes ok: "sql_tables_ok db"
  shows "sql_tables_ok (snd (sql_deactivate_postings ids ro db)) \<and>
     (\<forall>j. sql_state (snd (sql_deactivate_postings ids ro db)) j =
        (if j \<in> set ids \<and> sql_state db j = (case ro of None \<Rightarrow> StateActive | Some r \<Rightarrow> StateReserved r) then StateSpent else sql_state db j)) \<and>
     fst (sql_deactivate_postings ids ro db) = card {j \<in> set ids. sql_state db j = (case ro of None \<Rightarrow> StateActive | Some r \<Rightarrow> StateReserved r)}"
proof (cases "ids = []")
  case False
  have "column_state (map_option rid_raw ro) = (case ro of None \<Rightarrow> StateActive | Some r \<Rightarrow> StateReserved r)"
    by (cases ro) (auto simp: column_state_def rid_raw_def split: reservation_id.splits)
  then show ?thesis
    using False delete_live_law[OF ok, of ids "map_option rid_raw ro"] for_chunks_delete[of "\<lambda>l. lr_reservation l = map_option rid_raw ro" ids "db_live db"]
    by (simp add: sql_deactivate_postings_def split_beta)
qed (use ok in \<open>simp add: sql_deactivate_postings_def\<close>)

lemma sql_insert_step:
  assumes ok: "sql_tables_ok db"
  defines "step \<equiv> \<lambda>p (n, db). let (k, rows) = insert_ignore row_key (posting_to_row p) (db_postings db)
     in if k = 1 then (n + 1, db\<lparr>db_postings := rows, db_live := insert_live p (db_live db)\<rparr>) else (n :: nat, db\<lparr>db_postings := rows\<rparr>)"
  shows "sql_tables_ok (snd (step p (n, db))) \<and>
     (\<forall>j. sql_state (snd (step p (n, db))) j = (if j = p_id p \<and> sql_state db (p_id p) = StateMissing then StateActive else sql_state db j)) \<and>
     fst (step p (n, db)) = n + (if sql_state db (p_id p) = StateMissing then 1 else 0)"
proof (cases "id_key (p_id p) \<in> row_key ` set (db_postings db)")
  case True
  then show ?thesis using ok by (simp add: step_def insert_ignore_def sql_state_iff(3)[OF ok])
next
  case False
  let ?l = "\<lparr>lr_row = posting_to_row p, lr_reservation = None\<rparr>"
  have key: "live_key ?l = id_key (p_id p)" by (simp add: live_key_def)
  have fresh: "id_key (p_id p) \<notin> live_key ` set (db_live db)" using False ok by (force simp: sql_tables_ok_def live_key_def)
  let ?db = "db\<lparr>db_postings := db_postings db @ [posting_to_row p], db_live := db_live db @ [?l]\<rparr>"
  have run: "step p (n, db) = (n + 1, ?db)" using False fresh by (simp add: step_def insert_ignore_def insert_live_def key)
  have ok': "sql_tables_ok ?db" using ok False fresh by (auto simp: sql_tables_ok_def key)
  have "sql_state ?db j = (if j = p_id p then StateActive else sql_state db j)" for j
  proof (cases "j = p_id p")
    case True
    then show ?thesis using sql_state_iff(1)[OF ok', of j] key by simp
  next
    case False
    then have "sql_state ?db j = sql_state db j" by (intro states_ext[OF ok ok']) (auto simp: key)
    then show ?thesis using False by simp
  qed
  then show ?thesis using False ok' by (simp add: run sql_state_iff(3)[OF ok])
qed

lemma sql_insert_law:
  assumes ok: "sql_tables_ok db"
  shows "sql_tables_ok (snd (sql_insert_postings ps db)) \<and>
     (\<forall>j. sql_state (snd (sql_insert_postings ps db)) j = (if j \<in> p_id ` set ps \<and> sql_state db j = StateMissing then StateActive else sql_state db j)) \<and>
     fst (sql_insert_postings ps db) = card {j \<in> p_id ` set ps. sql_state db j = StateMissing}"
  unfolding sql_insert_postings_def
  using fold_lifecycle_gen[where inv = sql_tables_ok and st = sql_state and key = p_id and P = "\<lambda>c. c = StateMissing" and c = StateActive and n = 0,
      OF sql_insert_step _ ok, of ps] by simp

interpretation sql_index: posting_index sql_tables_ok sql_state sql_reserve_postings sql_release_postings sql_deactivate_postings sql_insert_postings
  by unfold_locales (rule sql_reserve_law sql_release_law sql_deactivate_law sql_insert_law; assumption)+

section \<open>The state query\<close>

lemma foldl_updates: "map_of (foldl (\<lambda>m l. AList.update (key l) (val l) m) m0 ls) = map_of m0 ++ map_of (rev (map (\<lambda>l. (key l, val l)) ls))"
  by (induction ls arbitrary: m0) (simp_all add: update_conv')

lemma map_of_permuted:
  assumes "mset ys = mset xs" "distinct (map key xs)"
  shows "map_of (rev (map (\<lambda>l. (key l, val l)) ys)) = map_of (map (\<lambda>l. (key l, val l)) xs)"
proof (rule map_of_inject_set[THEN iffD2])
  have "distinct (map key ys)" using assms by (metis mset_eq_imp_distinct_iff mset_map)
  then show "distinct (map fst (rev (map (\<lambda>l. (key l, val l)) ys)))" by (simp add: rev_map[symmetric] comp_def)
  show "distinct (map fst (map (\<lambda>l. (key l, val l)) xs))" using assms(2) by (simp add: comp_def)
  show "set (rev (map (\<lambda>l. (key l, val l)) ys)) = set (map (\<lambda>l. (key l, val l)) xs)" using mset_eq_setD[OF assms(1)] by simp
qed

lemma map_of_filtered:
  "map_of (map (\<lambda>l. (key l, val l)) (filter P xs)) k = (if \<forall>l \<in> set xs. key l = k \<longrightarrow> P l then map_of (map (\<lambda>l. (key l, val l)) xs) k
     else map_of (map (\<lambda>l. (key l, val l)) (filter P xs)) k)"
  by (induction xs) auto

lemma foldl_insert_set: "set (foldl (\<lambda>s r. List.insert (f r) s) s0 rs) = set s0 \<union> f ` set rs"
  by (induction rs arbitrary: s0) auto

text \<open>After the chunks, the collected map and set answer for every id of the chunks.\<close>

lemma states_collected:
  assumes env: "sql_env_ok se" and ok: "sql_tables_ok db"
  defines "M \<equiv> map_of (map (\<lambda>l. (live_key l, lr_reservation l)) (db_live db))"
    and "step \<equiv> \<lambda>(live, present) chunk.
       (foldl (\<lambda>m l. AList.update (row_key (lr_row l)) (lr_reservation l) m) live (sq_live se (filter (\<lambda>l. id_predicate chunk (lr_row l)) (db_live db))),
        foldl (\<lambda>s r. List.insert (row_key r) s) present (sq_postings se (filter (id_predicate chunk) (db_postings db))))"
  assumes start: "\<And>k. map_of live k = None \<or> map_of live k = M k" "set present \<subseteq> row_key ` set (db_postings db)"
    and seen: "\<And>i. i \<in> D \<Longrightarrow> map_of live (id_key i) = M (id_key i) \<and> (id_key i \<in> set present \<longleftrightarrow> id_key i \<in> row_key ` set (db_postings db))"
    and i: "i \<in> D \<union> set (concat cs)" and run: "foldl step (live, present) cs = (live', present')"
  shows "map_of live' (id_key i) = M (id_key i) \<and> (id_key i \<in> set present' \<longleftrightarrow> id_key i \<in> row_key ` set (db_postings db))"
  using start seen i run
proof (induction cs arbitrary: live present D)
  case (Cons c cs)
  obtain l1 p1 where s1: "step (live, present) c = (l1, p1)" by fastforce
  have d: "distinct (map live_key (db_live db))" using ok by (simp add: sql_tables_ok_def)
  let ?F = "filter (\<lambda>l. id_predicate c (lr_row l)) (db_live db)"
  let ?N = "map_of (map (\<lambda>l. (live_key l, lr_reservation l)) ?F)"
  have perm: "mset (sq_live se ?F) = mset ?F" using env by (simp add: sql_env_ok_def)
  have "l1 = foldl (\<lambda>m l. AList.update (live_key l) (lr_reservation l) m) live (sq_live se ?F)" using s1 by (simp add: step_def live_key_def)
  then have l1: "map_of l1 = map_of live ++ ?N"
    by (simp only: foldl_updates map_of_permuted[OF perm distinct_map_filter[OF d]])
  have N: "?N k = None \<or> ?N k = M k" for k
  proof (cases "\<forall>l \<in> set (db_live db). live_key l = k \<longrightarrow> id_predicate c (lr_row l)")
    case True
    then show ?thesis using map_of_filtered[of live_key lr_reservation "\<lambda>l. id_predicate c (lr_row l)" "db_live db" k] by (simp add: M_def)
  next
    case False
    then obtain l where "l \<in> set (db_live db)" "live_key l = k" "\<not> id_predicate c (lr_row l)" by blast
    then have "k \<notin> live_key ` set ?F" by (auto simp: id_predicate_iff live_key_def)
    then show ?thesis by (simp add: live_lookup_None)
  qed
  have Nc: "?N (id_key j) = M (id_key j)" if "j \<in> set c" for j
  proof -
    have "\<forall>l \<in> set (db_live db). live_key l = id_key j \<longrightarrow> id_predicate c (lr_row l)" using that by (auto simp: id_predicate_iff live_key_def)
    then show ?thesis using map_of_filtered[of live_key lr_reservation "\<lambda>l. id_predicate c (lr_row l)" "db_live db" "id_key j"] by (simp add: M_def)
  qed
  have "set (sq_postings se (filter (id_predicate c) (db_postings db))) = set (filter (id_predicate c) (db_postings db))"
    using env mset_eq_setD by (metis sql_env_ok_def)
  then have p1: "set p1 = set present \<union> row_key ` set (filter (id_predicate c) (db_postings db))"
    using s1 by (auto simp: step_def foldl_insert_set)
  have "foldl step (l1, p1) cs = (live', present')" using Cons.prems(5) s1 by simp
  then show ?case
  proof (rule Cons.IH[rotated 4])
    show "map_of l1 k = None \<or> map_of l1 k = M k" for k using N[of k] Cons.prems(1)[of k] by (auto simp: l1 map_add_def split: option.splits)
    show "set p1 \<subseteq> row_key ` set (db_postings db)" using Cons.prems(2) by (auto simp: p1)
    show "i \<in> D \<union> set c \<union> set (concat cs)" using Cons.prems(4) by simp
    show "map_of l1 (id_key j) = M (id_key j) \<and> (id_key j \<in> set p1 \<longleftrightarrow> id_key j \<in> row_key ` set (db_postings db))" if "j \<in> D \<union> set c" for j
    proof
      show "map_of l1 (id_key j) = M (id_key j)"
        using that Cons.prems(3)[of j] N[of "id_key j"] Nc[of j] Cons.prems(1)[of "id_key j"]
        by (auto simp: l1 map_add_def split: option.splits)
      have "id_key j \<in> row_key ` set (filter (id_predicate c) (db_postings db)) \<longleftrightarrow> j \<in> set c \<and> id_key j \<in> row_key ` set (db_postings db)"
        by (force simp: id_predicate_iff)
      then show "id_key j \<in> set p1 \<longleftrightarrow> id_key j \<in> row_key ` set (db_postings db)"
        using that Cons.prems(2,3) unfolding p1 by blast
    qed
  qed
qed auto

lemma sql_states_read:
  assumes env: "sql_env_ok se" and ok: "sql_tables_ok db"
  shows "sql_get_posting_states se ids db = map (sql_state db) ids"
proof (cases "ids = []")
  case False
  let ?step = "\<lambda>(live, present) chunk.
       (foldl (\<lambda>m l. AList.update (row_key (lr_row l)) (lr_reservation l) m) live (sq_live se (filter (\<lambda>l. id_predicate chunk (lr_row l)) (db_live db))),
        foldl (\<lambda>s r. List.insert (row_key r) s) present (sq_postings se (filter (id_predicate chunk) (db_postings db))))"
  obtain live present where run: "foldl ?step ([], []) (chunks MAX_IDS_PER_QUERY ids) = (live, present)" by fastforce
  have "map_of live (id_key i) = map_of (map (\<lambda>l. (live_key l, lr_reservation l)) (db_live db)) (id_key i) \<and>
      (id_key i \<in> set present \<longleftrightarrow> id_key i \<in> row_key ` set (db_postings db))" if "i \<in> set ids" for i
    by (rule states_collected[OF env ok _ _ _ _ run, where D = "{}"])
      (use that concat_chunks[of MAX_IDS_PER_QUERY ids] in \<open>simp_all add: MAX_IDS_PER_QUERY_def\<close>)
  then show ?thesis using False by (auto simp: sql_get_posting_states_def run sql_state_def)
qed (simp add: sql_get_posting_states_def)

section \<open>The stores agree\<close>

text \<open>A posting instruction, as the trait \<open>PostingStore\<close> has them, and the counts a sequence of them returns.\<close>

datatype posting_op =
    Reserve "posting_id list" reservation_id
  | Release "posting_id list" reservation_id
  | Deactivate "posting_id list" "reservation_id option"
  | Insert "posting list"
  | ReadStates "posting_id list"

datatype posting_answer = Count nat | States "posting_state list"

definition mem_posting_op :: "posting_op \<Rightarrow> mem_store \<Rightarrow> posting_answer \<times> mem_store" where
  "mem_posting_op x st = (case x of
     Reserve ids r \<Rightarrow> (let (n, st') = reserve_postings ids r st in (Count n, st'))
   | Release ids r \<Rightarrow> (let (n, st') = release_postings ids r st in (Count n, st'))
   | Deactivate ids ro \<Rightarrow> (let (n, st') = deactivate_postings ids ro st in (Count n, st'))
   | Insert ps \<Rightarrow> (let (n, st') = insert_postings ps st in (Count n, st'))
   | ReadStates ids \<Rightarrow> (States (get_posting_states ids st), st))"

definition sql_posting_op :: "sql_env \<Rightarrow> posting_op \<Rightarrow> sql_db \<Rightarrow> posting_answer \<times> sql_db" where
  "sql_posting_op se x db = (case x of
     Reserve ids r \<Rightarrow> (let (n, db') = sql_reserve_postings ids r db in (Count n, db'))
   | Release ids r \<Rightarrow> (let (n, db') = sql_release_postings ids r db in (Count n, db'))
   | Deactivate ids ro \<Rightarrow> (let (n, db') = sql_deactivate_postings ids ro db in (Count n, db'))
   | Insert ps \<Rightarrow> (let (n, db') = sql_insert_postings ps db in (Count n, db'))
   | ReadStates ids \<Rightarrow> (States (sql_get_posting_states se ids db), db))"

fun answers :: "('x \<Rightarrow> 's \<Rightarrow> 'a \<times> 's) \<Rightarrow> 'x list \<Rightarrow> 's \<Rightarrow> 'a list" where
  "answers step [] s = []"
| "answers step (x # xs) s = (let (a, s') = step x s in a # answers step xs s')"

text \<open>Two stores that keep the contract and agree on every state answer alike, and agree again.\<close>

locale two_indexes =
  a: posting_index inv_a state_a reserve_a release_a deactivate_a add_a + b: posting_index inv_b state_b reserve_b release_b deactivate_b add_b
  for inv_a :: "'a \<Rightarrow> bool" and state_a reserve_a release_a deactivate_a add_a
    and inv_b :: "'b \<Rightarrow> bool" and state_b reserve_b release_b deactivate_b add_b
begin

definition agree :: "'a \<Rightarrow> 'b \<Rightarrow> bool" where
  "agree s t \<longleftrightarrow> inv_a s \<and> inv_b t \<and> state_a s = state_b t"

lemma agree_reserve: "agree s t \<Longrightarrow> fst (reserve_a ids r s) = fst (reserve_b ids r t) \<and> agree (snd (reserve_a ids r s)) (snd (reserve_b ids r t))"
  using a.reserve_law[of s ids r] b.reserve_law[of t ids r] by (simp add: agree_def fun_eq_iff)

lemma agree_release: "agree s t \<Longrightarrow> fst (release_a ids r s) = fst (release_b ids r t) \<and> agree (snd (release_a ids r s)) (snd (release_b ids r t))"
  using a.release_law[of s ids r] b.release_law[of t ids r] by (simp add: agree_def fun_eq_iff)

lemma agree_deactivate:
  "agree s t \<Longrightarrow> fst (deactivate_a ids ro s) = fst (deactivate_b ids ro t) \<and> agree (snd (deactivate_a ids ro s)) (snd (deactivate_b ids ro t))"
  using a.deactivate_law[of s ids ro] b.deactivate_law[of t ids ro] by (simp add: agree_def fun_eq_iff)

lemma agree_add: "agree s t \<Longrightarrow> fst (add_a ps s) = fst (add_b ps t) \<and> agree (snd (add_a ps s)) (snd (add_b ps t))"
  using a.add_law[of s ps] b.add_law[of t ps] by (simp add: agree_def fun_eq_iff)

end

interpretation stores: two_indexes "\<lambda>s. tables_ok (ms_postings s)" "\<lambda>s. posting_state_of (ms_postings s)"
    reserve_postings release_postings deactivate_postings insert_postings
    sql_tables_ok sql_state sql_reserve_postings sql_release_postings sql_deactivate_postings sql_insert_postings
  by unfold_locales

lemma posting_op_agree:
  assumes "sql_env_ok se" "stores.agree st db"
  shows "fst (mem_posting_op x st) = fst (sql_posting_op se x db) \<and> stores.agree (snd (mem_posting_op x st)) (snd (sql_posting_op se x db))"
proof (cases x)
  case (ReadStates ids)
  have "sql_tables_ok db" "posting_state_of (ms_postings st) = sql_state db" using assms(2) by (simp_all add: stores.agree_def)
  then have "get_posting_states ids st = sql_get_posting_states se ids db"
    using sql_states_read[OF assms(1)] by (simp add: get_posting_states_def)
  then show ?thesis using ReadStates assms(2) by (simp add: mem_posting_op_def sql_posting_op_def)
qed (use assms(2) stores.agree_reserve stores.agree_release stores.agree_deactivate stores.agree_add in
    \<open>simp_all add: mem_posting_op_def sql_posting_op_def split_beta\<close>)

section \<open>A concrete environment\<close>

text \<open>A codec that knows finitely many values: each is written as its position in a list.\<close>

definition table_write :: "'a list \<Rightarrow> 'a \<Rightarrow> rstr option" where
  "table_write xs v = (if v \<in> set xs then Some [length (takeWhile (\<lambda>x. x \<noteq> v) xs)] else None)"

definition table_read :: "'a list \<Rightarrow> rstr \<Rightarrow> 'a option" where
  "table_read xs s = (case s of [n] \<Rightarrow> if n < length xs then Some (xs ! n) else None | _ \<Rightarrow> None)"

lemma table_read_write: "table_write xs v = Some s \<Longrightarrow> table_read xs s = Some v"
proof -
  assume "table_write xs v = Some s"
  then have v: "v \<in> set xs" and s: "s = [length (takeWhile (\<lambda>x. x \<noteq> v) xs)]" by (auto simp: table_write_def split: if_splits)
  have "length (takeWhile (\<lambda>x. x \<noteq> v) xs) < length xs"
    using v by (induction xs) auto
  moreover from this have "xs ! length (takeWhile (\<lambda>x. x \<noteq> v) xs) = v" using nth_length_takeWhile by fastforce
  ultimately show ?thesis by (simp add: table_read_def s)
qed

definition table_json :: "metadata list \<Rightarrow> envelope list \<Rightarrow> receipt list \<Rightarrow> ledger_event list \<Rightarrow> book list \<Rightarrow> json" where
  "table_json ms es rs vs bs = \<lparr>js_metadata = table_write ms, js_envelope = table_write es, js_receipt = table_write rs,
     js_event = table_write vs, js_event_kind = table_write (map ev_kind vs), js_book = table_write bs,
     un_metadata = table_read ms, un_envelope = table_read es, un_receipt = table_read rs, un_event = table_read vs, un_book = table_read bs\<rparr>"

lemma json_ok_table: "json_ok (table_json ms es rs vs bs)"
  by (simp add: json_ok_def table_json_def table_read_write)

text \<open>Rows in insertion order.\<close>

definition plain_env :: "json \<Rightarrow> sql_env" where
  "plain_env js = \<lparr>sq_json = js, sq_dialect = Sqlite, sq_postings = (\<lambda>rs. rs), sq_live = (\<lambda>rs. rs), sq_accounts = (\<lambda>rs. rs),
     sq_transfers = (\<lambda>rs. rs), sq_books = (\<lambda>rs. rs), sq_touched = (\<lambda>ks. ks)\<rparr>"

lemma plain_env_ok: "sql_env_ok (plain_env js)"
  by (simp add: sql_env_ok_def plain_env_def)

lemma sql_tables_ok_new: "sql_tables_ok sql_store_new"
  by (simp add: sql_tables_ok_def sql_store_new_def)

lemma stores_new: "sql_state sql_store_new = posting_state_of (ms_postings mem_store_new)"
  by (simp add: fun_eq_iff sql_state_def posting_state_of_def sql_store_new_def mem_store_new_def contains_key_def)

section \<open>Properties\<close>

text \<open>
  C33: started from empty tables, or from any tables that agree on the state of every
  posting, the SQL store and the in-memory store answer every sequence of posting
  instructions and state queries alike: no client of \<open>PostingStore\<close> can tell them apart
  by counts and states. Batches of any length are covered, although the SQL store splits
  them into statements of 500 ids.
\<close>

theorem posting_stores_agree:
  assumes "sql_env_ok se" "tables_ok (ms_postings st)" "sql_tables_ok db" "sql_state db = posting_state_of (ms_postings st)"
  shows "answers (sql_posting_op se) xs db = answers mem_posting_op xs st"
proof -
  have "stores.agree st db" using assms by (simp add: stores.agree_def)
  then show ?thesis
  proof (induction xs arbitrary: st db)
    case (Cons x xs)
    then show ?case using posting_op_agree[OF assms(1) Cons.prems, of x] by (simp add: split_beta)
  qed simp
qed

theorem posting_stores_agree_witness:
  "let i = PostingId (EnvelopeId (replicate 32 7)) 0; p = \<lparr>p_id = i, p_owner = AccountId 1 0, p_asset = AssetId 1, p_value = -5\<rparr>;
       xs = [Insert [p], Reserve [i] (ReservationId 9), Release [i] (ReservationId 8), ReadStates [i, PostingId (EnvelopeId []) 1]]
   in answers (sql_posting_op (plain_env (table_json [] [] [] [] []))) xs sql_store_new = answers mem_posting_op xs mem_store_new \<and>
      answers mem_posting_op xs mem_store_new = [Count 1, Count 1, Count 0, States [StateReserved (ReservationId 9), StateMissing]]"
  using posting_stores_agree[OF plain_env_ok tables_ok_new sql_tables_ok_new stores_new]
  by (simp add: Let_def mem_posting_op_def insert_postings_def insert_one_def reserve_postings_def reserve_one_def release_postings_def
      release_one_def get_posting_states_def posting_state_of_def contains_key_def mem_store_new_def)

end
