(* ===== verification/Commit_Contract.thy ===== *)
theory Commit_Contract
  imports Mem_Store_Laws
begin

text \<open>
  What the trait \<open>CommitStore\<close> of \<^verbatim>\<open>kuatia-storage/src/store.rs\<close> promises of \<open>commit_envelope\<close>,
  as an interface: a stored transfer is answered from the store, an accepted request had
  all its postings active and moves them, a request that is not accepted changes no
  posting and no transfer. What follows from the promises is proved once: a request is
  applied at most once, and in any sequence of requests, however the writers interleave,
  no posting is consumed twice. The in-memory store keeps the promises.
\<close>

section \<open>The contract\<close>

text \<open>
  A request as the ledger builds it: it consumes distinct postings, and the ids of the
  postings it creates are distinct and carry the id of its transfer.
\<close>

definition request_ok :: "commit_request \<Rightarrow> bool" where
  "request_ok req \<longleftrightarrow> distinct (cr_consume req) \<and> distinct (map p_id (cr_create req)) \<and>
     list_all (\<lambda>p. pid_transfer (p_id p) = cr_transfer_id req) (cr_create req)"

text \<open>The outcomes of a sequence of requests, each at its reading of the clock.\<close>

fun commit_run :: "(int \<Rightarrow> commit_request \<Rightarrow> 's \<Rightarrow> ('e + commit_outcome) \<times> 's) \<Rightarrow> (int \<times> commit_request) list \<Rightarrow> 's \<Rightarrow>
    ('e + commit_outcome) list \<times> 's" where
  "commit_run commit [] s = ([], s)"
| "commit_run commit ((c, req) # reqs) s =
     (let (r, s1) = commit c req s; (rs, s2) = commit_run commit reqs s1 in (r # rs, s2))"

text \<open>The requests of a run that were applied.\<close>

definition applied :: "(int \<times> commit_request) list \<Rightarrow> ('e + commit_outcome) list \<Rightarrow> commit_request list" where
  "applied reqs rs = map (\<lambda>x. snd (fst x)) (filter (\<lambda>x. \<exists>rc. snd x = Inr (Committed rc)) (zip reqs rs))"

lemma applied_Cons:
  "applied ((c, req) # reqs) (r # rs) = (case r of Inr (Committed _) \<Rightarrow> [req] | _ \<Rightarrow> []) @ applied reqs rs"
  by (auto simp: applied_def split: sum.splits commit_outcome.splits)

lemma applied_Nil [simp]: "applied [] rs = []"
  by (simp add: applied_def)

locale commit_store =
  fixes inv :: "'s \<Rightarrow> bool" and state :: "'s \<Rightarrow> posting_id \<Rightarrow> posting_state" and stored :: "'s \<Rightarrow> envelope_id \<Rightarrow> receipt option"
    and commit :: "int \<Rightarrow> commit_request \<Rightarrow> 's \<Rightarrow> ('e + commit_outcome) \<times> 's"
  assumes replay: "inv s \<Longrightarrow> stored s (cr_transfer_id req) = Some r \<Longrightarrow> commit c req s = (Inr (AlreadyCommitted r), s)"
    and accepted: "inv s \<Longrightarrow> request_ok req \<Longrightarrow> commit c req s = (Inr (Committed r), s') \<Longrightarrow>
       inv s' \<and> r = er_receipt (cr_record req) \<and> stored s (cr_transfer_id req) = None \<and>
       stored s' = (stored s)(cr_transfer_id req \<mapsto> r) \<and> (\<forall>i \<in> set (cr_consume req). state s i = StateActive) \<and>
       (\<forall>j. state s' j = (if j \<in> p_id ` set (cr_create req) then StateActive
          else if j \<in> set (cr_consume req) then StateSpent else state s j))"
    and refused: "inv s \<Longrightarrow> commit c req s = (res, s') \<Longrightarrow> (\<And>r. res \<noteq> Inr (Committed r)) \<Longrightarrow>
       inv s' \<and> stored s' = stored s \<and> state s' = state s"
    and rooted: "inv s \<Longrightarrow> state s i \<noteq> StateMissing \<Longrightarrow> stored s (pid_transfer i) \<noteq> None"
begin

lemma committed_once:
  assumes "inv s" "request_ok req" "commit c req s = (Inr (Committed r), s')"
  shows "commit c' req s' = (Inr (AlreadyCommitted r), s')"
  using accepted[OF assms] by (intro replay) auto

text \<open>Ids that a request creates are new; the postings it consumes are not among them.\<close>

lemma created_missing:
  assumes "inv s" "request_ok req" "commit c req s = (Inr (Committed r), s')" "p \<in> set (cr_create req)"
  shows "state s (p_id p) = StateMissing"
  using accepted[OF assms(1-3)] rooted[OF assms(1), of "p_id p"] assms(2,4) by (auto simp: request_ok_def list_all_iff)

lemma commit_inv:
  assumes "inv s" "request_ok req" "commit c req s = (res, s')"
  shows "inv s'"
proof (cases "\<exists>r. res = Inr (Committed r)")
  case True
  then show ?thesis using accepted assms by blast
next
  case False
  then show ?thesis using refused[OF assms(1,3)] by blast
qed

text \<open>A spent posting stays spent and a stored transfer stays stored, whatever is committed later.\<close>

lemma commit_keeps:
  assumes "inv s" "request_ok req" "commit c req s = (res, s')"
  shows "state s i = StateSpent \<Longrightarrow> state s' i = StateSpent" and "stored s tid = Some r \<Longrightarrow> stored s' tid = Some r"
proof -
  show "state s' i = StateSpent" if "state s i = StateSpent"
  proof (cases "\<exists>r. res = Inr (Committed r)")
    case True
    then obtain r where run: "commit c req s = (Inr (Committed r), s')" using assms(3) by blast
    have "i \<notin> p_id ` set (cr_create req)" using created_missing[OF assms(1,2) run] that by auto
    then show ?thesis using accepted[OF assms(1,2) run] that by simp
  next
    case False
    then show ?thesis using refused[OF assms(1,3)] that by simp
  qed
  show "stored s' tid = Some r" if "stored s tid = Some r"
  proof (cases "\<exists>r. res = Inr (Committed r)")
    case True
    then show ?thesis using accepted[OF assms(1,2)] assms(3) that by fastforce
  next
    case False
    then show ?thesis using refused[OF assms(1,3)] that by simp
  qed
qed

lemma run_keeps:
  assumes "commit_run commit reqs s = (rs, s')" "inv s" "list_all (\<lambda>x. request_ok (snd x)) reqs"
  shows "inv s'" and "state s i = StateSpent \<Longrightarrow> state s' i = StateSpent" and "stored s tid = Some r \<Longrightarrow> stored s' tid = Some r"
    and "req \<in> set (applied reqs rs) \<Longrightarrow> i \<in> set (cr_consume req) \<Longrightarrow> state s i \<noteq> StateSpent"
    and "req \<in> set (applied reqs rs) \<Longrightarrow> stored s (cr_transfer_id req) = None"
proof -
  have "inv s' \<and> (state s i = StateSpent \<longrightarrow> state s' i = StateSpent) \<and> (stored s tid = Some r \<longrightarrow> stored s' tid = Some r) \<and>
    (req \<in> set (applied reqs rs) \<longrightarrow> (i \<in> set (cr_consume req) \<longrightarrow> state s i \<noteq> StateSpent) \<and> stored s (cr_transfer_id req) = None)"
    using assms
  proof (induction reqs arbitrary: s rs)
    case (Cons x reqs)
    obtain c rq where x: "x = (c, rq)" by fastforce
    obtain o1 s1 where one: "commit c rq s = (o1, s1)" by fastforce
    obtain rs1 where rest: "commit_run commit reqs s1 = (rs1, s')" and rs: "rs = o1 # rs1"
      using Cons.prems(1) one by (auto simp: x split: prod.splits)
    have ok: "request_ok rq" "list_all (\<lambda>x. request_ok (snd x)) reqs" using Cons.prems(3) by (simp_all add: x)
    note IH = Cons.IH[OF rest commit_inv[OF Cons.prems(2) ok(1) one] ok(2)]
    note keep = commit_keeps[OF Cons.prems(2) ok(1) one]
    have "(i \<in> set (cr_consume req) \<longrightarrow> state s i \<noteq> StateSpent) \<and> stored s (cr_transfer_id req) = None"
      if req: "req \<in> set (applied (x # reqs) rs)"
    proof (cases "req \<in> set (applied reqs rs1)")
      case True
      have "stored s (cr_transfer_id req) = None" using IH True keep(2)[of "cr_transfer_id req"] by fastforce
      then show ?thesis using IH True keep(1)[of i] by blast
    next
      case False
      then obtain r where "o1 = Inr (Committed r)" "req = rq"
        using req by (auto simp: x rs applied_Cons split: sum.splits commit_outcome.splits)
      then show ?thesis using accepted[OF Cons.prems(2) ok(1), of c r s1] one by auto
    qed
    then show ?case using IH keep by blast
  qed simp
  then show "inv s'" "state s i = StateSpent \<Longrightarrow> state s' i = StateSpent" "stored s tid = Some r \<Longrightarrow> stored s' tid = Some r"
    "req \<in> set (applied reqs rs) \<Longrightarrow> i \<in> set (cr_consume req) \<Longrightarrow> state s i \<noteq> StateSpent"
    "req \<in> set (applied reqs rs) \<Longrightarrow> stored s (cr_transfer_id req) = None"
    by blast+
qed

text \<open>In a run, the applied requests have distinct transfers and consume disjoint postings.\<close>

lemma run_spends_once:
  assumes "commit_run commit reqs s = (rs, s')" "inv s" "list_all (\<lambda>x. request_ok (snd x)) reqs"
  shows "distinct (concat (map cr_consume (applied reqs rs))) \<and> distinct (map cr_transfer_id (applied reqs rs)) \<and>
    list_all (\<lambda>req. list_all (\<lambda>i. state s' i = StateSpent) (cr_consume req) \<and>
       stored s' (cr_transfer_id req) = Some (er_receipt (cr_record req))) (applied reqs rs)"
  using assms
proof (induction reqs arbitrary: s rs)
  case (Cons x reqs)
  obtain c rq where x: "x = (c, rq)" by fastforce
  obtain o1 s1 where one: "commit c rq s = (o1, s1)" by fastforce
  obtain rs1 where rest: "commit_run commit reqs s1 = (rs1, s')" and rs: "rs = o1 # rs1"
    using Cons.prems(1) one by (auto simp: x split: prod.splits)
  have ok: "request_ok rq" "list_all (\<lambda>x. request_ok (snd x)) reqs" using Cons.prems(3) by (simp_all add: x)
  note inv1 = commit_inv[OF Cons.prems(2) ok(1) one]
  note IH = Cons.IH[OF rest inv1 ok(2)]
  show ?case
  proof (cases "\<exists>r. o1 = Inr (Committed r)")
    case True
    then obtain r where o1: "o1 = Inr (Committed r)" by blast
    note acc = accepted[OF Cons.prems(2) ok(1) one[unfolded o1]]
    have spent: "state s1 i = StateSpent" if "i \<in> set (cr_consume rq)" for i
    proof -
      have "i \<notin> p_id ` set (cr_create rq)"
        using acc that created_missing[OF Cons.prems(2) ok(1) one[unfolded o1]] by fastforce
      then show ?thesis using acc that by simp
    qed
    note keeps = run_keeps[OF rest inv1 ok(2)]
    have "set (cr_consume rq) \<inter> set (cr_consume req) = {}" if "req \<in> set (applied reqs rs1)" for req
      using keeps(4)[OF that] spent by blast
    moreover have "cr_transfer_id rq \<noteq> cr_transfer_id req" if "req \<in> set (applied reqs rs1)" for req
      using keeps(5)[OF that] acc by auto
    moreover have "list_all (\<lambda>i. state s' i = StateSpent) (cr_consume rq)" using spent keeps(2) by (simp add: list_all_iff)
    moreover have "stored s' (cr_transfer_id rq) = Some (er_receipt (cr_record rq))"
      by (rule keeps(3)) (use acc in simp)
    moreover have "distinct (cr_consume rq)" using ok(1) by (simp add: request_ok_def)
    ultimately show ?thesis using IH by (auto simp: x rs o1 applied_Cons)
  next
    case False
    then have "applied (x # reqs) rs = applied reqs rs1" by (auto simp: x rs applied_Cons split: sum.splits commit_outcome.splits)
    then show ?thesis using IH by simp
  qed
qed simp

end

section \<open>The in-memory store\<close>

definition mem_commit_inv :: "mem_store \<Rightarrow> bool" where
  "mem_commit_inv st \<longleftrightarrow> tables_ok (ms_postings st) \<and>
     (\<forall>i. map_of (pt_immutable (ms_postings st)) i \<noteq> None \<longrightarrow> map_of (ms_transfers st) (pid_transfer i) \<noteq> None)"

definition mem_receipt :: "mem_store \<Rightarrow> envelope_id \<Rightarrow> receipt option" where
  "mem_receipt st tid = map_option er_receipt (map_of (ms_transfers st) tid)"

lemma mem_commit_accepted:
  assumes inv: "mem_commit_inv st" and ok: "request_ok req" and run: "commit_envelope h c req st = (Inr (Committed r), st')"
  shows "mem_commit_inv st' \<and> r = er_receipt (cr_record req) \<and> mem_receipt st (cr_transfer_id req) = None \<and>
     mem_receipt st' = (mem_receipt st)(cr_transfer_id req \<mapsto> r) \<and>
     (\<forall>i \<in> set (cr_consume req). posting_state_of (ms_postings st) i = StateActive) \<and>
     (\<forall>j. posting_state_of (ms_postings st') j = (if j \<in> p_id ` set (cr_create req) then StateActive
          else if j \<in> set (cr_consume req) then StateSpent else posting_state_of (ms_postings st) j))"
proof -
  have new: "map_of (ms_transfers st) (cr_transfer_id req) = None" and st': "st' = commit_apply c req st"
    and r: "r = er_receipt (cr_record req)" and g: "commit_guards h req st = Inr ()"
    using run by (auto simp: commit_envelope_def split: option.splits sum.splits commit_exit.splits)
  have tab: "tables_ok (ms_postings st)" using inv by (simp add: mem_commit_inv_def)
  have fr: "request_fresh req (ms_postings st)"
    using inv ok new by (auto simp: request_fresh_def request_ok_def mem_commit_inv_def list_all_iff)
  have live: "\<forall>i \<in> set (cr_consume req). map_of (pt_active (ms_postings st)) i \<noteq> None" using guards_passed(2)[OF g] by blast
  have posts: "ms_postings st' = commit_tables req (ms_postings st)"
    and trs: "ms_transfers st' = AList.update (cr_transfer_id req) (cr_record req) (ms_transfers st)"
    by (simp_all add: st' commit_apply_def Let_def split_beta)
  note states = commit_tables_states[OF tab fr live]
  have "map_of (ms_transfers st') (pid_transfer i) \<noteq> None" if "map_of (pt_immutable (ms_postings st')) i \<noteq> None" for i
  proof -
    have "posting_state_of (ms_postings st') i \<noteq> StateMissing" using that state_missing_iff[OF states(1)] posts by simp
    then have "i \<in> p_id ` set (cr_create req) \<or> posting_state_of (ms_postings st) i \<noteq> StateMissing"
      using states(2)[of i] live state_active_iff[of "ms_postings st" i] posts by (auto split: if_splits)
    then show ?thesis using inv ok state_missing_iff[OF tab, of i] by (auto simp: trs map_of_update mem_commit_inv_def request_ok_def list_all_iff)
  qed
  then have "mem_commit_inv st'" using states(1) by (simp add: mem_commit_inv_def posts)
  then show ?thesis using states(2) new live
    by (auto simp: r posts trs mem_receipt_def map_of_update state_active_iff fun_eq_iff)
qed

interpretation mem_commit: commit_store mem_commit_inv "\<lambda>s. posting_state_of (ms_postings s)" mem_receipt "commit_envelope h" for h
proof
  show "commit_envelope h c req s = (Inr (AlreadyCommitted r), s)" if "mem_receipt s (cr_transfer_id req) = Some r" for c req s r
    using that by (auto simp: mem_receipt_def commit_envelope_def)
  show "mem_receipt s (pid_transfer i) \<noteq> None" if "mem_commit_inv s" "posting_state_of (ms_postings s) i \<noteq> StateMissing" for s i
    using that state_missing_iff[of "ms_postings s" i] by (auto simp: mem_commit_inv_def mem_receipt_def)
next
  fix s c req res s'
  assume "mem_commit_inv s" "commit_envelope h c req s = (res, s')" "\<And>r. res \<noteq> Inr (Committed r)"
  then show "mem_commit_inv s' \<and> mem_receipt s' = mem_receipt s \<and> posting_state_of (ms_postings s') = posting_state_of (ms_postings s)"
    by (auto simp: commit_envelope_def split: option.splits sum.splits commit_exit.splits)
qed (rule mem_commit_accepted)

end
