(* ===== verification/Sql_Commit_Laws.thy ===== *)
theory Sql_Commit_Laws
  imports Sql_Posting_Laws Commit_Contract
begin

text \<open>
  The atomic commit of the SQL store: what the transaction does to the posting tables, the
  guards it has passed when it commits, and that it keeps the contract \<open>commit_store\<close>.
\<close>

section \<open>The move of the postings\<close>

lemma set_sq_live: "sql_env_ok se \<Longrightarrow> set (sq_live se rs) = set rs"
  by (rule mset_eq_setD) (simp add: sql_env_ok_def)

lemma set_consumed_rows:
  assumes "sql_env_ok se"
  shows "set (consumed_rows se ids db) = {l \<in> set (db_live db). id_predicate ids (lr_row l) \<and> lr_reservation l = None}"
proof -
  have "id_predicate ids r \<longleftrightarrow> (\<exists>c \<in> set (chunks MAX_IDS_PER_QUERY ids). id_predicate c r)" for r
    using chunks_cover[of ids] by (fastforce simp: id_predicate_iff)
  then show ?thesis by (auto simp: consumed_rows_def set_sq_live[OF assms])
qed

lemma consumed_present:
  assumes "sql_env_ok se" "sql_tables_ok db" "i \<in> set ids"
  shows "id_key i \<in> live_key ` set (consumed_rows se ids db) \<longleftrightarrow> sql_state db i = StateActive"
proof
  assume "id_key i \<in> live_key ` set (consumed_rows se ids db)"
  then show "sql_state db i = StateActive" by (auto simp: set_consumed_rows[OF assms(1)] sql_state_iff(1)[OF assms(2)])
next
  assume "sql_state db i = StateActive"
  then obtain l where l: "l \<in> set (db_live db)" "live_key l = id_key i" "lr_reservation l = None"
    by (auto simp: sql_state_iff(1)[OF assms(2)])
  then have "id_predicate ids (lr_row l)" using assms(3) by (auto simp: id_predicate_iff live_key_def)
  then show "id_key i \<in> live_key ` set (consumed_rows se ids db)" using l by (force simp: set_consumed_rows[OF assms(1)])
qed

text \<open>The live table without the consumed rows.\<close>

definition live_without :: "posting_id list \<Rightarrow> live_row list \<Rightarrow> live_row list" where
  "live_without ids rows = filter (\<lambda>l. \<not> (id_predicate ids (lr_row l) \<and> lr_reservation l = None)) rows"

lemma move_postings_passed:
  assumes run: "sql_move_postings se req db = Inr db1" and env: "sql_env_ok se" and ok: "sql_tables_ok db"
  shows "db1 = fold sql_create_posting (cr_create req) (db\<lparr>db_live := live_without (cr_consume req) (db_live db)\<rparr>)"
    and "i \<in> set (cr_consume req) \<Longrightarrow> sql_state db i = StateActive"
    and "aid \<in> set (cr_involved req) \<Longrightarrow> sql_flag_guard se db aid = None"
    and "k \<in> touched_key ` lr_row ` set (consumed_rows se (cr_consume req) db) \<union> (\<lambda>p. (p_owner p, p_asset p)) ` set (cr_create req) \<Longrightarrow>
       sql_floor_guard se db1 k = None"
proof -
  let ?rows = "consumed_rows se (cr_consume req) db"
  let ?touched = "remdups (map (\<lambda>l. touched_key (lr_row l)) ?rows @ map (\<lambda>p. (p_owner p, p_asset p)) (cr_create req))"
  have flags: "guard_each (sql_flag_guard se db) (cr_involved req) = Inr ()"
    and found: "List.find (\<lambda>i. id_key i \<notin> set (map live_key ?rows)) (cr_consume req) = None"
    and floor: "guard_each (sql_floor_guard se db1) (sq_touched se ?touched) = Inr ()"
    and db1: "db1 = fold sql_create_posting (cr_create req) (db\<lparr>db_live := live_without (cr_consume req) (db_live db)\<rparr>)"
    using run for_chunks_delete[of "\<lambda>l. lr_reservation l = None" "cr_consume req" "db_live db"]
    by (auto simp: sql_move_postings_def rbind_eq_Inr Let_def delete_where_def live_without_def split: option.splits)
  show "db1 = fold sql_create_posting (cr_create req) (db\<lparr>db_live := live_without (cr_consume req) (db_live db)\<rparr>)" by (rule db1)
  show "sql_state db i = StateActive" if "i \<in> set (cr_consume req)"
  proof -
    have "id_key i \<in> live_key ` set ?rows" using found that by (auto simp: find_None_iff)
    then show ?thesis using consumed_present[OF env ok that] by simp
  qed
  show "sql_flag_guard se db aid = None" if "aid \<in> set (cr_involved req)" using flags that by (simp add: guard_each_Inr)
  have "mset (sq_touched se ?touched) = mset ?touched" using env by (simp add: sql_env_ok_def)
  then have "set (sq_touched se ?touched) = set ?touched" by (rule mset_eq_setD)
  then show "sql_floor_guard se db1 k = None"
    if "k \<in> touched_key ` lr_row ` set ?rows \<union> (\<lambda>p. (p_owner p, p_asset p)) ` set (cr_create req)"
    using floor that by (auto simp: guard_each_Inr)
qed

section \<open>Created postings\<close>

lemma create_posting_fresh:
  assumes ok: "sql_tables_ok db" and new: "sql_state db (p_id p) = StateMissing"
  shows "sql_create_posting p db = db\<lparr>db_postings := db_postings db @ [posting_to_row p],
      db_live := db_live db @ [\<lparr>lr_row = posting_to_row p, lr_reservation = None\<rparr>]\<rparr>" (is ?eq)
    and "sql_tables_ok (sql_create_posting p db) \<and>
       (\<forall>j. sql_state (sql_create_posting p db) j = (if j = p_id p then StateActive else sql_state db j))"
proof -
  have row: "id_key (p_id p) \<notin> row_key ` set (db_postings db)" using new by (simp add: sql_state_iff(3)[OF ok])
  then have live: "id_key (p_id p) \<notin> live_key ` set (db_live db)" using ok by (force simp: sql_tables_ok_def live_key_def)
  have key: "live_key \<lparr>lr_row = posting_to_row p, lr_reservation = None\<rparr> = id_key (p_id p)" by (simp add: live_key_def)
  show eq: ?eq using row live by (simp add: sql_create_posting_def insert_live_def insert_ignore_def key)
  show "sql_tables_ok (sql_create_posting p db) \<and>
       (\<forall>j. sql_state (sql_create_posting p db) j = (if j = p_id p then StateActive else sql_state db j))"
    using sql_insert_step[OF ok, of p 0] new row live by (auto simp: eq insert_ignore_def insert_live_def key)
qed

lemma create_postings_fresh:
  assumes "sql_tables_ok db" "distinct (map p_id ps)" "\<forall>p \<in> set ps. sql_state db (p_id p) = StateMissing"
  shows "fold sql_create_posting ps db = db\<lparr>db_postings := db_postings db @ map posting_to_row ps,
      db_live := db_live db @ map (\<lambda>p. \<lparr>lr_row = posting_to_row p, lr_reservation = None\<rparr>) ps\<rparr> \<and>
     sql_tables_ok (fold sql_create_posting ps db) \<and>
     (\<forall>j. sql_state (fold sql_create_posting ps db) j = (if j \<in> p_id ` set ps then StateActive else sql_state db j))"
  using assms
proof (induction ps arbitrary: db)
  case (Cons p ps)
  have new: "sql_state db (p_id p) = StateMissing" using Cons.prems(3) by simp
  note eq = create_posting_fresh(1)[OF Cons.prems(1) new] and st = create_posting_fresh(2)[OF Cons.prems(1) new]
  have "p_id q \<noteq> p_id p" if "q \<in> set ps" for q using Cons.prems(2) that by (metis distinct.simps(2) image_eqI list.set_map list.simps(9))
  then have mis: "\<forall>q \<in> set ps. sql_state (sql_create_posting p db) (p_id q) = StateMissing" using Cons.prems(3) st by simp
  have "distinct (map p_id ps)" using Cons.prems(2) by simp
  note IH = Cons.IH[OF conjunct1[OF st] this mis]
  have "fold sql_create_posting (p # ps) db = db\<lparr>db_postings := db_postings db @ map posting_to_row (p # ps),
      db_live := db_live db @ map (\<lambda>p. \<lparr>lr_row = posting_to_row p, lr_reservation = None\<rparr>) (p # ps)\<rparr>"
    using conjunct1[OF IH] by (simp add: eq)
  moreover have "fold sql_create_posting (p # ps) db = fold sql_create_posting ps (sql_create_posting p db)" by simp
  moreover have "(if j \<in> p_id ` set ps then StateActive else sql_state (sql_create_posting p db) j)
      = (if j \<in> p_id ` set (p # ps) then StateActive else sql_state db j)" for j using st by simp
  ultimately show ?case using conjunct2[OF IH] by metis
qed simp

lemma live_without_state:
  assumes ok: "sql_tables_ok db" and act: "\<forall>i \<in> set ids. sql_state db i = StateActive"
  shows "sql_tables_ok (db\<lparr>db_live := live_without ids (db_live db)\<rparr>) \<and>
    (\<forall>j. sql_state (db\<lparr>db_live := live_without ids (db_live db)\<rparr>) j = (if j \<in> set ids then StateSpent else sql_state db j))"
  using delete_live_law[OF ok, of ids None] act by (simp add: delete_where_def live_without_def column_state_def)

text \<open>The tables after the move, for a request whose created ids are new.\<close>

lemma move_postings_effect:
  assumes run: "sql_move_postings se req db = Inr db1" and env: "sql_env_ok se" and ok: "sql_tables_ok db"
    and new: "distinct (map p_id (cr_create req))" "\<forall>p \<in> set (cr_create req). sql_state db (p_id p) = StateMissing"
  shows "db1 = db\<lparr>db_postings := db_postings db @ map posting_to_row (cr_create req),
       db_live := live_without (cr_consume req) (db_live db) @ map (\<lambda>p. \<lparr>lr_row = posting_to_row p, lr_reservation = None\<rparr>) (cr_create req)\<rparr>"
    and "sql_tables_ok db1"
    and "sql_state db1 j = (if j \<in> p_id ` set (cr_create req) then StateActive else if j \<in> set (cr_consume req) then StateSpent else sql_state db j)"
proof -
  note p = move_postings_passed[OF run env ok]
  have act: "\<forall>i \<in> set (cr_consume req). sql_state db i = StateActive" using p(2) by blast
  note sp = live_without_state[OF ok act]
  have "\<forall>q \<in> set (cr_create req). sql_state (db\<lparr>db_live := live_without (cr_consume req) (db_live db)\<rparr>) (p_id q) = StateMissing"
    using sp new(2) act by auto
  note f = create_postings_fresh[OF conjunct1[OF sp] new(1) this]
  show "db1 = db\<lparr>db_postings := db_postings db @ map posting_to_row (cr_create req),
       db_live := live_without (cr_consume req) (db_live db) @ map (\<lambda>p. \<lparr>lr_row = posting_to_row p, lr_reservation = None\<rparr>) (cr_create req)\<rparr>"
    using f p(1) by simp
  show "sql_tables_ok db1" unfolding p(1) by (rule conjunct1[OF conjunct2[OF f]])
  show "sql_state db1 j = (if j \<in> p_id ` set (cr_create req) then StateActive else if j \<in> set (cr_consume req) then StateSpent else sql_state db j)"
    unfolding p(1) using conjunct2[OF conjunct2[OF f]] sp by simp
qed

section \<open>The contract\<close>

definition sql_receipt :: "sql_env \<Rightarrow> sql_db \<Rightarrow> envelope_id \<Rightarrow> receipt option" where
  "sql_receipt se db tid = (case fetch_optional (filter (\<lambda>r. tr_id r = envelope_id_to_hex tid) (db_transfers db)) of
     None \<Rightarrow> None | Some r \<Rightarrow> un_receipt (sq_json se) (tr_receipt r))"

text \<open>The invariant: the tables of postings fit, every stored receipt reads back, and every posting row belongs to a stored transfer.\<close>

definition sql_commit_inv :: "sql_env \<Rightarrow> sql_db \<Rightarrow> bool" where
  "sql_commit_inv se db \<longleftrightarrow> sql_env_ok se \<and> json_ok (sq_json se) \<and> sql_tables_ok db \<and>
     (\<forall>r \<in> set (db_transfers db). un_receipt (sq_json se) (tr_receipt r) \<noteq> None) \<and>
     (\<forall>r \<in> set (db_postings db). pr_transfer_id r \<in> tr_id ` set (db_transfers db))"

lemma envelope_id_to_hex_inject [simp]: "envelope_id_to_hex i = envelope_id_to_hex j \<longleftrightarrow> i = j"
  by (auto simp: envelope_id_to_hex_def intro: envelope_id.expand)

lemma fetch_optional_None [simp]: "fetch_optional rs = None \<longleftrightarrow> rs = []"
  by (cases rs) (simp_all add: fetch_optional_def)

lemma fetch_optional_Nil [simp]: "fetch_optional [] = None"
  by (simp add: fetch_optional_def)

lemma fetch_optional_in: "fetch_optional rs = Some r \<Longrightarrow> r \<in> set rs"
  by (cases rs) (simp_all add: fetch_optional_def)

lemma fetch_optional_append: "fetch_optional (rs @ ss) = (case fetch_optional rs of Some r \<Rightarrow> Some r | None \<Rightarrow> fetch_optional ss)"
  by (cases rs) (simp_all add: fetch_optional_def)

lemma receipt_None:
  assumes "sql_commit_inv se db"
  shows "sql_receipt se db tid = None \<longleftrightarrow> envelope_id_to_hex tid \<notin> tr_id ` set (db_transfers db)"
proof (cases "fetch_optional (filter (\<lambda>r. tr_id r = envelope_id_to_hex tid) (db_transfers db))")
  case None
  then show ?thesis by (auto simp: sql_receipt_def filter_empty_conv)
next
  case (Some r)
  then have r: "r \<in> set (db_transfers db)" "tr_id r = envelope_id_to_hex tid" using fetch_optional_in[OF Some] by auto
  then have "un_receipt (sq_json se) (tr_receipt r) \<noteq> None" using assms by (simp add: sql_commit_inv_def)
  then have "sql_receipt se db tid \<noteq> None" by (simp add: sql_receipt_def Some)
  moreover have "envelope_id_to_hex tid \<in> tr_id ` set (db_transfers db)" using r by force
  ultimately show ?thesis by simp
qed

text \<open>A commit that is applied: the move, then the transfer, its index rows and its event.\<close>

lemma sql_commit_applied:
  assumes "sql_commit_envelope se c req db = (Inr (Committed rc), db')"
  obtains db1 row g evs where "sql_move_postings se req db = Inr db1"
    "record_to_row (sq_json se) (cr_transfer_id req) (cr_record req) = Inr row"
    "envelope_id_to_hex (cr_transfer_id req) \<notin> tr_id ` set (db_transfers db)" "rc = er_receipt (cr_record req)"
    "db' = db1\<lparr>db_transfers := snd (insert_ignore tr_id row (db_transfers db1)),
       db_transfer_accounts := index_accounts (cr_transfer_id req) (cr_involved req) (db_transfer_accounts db1), db_events := evs, db_autoid := g\<rparr>"
proof -
  have "filter (\<lambda>r. tr_id r = envelope_id_to_hex (cr_transfer_id req)) (db_transfers db) = []"
    using assms by (auto simp: sql_commit_envelope_def rbind_eq_Inr split: option.splits)
  then have new: "envelope_id_to_hex (cr_transfer_id req) \<notin> tr_id ` set (db_transfers db)" by (auto simp: filter_empty_conv)
  obtain db1 where mv: "sql_move_postings se req db = Inr db1"
    using assms by (auto simp: sql_commit_envelope_def rbind_eq_Inr split: option.splits sum.splits sql_exit.splits)
  moreover obtain row where rw: "record_to_row (sq_json se) (cr_transfer_id req) (cr_record req) = Inr row"
    using assms mv by (auto simp: sql_commit_envelope_def rbind_eq_Inr split: option.splits sum.splits)
  moreover obtain n sq evs g where "append_event_tx (sq_json se) c (cr_event req) (db_events db1) (db_autoid db1) = (Inr (n, sq, evs), g)"
    using assms mv rw by (auto simp: sql_commit_envelope_def rbind_eq_Inr split: option.splits sum.splits prod.splits)
  ultimately show ?thesis
    using assms by (intro that[OF mv rw new]) (auto simp: sql_commit_envelope_def rbind_eq_Inr split: option.splits)
qed

lemma sql_commit_not_applied:
  assumes "sql_commit_envelope se c req db = (res, db')" "\<And>r. res \<noteq> Inr (Committed r)"
  obtains g where "db' = db\<lparr>db_autoid := g\<rparr>"
proof -
  have "db' = db \<or> (\<exists>g. db' = db\<lparr>db_autoid := g\<rparr>)"
    using assms by (auto simp: sql_commit_envelope_def split: option.splits sum.splits sql_exit.splits prod.splits)
  then show ?thesis using that[of "db_autoid db"] that by auto
qed

lemma record_row:
  assumes "record_to_row js tid rec = Inr row" "json_ok js"
  shows "tr_id row = envelope_id_to_hex tid" "un_receipt js (tr_receipt row) = Some (er_receipt rec)"
    "un_envelope js (tr_transfer row) = Some (er_envelope rec)" "tr_created_at row = er_created_at rec"
  using assms by (auto simp: record_to_row_def serialize_json_def rbind_eq_Inr json_ok_def)

lemma sql_commit_accepted:
  assumes inv: "sql_commit_inv se db" and ok: "request_ok req" and run: "sql_commit_envelope se c req db = (Inr (Committed r), db')"
  shows "sql_commit_inv se db' \<and> r = er_receipt (cr_record req) \<and> sql_receipt se db (cr_transfer_id req) = None \<and>
     sql_receipt se db' = (sql_receipt se db)(cr_transfer_id req \<mapsto> r) \<and>
     (\<forall>i \<in> set (cr_consume req). sql_state db i = StateActive) \<and>
     (\<forall>j. sql_state db' j = (if j \<in> p_id ` set (cr_create req) then StateActive
          else if j \<in> set (cr_consume req) then StateSpent else sql_state db j))"
proof -
  obtain db1 row g evs where mv: "sql_move_postings se req db = Inr db1"
    and rw: "record_to_row (sq_json se) (cr_transfer_id req) (cr_record req) = Inr row"
    and new: "envelope_id_to_hex (cr_transfer_id req) \<notin> tr_id ` set (db_transfers db)" and r: "r = er_receipt (cr_record req)"
    and db': "db' = db1\<lparr>db_transfers := snd (insert_ignore tr_id row (db_transfers db1)),
       db_transfer_accounts := index_accounts (cr_transfer_id req) (cr_involved req) (db_transfer_accounts db1), db_events := evs, db_autoid := g\<rparr>"
    using sql_commit_applied[OF run] by metis
  have env: "sql_env_ok se" and js: "json_ok (sq_json se)" and tab: "sql_tables_ok db" using inv by (simp_all add: sql_commit_inv_def)
  have mis: "\<forall>p \<in> set (cr_create req). sql_state db (p_id p) = StateMissing"
    using inv ok new by (fastforce simp: sql_state_iff(3)[OF tab] sql_commit_inv_def request_ok_def list_all_iff id_key_def row_key_def)
  have dist: "distinct (map p_id (cr_create req))" using ok by (simp add: request_ok_def)
  note eff = move_postings_effect[OF mv env tab dist mis]
  note row = record_row[OF rw js]
  have trs: "db_transfers db' = db_transfers db @ [row]" using new by (simp add: db' eff(1) insert_ignore_def row)
  have posts: "db_postings db' = db_postings db @ map posting_to_row (cr_create req)" by (simp add: db' eff(1))
  have tabs: "sql_tables_ok db'" "sql_state db' = sql_state db1"
    using eff(2) by (simp_all add: db' sql_tables_ok_def sql_state_def fun_eq_iff)
  have "sql_commit_inv se db'"
    using inv tabs(1) row ok by (auto simp: sql_commit_inv_def trs posts posting_to_row_def request_ok_def list_all_iff)
  moreover have "sql_receipt se db' = (sql_receipt se db)(cr_transfer_id req \<mapsto> r)"
  proof
    fix t
    have none: "filter (\<lambda>x. tr_id x = envelope_id_to_hex (cr_transfer_id req)) (db_transfers db) = []"
      using new by (force simp: filter_empty_conv)
    have one: "fetch_optional [row] = Some row" by (simp add: fetch_optional_def)
    show "sql_receipt se db' t = ((sql_receipt se db)(cr_transfer_id req \<mapsto> r)) t"
    proof (cases "t = cr_transfer_id req")
      case True
      then show ?thesis by (simp add: sql_receipt_def trs none one row r)
    next
      case False
      then show ?thesis by (simp add: sql_receipt_def trs row(1))
    qed
  qed
  moreover have "sql_receipt se db (cr_transfer_id req) = None" using receipt_None[OF inv] new by simp
  ultimately show ?thesis using r tabs(2) eff(3) move_postings_passed(2)[OF mv env tab] by simp
qed

interpretation sql_commit: commit_store "sql_commit_inv se" sql_state "sql_receipt se" "sql_commit_envelope se" for se
proof
  fix s r c and req :: commit_request
  assume "sql_commit_inv se s" "sql_receipt se s (cr_transfer_id req) = Some r"
  then show "sql_commit_envelope se c req s = (Inr (AlreadyCommitted r), s)"
    by (auto simp: sql_receipt_def sql_commit_envelope_def deserialize_json_def split: option.splits)
next
  fix s c res s' and req :: commit_request
  assume inv: "sql_commit_inv se s" and run: "sql_commit_envelope se c req s = (res, s')" "\<And>r. res \<noteq> Inr (Committed r)"
  obtain g where "s' = s\<lparr>db_autoid := g\<rparr>" using sql_commit_not_applied[OF run] by metis
  then show "sql_commit_inv se s' \<and> sql_receipt se s' = sql_receipt se s \<and> sql_state s' = sql_state s"
    using inv by (simp add: sql_commit_inv_def sql_tables_ok_def sql_receipt_def sql_state_def fun_eq_iff)
next
  fix s i
  assume inv: "sql_commit_inv se s" and present: "sql_state s i \<noteq> StateMissing"
  then have "id_key i \<in> row_key ` set (db_postings s)" using sql_state_iff(3)[of s i] by (simp add: sql_commit_inv_def)
  then have "envelope_id_to_hex (pid_transfer i) \<in> tr_id ` set (db_transfers s)"
    using inv by (auto simp: sql_commit_inv_def id_key_def row_key_def)
  then show "sql_receipt se s (pid_transfer i) \<noteq> None" using receipt_None[OF inv] by simp
qed (rule sql_commit_accepted)

section \<open>The overdraft floor\<close>

text \<open>The sum of the live rows of an account and asset, reservations included.\<close>

definition sql_live_sum :: "sql_db \<Rightarrow> account_id \<times> asset_id \<Rightarrow> int" where
  "sql_live_sum db k = sum_list (map (\<lambda>l. projr (parse_cent (pr_value (lr_row l))))
     (filter (\<lambda>l. row_matches (aid_id (fst k)) (Some (aid_sub (fst k))) (Some (snd k)) (lr_row l)) (db_live db)))"

definition sql_floor :: "sql_env \<Rightarrow> sql_db \<Rightarrow> bool" where
  "sql_floor se db \<longleftrightarrow> (\<forall>ow asset a. locked_account se ow db = Inr (Some a) \<and> forbids_overdraft a \<longrightarrow> 0 \<le> sql_live_sum db (ow, asset))"

lemma live_balance_sum:
  assumes "sql_live_balance se ow asset db = Inr v" "sql_env_ok se"
  shows "v = sql_live_sum db (ow, asset)"
proof -
  let ?rows = "filter (\<lambda>l. row_matches (aid_id ow) (Some (aid_sub ow)) (Some asset) (lr_row l)) (db_live db)"
  obtain vs where vs: "try_map (\<lambda>l. parse_cent (pr_value (lr_row l))) (sq_live se ?rows) = Inr vs"
    and "map_err (\<lambda>_. Fail (Internal CommitOverflow)) (checked_sum vs) = Inr v"
    using assms(1) by (auto simp: sql_live_balance_def rbind_eq_Inr)
  then have v: "checked_sum vs = Inr v" by (cases "checked_sum vs") (simp_all add: map_err_def)
  have "mset (sq_live se ?rows) = mset ?rows" using assms(2) by (simp add: sql_env_ok_def)
  note sum_list_mset[OF this, of "\<lambda>l. projr (parse_cent (pr_value (lr_row l)))"]
  moreover have "v = sum_list vs" using checked_sum_exact[OF v] by simp
  ultimately show ?thesis unfolding try_map_results[OF vs] sql_live_sum_def fst_conv snd_conv by (simp only:)
qed

lemma row_matches_touched: "row_matches (aid_id ow) (Some (aid_sub ow)) (Some asset) r \<Longrightarrow> touched_key r = (ow, asset)"
  by (cases ow; cases asset) (auto simp: row_matches_def touched_key_def with_sub_def asset_id_new_def)

lemma row_matches_posting: "row_matches (aid_id ow) (Some (aid_sub ow)) (Some asset) (posting_to_row p) \<longleftrightarrow> p_owner p = ow \<and> p_asset p = asset"
  by (cases ow; cases asset; cases "p_owner p"; cases "p_asset p") (auto simp: row_matches_def posting_to_row_def)

lemma locked_account_tables:
  "db_accounts db' = db_accounts db \<Longrightarrow> db_heads db' = db_heads db \<Longrightarrow> locked_account se aid db' = locked_account se aid db"
  by (simp add: locked_account_def head_rows_def)

lemma sql_floor_kept:
  assumes fl: "sql_floor se db" and inv: "sql_commit_inv se db" and ok: "request_ok req"
    and run: "sql_commit_envelope se c req db = (res, db')"
  shows "sql_floor se db'"
proof (cases "\<exists>r. res = Inr (Committed r)")
  case False
  then obtain g where "db' = db\<lparr>db_autoid := g\<rparr>" using sql_commit_not_applied[OF run] by metis
  then show ?thesis using fl by (simp add: sql_floor_def sql_live_sum_def locked_account_tables[of "db\<lparr>db_autoid := g\<rparr>" db])
next
  case True
  then obtain r where run': "sql_commit_envelope se c req db = (Inr (Committed r), db')" using run by blast
  obtain db1 row g evs where mv: "sql_move_postings se req db = Inr db1"
    and new: "envelope_id_to_hex (cr_transfer_id req) \<notin> tr_id ` set (db_transfers db)"
    and db': "db' = db1\<lparr>db_transfers := snd (insert_ignore tr_id row (db_transfers db1)),
       db_transfer_accounts := index_accounts (cr_transfer_id req) (cr_involved req) (db_transfer_accounts db1), db_events := evs, db_autoid := g\<rparr>"
    using sql_commit_applied[OF run'] by metis
  have env: "sql_env_ok se" and tab: "sql_tables_ok db" using inv by (simp_all add: sql_commit_inv_def)
  have mis: "\<forall>p \<in> set (cr_create req). sql_state db (p_id p) = StateMissing"
    using sql_commit.created_missing[OF inv ok run'] by blast
  have dist: "distinct (map p_id (cr_create req))" using ok by (simp add: request_ok_def)
  note eff = move_postings_effect(1)[OF mv env tab dist mis] and pass = move_postings_passed(4)[OF mv env tab]
  have acc: "locked_account se ow db' = locked_account se ow db" "locked_account se ow db1 = locked_account se ow db" for ow
    by (rule locked_account_tables; simp add: db' eff)+
  have sums: "sql_live_sum db' k = sql_live_sum db1 k" for k by (simp add: sql_live_sum_def db')
  show ?thesis unfolding sql_floor_def
  proof (intro allI impI, elim conjE)
    fix ow asset a
    assume a: "locked_account se ow db' = Inr (Some a)" "forbids_overdraft a"
    let ?touched = "touched_key ` lr_row ` set (consumed_rows se (cr_consume req) db) \<union> (\<lambda>p. (p_owner p, p_asset p)) ` set (cr_create req)"
    show "0 \<le> sql_live_sum db' (ow, asset)"
    proof (cases "(ow, asset) \<in> ?touched")
      case True
      then obtain v where "sql_live_balance se ow asset db1 = Inr v" "\<not> is_negative v"
        using pass[OF True] a by (auto simp: sql_floor_guard_def acc split: sum.splits if_splits)
      then show ?thesis using live_balance_sum[OF _ env] by (auto simp: sums is_negative_def)
    next
      case False
      let ?P = "\<lambda>l. row_matches (aid_id ow) (Some (aid_sub ow)) (Some asset) (lr_row l)"
      have "\<not> (id_predicate (cr_consume req) (lr_row l) \<and> lr_reservation l = None)" if l: "l \<in> set (db_live db)" "?P l" for l
      proof
        assume "id_predicate (cr_consume req) (lr_row l) \<and> lr_reservation l = None"
        then have "l \<in> set (consumed_rows se (cr_consume req) db)" using l(1) by (simp add: set_consumed_rows[OF env])
        then show False using False row_matches_touched[OF l(2)] by force
      qed
      then have "filter ?P (live_without (cr_consume req) (db_live db)) = filter ?P (db_live db)"
        unfolding live_without_def filter_filter by (intro filter_cong) auto
      moreover have "filter ?P (map (\<lambda>p. \<lparr>lr_row = posting_to_row p, lr_reservation = None\<rparr>) (cr_create req)) = []"
        using False by (auto simp: filter_empty_conv row_matches_posting)
      ultimately have "sql_live_sum db1 (ow, asset) = sql_live_sum db (ow, asset)" by (simp add: sql_live_sum_def eff)
      then show ?thesis using fl a by (auto simp: sums acc sql_floor_def)
    qed
  qed
qed

section \<open>Properties\<close>

text \<open>
  C34: in any sequence of commits on the SQL store, in whatever order the transactions of
  concurrent writers are serialized, the requests that are reported committed have
  distinct transfers and consume pairwise disjoint postings; each consumed posting is
  spent at the end, and each committed transfer is stored with its receipt.
\<close>

theorem sql_commits_spend_once:
  assumes "sql_commit_inv se db" "list_all (\<lambda>x. request_ok (snd x)) reqs"
    and "commit_run (sql_commit_envelope se) reqs db = (rs, db')"
  shows "distinct (concat (map cr_consume (applied reqs rs))) \<and> distinct (map cr_transfer_id (applied reqs rs)) \<and>
    list_all (\<lambda>req. list_all (\<lambda>i. sql_state db' i = StateSpent) (cr_consume req) \<and>
       sql_receipt se db' (cr_transfer_id req) = Some (er_receipt (cr_record req))) (applied reqs rs)"
  using sql_commit.run_spends_once[OF assms(3,1,2)] .

text \<open>
  C35: the overdraft floor of the SQL store: if no account that forbids overdraft has a
  negative sum of live rows, then no commit, accepted, replayed, rejected or failed,
  brings one below zero.
\<close>

theorem sql_commit_keeps_floor:
  assumes "sql_floor se db" "sql_commit_inv se db" "request_ok req" "sql_commit_envelope se c req db = (res, db')"
  shows "sql_floor se db' \<and> sql_commit_inv se db'"
  using sql_floor_kept[OF assms] sql_commit.commit_inv[OF assms(2-4)] by blast

end
