(* ===== verification/Sql_Refinement.thy ===== *)
theory Sql_Refinement
  imports Sql_Commit_Laws
begin

text \<open>
  The atomic commit of the SQL store refines that of the in-memory store: a relation between
  tables and in-memory state under which every commit that the SQL store answers is
  answered alike in memory, and the relation holds again. What is proved of the ledger over
  the in-memory store therefore carries over to commits on the SQL store; an error of
  the engine leaves the tables related to the old state.
\<close>

section \<open>The relation\<close>

text \<open>The live row of an active posting.\<close>

definition live_of :: "posting_id \<times> posting \<Rightarrow> live_row" where
  "live_of e = \<lparr>lr_row = posting_to_row (snd e), lr_reservation = None\<rparr>"

definition sql_related :: "sql_env \<Rightarrow> mem_store \<Rightarrow> sql_db \<Rightarrow> bool" where
  "sql_related se st db \<longleftrightarrow> sql_commit_inv se db \<and> mem_commit_inv st \<and> pt_reserved (ms_postings st) = [] \<and>
     mset (db_live db) = mset (map live_of (pt_active (ms_postings st))) \<and> list_all posting_wf (map snd (pt_active (ms_postings st))) \<and>
     sql_state db = posting_state_of (ms_postings st) \<and> sql_receipt se db = mem_receipt st \<and>
     (\<forall>aid. locked_account se aid db = Inr (head_version st aid))"

text \<open>A request that the ledger may build: it involves the owners of all postings it moves.\<close>

definition moved_keys :: "commit_request \<Rightarrow> mem_store \<Rightarrow> (account_id \<times> asset_id) set" where
  "moved_keys req st = (\<lambda>p. (p_owner p, p_asset p)) ` (set (consumed_of req (ms_postings st)) \<union> set (cr_create req))"

definition request_covers :: "mem_store \<Rightarrow> commit_request \<Rightarrow> bool" where
  "request_covers st req \<longleftrightarrow> request_ok req \<and> list_all posting_wf (cr_create req) \<and> fst ` moved_keys req st \<subseteq> set (cr_involved req)"

text \<open>No balance of the request overflows, in whatever order its postings are added up.\<close>

definition totals_fit :: "mem_store \<Rightarrow> commit_request \<Rightarrow> bool" where
  "totals_fit st req \<longleftrightarrow> (\<forall>ow asset. sum_list (map (\<lambda>p. \<bar>p_value p\<bar>) (filter (\<lambda>p. p_owner p = ow \<and> p_asset p = asset)
     (map snd (pt_active (ms_postings st)) @ cr_create req))) \<le> i64_max)"

text \<open>Two overdrawn balances may be met in a different order; otherwise the outcomes are the same.\<close>

definition same_outcome :: "commit_outcome \<Rightarrow> commit_outcome \<Rightarrow> bool" where
  "same_outcome x y \<longleftrightarrow> x = y \<or>
     (\<exists>ow a v ow' a' v'. x = CommitRejected (RejectOverdraft ow a v) \<and> y = CommitRejected (RejectOverdraft ow' a' v'))"

section \<open>The balance after the move\<close>

definition balance_after :: "commit_request \<Rightarrow> mem_store \<Rightarrow> account_id \<times> asset_id \<Rightarrow> int" where
  "balance_after req st k = key_sum k (active_entries (commit_tables req (ms_postings st)))"

lemma checked_sum_fits:
  assumes "sum_list (map abs cs) \<le> i64_max"
  shows "checked_sum cs = Inr (sum_list cs)"
proof -
  have "i64_ok (sum_list (take k cs))" for k
  proof -
    have "\<bar>sum_list (take k cs)\<bar> \<le> sum_list (map abs (take k cs))" by (rule sum_list_abs)
    also have "\<dots> \<le> sum_list (map abs (take k cs)) + sum_list (map abs (drop k cs))" using sum_list_nonneg[of "map abs (drop k cs)"] by force
    also have "\<dots> = sum_list (map abs cs)" by (metis append_take_drop_id map_append sum_list_append)
    finally show ?thesis using assms by (auto simp: range_defs abs_le_iff)
  qed
  then have "is_ok (checked_sum cs)" by (simp add: checked_sum_iff)
  then show ?thesis by (auto simp: is_ok_iff dest: checked_sum_exact)
qed

lemma floor_asset_value:
  assumes h: "hash_order_ok h" and fit: "totals_fit st req" and ok: "tables_ok (ms_postings st)" and fr: "request_fresh req (ms_postings st)"
  shows "commit_floor_asset h req st aid asset = (if balance_after req st (aid, asset) < 0
     then Some (ExitReject (RejectOverdraft aid asset (balance_after req st (aid, asset)))) else None)"
proof -
  let ?P = "\<lambda>p. p_owner p = aid \<and> p_asset p = asset" and ?A = "map snd (pt_active (ms_postings st))"
  let ?L = "live_after req st aid asset" and ?C = "created_for req aid asset"
  have perm: "mset (ho_postings h ?L) = mset ?L" using h by (simp add: hash_order_ok_def)
  have L: "?L = filter (\<lambda>p. p_id p \<notin> set (cr_consume req)) (filter ?P ?A)" by (simp add: live_after_def conj_comms)
  have abs_filter: "sum_list (map (\<lambda>p. \<bar>p_value p\<bar>) (filter Q ps)) \<le> sum_list (map (\<lambda>p. \<bar>p_value p\<bar>) ps)" for Q ps
    by (induction ps) auto
  have "sum_list (map (\<lambda>p. \<bar>p_value p\<bar>) ?L) + sum_list (map (\<lambda>p. \<bar>p_value p\<bar>) ?C) \<le> i64_max"
  proof -
    have "sum_list (map (\<lambda>p. \<bar>p_value p\<bar>) (filter ?P ?A)) + sum_list (map (\<lambda>p. \<bar>p_value p\<bar>) ?C) \<le> i64_max"
      using fit by (simp add: totals_fit_def created_for_def)
    then show ?thesis using abs_filter[of "\<lambda>p. p_id p \<notin> set (cr_consume req)" "filter ?P ?A"] unfolding L by linarith
  qed
  moreover have "0 \<le> sum_list (map (\<lambda>p. \<bar>p_value p\<bar>) ps)" for ps :: "posting list" by (induction ps) auto
  note this[of ?C] this[of ?L]
  moreover have "sum_list (map (\<lambda>p. \<bar>p_value p\<bar>) (ho_postings h ?L)) = sum_list (map (\<lambda>p. \<bar>p_value p\<bar>) ?L)"
    "sum_list (map p_value (ho_postings h ?L)) = sum_list (map p_value ?L)"
    using sum_list_mset[OF perm] by blast+
  ultimately have sums: "checked_sum (map p_value (ho_postings h ?L)) = Inr (sum_list (map p_value ?L))"
      "checked_sum (map p_value ?C) = Inr (sum_list (map p_value ?C))"
      "checked_add (sum_list (map p_value ?L)) (sum_list (map p_value ?C)) = Inr (sum_list (map p_value ?L) + sum_list (map p_value ?C))"
    using checked_sum_fits[of "map p_value (ho_postings h ?L)"] checked_sum_fits[of "map p_value ?C"]
      checked_sum_fits[of "map p_value (?L @ ?C)"] checked_sum_exact[of "map p_value (?L @ ?C)"]
    by (simp_all add: comp_def checked_add_Inr)
  have "balance_after req st (aid, asset) = sum_list (map p_value ?L) + sum_list (map p_value ?C)"
    unfolding live_after_entries[OF ok] created_for_def key_sum_post_filter[symmetric]
    by (simp add: balance_after_def active_entries_def postings_in_def commit_tables_lists[OF ok fr] post_entries_def comp_def)
  then show ?thesis by (simp add: commit_floor_asset_def overflow_exit_def sums is_negative_def)
qed

text \<open>The floor in memory: it holds of every moved balance of a guarded account, or the commit is rejected for one.\<close>

definition guarded_negative :: "commit_request \<Rightarrow> mem_store \<Rightarrow> account_id \<times> asset_id \<Rightarrow> bool" where
  "guarded_negative req st k \<longleftrightarrow> (\<exists>a. head_version st (fst k) = Some a \<and> forbids_overdraft a) \<and> balance_after req st k < 0"

lemma mem_floor:
  assumes h: "hash_order_ok h" and fit: "totals_fit st req" and ok: "tables_ok (ms_postings st)" and fr: "request_fresh req (ms_postings st)"
    and cov: "request_covers st req" and acc: "\<forall>aid \<in> set (cr_involved req). head_version st aid \<noteq> None"
  shows "(\<forall>k \<in> moved_keys req st. \<not> guarded_negative req st k) \<Longrightarrow> guard_each (commit_floor_guard h req st) (cr_involved req) = Inr ()"
    and "(\<exists>k \<in> moved_keys req st. guarded_negative req st k) \<Longrightarrow>
       \<exists>ow a v. guard_each (commit_floor_guard h req st) (cr_involved req) = Inl (ExitReject (RejectOverdraft ow a v))"
proof -
  note val = floor_asset_value[OF h fit ok fr]
  have assets: "asset \<in> set (commit_assets h req st aid) \<longleftrightarrow> (aid, asset) \<in> moved_keys req st" for aid asset
  proof -
    have "set (ho_assets h xs) = set xs" for xs using h by (metis hash_order_ok_def set_mset_mset)
    then show ?thesis by (auto simp: commit_assets_def consumed_of_def moved_keys_def)
  qed
  have guard: "commit_floor_guard h req st aid = None \<longleftrightarrow> (\<forall>asset. (aid, asset) \<in> moved_keys req st \<longrightarrow> \<not> guarded_negative req st (aid, asset))"
    if inv: "aid \<in> set (cr_involved req)" for aid
  proof -
    obtain a where a: "head_version st aid = Some a" using acc inv by auto
    show ?thesis
      by (auto simp: commit_floor_guard_def account_of_def a try_each_None assets val guarded_negative_def)
  qed
  have shape: "\<exists>ow a v. x = ExitReject (RejectOverdraft ow a v)"
    if inv: "aid \<in> set (cr_involved req)" and x: "commit_floor_guard h req st aid = Some x" for aid x
  proof -
    obtain a where a: "head_version st aid = Some a" using acc inv by auto
    then have "try_each (commit_floor_asset h req st aid) (commit_assets h req st aid) = Some x"
      using x by (simp add: commit_floor_guard_def account_of_def split: if_splits)
    from try_each_Some[OF this] obtain asset where "commit_floor_asset h req st aid asset = Some x" ..
    then show ?thesis by (auto simp: val split: if_splits)
  qed
  show "guard_each (commit_floor_guard h req st) (cr_involved req) = Inr ()" if "\<forall>k \<in> moved_keys req st. \<not> guarded_negative req st k"
    using that by (auto simp: guard_each_Inr guard)
  show "\<exists>ow a v. guard_each (commit_floor_guard h req st) (cr_involved req) = Inl (ExitReject (RejectOverdraft ow a v))"
    if bad: "\<exists>k \<in> moved_keys req st. guarded_negative req st k"
  proof -
    obtain aid asset where k: "(aid, asset) \<in> moved_keys req st" "guarded_negative req st (aid, asset)" using bad by auto
    then have inv: "aid \<in> set (cr_involved req)" using cov by (force simp: request_covers_def)
    have "guard_each (commit_floor_guard h req st) (cr_involved req) \<noteq> Inr ()" using k inv guard[OF inv] by (auto simp: guard_each_Inr)
    then obtain x where x: "guard_each (commit_floor_guard h req st) (cr_involved req) = Inl x"
      by (cases "guard_each (commit_floor_guard h req st) (cr_involved req)") auto
    from guard_each_Inl[OF x] obtain aid' where "aid' \<in> set (cr_involved req)" "commit_floor_guard h req st aid' = Some x" ..
    from shape[OF this] show ?thesis using x by auto
  qed
qed

section \<open>The guards of the two stores\<close>

definition sql_exit_of :: "commit_exit \<Rightarrow> sql_exit" where
  "sql_exit_of x = (case x of ExitError e \<Rightarrow> SqlError (Fail e) | ExitReject r \<Rightarrow> SqlReject r)"

lemma guard_each_map: "(\<And>a. a \<in> set as \<Longrightarrow> f a = map_option g (f' a)) \<Longrightarrow> guard_each f as = map_err g (guard_each f' as)"
proof (induction as)
  case (Cons a as)
  then show ?case by (cases "f' a") (auto simp: guard_each_def split: option.splits)
qed simp

lemma guard_each_find:
  "guard_each (\<lambda>a. if P a then None else Some (g a)) as = (case List.find (\<lambda>a. \<not> P a) as of None \<Rightarrow> Inr () | Some a \<Rightarrow> Inl (g a))"
  by (induction as) (auto simp: guard_each_def split: option.splits)

lemma find_cong_set: "(\<And>x. x \<in> set xs \<Longrightarrow> P x \<longleftrightarrow> Q x) \<Longrightarrow> List.find P xs = List.find Q xs"
  by (induction xs) auto

lemma flags_related:
  assumes "sql_related se st db"
  shows "guard_each (sql_flag_guard se db) ids = map_err sql_exit_of (guard_each (commit_flag_guard st) ids)"
proof (rule guard_each_map)
  fix aid
  have "locked_account se aid db = Inr (head_version st aid)" using assms by (simp add: sql_related_def)
  then show "sql_flag_guard se db aid = map_option sql_exit_of (commit_flag_guard st aid)"
    by (cases "head_version st aid") (simp_all add: sql_flag_guard_def commit_flag_guard_def account_of_def sql_exit_of_def)
qed

lemma spend_related:
  assumes rel: "sql_related se st db"
  shows "List.find (\<lambda>i. id_key i \<notin> set (map live_key (consumed_rows se ids db))) ids = List.find (\<lambda>i. \<not> contains_key (pt_active (ms_postings st)) i) ids"
proof (rule find_cong_set)
  fix i
  assume i: "i \<in> set ids"
  have env: "sql_env_ok se" and tab: "sql_tables_ok db" and st: "sql_state db i = posting_state_of (ms_postings st) i"
    using rel by (simp_all add: sql_related_def sql_commit_inv_def)
  have "id_key i \<in> set (map live_key (consumed_rows se ids db)) \<longleftrightarrow> sql_state db i = StateActive"
    using consumed_present[OF env tab i] by simp
  then show "(id_key i \<notin> set (map live_key (consumed_rows se ids db))) \<longleftrightarrow> \<not> contains_key (pt_active (ms_postings st)) i"
    by (simp add: st state_active_iff contains_key_def)
qed

section \<open>The tables after the move\<close>

definition moved_db :: "commit_request \<Rightarrow> sql_db \<Rightarrow> sql_db" where
  "moved_db req db = fold sql_create_posting (cr_create req) (db\<lparr>db_live := live_without (cr_consume req) (db_live db)\<rparr>)"

lemma request_new:
  assumes "sql_related se st db" "request_covers st req" "mem_receipt st (cr_transfer_id req) = None"
  shows "request_fresh req (ms_postings st)" and "p \<in> set (cr_create req) \<Longrightarrow> sql_state db (p_id p) = StateMissing"
    and "\<forall>i \<in> set (cr_consume req). map_of (pt_active (ms_postings st)) i \<noteq> None \<Longrightarrow> p \<in> set (cr_create req) \<Longrightarrow> p_id p \<notin> set (cr_consume req)"
proof -
  have inv: "mem_commit_inv st" and st: "sql_state db = posting_state_of (ms_postings st)" using assms(1) by (simp_all add: sql_related_def)
  have row: "map_of (pt_immutable (ms_postings st)) (p_id p) = None" if "p \<in> set (cr_create req)" for p
    using inv assms(2,3) that by (auto simp: mem_commit_inv_def request_covers_def request_ok_def list_all_iff mem_receipt_def)
  show "request_fresh req (ms_postings st)" using assms(2) row by (simp add: request_fresh_def request_covers_def request_ok_def)
  have miss: "posting_state_of (ms_postings st) (p_id p) = StateMissing" if "p \<in> set (cr_create req)" for p
    using row[OF that] inv state_missing_iff by (simp add: mem_commit_inv_def)
  then show "sql_state db (p_id p) = StateMissing" if "p \<in> set (cr_create req)" using that by (simp add: st)
  show "p_id p \<notin> set (cr_consume req)" if "\<forall>i \<in> set (cr_consume req). map_of (pt_active (ms_postings st)) i \<noteq> None" "p \<in> set (cr_create req)"
    using that miss[OF that(2)] state_active_iff[of "ms_postings st" "p_id p"] by auto
qed

lemma active_key:
  assumes "tables_ok t" "e \<in> set (pt_active t)"
  shows "p_id (snd e) = fst e"
  using assms active_row[OF assms(1), of "fst e" "snd e"] by (simp add: tables_ok_def map_of_eq_Some_iff)

lemma moved_live:
  assumes rel: "sql_related se st db" and cov: "request_covers st req" and new: "mem_receipt st (cr_transfer_id req) = None"
    and live: "\<forall>i \<in> set (cr_consume req). map_of (pt_active (ms_postings st)) i \<noteq> None"
  shows "mset (db_live (moved_db req db)) = mset (map live_of (pt_active (commit_tables req (ms_postings st))))"
    and "moved_db req db = db\<lparr>db_postings := db_postings (moved_db req db), db_live := db_live (moved_db req db)\<rparr>"
proof -
  let ?t = "ms_postings st" and ?P = "\<lambda>l. \<not> (id_predicate (cr_consume req) (lr_row l) \<and> lr_reservation l = None)"
  have tab: "sql_tables_ok db" and mtab: "tables_ok ?t" and st: "sql_state db = posting_state_of ?t"
    and ms: "mset (db_live db) = mset (map live_of (pt_active ?t))"
    using rel by (simp_all add: sql_related_def sql_commit_inv_def mem_commit_inv_def)
  have act: "\<forall>i \<in> set (cr_consume req). sql_state db i = StateActive" using live by (simp add: st state_active_iff)
  note sp = live_without_state[OF tab act]
  have mis: "\<forall>q \<in> set (cr_create req). sql_state (db\<lparr>db_live := live_without (cr_consume req) (db_live db)\<rparr>) (p_id q) = StateMissing"
    using sp request_new(2,3)[OF rel cov new] live by auto
  have dist: "distinct (map p_id (cr_create req))" using cov by (simp add: request_covers_def request_ok_def)
  note f = create_postings_fresh[OF conjunct1[OF sp] dist mis]
  have db1: "moved_db req db = db\<lparr>db_postings := db_postings db @ map posting_to_row (cr_create req),
      db_live := live_without (cr_consume req) (db_live db) @ map (\<lambda>p. \<lparr>lr_row = posting_to_row p, lr_reservation = None\<rparr>) (cr_create req)\<rparr>"
    using conjunct1[OF f] by (simp add: moved_db_def)
  then show "moved_db req db = db\<lparr>db_postings := db_postings (moved_db req db), db_live := db_live (moved_db req db)\<rparr>" by simp
  have keep: "?P (live_of e) \<longleftrightarrow> fst e \<notin> set (cr_consume req)" if "e \<in> set (pt_active ?t)" for e
  proof -
    have "id_predicate (cr_consume req) (posting_to_row (snd e)) \<longleftrightarrow> id_key (p_id (snd e)) \<in> id_key ` set (cr_consume req)"
      by (simp add: id_predicate_iff)
    also have "\<dots> \<longleftrightarrow> fst e \<in> set (cr_consume req)" using active_key[OF mtab that] by (auto simp: image_iff)
    finally show ?thesis by (simp add: live_of_def)
  qed
  have "mset (live_without (cr_consume req) (db_live db)) = filter_mset ?P (mset (map live_of (pt_active ?t)))"
    by (simp add: live_without_def ms del: mset_map)
  also have "\<dots> = mset (map live_of (filter (\<lambda>e. fst e \<notin> set (cr_consume req)) (pt_active ?t)))"
    unfolding mset_filter[symmetric] filter_map comp_def by (intro arg_cong[where f = "\<lambda>xs. mset (map live_of xs)"] filter_cong refl keep)
  finally show "mset (db_live (moved_db req db)) = mset (map live_of (pt_active (commit_tables req ?t)))"
    by (simp add: db1 commit_tables_lists[OF mtab request_new(1)[OF rel cov new]] fold_delete_filter live_of_def comp_def)
qed

text \<open>The live balance that the SQL floor reads is the balance in memory.\<close>

lemma moved_sum:
  assumes "mset (db_live db) = mset (map live_of (pt_active t))" and wf: "list_all posting_wf (map snd (pt_active t))"
  shows "sql_live_sum db k = key_sum k (active_entries t)"
proof -
  let ?P = "\<lambda>l. row_matches (aid_id (fst k)) (Some (aid_sub (fst k))) (Some (snd k)) (lr_row l)"
  let ?v = "\<lambda>l. projr (parse_cent (pr_value (lr_row l)))"
  have "mset (filter ?P (db_live db)) = mset (filter ?P (map live_of (pt_active t)))" using assms(1) by (metis mset_filter)
  then have "sql_live_sum db k = sum_list (map ?v (filter ?P (map live_of (pt_active t))))"
    unfolding sql_live_sum_def by (rule sum_list_mset)
  also have "\<dots> = sum_list (map p_value (filter (\<lambda>p. p_owner p = fst k \<and> p_asset p = snd k) (map snd (pt_active t))))"
  proof -
    have "sum_list (map ?v (filter ?P (map live_of es))) =
        sum_list (map p_value (filter (\<lambda>p. p_owner p = fst k \<and> p_asset p = snd k) (map snd es)))"
      if "list_all posting_wf (map snd es)" for es
      using that
    proof (induction es)
      case (Cons e es)
      have "?P (live_of e) \<longleftrightarrow> p_owner (snd e) = fst k \<and> p_asset (snd e) = snd k" by (simp add: live_of_def row_matches_posting)
      moreover have "?v (live_of e) = p_value (snd e)"
        using Cons.prems by (simp add: live_of_def posting_to_row_def posting_wf_def parse_cent_show)
      ultimately show ?case using Cons by simp
    qed simp
    from this[OF wf] show ?thesis .
  qed
  also have "\<dots> = key_sum k (active_entries t)"
    using key_sum_post_filter[of "fst k" "snd k" "map snd (pt_active t)"] by (simp add: active_entries_def postings_in_def)
  finally show ?thesis .
qed

lemma touched_related:
  assumes rel: "sql_related se st db" and live: "\<forall>i \<in> set (cr_consume req). map_of (pt_active (ms_postings st)) i \<noteq> None"
  shows "touched_key ` lr_row ` set (consumed_rows se (cr_consume req) db) \<union> (\<lambda>p. (p_owner p, p_asset p)) ` set (cr_create req) = moved_keys req st"
proof -
  let ?t = "ms_postings st"
  have env: "sql_env_ok se" and mtab: "tables_ok ?t" and ms: "mset (db_live db) = mset (map live_of (pt_active ?t))"
    using rel by (simp_all add: sql_related_def sql_commit_inv_def mem_commit_inv_def)
  have key: "touched_key (posting_to_row p) = (p_owner p, p_asset p)" for p
    by (rule row_matches_touched) (simp add: row_matches_posting)
  have "set (db_live db) = live_of ` set (pt_active ?t)" using mset_eq_setD[OF ms] by simp
  then have "lr_row ` set (consumed_rows se (cr_consume req) db) = posting_to_row ` snd ` {e \<in> set (pt_active ?t). fst e \<in> set (cr_consume req)}"
    using active_key[OF mtab] by (force simp: set_consumed_rows[OF env] live_of_def id_predicate_iff image_iff)
  moreover have "snd ` {e \<in> set (pt_active ?t). fst e \<in> set (cr_consume req)} = set (consumed_of req ?t)"
  proof -
    have "(i, p) \<in> set (pt_active ?t) \<longleftrightarrow> map_of (pt_active ?t) i = Some p" for i p
      using mtab by (simp add: tables_ok_def map_of_eq_Some_iff)
    then show ?thesis by (force simp: consumed_of_def List.map_filter_def image_iff)
  qed
  ultimately show ?thesis by (simp add: moved_keys_def image_Un image_image key)
qed

section \<open>The guards of the move\<close>

lemma move_eq:
  "sql_move_postings se req db =
     rbind (guard_each (sql_flag_guard se db) (cr_involved req)) (\<lambda>_.
     case List.find (\<lambda>i. id_key i \<notin> set (map live_key (consumed_rows se (cr_consume req) db))) (cr_consume req) of
       Some missing \<Rightarrow> Inl (SqlReject (DoubleSpend missing))
     | None \<Rightarrow> rbind (guard_each (sql_floor_guard se (moved_db req db))
           (sq_touched se (remdups (map (\<lambda>l. touched_key (lr_row l)) (consumed_rows se (cr_consume req) db) @ map (\<lambda>p. (p_owner p, p_asset p)) (cr_create req)))))
         (\<lambda>_. Inr (moved_db req db)))"
  using for_chunks_delete[of "\<lambda>l. lr_reservation l = None" "cr_consume req" "db_live db"]
  by (auto simp: sql_move_postings_def moved_db_def Let_def live_without_def delete_where_def split_beta
      intro!: arg_cong2[where f = rbind] ext split: option.splits)

text \<open>The floor of the SQL store: passing means that no moved balance of a guarded account is negative.\<close>

lemma sql_floor_related:
  assumes rel: "sql_related se st db" and cov: "request_covers st req" and new: "mem_receipt st (cr_transfer_id req) = None"
    and live: "\<forall>i \<in> set (cr_consume req). map_of (pt_active (ms_postings st)) i \<noteq> None"
    and g: "guard_each (sql_floor_guard se (moved_db req db)) (sq_touched se (remdups (map (\<lambda>l. touched_key (lr_row l))
        (consumed_rows se (cr_consume req) db) @ map (\<lambda>p. (p_owner p, p_asset p)) (cr_create req)))) = r"
  shows "r = Inr () \<Longrightarrow> k \<in> moved_keys req st \<Longrightarrow> \<not> guarded_negative req st k"
    and "r = Inl (SqlReject x) \<Longrightarrow> (\<exists>ow a v. x = RejectOverdraft ow a v) \<and> (\<exists>k \<in> moved_keys req st. guarded_negative req st k)"
proof -
  let ?ks = "remdups (map (\<lambda>l. touched_key (lr_row l)) (consumed_rows se (cr_consume req) db) @ map (\<lambda>p. (p_owner p, p_asset p)) (cr_create req))"
  let ?t' = "commit_tables req (ms_postings st)"
  have env: "sql_env_ok se" and mtab: "tables_ok (ms_postings st)" using rel by (simp_all add: sql_related_def sql_commit_inv_def mem_commit_inv_def)
  have "mset (sq_touched se ?ks) = mset ?ks" using env by (simp add: sql_env_ok_def)
  then have "set (sq_touched se ?ks) = set ?ks" by (rule mset_eq_setD)
  also have "\<dots> = touched_key ` lr_row ` set (consumed_rows se (cr_consume req) db) \<union> (\<lambda>p. (p_owner p, p_asset p)) ` set (cr_create req)"
    by (simp add: image_image)
  finally have ks: "set (sq_touched se ?ks) = moved_keys req st" by (simp only: touched_related[OF rel live])
  have acc: "locked_account se aid (moved_db req db) = Inr (head_version st aid)" for aid
  proof -
    have "db_accounts (moved_db req db) = db_accounts db" "db_heads (moved_db req db) = db_heads db"
      by (subst moved_live(2)[OF rel cov new live], simp)+
    from locked_account_tables[OF this] show ?thesis using rel by (simp add: sql_related_def)
  qed
  have wf: "list_all posting_wf (map snd (pt_active ?t'))"
    using rel cov
    by (auto simp: commit_tables_lists[OF mtab request_new(1)[OF rel cov new]] fold_delete_filter sql_related_def request_covers_def list_all_iff)
  have sum: "sql_live_sum (moved_db req db) k = balance_after req st k" for k
    unfolding balance_after_def by (rule moved_sum[OF moved_live(1)[OF rel cov new live] wf])
  have one: "sql_floor_guard se (moved_db req db) k = None \<Longrightarrow> \<not> guarded_negative req st k"
    "sql_floor_guard se (moved_db req db) k = Some (SqlReject x) \<Longrightarrow> guarded_negative req st k \<and> (\<exists>ow a v. x = RejectOverdraft ow a v)" for k x
    using live_balance_sum[OF _ env, of "fst k" "snd k" "moved_db req db"] sum[of k]
    by (auto simp: sql_floor_guard_def acc guarded_negative_def is_negative_def split: prod.splits sum.splits option.splits if_splits)
  show "\<not> guarded_negative req st k" if "r = Inr ()" "k \<in> moved_keys req st"
    using g that one(1) by (auto simp: guard_each_Inr ks)
  show "(\<exists>ow a v. x = RejectOverdraft ow a v) \<and> (\<exists>k \<in> moved_keys req st. guarded_negative req st k)" if r: "r = Inl (SqlReject x)"
    using guard_each_Inl[OF g[unfolded r]] one(2) ks by blast
qed

section \<open>The simulation\<close>

lemma related_autoid:
  assumes "sql_related se st db"
  shows "sql_related se st (db\<lparr>db_autoid := g\<rparr>)"
proof -
  have "sql_state (db\<lparr>db_autoid := g\<rparr>) = sql_state db" "sql_receipt se (db\<lparr>db_autoid := g\<rparr>) = sql_receipt se db"
    "sql_commit_inv se (db\<lparr>db_autoid := g\<rparr>) = sql_commit_inv se db"
    by (simp_all add: fun_eq_iff sql_state_def sql_receipt_def sql_commit_inv_def sql_tables_ok_def)
  moreover have "locked_account se aid (db\<lparr>db_autoid := g\<rparr>) = locked_account se aid db" for aid
    by (rule locked_account_tables) simp_all
  ultimately show ?thesis using assms by (simp add: sql_related_def)
qed

text \<open>What the move of the SQL store decides, the guards of the in-memory store decide.\<close>

lemma move_related:
  assumes h: "hash_order_ok h" and rel: "sql_related se st db" and cov: "request_covers st req" and fit: "totals_fit st req"
    and new: "mem_receipt st (cr_transfer_id req) = None"
  shows "sql_move_postings se req db = Inr db1 \<Longrightarrow> db1 = moved_db req db \<and> commit_guards h req st = Inr ()"
    and "sql_move_postings se req db = Inl (SqlReject r) \<Longrightarrow>
       \<exists>r'. commit_guards h req st = Inl (ExitReject r') \<and> same_outcome (CommitRejected r) (CommitRejected r')"
proof -
  have mtab: "tables_ok (ms_postings st)" using rel by (simp add: sql_related_def mem_commit_inv_def)
  note fr = request_new(1)[OF rel cov new]
  have spend: "guard_each (commit_spend_guard st) (cr_consume req) = (case List.find (\<lambda>i. \<not> contains_key (pt_active (ms_postings st)) i) (cr_consume req) of
      None \<Rightarrow> Inr () | Some i \<Rightarrow> Inl (ExitReject (DoubleSpend i)))"
    unfolding commit_spend_guard_def[abs_def] by (rule guard_each_find)
  have acc: "\<forall>aid \<in> set (cr_involved req). head_version st aid \<noteq> None" if "guard_each (commit_flag_guard st) (cr_involved req) = Inr ()"
  proof -
    have "head_version st aid \<noteq> None" if "commit_flag_guard st aid = None" for aid
      using that by (cases "head_version st aid") (simp_all add: commit_flag_guard_def account_of_def)
    then show ?thesis using that by (simp add: guard_each_Inr)
  qed
  have live: "\<forall>i \<in> set (cr_consume req). map_of (pt_active (ms_postings st)) i \<noteq> None"
    if "List.find (\<lambda>i. \<not> contains_key (pt_active (ms_postings st)) i) (cr_consume req) = None"
    using that by (auto simp: find_None_iff contains_key_def)
  define floor where "floor = guard_each (sql_floor_guard se (moved_db req db)) (sq_touched se (remdups (map (\<lambda>l. touched_key (lr_row l))
      (consumed_rows se (cr_consume req) db) @ map (\<lambda>p. (p_owner p, p_asset p)) (cr_create req))))"
  note move = move_eq[of se req db, unfolded flags_related[OF rel] spend_related[OF rel], folded floor_def]
  note floor_related = sql_floor_related[OF rel cov new _ floor_def[symmetric]]
  show "db1 = moved_db req db \<and> commit_guards h req st = Inr ()" if run: "sql_move_postings se req db = Inr db1"
  proof -
    have fl: "guard_each (commit_flag_guard st) (cr_involved req) = Inr ()"
      using run unfolding move by (cases "guard_each (commit_flag_guard st) (cr_involved req)") simp_all
    have fi: "List.find (\<lambda>i. \<not> contains_key (pt_active (ms_postings st)) i) (cr_consume req) = None"
      using run unfolding move fl by (cases "List.find (\<lambda>i. \<not> contains_key (pt_active (ms_postings st)) i) (cr_consume req)") simp_all
    have g: "floor = Inr () \<and> db1 = moved_db req db" using run unfolding move fl fi by (cases floor) simp_all
    have "\<forall>k \<in> moved_keys req st. \<not> guarded_negative req st k" using floor_related(1)[OF live[OF fi]] g by blast
    from mem_floor(1)[OF h fit mtab fr cov acc[OF fl] this] show ?thesis using g by (simp add: commit_guards_def fl spend fi)
  qed
  show "\<exists>r'. commit_guards h req st = Inl (ExitReject r') \<and> same_outcome (CommitRejected r) (CommitRejected r')"
    if run: "sql_move_postings se req db = Inl (SqlReject r)"
  proof (cases "guard_each (commit_flag_guard st) (cr_involved req)")
    case (Inl x)
    then have "x = ExitReject r" using run unfolding move by (cases x) (simp_all add: sql_exit_of_def)
    then show ?thesis by (simp add: commit_guards_def Inl same_outcome_def)
  next
    case (Inr u)
    then have fl: "guard_each (commit_flag_guard st) (cr_involved req) = Inr ()" by simp
    show ?thesis
    proof (cases "List.find (\<lambda>i. \<not> contains_key (pt_active (ms_postings st)) i) (cr_consume req)")
      case (Some i)
      then have "r = DoubleSpend i" using run unfolding move fl by simp
      then show ?thesis by (simp add: fl commit_guards_def spend Some same_outcome_def)
    next
      case None
      have g: "floor = Inl (SqlReject r)" using run unfolding move fl None by (cases floor) simp_all
      note bad = floor_related(2)[OF live[OF None] g]
      from mem_floor(2)[OF h fit mtab fr cov acc[OF fl] conjunct2[OF bad]] bad
      show ?thesis by (auto simp: commit_guards_def fl spend None same_outcome_def)
    qed
  qed
qed

lemma commits_related:
  assumes rel: "sql_related se st db" and cov: "request_covers st req"
    and sql: "sql_commit_envelope se c req db = (Inr (Committed r), db')" and db1: "sql_move_postings se req db = Inr (moved_db req db)"
    and mem: "commit_envelope h c' req st = (Inr (Committed r'), st')"
  shows "r = r' \<and> sql_related se st' db'"
proof -
  have ok: "request_ok req" and inv: "sql_commit_inv se db" "mem_commit_inv st" and wf: "list_all posting_wf (cr_create req)"
    using rel cov by (simp_all add: sql_related_def request_covers_def)
  note a = sql_commit.accepted[OF inv(1) ok sql] and b = mem_commit.accepted[OF inv(2) ok mem]
  have new: "mem_receipt st (cr_transfer_id req) = None" using b by simp
  have live: "\<forall>i \<in> set (cr_consume req). map_of (pt_active (ms_postings st)) i \<noteq> None" using b by (simp add: state_active_iff)
  have st': "st' = commit_apply c' req st"
    using mem by (auto simp: commit_envelope_def split: option.splits sum.splits commit_exit.splits)
  then have posts: "ms_postings st' = commit_tables req (ms_postings st)" "ms_accounts st' = ms_accounts st"
    by (simp_all add: commit_apply_def Let_def split_beta)
  obtain row g evs where db': "db' = (moved_db req db)\<lparr>db_transfers := snd (insert_ignore tr_id row (db_transfers (moved_db req db))),
       db_transfer_accounts := index_accounts (cr_transfer_id req) (cr_involved req) (db_transfer_accounts (moved_db req db)), db_events := evs, db_autoid := g\<rparr>"
    using sql_commit_applied[OF sql] db1 by (metis Inr_inject)
  have "db_accounts (moved_db req db) = db_accounts db" "db_heads (moved_db req db) = db_heads db"
    by (subst moved_live(2)[OF rel cov new live], simp)+
  then have acc: "locked_account se aid db' = Inr (head_version st' aid)" for aid
    using locked_account_tables[of db' db se aid] rel by (simp add: db' sql_related_def head_version_def posts)
  have mtab: "tables_ok (ms_postings st)" using inv(2) by (simp add: mem_commit_inv_def)
  have "mset (db_live db') = mset (map live_of (pt_active (ms_postings st')))"
    using moved_live(1)[OF rel cov new live] by (simp add: db' posts)
  moreover have "list_all posting_wf (map snd (pt_active (ms_postings st')))" "pt_reserved (ms_postings st') = []"
    using rel wf by (auto simp: posts commit_tables_lists[OF mtab request_new(1)[OF rel cov new]] fold_delete_filter sql_related_def list_all_iff)
  moreover have "sql_state db' = posting_state_of (ms_postings st')" "sql_receipt se db' = mem_receipt st'"
    using a b rel by (auto simp: sql_related_def fun_eq_iff)
  ultimately show ?thesis using a b acc by (simp add: sql_related_def)
qed

text \<open>
  The atomic commit of the SQL store refines that of the in-memory store. On related stores
  and for a request as the ledger builds it, whose balances do not overflow: if the SQL
  store answers, the in-memory store gives the same answer (a rejection for an overdraft may name
  another overdrawn balance, since the stores check them in different orders) and the stores
  are related again; if the SQL store fails, its tables are still related to the old state.
\<close>

lemma sql_commit_refines:
  assumes "sql_related se st db" "request_covers st req" "totals_fit st req" "hash_order_ok h"
    and "sql_commit_envelope se c req db = (res, db')"
  shows "case res of
      Inl e \<Rightarrow> sql_related se st db'
    | Inr out \<Rightarrow> (\<exists>out' st'. commit_envelope h c' req st = (Inr out', st') \<and> same_outcome out out' \<and> sql_related se st' db')"
proof (cases "sql_receipt se db (cr_transfer_id req)")
  case (Some r)
  then have "mem_receipt st (cr_transfer_id req) = Some r" using assms(1) by (simp add: sql_related_def)
  then have "commit_envelope h c' req st = (Inr (AlreadyCommitted r), st)" "sql_commit_envelope se c req db = (Inr (AlreadyCommitted r), db)"
    using mem_commit.replay sql_commit.replay[OF _ Some] assms(1) by (simp_all add: sql_related_def)
  then show ?thesis using assms(1,5) by (simp add: same_outcome_def)
next
  case None
  have inv: "sql_commit_inv se db" using assms(1) by (simp add: sql_related_def)
  have new: "mem_receipt st (cr_transfer_id req) = None" using None assms(1) by (simp add: sql_related_def)
  then have fresh: "map_of (ms_transfers st) (cr_transfer_id req) = None" by (simp add: mem_receipt_def)
  have norow: "filter (\<lambda>r. tr_id r = envelope_id_to_hex (cr_transfer_id req)) (db_transfers db) = []"
    using receipt_None[OF inv] None by (force simp: filter_empty_conv)
  note mv = move_related[OF assms(4,1,2,3) new]
  show ?thesis
  proof (cases "sql_move_postings se req db")
    case (Inl x)
    show ?thesis
    proof (cases x)
      case (SqlError e)
      then show ?thesis using assms(1,5) Inl norow by (auto simp: sql_commit_envelope_def)
    next
      case (SqlReject r)
      then obtain r' where "commit_guards h req st = Inl (ExitReject r')" "same_outcome (CommitRejected r) (CommitRejected r')"
        using mv(2) Inl by blast
      then show ?thesis using assms(1,5) Inl SqlReject norow fresh by (auto simp: sql_commit_envelope_def commit_envelope_def)
    qed
  next
    case (Inr db1)
    have db1: "db1 = moved_db req db" and guards: "commit_guards h req st = Inr ()" using mv(1)[OF Inr] by simp_all
    have mem: "commit_envelope h c' req st = (Inr (Committed (er_receipt (cr_record req))), commit_apply c' req st)"
      by (simp add: commit_envelope_def fresh guards)
    consider (err) e where "res = Inl e" | (ok) r where "res = Inr (Committed r)"
      using assms(5) Inr norow by (auto simp: sql_commit_envelope_def split: sum.splits prod.splits)
    then show ?thesis
    proof cases
      case err
      then obtain g where "db' = db\<lparr>db_autoid := g\<rparr>" using sql_commit_not_applied[OF assms(5)] by auto
      then show ?thesis using err related_autoid[OF assms(1)] by simp
    next
      case ok
      from commits_related[OF assms(1,2) assms(5)[unfolded ok] Inr[unfolded db1] mem]
      show ?thesis using ok mem by (auto simp: same_outcome_def)
    qed
  qed
qed

end
