(* ===== verification/Sql_Account_Refinement.thy ===== *)
theory Sql_Account_Refinement
  imports Sql_Refinement
begin

text \<open>
  The version logs of accounts in the SQL store: the rows of an account in order are its log in
  memory and its head row points at the last version. With it the three atomic writes of
  the ledger, commits, transitions and account creations, are simulated by those of the
  in-memory store.
\<close>

section \<open>The relation of the logs\<close>

definition row_of :: "account_id \<Rightarrow> account_row \<Rightarrow> bool" where
  "row_of aid r \<longleftrightarrow> ar_id r = aid_id aid \<and> ar_subaccount r = aid_sub aid"

definition log_related :: "json \<Rightarrow> account_id \<Rightarrow> account list option \<Rightarrow> sql_db \<Rightarrow> bool" where
  "log_related js aid log db \<longleftrightarrow> (case log of
     None \<Rightarrow> filter (row_of aid) (db_accounts db) = [] \<and> filter (is_head aid) (db_heads db) = []
   | Some vs \<Rightarrow> vs \<noteq> [] \<and> list_all2 (\<lambda>r v. account_to_row js v = Inr r) (filter (row_of aid) (db_accounts db)) vs \<and>
       distinct (map acc_version vs) \<and> (\<forall>v \<in> set vs. acc_version v \<le> acc_version (last vs)) \<and>
       filter (is_head aid) (db_heads db) = [head_of (last vs)])"

definition accounts_related :: "json \<Rightarrow> mem_store \<Rightarrow> sql_db \<Rightarrow> bool" where
  "accounts_related js st db \<longleftrightarrow> (\<forall>aid. log_related js aid (map_of (ms_accounts st) aid) db)"

definition stores_related :: "sql_env \<Rightarrow> mem_store \<Rightarrow> sql_db \<Rightarrow> bool" where
  "stores_related se st db \<longleftrightarrow> sql_related se st db \<and> accounts_related (sq_json se) st db"

lemma concat_filter: "concat (map (\<lambda>x. if P x then [x] else []) xs) = filter P xs"
  by (induction xs) simp_all

lemma head_rows_filter:
  assumes h: "filter (is_head aid) (db_heads db) = [h]"
  shows "head_rows db (is_head aid) = filter (\<lambda>r. ar_version r = hr_version h) (filter (row_of aid) (db_accounts db))"
proof -
  have "h \<in> set (filter (is_head aid) (db_heads db))" by (simp add: h)
  then have id: "hr_id h = aid_id aid" "hr_subaccount h = aid_sub aid" by (simp_all add: is_head_def)
  let ?same = "\<lambda>r h. hr_id h = ar_id r \<and> hr_subaccount h = ar_subaccount r \<and> hr_version h = ar_version r"
  have "map (\<lambda>_. r) (filter (\<lambda>h. hr_id h = ar_id r \<and> hr_subaccount h = ar_subaccount r \<and> hr_version h = ar_version r \<and> is_head aid h) (db_heads db))
      = (if row_of aid r \<and> ar_version r = hr_version h then [r] else [])" for r
  proof -
    have "filter (\<lambda>h. hr_id h = ar_id r \<and> hr_subaccount h = ar_subaccount r \<and> hr_version h = ar_version r \<and> is_head aid h) (db_heads db)
        = filter (?same r) (filter (is_head aid) (db_heads db))" unfolding filter_filter by (rule filter_cong) auto
    then show ?thesis unfolding h by (auto simp: row_of_def id)
  qed
  then have "head_rows db (is_head aid) = concat (map (\<lambda>r. if row_of aid r \<and> ar_version r = hr_version h then [r] else []) (db_accounts db))"
    by (simp add: head_rows_def)
  also have "\<dots> = filter (\<lambda>r. row_of aid r \<and> ar_version r = hr_version h) (db_accounts db)" by (rule concat_filter)
  finally show ?thesis by (simp add: conj_commute)
qed

lemma row_version: "account_to_row js v = Inr r \<Longrightarrow> ar_version r = as_i64 (acc_version v) \<and> ar_id r = aid_id (acc_id v) \<and> ar_subaccount r = aid_sub (acc_id v)"
  by (auto simp: account_to_row_def rbind_eq_Inr)

lemma row_read_back:
  assumes "json_ok js" "account_to_row js v = Inr r"
  shows "row_to_account js r = Inr v"
proof -
  have "with_sub (aid_id (acc_id v)) (aid_sub (acc_id v)) = acc_id v" "BookId (book_raw (acc_book v)) = acc_book v"
    by (cases "acc_id v"; simp add: with_sub_def) (cases "acc_book v"; simp)
  then show ?thesis using assms
    by (auto simp: account_to_row_def row_to_account_def serialize_json_def deserialize_json_def rbind_eq_Inr json_ok_def)
qed

text \<open>The head of an account is the last version of its log.\<close>

lemma versions_older:
  assumes rows: "list_all2 (\<lambda>r v. account_to_row js v = Inr r) rs vs" and new: "acc_version a \<notin> acc_version ` set vs"
  shows "filter (\<lambda>q. ar_version q = as_i64 (acc_version a)) rs = []"
  using rows new by (induction rule: list_all2_induct) (auto dest: row_version)

lemma head_read:
  assumes env: "sql_env_ok se" "json_ok (sq_json se)" and log: "log_related (sq_json se) aid log db"
  shows "locked_account se aid db = Inr (Option.bind log last_opt)"
proof (cases log)
  case None
  then have "filter (is_head aid) (db_heads db) = []" using log by (simp add: log_related_def)
  then have "head_rows db (is_head aid) = []" by (auto simp: head_rows_def filter_empty_conv)
  moreover have "mset (sq_accounts se []) = mset []" using env(1) by (simp add: sql_env_ok_def)
  ultimately show ?thesis using None by (simp add: locked_account_def fetch_optional_def)
next
  case (Some vs)
  let ?R = "\<lambda>r v. account_to_row (sq_json se) v = Inr r"
  have vs: "vs \<noteq> []" "list_all2 ?R (filter (row_of aid) (db_accounts db)) vs" "distinct (map acc_version vs)"
    "filter (is_head aid) (db_heads db) = [head_of (last vs)]"
    using log Some by (simp_all add: log_related_def)
  obtain us u where u: "vs = us @ [u]" using vs(1) by (cases vs rule: rev_cases) auto
  have "list_all2 ?R (filter (row_of aid) (db_accounts db)) (us @ [u])" using vs(2) by (simp only: u)
  then obtain rs r where rs: "filter (row_of aid) (db_accounts db) = rs @ [r]" "list_all2 ?R rs us" "account_to_row (sq_json se) u = Inr r"
    unfolding list_all2_append2 list_all2_Cons2 by auto
  have "acc_version u \<notin> acc_version ` set us" using vs(3) by (simp add: u)
  from versions_older[OF rs(2) this] have "head_rows db (is_head aid) = [r]"
    using head_rows_filter[OF vs(4)] row_version[OF rs(3)] by (simp add: rs(1) u head_of_def)
  moreover have "mset (sq_accounts se [r]) = mset [r]" using env(1) by (simp add: sql_env_ok_def)
  then have "sq_accounts se [r] = [r]" by simp
  ultimately show ?thesis using row_read_back[OF env(2) rs(3)] by (simp add: locked_account_def fetch_optional_def Some u last_opt_def)
qed

section \<open>Writing a version\<close>

text \<open>The tables after a version of an account is appended and its head moved.\<close>

definition version_written :: "account \<Rightarrow> account_row \<Rightarrow> sql_db \<Rightarrow> sql_db" where
  "version_written a r db = db\<lparr>db_accounts := db_accounts db @ [r],
     db_heads := filter (\<lambda>h. \<not> is_head (acc_id a) h) (db_heads db) @ [head_of a]\<rparr>"

definition log_of :: "account list option \<Rightarrow> account list" where
  "log_of log = (case log of None \<Rightarrow> [] | Some vs \<Rightarrow> vs)"

lemma log_related_cong:
  "filter (row_of aid) (db_accounts db') = filter (row_of aid) (db_accounts db) \<Longrightarrow>
   filter (is_head aid) (db_heads db') = filter (is_head aid) (db_heads db) \<Longrightarrow> log_related js aid log db' = log_related js aid log db"
  by (simp add: log_related_def split: option.splits)

lemma account_id_parts: "aid_id a = aid_id b \<Longrightarrow> aid_sub a = aid_sub b \<Longrightarrow> a = b"
  by (cases a; cases b) simp

lemma log_other:
  assumes "account_to_row js a = Inr r" "aid \<noteq> acc_id a"
  shows "log_related js aid log (version_written a r db) = log_related js aid log db"
proof -
  have "\<not> row_of aid r" using row_version[OF assms(1)] assms(2) by (auto simp: row_of_def dest: account_id_parts)
  moreover have "\<not> is_head aid (head_of a)" using assms(2) by (auto simp: is_head_def head_of_def dest: account_id_parts)
  moreover have "is_head aid h \<Longrightarrow> \<not> is_head (acc_id a) h" for h using assms(2) by (auto simp: is_head_def dest: account_id_parts)
  then have "filter (is_head aid) (filter (\<lambda>h. \<not> is_head (acc_id a) h) (db_heads db)) = filter (is_head aid) (db_heads db)"
    unfolding filter_filter by (intro filter_cong) auto
  ultimately show ?thesis by (intro log_related_cong) (simp_all add: version_written_def)
qed

lemma log_grows:
  assumes row: "account_to_row js a = Inr r" and log: "log_related js (acc_id a) log db"
    and new: "\<forall>v \<in> set (log_of log). acc_version v < acc_version a"
  shows "log_related js (acc_id a) (Some (log_of log @ [a])) (version_written a r db)"
proof -
  have old: "list_all2 (\<lambda>r v. account_to_row js v = Inr r) (filter (row_of (acc_id a)) (db_accounts db)) (log_of log)"
    "distinct (map acc_version (log_of log))"
    using log by (auto simp: log_related_def log_of_def split: option.splits)
  have "row_of (acc_id a) r" using row_version[OF row] by (simp add: row_of_def)
  moreover have "is_head (acc_id a) (head_of a)" by (simp add: is_head_def head_of_def)
  ultimately show ?thesis
    using old row new by (auto simp: log_related_def version_written_def list_all2_appendI filter_empty_conv less_imp_le)
qed

lemma account_key_fresh:
  assumes row: "account_to_row js a = Inr r" and log: "log_related js (acc_id a) log db"
    and new: "\<forall>v \<in> set (log_of log). acc_version v < acc_version a"
  shows "account_key r \<notin> account_key ` set (db_accounts db)"
proof
  assume "account_key r \<in> account_key ` set (db_accounts db)"
  then obtain q where q: "q \<in> set (db_accounts db)" "account_key q = account_key r" by auto
  have "list_all2 (\<lambda>r v. account_to_row js v = Inr r) (filter (row_of (acc_id a)) (db_accounts db)) (log_of log)"
    using log by (auto simp: log_related_def log_of_def split: option.splits)
  moreover have "acc_version a \<notin> acc_version ` set (log_of log)" using new by auto
  ultimately have "filter (\<lambda>q. ar_version q = as_i64 (acc_version a)) (filter (row_of (acc_id a)) (db_accounts db)) = []"
    by (rule versions_older)
  then show False using q row_version[OF row] by (auto simp: filter_empty_conv account_key_def row_of_def)
qed

lemma accounts_written:
  assumes row: "account_to_row js a = Inr r" and rel: "accounts_related js st db"
    and new: "\<forall>v \<in> set (log_of (map_of (ms_accounts st) (acc_id a))). acc_version v < acc_version a"
    and st': "map_of (ms_accounts st') = (map_of (ms_accounts st))(acc_id a \<mapsto> log_of (map_of (ms_accounts st) (acc_id a)) @ [a])"
  shows "accounts_related js st' (version_written a r db)"
  unfolding accounts_related_def
proof
  fix aid
  have "log_related js aid (map_of (ms_accounts st) aid) db" for aid using rel by (simp add: accounts_related_def)
  then show "log_related js aid (map_of (ms_accounts st') aid) (version_written a r db)"
    using log_grows[OF row _ new] log_other[OF row] by (cases "aid = acc_id a") (simp_all add: st')
qed

section \<open>The two relations together\<close>

lemma stores_read:
  assumes "sql_env_ok se" "json_ok (sq_json se)" "accounts_related (sq_json se) st db"
  shows "locked_account se aid db = Inr (head_version st aid)"
  using head_read[OF assms(1,2)] assms(3) by (simp add: accounts_related_def head_version_def)

text \<open>A write of accounts and events keeps the relation of the postings.\<close>

lemma stores_related_accounts:
  assumes "stores_related se st db"
    and "ms_postings st' = ms_postings st" "ms_transfers st' = ms_transfers st" "accounts_related (sq_json se) st' db'"
    and "db_postings db' = db_postings db" "db_live db' = db_live db" "db_transfers db' = db_transfers db"
  shows "stores_related se st' db'"
proof -
  have "sql_state db' = sql_state db" "sql_receipt se db' = sql_receipt se db" "sql_commit_inv se db' = sql_commit_inv se db"
    "mem_commit_inv st' = mem_commit_inv st" "mem_receipt st' = mem_receipt st"
    using assms(2,3,5-7) by (simp_all add: fun_eq_iff sql_state_def sql_receipt_def sql_commit_inv_def sql_tables_ok_def mem_commit_inv_def mem_receipt_def)
  moreover have "locked_account se aid db' = Inr (head_version st' aid)" for aid
    using assms(1,4) by (intro stores_read) (auto simp: stores_related_def sql_related_def sql_commit_inv_def)
  ultimately show ?thesis using assms by (simp add: stores_related_def sql_related_def)
qed

lemma accounts_related_same:
  "ms_accounts st' = ms_accounts st \<Longrightarrow> db_accounts db' = db_accounts db \<Longrightarrow> db_heads db' = db_heads db \<Longrightarrow>
   accounts_related js st' db' = accounts_related js st db"
  by (simp add: accounts_related_def log_related_def split: option.splits)

section \<open>Creations and transitions\<close>

lemma head_rows_none:
  assumes "accounts_related js st db"
  shows "filter (is_head aid) (db_heads db) = [] \<longleftrightarrow> map_of (ms_accounts st) aid = None"
proof -
  have "log_related js aid (map_of (ms_accounts st) aid) db" using assms by (simp add: accounts_related_def)
  then show ?thesis by (cases "map_of (ms_accounts st) aid") (simp_all add: log_related_def)
qed

lemma create_refines:
  assumes rel: "stores_related se st db" and run: "sql_create_account se a db = (res, db')"
  shows "case res of Inl e \<Rightarrow> stores_related se st db'
    | Inr n \<Rightarrow> n = fst (create_account a st) \<and> stores_related se (snd (create_account a st)) db'"
proof -
  have acc: "accounts_related (sq_json se) st db" using rel by (simp add: stores_related_def)
  note none = head_rows_none[OF acc, of "acc_id a"]
  show ?thesis
  proof (cases "map_of (ms_accounts st) (acc_id a)")
    case (Some vs)
    then have "(res, db') = (Inr 0, db)" using run none by (simp add: sql_create_account_def)
    then show ?thesis using rel Some by (simp add: create_account_def contains_key_def)
  next
    case None
    have heads: "filter (is_head (acc_id a)) (db_heads db) = []" using none None by simp
    show ?thesis
    proof (cases "account_to_row (sq_json se) a")
      case (Inl e)
      then show ?thesis using rel run heads by (auto simp: sql_create_account_def)
    next
      case (Inr r)
      have new: "\<forall>v \<in> set (log_of (map_of (ms_accounts st) (acc_id a))). acc_version v < acc_version a" by (simp add: None log_of_def)
      have "account_key r \<notin> account_key ` set (db_accounts db)"
        using account_key_fresh[OF Inr _ new] acc by (simp add: accounts_related_def)
      moreover have "head_key (head_of a) \<notin> head_key ` set (db_heads db)"
        using heads by (auto simp: filter_empty_conv head_key_def head_of_def is_head_def)
      moreover have "filter (\<lambda>h. \<not> is_head (acc_id a) h) (db_heads db) = db_heads db"
        using heads by (auto simp: filter_empty_conv filter_id_conv)
      ultimately have run': "res = Inr 1" "db' = version_written a r db"
        using run heads Inr by (auto simp: sql_create_account_def insert_ignore_def version_written_def)
      have mem: "create_account a st = (1, st\<lparr>ms_accounts := AList.update (acc_id a) [a] (ms_accounts st)\<rparr>)" (is "_ = (1, ?st)")
        by (simp add: create_account_def contains_key_def None)
      have "accounts_related (sq_json se) ?st db'"
        unfolding run'(2) by (rule accounts_written[OF Inr acc new]) (simp add: update_conv' None log_of_def)
      then have "stores_related se ?st db'" by (rule stores_related_accounts[OF rel, rotated 2]) (simp_all add: run'(2) version_written_def)
      then show ?thesis by (simp add: run'(1) mem)
    qed
  qed
qed

lemma move_head_moves: "move_head a heads = Inr (filter (\<lambda>h. \<not> is_head (acc_id a) h) heads @ [head_of a])"
  by (auto simp: move_head_def insert_row_def delete_where_def head_key_def head_of_def is_head_def)

text \<open>The event row is the last thing a transition writes; the relation does not read it.\<close>

lemma event_written:
  assumes "(case append_event_tx js c ev (db_events db1) (db_autoid db1) of
      (Inl e, g) \<Rightarrow> (Inl e, db\<lparr>db_autoid := g\<rparr>) | (Inr (n, sq, evs), g) \<Rightarrow> (Inr x, db1\<lparr>db_events := evs, db_autoid := g\<rparr>)) = (res, db')"
  shows "(\<exists>e g. res = Inl e \<and> db' = db\<lparr>db_autoid := g\<rparr>) \<or> (\<exists>evs g. res = Inr x \<and> db' = db1\<lparr>db_events := evs, db_autoid := g\<rparr>)"
  using assms by (auto split: prod.splits sum.splits)

lemma with_event_kept: "ms_postings (with_event c ev st) = ms_postings st" "ms_transfers (with_event c ev st) = ms_transfers st"
  "ms_accounts (with_event c ev st) = ms_accounts st"
  by (simp_all add: with_event_def split_beta)

lemma transition_refines:
  assumes rel: "stores_related se st db" and run: "sql_commit_transition se c nxt ev db = (res, db')"
  shows "case res of Inl e \<Rightarrow> stores_related se st db'
    | Inr out \<Rightarrow> fst (commit_transition c' nxt ev st) = Inr out \<and> stores_related se (snd (commit_transition c' nxt ev st)) db'"
proof -
  have acc: "accounts_related (sq_json se) st db" using rel by (simp add: stores_related_def)
  have lock: "locked_account se (acc_id nxt) db = Inr (head_version st (acc_id nxt))"
    using rel by (simp add: stores_related_def sql_related_def)
  have log: "log_related (sq_json se) (acc_id nxt) (map_of (ms_accounts st) (acc_id nxt)) db" using acc by (simp add: accounts_related_def)
  have auto: "stores_related se st (db\<lparr>db_autoid := g\<rparr>)" for g
    by (rule stores_related_accounts[OF rel]) (simp_all add: acc accounts_related_same[of st st "db\<lparr>db_autoid := g\<rparr>" db])
  show ?thesis
  proof (cases "map_of (ms_accounts st) (acc_id nxt)")
    case None
    then show ?thesis using run lock rel by (auto simp: sql_commit_transition_def head_version_def)
  next
    case (Some vs)
    define cur where "cur = last vs"
    have vs: "vs \<noteq> []" "\<forall>v \<in> set vs. acc_version v \<le> acc_version cur" using log Some by (simp_all add: log_related_def cur_def)
    have head: "head_version st (acc_id nxt) = Some cur" "last_opt vs = Some cur" using vs(1) by (simp_all add: head_version_def Some last_opt_def cur_def)
    have mem: "commit_transition c' nxt ev st = (if is_closed cur then (Inr (TransitionRejected (AlreadyClosed (acc_id nxt))), st)
        else if acc_version nxt \<le> acc_version cur then (Inr AlreadyApplied, with_event c' ev st)
        else case checked_succ64 (acc_version cur) of None \<Rightarrow> (Inl (Internal AccountVersionOverflow), st)
          | Some e \<Rightarrow> if acc_version nxt \<noteq> e then (Inr (TransitionRejected (VersionConflict (acc_id nxt) (acc_version nxt))), st)
              else (Inr Applied, with_event c' ev (st\<lparr>ms_accounts := AList.update (acc_id nxt) (vs @ [nxt]) (ms_accounts st)\<rparr>)))"
      by (simp add: commit_transition_def Some head(2) Let_def)
    note sql = run[unfolded sql_commit_transition_def lock head(1), simplified Let_def, simplified]
    consider (closed) "is_closed cur" | (again) "\<not> is_closed cur" "acc_version nxt \<le> acc_version cur"
      | (full) "\<not> is_closed cur" "acc_version cur < acc_version nxt" "checked_succ64 (acc_version cur) = None"
      | (conflict) e where "\<not> is_closed cur" "acc_version cur < acc_version nxt" "checked_succ64 (acc_version cur) = Some e" "acc_version nxt \<noteq> e"
      | (applies) "\<not> is_closed cur" "acc_version cur < acc_version nxt" "checked_succ64 (acc_version cur) = Some (acc_version nxt)"
      by (cases "checked_succ64 (acc_version cur)") fastforce+
    then show ?thesis
    proof cases
      case closed
      then show ?thesis using sql rel by (auto simp: mem)
    next
      case again
      have ev: "stores_related se (with_event c' ev st) (db\<lparr>db_events := evs, db_autoid := g\<rparr>)" for evs g
        by (rule stores_related_accounts[OF rel])
          (simp_all add: acc with_event_kept accounts_related_same[of "with_event c' ev st" st "db\<lparr>db_events := evs, db_autoid := g\<rparr>" db])
      have "(case append_event_tx (sq_json se) c ev (db_events db) (db_autoid db) of
          (Inl e, g) \<Rightarrow> (Inl e, db\<lparr>db_autoid := g\<rparr>) | (Inr (n, sq, evs), g) \<Rightarrow> (Inr AlreadyApplied, db\<lparr>db_events := evs, db_autoid := g\<rparr>)) = (res, db')"
        using sql again by simp
      from event_written[OF this] show ?thesis using auto ev again by (auto simp: mem)
    next
      case full
      then show ?thesis using sql rel by (auto simp: mem iffD2[OF linorder_not_le full(2)])
    next
      case conflict
      then show ?thesis using sql rel by (auto simp: mem iffD2[OF linorder_not_le conflict(2)])
    next
      case applies
      show ?thesis
      proof (cases "account_to_row (sq_json se) nxt")
        case (Inl e)
        then show ?thesis using sql rel applies by (auto simp: iffD2[OF linorder_not_le applies(2)])
      next
        case (Inr r)
        have new: "\<forall>v \<in> set (log_of (map_of (ms_accounts st) (acc_id nxt))). acc_version v < acc_version nxt"
          using vs(2) applies(2) by (auto simp: Some log_of_def)
        let ?st = "st\<lparr>ms_accounts := AList.update (acc_id nxt) (vs @ [nxt]) (ms_accounts st)\<rparr>" and ?db = "version_written nxt r db"
        have "accounts_related (sq_json se) ?st ?db"
          by (rule accounts_written[OF Inr acc new]) (simp add: update_conv' Some log_of_def)
        then have ev: "stores_related se (with_event c' ev ?st) (?db\<lparr>db_events := evs, db_autoid := g\<rparr>)" for evs g
          by (intro stores_related_accounts[OF rel])
            (simp_all add: with_event_kept accounts_related_same[of "with_event c' ev ?st" ?st "?db\<lparr>db_events := evs, db_autoid := g\<rparr>" ?db],
             simp_all add: version_written_def)
        have fresh: "account_key r \<notin> account_key ` set (db_accounts db)" using account_key_fresh[OF Inr log new] .
        have "(case append_event_tx (sq_json se) c ev (db_events ?db) (db_autoid ?db) of
            (Inl e, g) \<Rightarrow> (Inl e, db\<lparr>db_autoid := g\<rparr>) | (Inr (n, sq, evs), g) \<Rightarrow> (Inr Applied, ?db\<lparr>db_events := evs, db_autoid := g\<rparr>)) = (res, db')"
          using sql applies Inr by (auto simp: move_head_moves insert_ignore_def fresh version_written_def iffD2[OF linorder_not_le applies(2)] split: prod.splits sum.splits)
        from event_written[OF this] show ?thesis using auto ev applies by (auto simp: mem iffD2[OF linorder_not_le applies(2)])
      qed
    qed
  qed
qed

section \<open>The writes of the ledger\<close>

text \<open>The atomic writes that the ledger makes, with their answers.\<close>

datatype ledger_write = CommitWrite commit_request | TransitionWrite account ledger_event | CreateWrite account

datatype write_answer = CommitAnswer commit_outcome | TransitionAnswer transition_outcome | CreateAnswer nat

definition answering :: "('o \<Rightarrow> write_answer) \<Rightarrow> ('e + 'o) \<times> 's \<Rightarrow> ('e + write_answer) \<times> 's" where
  "answering f r = (rbind (fst r) (\<lambda>out. Inr (f out)), snd r)"

definition mem_write :: "hash_order \<Rightarrow> int \<Rightarrow> ledger_write \<Rightarrow> mem_store \<Rightarrow> (store_error + write_answer) \<times> mem_store" where
  "mem_write h c w st = (case w of
     CommitWrite req \<Rightarrow> answering CommitAnswer (commit_envelope h c req st)
   | TransitionWrite nxt ev \<Rightarrow> answering TransitionAnswer (commit_transition c nxt ev st)
   | CreateWrite a \<Rightarrow> (Inr (CreateAnswer (fst (create_account a st))), snd (create_account a st)))"

definition sql_answer :: "sql_env \<Rightarrow> int \<Rightarrow> ledger_write \<Rightarrow> sql_db \<Rightarrow> (store_error fault + write_answer) \<times> sql_db" where
  "sql_answer se c w db = (case w of
     CommitWrite req \<Rightarrow> answering CommitAnswer (sql_commit_envelope se c req db)
   | TransitionWrite nxt ev \<Rightarrow> answering TransitionAnswer (sql_commit_transition se c nxt ev db)
   | CreateWrite a \<Rightarrow> answering CreateAnswer (sql_create_account se a db))"

definition write_admissible :: "mem_store \<Rightarrow> ledger_write \<Rightarrow> bool" where
  "write_admissible st w \<longleftrightarrow> (case w of CommitWrite req \<Rightarrow> request_covers st req \<and> totals_fit st req | _ \<Rightarrow> True)"

definition same_answer :: "write_answer \<Rightarrow> write_answer \<Rightarrow> bool" where
  "same_answer x y \<longleftrightarrow> (case (x, y) of (CommitAnswer a, CommitAnswer b) \<Rightarrow> same_outcome a b | _ \<Rightarrow> x = y)"

lemma same_answer_iff:
  "same_answer (CommitAnswer a) y \<longleftrightarrow> (\<exists>b. y = CommitAnswer b \<and> same_outcome a b)"
  "same_answer (TransitionAnswer t) y \<longleftrightarrow> y = TransitionAnswer t"
  "same_answer (CreateAnswer n) y \<longleftrightarrow> y = CreateAnswer n"
  by (cases y; auto simp: same_answer_def)+

text \<open>A commit of either store leaves the logs of the accounts alone.\<close>

lemma commit_keeps_accounts:
  "ms_accounts (snd (commit_envelope h c req st)) = ms_accounts st"
  "db_accounts (snd (sql_commit_envelope se c req db)) = db_accounts db \<and> db_heads (snd (sql_commit_envelope se c req db)) = db_heads db"
proof -
  show "ms_accounts (snd (commit_envelope h c req st)) = ms_accounts st"
    by (simp add: commit_envelope_def commit_apply_def Let_def split_beta split: option.splits sum.splits commit_exit.splits)
  have moved: "db_accounts db1 = db_accounts db \<and> db_heads db1 = db_heads db" if "sql_move_postings se req db = Inr db1" for db1
  proof -
    have "db_accounts (fold sql_create_posting ps d) = db_accounts d \<and> db_heads (fold sql_create_posting ps d) = db_heads d" for ps d
      by (induction ps arbitrary: d) (simp_all add: sql_create_posting_def)
    then show ?thesis using that by (auto simp: sql_move_postings_def rbind_eq_Inr Let_def split_beta split: option.splits)
  qed
  obtain res db' where run: "sql_commit_envelope se c req db = (res, db')" by fastforce
  show "db_accounts (snd (sql_commit_envelope se c req db)) = db_accounts db \<and> db_heads (snd (sql_commit_envelope se c req db)) = db_heads db"
  proof (cases "\<exists>r. res = Inr (Committed r)")
    case True
    then obtain r where "sql_commit_envelope se c req db = (Inr (Committed r), db')" using run by blast
    then obtain db1 row g evs where db1: "sql_move_postings se req db = Inr db1"
      and db': "db' = db1\<lparr>db_transfers := snd (insert_ignore tr_id row (db_transfers db1)),
         db_transfer_accounts := index_accounts (cr_transfer_id req) (cr_involved req) (db_transfer_accounts db1), db_events := evs, db_autoid := g\<rparr>"
      by (rule sql_commit_applied)
    show ?thesis using moved[OF db1] by (simp add: run db')
  next
    case False
    then obtain g where "db' = db\<lparr>db_autoid := g\<rparr>" using sql_commit_not_applied[OF run] by blast
    then show ?thesis by (simp add: run)
  qed
qed

text \<open>
  C7: the SQL store refines the in-memory store in every atomic write of the ledger: commits,
  account transitions and account creations. On related stores, where a commit is one as the ledger builds
  it and its balances do not overflow: if the SQL store answers a write, the in-memory store
  gives the same answer (a rejection for an overdraft may name another overdrawn balance)
  and the stores are related again; if the SQL store fails, its tables are still related to the
  old state.
\<close>

theorem sql_writes_refine:
  assumes "stores_related se st db" "write_admissible st w" "hash_order_ok h" and "sql_answer se c w db = (res, db')"
  shows "case res of
      Inl e \<Rightarrow> stores_related se st db'
    | Inr out \<Rightarrow> (\<exists>out' st'. mem_write h c' w st = (Inr out', st') \<and> same_answer out out' \<and> stores_related se st' db')"
proof (cases w)
  case (CommitWrite req)
  obtain r where run: "sql_commit_envelope se c req db = (r, db')" and res: "res = rbind r (\<lambda>out. Inr (CommitAnswer out))"
    using assms(4) by (cases "sql_commit_envelope se c req db") (auto simp: sql_answer_def answering_def CommitWrite)
  have tables: "db_accounts db' = db_accounts db" "db_heads db' = db_heads db" using commit_keeps_accounts(2)[of se c req db] by (simp_all add: run)
  have rel: "sql_related se st db" "accounts_related (sq_json se) st db" "request_covers st req" "totals_fit st req"
    using assms(1,2) by (simp_all add: stores_related_def write_admissible_def CommitWrite)
  note ref = sql_commit_refines[OF rel(1,3,4) assms(3) run, of c']
  show ?thesis
  proof (cases r)
    case (Inl e)
    then show ?thesis using ref rel(2) accounts_related_same[of st st db' db] by (simp add: res stores_related_def tables)
  next
    case (Inr out)
    then obtain out' st' where mem: "commit_envelope h c' req st = (Inr out', st')" "same_outcome out out'" "sql_related se st' db'"
      using ref by auto
    have "ms_accounts st' = ms_accounts st" using commit_keeps_accounts(1)[of h c' req st] by (simp add: mem(1))
    then have "stores_related se st' db'" using mem(3) rel(2) accounts_related_same[of st' st db' db] by (simp add: stores_related_def tables)
    then show ?thesis using mem(1,2) Inr by (simp add: res mem_write_def answering_def CommitWrite same_answer_def)
  qed
next
  case (TransitionWrite nxt ev)
  obtain r where run: "sql_commit_transition se c nxt ev db = (r, db')" and res: "res = rbind r (\<lambda>out. Inr (TransitionAnswer out))"
    using assms(4) by (cases "sql_commit_transition se c nxt ev db") (auto simp: sql_answer_def answering_def TransitionWrite)
  show ?thesis using transition_refines[OF assms(1) run, of c'] by (cases r) (simp_all add: res mem_write_def answering_def TransitionWrite same_answer_def)
next
  case (CreateWrite a)
  obtain r where run: "sql_create_account se a db = (r, db')" and res: "res = rbind r (\<lambda>out. Inr (CreateAnswer out))"
    using assms(4) by (cases "sql_create_account se a db") (auto simp: sql_answer_def answering_def CreateWrite)
  show ?thesis using create_refines[OF assms(1) run] by (cases r) (simp_all add: res mem_write_def answering_def CreateWrite same_answer_def)
qed

end
