(* ===== verification/Sql_Scenario.thy ===== *)
theory Sql_Scenario
  imports Sql_Account_Refinement
begin

text \<open>
  A concrete database of the SQL store on which the properties of its commit are applied:
  an account that forbids overdraft holds one posting of ten units, and two transfers
  that both consume it are committed one after the other.
\<close>

definition payer_account :: account where
  "payer_account = \<lparr>acc_id = AccountId 1 0, acc_version = 1, acc_flags = DEBIT_MUST_NOT_EXCEED_CREDIT, acc_book = BookId 0, acc_metadata = []\<rparr>"

definition payee_account :: account where
  "payee_account = \<lparr>acc_id = AccountId 2 0, acc_version = 1, acc_flags = 0, acc_book = BookId 0, acc_metadata = []\<rparr>"

definition tid_of :: "nat \<Rightarrow> envelope_id" where
  "tid_of n = EnvelopeId (replicate 32 (word_of_nat n))"

definition coin :: "nat \<Rightarrow> u16 \<Rightarrow> account_id \<Rightarrow> cent \<Rightarrow> posting" where
  "coin n k ow v = \<lparr>p_id = PostingId (tid_of n) k, p_owner = ow, p_asset = AssetId 1, p_value = v\<rparr>"

definition receipt_for :: "nat \<Rightarrow> receipt" where
  "receipt_for n = \<lparr>r_transfer_id = tid_of n\<rparr>"

definition event_for :: "nat \<Rightarrow> ledger_event" where
  "event_for n = \<lparr>ev_seq = 0, ev_timestamp = 5, ev_kind = TransferCommitted (tid_of n)\<rparr>"

definition blank_envelope :: envelope where
  "blank_envelope = envelope_builder_new"

definition request_for :: "nat \<Rightarrow> posting list \<Rightarrow> commit_request" where
  "request_for n ps = \<lparr>cr_transfer_id = tid_of n, cr_consume = [PostingId (tid_of 0) 0], cr_create = ps,
     cr_record = \<lparr>er_envelope = blank_envelope, er_receipt = receipt_for n, er_created_at = 5\<rparr>,
     cr_involved = [AccountId 1 0, AccountId 2 0], cr_event = event_for n\<rparr>"

definition first_request :: commit_request where
  "first_request = request_for 1 [coin 1 0 (AccountId 2 0) 4, coin 1 1 (AccountId 1 0) 6]"

definition second_request :: commit_request where
  "second_request = request_for 2 [coin 2 0 (AccountId 2 0) 10]"

definition overdrawing_request :: commit_request where
  "overdrawing_request = request_for 3 [coin 3 0 (AccountId 2 0) 11, coin 3 1 (AccountId 1 0) (-1)]"

definition scene_json :: json where
  "scene_json = table_json [[]] [blank_envelope] (map receipt_for [0, 1, 2, 3]) (map event_for [1, 2, 3]) []"

definition scene_env :: sql_env where
  "scene_env = plain_env scene_json"

definition scene_db :: sql_db where
  "scene_db = sql_store_new\<lparr>
     db_accounts := [projr (account_to_row scene_json payer_account), projr (account_to_row scene_json payee_account)],
     db_heads := [head_of payer_account, head_of payee_account],
     db_postings := [posting_to_row (coin 0 0 (AccountId 1 0) 10)],
     db_live := [\<lparr>lr_row = posting_to_row (coin 0 0 (AccountId 1 0) 10), lr_reservation = None\<rparr>],
     db_transfers := [\<lparr>tr_id = envelope_id_to_hex (tid_of 0), tr_transfer = [0], tr_receipt = [0], tr_created_at = 1, tr_book = 0\<rparr>]\<rparr>"

lemmas scene_defs = first_request_def second_request_def overdrawing_request_def request_for_def coin_def receipt_for_def event_for_def

lemma scene_requests: "request_ok first_request" "request_ok second_request" "request_ok overdrawing_request"
  by (simp_all add: request_ok_def scene_defs)

lemma scene_inv: "sql_commit_inv scene_env scene_db"
proof -
  have "sql_env_ok scene_env" "json_ok (sq_json scene_env)"
    by (simp_all add: scene_env_def scene_json_def plain_env_ok) (simp add: plain_env_def json_ok_table)
  moreover have "sql_tables_ok scene_db" by (simp add: sql_tables_ok_def scene_db_def)
  moreover have "un_receipt (sq_json scene_env) [0] = Some (receipt_for 0)"
    by (simp add: scene_env_def scene_json_def plain_env_def table_json_def table_read_def)
  moreover have "pr_transfer_id (posting_to_row (coin 0 0 (AccountId 1 0) 10)) = envelope_id_to_hex (tid_of 0)"
    by (simp add: posting_to_row_def coin_def)
  ultimately show ?thesis by (simp add: sql_commit_inv_def scene_db_def)
qed

lemma scene_floor: "sql_floor scene_env scene_db"
proof -
  have "projr (parse_cent (pr_value (posting_to_row (coin 0 0 (AccountId 1 0) 10)))) = 10" by code_simp
  then have "0 \<le> sql_live_sum scene_db k" for k by (simp add: sql_live_sum_def scene_db_def)
  then show ?thesis by (simp add: sql_floor_def)
qed

lemma scene_run:
  "fst (commit_run (sql_commit_envelope scene_env) [(1700000000000, first_request), (1700000000001, second_request)] scene_db)
    = [Inr (Committed (receipt_for 1)), Inr (CommitRejected (DoubleSpend (PostingId (tid_of 0) 0)))]"
  by code_simp

lemma scene_overdrawn:
  "fst (sql_commit_envelope scene_env 1700000000000 overdrawing_request scene_db)
    = Inr (CommitRejected (RejectOverdraft (AccountId 1 0) (AssetId 1) (-1)))"
  by code_simp

theorem sql_commits_spend_once_witness:
  "let (rs, db') = commit_run (sql_commit_envelope scene_env) [(1700000000000, first_request), (1700000000001, second_request)] scene_db
   in length (filter (\<lambda>r. r = Inr (Committed (receipt_for 1))) rs) = 1 \<and> sql_state db' (PostingId (tid_of 0) 0) = StateSpent"
proof -
  let ?reqs = "[(1700000000000, first_request), (1700000000001, second_request)]"
  obtain rs db' where run: "commit_run (sql_commit_envelope scene_env) ?reqs scene_db = (rs, db')" by fastforce
  then have rs: "rs = [Inr (Committed (receipt_for 1)), Inr (CommitRejected (DoubleSpend (PostingId (tid_of 0) 0)))]"
    using scene_run by (metis fst_conv)
  have app: "applied ?reqs rs = [first_request]" by (simp add: rs applied_def)
  have "list_all (\<lambda>x. request_ok (snd x)) ?reqs" using scene_requests by simp
  note sql_commits_spend_once[OF scene_inv this run]
  then have "sql_state db' (PostingId (tid_of 0) 0) = StateSpent" by (simp add: app) (simp add: first_request_def request_for_def)
  then show ?thesis unfolding run by (simp add: rs)
qed

theorem sql_commit_keeps_floor_witness:
  "let (res, db') = sql_commit_envelope scene_env 1700000000000 overdrawing_request scene_db
   in res = Inr (CommitRejected (RejectOverdraft (AccountId 1 0) (AssetId 1) (-1))) \<and> sql_floor scene_env db'"
proof -
  obtain res db' where run: "sql_commit_envelope scene_env 1700000000000 overdrawing_request scene_db = (res, db')" by fastforce
  then have "sql_floor scene_env db'" using sql_commit_keeps_floor[OF scene_floor scene_inv scene_requests(3)] by blast
  moreover have "res = Inr (CommitRejected (RejectOverdraft (AccountId 1 0) (AssetId 1) (-1)))" using scene_overdrawn run by simp
  ultimately show ?thesis by (simp add: run)
qed

section \<open>The same state in memory\<close>

definition scene_mem :: mem_store where
  "scene_mem = mem_store_new\<lparr>
     ms_postings := \<lparr>pt_immutable = [(PostingId (tid_of 0) 0, coin 0 0 (AccountId 1 0) 10)],
       pt_active = [(PostingId (tid_of 0) 0, coin 0 0 (AccountId 1 0) 10)], pt_reserved = []\<rparr>,
     ms_accounts := [(AccountId 1 0, [payer_account]), (AccountId 2 0, [payee_account])],
     ms_transfers := [(tid_of 0, \<lparr>er_envelope = blank_envelope, er_receipt = receipt_for 0, er_created_at = 1\<rparr>)]\<rparr>"

definition scene_order :: hash_order where
  "scene_order = \<lparr>ho_postings = \<lambda>xs. xs, ho_assets = \<lambda>xs. xs, ho_records = \<lambda>xs. xs, ho_accounts = \<lambda>xs. xs, ho_books = \<lambda>xs. xs\<rparr>"

lemma scene_coin: "p_id (coin n k ow v) = PostingId (tid_of n) k" "p_owner (coin n k ow v) = ow" "p_value (coin n k ow v) = v"
  "p_asset (coin n k ow v) = AssetId 1" "posting_wf (coin n k ow v) \<longleftrightarrow> i64_ok v"
  by (simp_all add: coin_def posting_wf_def tid_of_def)

lemma scene_accounts: "locked_account scene_env aid scene_db = Inr (head_version scene_mem aid)"
proof -
  have md: "table_write [[] :: metadata] [] = Some [0]" "table_read [[] :: metadata] [0] = Some []"
    by (simp_all add: table_write_def table_read_def)
  have js: "js_metadata scene_json = table_write [[]]" "un_metadata scene_json = table_read [[]]"
    by (simp_all add: scene_json_def table_json_def)
  have rows: "account_to_row scene_json a = Inr \<lparr>ar_id = aid_id (acc_id a), ar_subaccount = aid_sub (acc_id a),
      ar_version = as_i64 (acc_version a), ar_flags = as_i32 (acc_flags a), ar_book = book_raw (acc_book a), ar_metadata = [0]\<rparr>"
    if "acc_metadata a = []" for a
    using that by (simp add: account_to_row_def js serialize_json_def md)
  have decode: "row_to_account scene_json (projr (account_to_row scene_json a)) = Inr a" if "acc_metadata a = []" for a
    using that by (cases "acc_id a"; cases "acc_book a")
      (simp add: rows row_to_account_def deserialize_json_def js md with_sub_def)
  have env: "sq_accounts scene_env rs = rs" "sq_json scene_env = scene_json" for rs by (simp_all add: scene_env_def plain_env_def)
  have md0: "acc_metadata payer_account = []" "acc_metadata payee_account = []" by (simp_all add: payer_account_def payee_account_def)
  have heads: "head_rows scene_db (is_head aid) = (if aid = AccountId 1 0 then [projr (account_to_row scene_json payer_account)]
      else if aid = AccountId 2 0 then [projr (account_to_row scene_json payee_account)] else [])"
    by (cases aid) (auto simp: head_rows_def scene_db_def rows md0 head_of_def is_head_def payer_account_def payee_account_def)
  show ?thesis
    by (simp add: locked_account_def env heads decode md0 fetch_optional_def head_version_def scene_mem_def last_opt_def)
qed

lemma scene_related: "sql_related scene_env scene_mem scene_db"
proof -
  have "mem_commit_inv scene_mem"
    by (auto simp: mem_commit_inv_def tables_ok_def slot_ok_def scene_mem_def scene_coin)
  moreover have "sql_state scene_db = posting_state_of (ms_postings scene_mem)"
    by (auto simp: fun_eq_iff sql_state_def posting_state_of_def scene_db_def scene_mem_def live_key_def scene_coin contains_key_def)
  moreover have "sql_receipt scene_env scene_db = mem_receipt scene_mem"
    by (auto simp: fun_eq_iff sql_receipt_def mem_receipt_def scene_db_def scene_mem_def fetch_optional_def scene_env_def scene_json_def
        plain_env_def table_json_def table_read_def)
  moreover have "mset (db_live scene_db) = mset (map live_of (pt_active (ms_postings scene_mem)))" "pt_reserved (ms_postings scene_mem) = []"
    "list_all posting_wf (map snd (pt_active (ms_postings scene_mem)))"
    by (simp_all add: scene_db_def scene_mem_def live_of_def scene_coin range_defs)
  ultimately show ?thesis using scene_inv scene_accounts by (simp add: sql_related_def)
qed

lemma scene_logs: "accounts_related scene_json scene_mem scene_db"
proof -
  have rows: "account_to_row scene_json a = Inr (projr (account_to_row scene_json a)) \<and> row_of aid (projr (account_to_row scene_json a)) = (acc_id a = aid)"
    if "acc_metadata a = []" for a aid
    using that by (cases "acc_id a"; cases aid) (auto simp: account_to_row_def scene_json_def table_json_def serialize_json_def table_write_def row_of_def)
  have ids: "acc_metadata payer_account = []" "acc_metadata payee_account = []" "acc_id payer_account = AccountId 1 0" "acc_id payee_account = AccountId 2 0"
    by (simp_all add: payer_account_def payee_account_def)
  have heads: "is_head aid (head_of a) = (acc_id a = aid)" for aid a by (cases "acc_id a"; cases aid) (auto simp: is_head_def head_of_def)
  obtain r1 r2 where rs: "r1 = projr (account_to_row scene_json payer_account)" "r2 = projr (account_to_row scene_json payee_account)" by simp
  have tables: "db_accounts scene_db = [r1, r2]" "db_heads scene_db = map head_of [payer_account, payee_account]"
    by (simp_all add: scene_db_def rs)
  note row = rows[OF ids(1), folded rs] rows[OF ids(2), folded rs]
  show ?thesis
    by (auto simp: accounts_related_def log_related_def scene_mem_def tables heads row ids(3,4))
qed

lemma scene_stores: "stores_related scene_env scene_mem scene_db"
  using scene_related scene_logs by (simp add: stores_related_def scene_env_def plain_env_def)

definition frozen_payee :: account where
  "frozen_payee = payee_account\<lparr>acc_version := 2, acc_flags := acc_flags payee_account OR FROZEN\<rparr>"

theorem sql_writes_refine_witness:
  "(\<exists>st' db'. sql_answer scene_env 1700000000000 (CommitWrite first_request) scene_db = (Inr (CommitAnswer (Committed (receipt_for 1))), db') \<and>
     mem_write scene_order 7 (CommitWrite first_request) scene_mem = (Inr (CommitAnswer (Committed (receipt_for 1))), st') \<and>
     stores_related scene_env st' db') \<and>
   (\<exists>st' db'. sql_answer scene_env 1700000000000 (TransitionWrite frozen_payee (event_for 1)) scene_db = (Inr (TransitionAnswer Applied), db') \<and>
     mem_write scene_order 7 (TransitionWrite frozen_payee (event_for 1)) scene_mem = (Inr (TransitionAnswer Applied), st') \<and>
     stores_related scene_env st' db')"
proof (rule conjI)
  have order: "hash_order_ok scene_order" by (simp add: hash_order_ok_def scene_order_def)
  have run: "fst (sql_answer scene_env 1700000000000 (CommitWrite first_request) scene_db) = Inr (CommitAnswer (Committed (receipt_for 1)))"
    "fst (sql_answer scene_env 1700000000000 (TransitionWrite frozen_payee (event_for 1)) scene_db) = Inr (TransitionAnswer Applied)"
    by code_simp+
  have "request_covers scene_mem first_request"
    using scene_requests(1)
    by (simp add: request_covers_def moved_keys_def consumed_of_def scene_mem_def map_filter_simps first_request_def request_for_def scene_coin range_defs)
  moreover have "totals_fit scene_mem first_request"
    by (auto simp: totals_fit_def scene_mem_def first_request_def request_for_def scene_coin range_defs)
  ultimately have "write_admissible scene_mem (CommitWrite first_request)" by (simp add: write_admissible_def)
  from sql_writes_refine[OF scene_stores this order prod.collapse[symmetric], of 1700000000000 7, unfolded run(1)]
  show "\<exists>st' db'. sql_answer scene_env 1700000000000 (CommitWrite first_request) scene_db = (Inr (CommitAnswer (Committed (receipt_for 1))), db') \<and>
     mem_write scene_order 7 (CommitWrite first_request) scene_mem = (Inr (CommitAnswer (Committed (receipt_for 1))), st') \<and>
     stores_related scene_env st' db'"
    using run(1) by (auto simp: same_answer_iff same_outcome_def prod_eq_iff)
  have "write_admissible scene_mem (TransitionWrite frozen_payee (event_for 1))" by (simp add: write_admissible_def)
  from sql_writes_refine[OF scene_stores this order prod.collapse[symmetric], of 1700000000000 7, unfolded run(2)]
  show "\<exists>st' db'. sql_answer scene_env 1700000000000 (TransitionWrite frozen_payee (event_for 1)) scene_db = (Inr (TransitionAnswer Applied), db') \<and>
     mem_write scene_order 7 (TransitionWrite frozen_payee (event_for 1)) scene_mem = (Inr (TransitionAnswer Applied), st') \<and>
     stores_related scene_env st' db'"
    using run(2) by (auto simp: same_answer_iff prod_eq_iff)
qed

section \<open>Transfers of a base account\<close>

text \<open>
  a query for the transfers of a base account with every subaccount returns a transfer
  once for each of its involved subaccounts on the SQL store, and counts it as often,
  because the join with the account index is not made distinct; the in-memory store
  returns it once. Here one transfer between two subaccounts of account 1.
\<close>

theorem sql_transfers_duplicated:
  "let r = \<lparr>er_envelope = blank_envelope, er_receipt = receipt_for 1, er_created_at = 5\<rparr>;
       involved = [AccountId 1 0, AccountId 1 7];
       q = \<lparr>tq_account = Some 1, tq_sub = None, tq_from_ts = None, tq_to_ts = None, tq_book = None, tq_limit = Some 5, tq_offset = None\<rparr>;
       h = \<lparr>ho_postings = \<lambda>xs. xs, ho_assets = \<lambda>xs. xs, ho_records = \<lambda>xs. xs, ho_accounts = \<lambda>xs. xs, ho_books = \<lambda>xs. xs\<rparr>;
       db = snd (sql_store_transfer scene_env r involved sql_store_new); st = snd (store_transfer r involved mem_store_new)
   in sql_get_transfers_for_account scene_env 1 None db = Inr [r, r] \<and> get_transfers_for_account h 1 None st = [r] \<and>
      rbind (sql_query_transfers scene_env q db) (\<lambda>p. Inr (pg_total p)) = Inr 2"
  by code_simp

end
