(* ===== verification/Sql_Typing.thy ===== *)
theory Sql_Typing
  imports Sql_Commit_Laws
begin

text \<open>
  Type soundness of the SQL store: the writes of the store are the steps of a relation on databases,
  every row they leave decodes to a value of its Rust type, and so no read of a
  database that the store wrote fails for any other reason than a row that is not there.
\<close>

section \<open>The writes\<close>

inductive sql_write :: "sql_env \<Rightarrow> sql_db \<Rightarrow> sql_db \<Rightarrow> bool" for se where
  write_account: "sql_write se db (snd (sql_create_account se a db))"
| write_version: "sql_write se db (snd (sql_append_account_version se a db))"
| write_reserve: "sql_write se db (snd (sql_reserve_postings ids rid db))"
| write_release: "sql_write se db (snd (sql_release_postings ids rid db))"
| write_deactivate: "sql_write se db (snd (sql_deactivate_postings ids r db))"
| write_insert: "list_all posting_wf ps \<Longrightarrow> sql_write se db (snd (sql_insert_postings ps db))"
| write_transfer: "sql_write se db (snd (sql_store_transfer se rec involved db))"
| write_event: "sql_write se db (snd (sql_append_event se c ev db))"
| write_book: "sql_write se db (snd (sql_create_book se b db))"
| write_projection: "i64_ok bal \<Longrightarrow> sql_write se db (snd (sql_append_balance_projection c acc asset bal wm db))"
| write_commit: "list_all posting_wf (cr_create req) \<Longrightarrow> sql_write se db (snd (sql_commit_envelope se c req db))"
| write_transition: "sql_write se db (snd (sql_commit_transition se c nxt ev db))"

section \<open>Rows that decode\<close>

definition posting_rows_ok :: "sql_db \<Rightarrow> bool" where
  "posting_rows_ok db \<longleftrightarrow> (\<forall>r \<in> set (db_postings db) \<union> lr_row ` set (db_live db). is_ok (row_to_posting r))"

definition account_rows_ok :: "json \<Rightarrow> account_row list \<Rightarrow> bool" where
  "account_rows_ok js rows \<longleftrightarrow> (\<forall>r \<in> set rows. is_ok (row_to_account js r))"

definition transfer_rows_ok :: "json \<Rightarrow> transfer_row list \<Rightarrow> bool" where
  "transfer_rows_ok js rows \<longleftrightarrow> (\<forall>r \<in> set rows. is_ok (row_to_record js r))"

definition event_rows_ok :: "json \<Rightarrow> event_row list \<Rightarrow> bool" where
  "event_rows_ok js rows \<longleftrightarrow> (\<forall>r \<in> set rows. is_ok (row_to_event js r))"

definition sql_typed :: "json \<Rightarrow> sql_db \<Rightarrow> bool" where
  "sql_typed js db \<longleftrightarrow> posting_rows_ok db \<and> account_rows_ok js (db_accounts db) \<and> transfer_rows_ok js (db_transfers db) \<and>
     event_rows_ok js (db_events db) \<and> (\<forall>r \<in> set (db_books db). un_book js (kr_data r) \<noteq> None) \<and>
     (\<forall>r \<in> set (db_projections db). is_ok (parse_cent (jr_balance r)))"

section \<open>Every write keeps the types\<close>

lemma set_insert_ignore: "set (snd (insert_ignore key r rows)) \<subseteq> insert r (set rows)"
  by (auto simp: insert_ignore_def)

lemma set_insert_row: "insert_row key r rows = Inr rows' \<Longrightarrow> set rows' = insert r (set rows)"
  by (auto simp: insert_row_def split: if_splits)

lemma for_chunks_keeps: "P rows \<Longrightarrow> (\<And>c rows. P rows \<Longrightarrow> P (snd (stmt c rows))) \<Longrightarrow> P (snd (for_chunks stmt ids rows))"
proof -
  assume P: "P rows" "\<And>c rows. P rows \<Longrightarrow> P (snd (stmt c rows))"
  have "P (snd (fold (\<lambda>chunk (n, rows). let (k, rows') = stmt chunk rows in (n + k, rows')) cs s))" if "P (snd s)" for cs s
    using that by (induction cs arbitrary: s) (simp_all add: split_beta Let_def P(2))
  then show ?thesis using P(1) by (simp add: for_chunks_def)
qed

lemma update_live_rows: "lr_row ` set (snd (update_where P (\<lambda>l. l\<lparr>lr_reservation := x\<rparr>) rows)) \<subseteq> lr_row ` set rows"
  by (auto simp: update_where_def split: if_splits)

lemma delete_live_rows: "lr_row ` set (snd (delete_where P rows)) \<subseteq> lr_row ` set rows"
  by (auto simp: delete_where_def)

lemma for_chunks_live:
  assumes "\<And>c rows. lr_row ` set (snd (stmt c rows)) \<subseteq> lr_row ` set rows"
  shows "lr_row ` set (snd (for_chunks stmt ids rows)) \<subseteq> lr_row ` set rows"
  by (rule for_chunks_keeps[where P = "\<lambda>rs. lr_row ` set rs \<subseteq> lr_row ` set rows"]) (use assms in blast)+

lemma posting_rows_live:
  "posting_rows_ok db \<Longrightarrow> lr_row ` set rows \<subseteq> lr_row ` set (db_live db) \<Longrightarrow> posting_rows_ok (db\<lparr>db_live := rows\<rparr>)"
  by (auto simp: posting_rows_ok_def)

lemma account_row_written: "json_ok js \<Longrightarrow> account_to_row js a = Inr r \<Longrightarrow> is_ok (row_to_account js r)"
  by (auto simp: account_to_row_def row_to_account_def serialize_json_def deserialize_json_def rbind_eq_Inr json_ok_def)

lemma transfer_row_written: "json_ok js \<Longrightarrow> record_to_row js tid rec = Inr r \<Longrightarrow> is_ok (row_to_record js r)"
  by (auto simp: row_to_record_def deserialize_json_def record_row)

lemma event_row_written:
  assumes "json_ok js" "append_event_tx js c ev rows g = (Inr (n, sq, rows'), g')" "event_rows_ok js rows"
  shows "event_rows_ok js rows'"
  using assms
  by (auto simp: append_event_tx_def Let_def rbind_eq_Inr event_rows_ok_def serialize_json_def row_to_event_def deserialize_json_def
      json_ok_def split_beta dest!: set_insert_row split: sum.splits if_splits)

lemma posting_row_written: "posting_wf p \<Longrightarrow> is_ok (row_to_posting (posting_to_row p))"
  by (simp add: row_to_posting_row)

lemma create_posting_typed: "posting_wf p \<Longrightarrow> posting_rows_ok db \<Longrightarrow> posting_rows_ok (sql_create_posting p db)"
  using set_insert_ignore[of row_key "posting_to_row p" "db_postings db"]
    set_insert_ignore[of live_key "\<lparr>lr_row = posting_to_row p, lr_reservation = None\<rparr>" "db_live db"] posting_row_written[of p]
  by (fastforce simp: posting_rows_ok_def sql_create_posting_def insert_live_def)

lemma create_postings_typed: "list_all posting_wf ps \<Longrightarrow> posting_rows_ok db \<Longrightarrow> posting_rows_ok (fold sql_create_posting ps db)"
  by (induction ps arbitrary: db) (simp_all add: create_posting_typed)

lemma create_postings_tables:
  "db_accounts (fold sql_create_posting ps db) = db_accounts db" "db_transfers (fold sql_create_posting ps db) = db_transfers db"
  "db_events (fold sql_create_posting ps db) = db_events db" "db_books (fold sql_create_posting ps db) = db_books db"
  "db_projections (fold sql_create_posting ps db) = db_projections db"
  by (induction ps arbitrary: db) (simp_all add: sql_create_posting_def)

lemma move_typed:
  assumes "sql_move_postings se req db = Inr db1" "list_all posting_wf (cr_create req)" "sql_typed js db"
  shows "sql_typed js db1"
proof -
  obtain live where live: "live = snd (for_chunks (\<lambda>chunk. delete_where (\<lambda>l. id_predicate chunk (lr_row l) \<and> lr_reservation l = None))
      (cr_consume req) (db_live db))" and db1: "db1 = fold sql_create_posting (cr_create req) (db\<lparr>db_live := live\<rparr>)"
    using assms(1) by (auto simp: sql_move_postings_def rbind_eq_Inr Let_def split_beta split: option.splits)
  have "posting_rows_ok (db\<lparr>db_live := live\<rparr>)"
    using assms(3) for_chunks_live[OF delete_live_rows] by (intro posting_rows_live) (simp_all add: sql_typed_def live)
  then show ?thesis using assms(2,3) create_postings_typed by (simp add: sql_typed_def db1 create_postings_tables)
qed

lemma posting_writes_typed:
  assumes "sql_typed js db"
  shows "sql_typed js (snd (sql_reserve_postings ids rid db))" "sql_typed js (snd (sql_release_postings ids rid db))"
    "sql_typed js (snd (sql_deactivate_postings ids r db))"
proof -
  have "sql_typed js (db\<lparr>db_live := snd (for_chunks stmt ids (db_live db))\<rparr>)"
    if "\<And>c rows. lr_row ` set (snd (stmt c rows)) \<subseteq> lr_row ` set rows" for stmt
    using assms for_chunks_live[OF that] posting_rows_live by (simp add: sql_typed_def)
  note keep = this[OF update_live_rows] this[OF delete_live_rows]
  show "sql_typed js (snd (sql_reserve_postings ids rid db))" "sql_typed js (snd (sql_release_postings ids rid db))"
    "sql_typed js (snd (sql_deactivate_postings ids r db))"
    using assms keep
    by (simp_all add: sql_reserve_postings_def sql_release_postings_def sql_deactivate_postings_def split_beta Let_def)
qed

lemma insert_typed: "list_all posting_wf ps \<Longrightarrow> sql_typed js db \<Longrightarrow> sql_typed js (snd (sql_insert_postings ps db))"
proof -
  let ?step = "\<lambda>p (n :: nat, db). let (k, rows) = insert_ignore row_key (posting_to_row p) (db_postings db)
     in if k = 1 then (n + 1, db\<lparr>db_postings := rows, db_live := insert_live p (db_live db)\<rparr>) else (n, db\<lparr>db_postings := rows\<rparr>)"
  have step: "sql_typed js (snd (?step p (n, db)))" if p: "posting_wf p" and db: "sql_typed js db" for p n db
  proof (cases "row_key (posting_to_row p) \<in> row_key ` set (db_postings db)")
    case True
    then show ?thesis using db by (simp add: insert_ignore_def)
  next
    case False
    then have "snd (?step p (n, db)) = sql_create_posting p db" by (simp add: insert_ignore_def sql_create_posting_def)
    then show ?thesis using db create_posting_typed[OF p] create_postings_tables[of "[p]"] by (simp add: sql_typed_def)
  qed
  have "sql_typed js (snd (fold ?step ps s))" if "list_all posting_wf ps" "sql_typed js (snd s)" for s
    using that
  proof (induction ps arbitrary: s)
    case (Cons p ps)
    have "sql_typed js (snd (?step p (fst s, snd s)))" using Cons.prems by (intro step) simp_all
    then show ?case using Cons.IH[of "?step p s"] Cons.prems by simp
  qed simp
  then show "list_all posting_wf ps \<Longrightarrow> sql_typed js db \<Longrightarrow> sql_typed js (snd (sql_insert_postings ps db))"
    unfolding sql_insert_postings_def by simp
qed

lemma account_rows_grow:
  assumes "json_ok js" "account_to_row js a = Inr r" "account_rows_ok js rows"
  shows "account_rows_ok js (snd (insert_ignore account_key r rows))"
  using assms account_row_written[OF assms(1,2)] set_insert_ignore[of account_key r rows] by (auto simp: account_rows_ok_def)

lemma transfer_rows_grow:
  assumes "json_ok js" "record_to_row js tid rec = Inr r" "transfer_rows_ok js rows"
  shows "transfer_rows_ok js (snd (insert_ignore tr_id r rows))"
  using assms transfer_row_written[OF assms(1,2)] set_insert_ignore[of tr_id r rows] by (auto simp: transfer_rows_ok_def)

lemmas typed_fields = sql_typed_def posting_rows_ok_def

lemma account_writes_typed:
  assumes js: "json_ok (sq_json se)" and t: "sql_typed (sq_json se) db"
  shows "sql_typed (sq_json se) (snd (sql_create_account se a db))" "sql_typed (sq_json se) (snd (sql_append_account_version se a db))"
proof -
  have grow: "account_rows_ok (sq_json se) (snd (insert_ignore account_key r (db_accounts db)))"
    if "account_to_row (sq_json se) a = Inr r" for r
    using account_rows_grow[OF js that] t by (simp add: sql_typed_def)
  show "sql_typed (sq_json se) (snd (sql_create_account se a db))"
    using t grow by (auto simp: sql_create_account_def Let_def split_beta typed_fields split: sum.splits)
  show "sql_typed (sq_json se) (snd (sql_append_account_version se a db))"
    using t grow
    by (auto simp: sql_append_account_version_def Let_def split_beta typed_fields split: sum.splits option.splits)
qed

lemma record_writes_typed:
  assumes js: "json_ok (sq_json se)" and t: "sql_typed (sq_json se) db"
  shows "sql_typed (sq_json se) (snd (sql_store_transfer se rec involved db))" "sql_typed (sq_json se) (snd (sql_append_event se c ev db))"
    "sql_typed (sq_json se) (snd (sql_create_book se b db))" 
    "i64_ok bal \<Longrightarrow> sql_typed (sq_json se) (snd (sql_append_balance_projection c acc asset bal wm db))"
proof -
  show "sql_typed (sq_json se) (snd (sql_store_transfer se rec involved db))"
    using t transfer_rows_grow[OF js, of _ rec _ "db_transfers db"]
    by (auto simp: sql_store_transfer_def Let_def split_beta typed_fields split: sum.splits)
  show "sql_typed (sq_json se) (snd (sql_append_event se c ev db))"
    using t event_row_written[OF js, of c ev "db_events db" "db_autoid db"]
    by (auto simp: sql_append_event_def typed_fields split: sum.splits prod.splits)
  show "sql_typed (sq_json se) (snd (sql_create_book se b db))"
    using t js by (auto simp: sql_create_book_def insert_ignore_def serialize_json_def json_ok_def typed_fields split: sum.splits option.splits)
  show "sql_typed (sq_json se) (snd (sql_append_balance_projection c acc asset bal wm db))" if "i64_ok bal"
    using t that
    by (auto simp: sql_append_balance_projection_def Let_def typed_fields parse_cent_show split_beta dest!: set_insert_row split: sum.splits)
qed

lemma commit_typed:
  assumes js: "json_ok (sq_json se)" and t: "sql_typed (sq_json se) db" and wf: "list_all posting_wf (cr_create req)"
  shows "sql_typed (sq_json se) (snd (sql_commit_envelope se c req db))"
proof (cases "sql_move_postings se req db")
  case (Inl x)
  then show ?thesis using t by (cases x) (simp_all add: sql_commit_envelope_def split: option.splits)
next
  case (Inr db1)
  have t1: "sql_typed (sq_json se) db1" by (rule move_typed[OF Inr wf t])
  then show ?thesis
    using Inr t event_row_written[OF js, of c "cr_event req" "db_events db1" "db_autoid db1"]
      transfer_rows_grow[OF js, of "cr_transfer_id req" "cr_record req" _ "db_transfers db1"]
    by (auto simp: sql_commit_envelope_def typed_fields split: sum.splits option.splits prod.splits)
qed

lemma transition_typed:
  assumes js: "json_ok (sq_json se)" and t: "sql_typed (sq_json se) db"
  shows "sql_typed (sq_json se) (snd (sql_commit_transition se c nxt ev db))"
  using t event_row_written[OF js, of c ev "db_events db" "db_autoid db"] account_rows_grow[OF js, of nxt _ "db_accounts db"]
  by (auto simp: sql_commit_transition_def Let_def typed_fields split: sum.splits option.splits prod.splits)

lemma write_typed: "sql_write se db db' \<Longrightarrow> json_ok (sq_json se) \<Longrightarrow> sql_typed (sq_json se) db \<Longrightarrow> sql_typed (sq_json se) db'"
  by (induction rule: sql_write.induct)
    (simp_all add: account_writes_typed posting_writes_typed insert_typed record_writes_typed commit_typed transition_typed)

section \<open>Reads of a typed database\<close>

text \<open>A read that can only fail because the entity is absent.\<close>

definition found_or_missing :: "store_error fault + 'a \<Rightarrow> bool" where
  "found_or_missing m = (case m of Inr _ \<Rightarrow> True | Inl (Fail (NotFound _)) \<Rightarrow> True | Inl _ \<Rightarrow> False)"

lemma found_simps [simp]: "found_or_missing (Inr a)" "found_or_missing (Inl (Fail (NotFound i)))"
  by (simp_all add: found_or_missing_def)

lemma found_bind: "found_or_missing m \<Longrightarrow> (\<And>a. m = Inr a \<Longrightarrow> is_ok (f a)) \<Longrightarrow> found_or_missing (rbind m f)"
  by (cases m) (auto simp: is_ok_iff found_or_missing_def split: fault.splits store_error.splits)

lemma found_required: "found_or_missing (ok_or (Fail (NotFound i)) x)"
  by (cases x) simp_all

lemma try_map_found: "\<forall>x \<in> set xs. found_or_missing (f x) \<Longrightarrow> found_or_missing (try_map f xs)"
proof (induction xs)
  case (Cons x xs)
  then show ?case
    by (cases "f x"; cases "try_map f xs") (auto simp: found_or_missing_def split: fault.splits store_error.splits)
qed simp

lemma try_fold_ok: "(\<And>s a. a \<in> set as \<Longrightarrow> is_ok (f s a)) \<Longrightarrow> is_ok (try_fold f s as)"
proof (induction as arbitrary: s)
  case (Cons a as)
  have "is_ok (f s a)" using Cons.prems by simp
  then obtain s' where "f s a = Inr s'" by (auto simp: is_ok_iff)
  then show ?case using Cons by simp
qed simp

lemma is_ok_bind: "is_ok m \<Longrightarrow> (\<And>a. m = Inr a \<Longrightarrow> is_ok (f a)) \<Longrightarrow> is_ok (rbind m f)"
  by (cases m) auto

lemma set_orders:
  assumes "sql_env_ok se"
  shows "set (sq_postings se rs) = set rs" "set (sq_accounts se as) = set as" "set (sq_transfers se ts) = set ts" "set (sq_books se bs) = set bs"
  using assms by (auto simp: sql_env_ok_def intro!: mset_eq_setD)

lemma head_rows_sub: "set (head_rows db P) \<subseteq> set (db_accounts db)"
  by (auto simp: head_rows_def)

lemma join_sub: "set (join_accounts db P) \<subseteq> set (db_transfers db)"
  by (auto simp: join_accounts_def)

lemma source_typed: "posting_rows_ok db \<Longrightarrow> r \<in> set (filter_source f db) \<Longrightarrow> is_ok (row_to_posting r)"
  by (cases f) (auto simp: posting_rows_ok_def filter_source_def)

lemma account_reads:
  assumes env: "sql_env_ok se" and typed: "sql_typed (sq_json se) db"
  shows "found_or_missing (sql_get_account se aid db)" "found_or_missing (sql_get_accounts se ids db)"
  "found_or_missing (sql_get_account_history se aid db)" "is_ok (sql_list_accounts se db)"
proof -
  have row: "is_ok (row_to_account (sq_json se) r)" if "r \<in> set (db_accounts db)" for r
    using typed that by (simp add: sql_typed_def account_rows_ok_def)
  have get: "found_or_missing (sql_get_account se aid db)" for aid
    unfolding sql_get_account_def
    by (rule found_bind) (use head_rows_sub row set_orders[OF env] fetch_optional_in in \<open>fastforce simp: found_required\<close>)+
  show "found_or_missing (sql_get_account se aid db)" by (rule get)
  show "found_or_missing (sql_get_accounts se ids db)" unfolding sql_get_accounts_def by (rule try_map_found) (simp add: get)
  have "is_ok (try_map (row_to_account (sq_json se)) (sort_key ar_version
      (sq_accounts se (filter (\<lambda>a. ar_id a = aid_id aid \<and> ar_subaccount a = aid_sub aid) (db_accounts db)))))"
    by (rule try_map_ok) (simp add: set_orders[OF env] row)
  then show "found_or_missing (sql_get_account_history se aid db)" by (auto simp: sql_get_account_history_def Let_def is_ok_iff)
  show "is_ok (sql_list_accounts se db)"
    unfolding sql_list_accounts_def by (rule try_map_ok) (use head_rows_sub row in \<open>auto simp: set_orders[OF env]\<close>)
qed

lemma posting_reads:
  assumes env: "sql_env_ok se" and typed: "sql_typed (sq_json se) db"
  shows "found_or_missing (sql_get_postings se pids db)" "is_ok (sql_get_postings_by_account se i sub asset f db)"
  "is_ok (sql_query_postings se q db)"
proof -
  have rows: "posting_rows_ok db" using typed by (simp add: sql_typed_def)
  have all: "is_ok (row_to_posting r)" if "r \<in> set (db_postings db)" for r
    using rows that by (simp add: posting_rows_ok_def)
  let ?add = "\<lambda>found r. rbind (row_to_posting r) (\<lambda>p. Inr (AList.update (id_key (p_id p)) p found))"
  have "is_ok (try_fold ?add found (sq_postings se (filter (id_predicate c) (db_postings db))))" for found c
    by (rule try_fold_ok, rule is_ok_bind) (simp_all add: set_orders[OF env] all)
  then have "is_ok (try_fold (\<lambda>found c. try_fold ?add found (sq_postings se (filter (id_predicate c) (db_postings db)))) [] (chunks MAX_IDS_PER_QUERY pids))"
    by (rule try_fold_ok)
  then show "found_or_missing (sql_get_postings se pids db)"
    by (auto simp: sql_get_postings_def is_ok_iff found_required intro!: try_map_found)
  show "is_ok (sql_get_postings_by_account se i sub asset f db)"
    unfolding sql_get_postings_by_account_def by (rule try_map_ok) (auto simp: set_orders[OF env] source_typed[OF rows])
  have "is_ok (try_map row_to_posting (take n (drop m (sort_key row_key
      (sq_postings se (filter (row_matches (pq_account q) (pq_sub q) (pq_asset q)) (filter_source (pq_filter q) db)))))))" for n m
    by (rule try_map_ok) (auto simp: set_orders[OF env] source_typed[OF rows] dest!: in_set_takeD in_set_dropD)
  then show "is_ok (sql_query_postings se q db)"
    unfolding sql_query_postings_def Let_def split_beta by (intro is_ok_bind) simp_all
qed

lemma transfer_reads:
  assumes env: "sql_env_ok se" and typed: "sql_typed (sq_json se) db"
  shows "is_ok (sql_get_transfer se tid db)" "is_ok (sql_get_transfers_for_account se i sub db)" "is_ok (sql_query_transfers se tq db)"
proof -
  have row: "is_ok (row_to_record (sq_json se) r)" if "r \<in> set (db_transfers db)" for r
    using typed that by (simp add: sql_typed_def transfer_rows_ok_def)
  show "is_ok (sql_get_transfer se tid db)"
    using row fetch_optional_in by (fastforce simp: sql_get_transfer_def intro!: is_ok_bind split: option.splits)
  show "is_ok (sql_get_transfers_for_account se i sub db)"
    unfolding sql_get_transfers_for_account_def by (rule try_map_ok) (use join_sub row in \<open>auto simp: set_orders[OF env]\<close>)
  have "is_ok (try_map (row_to_record (sq_json se)) (take n (drop m (sort_key tr_created_at (sq_transfers se (filter P
      (case tq_account tq of Some a \<Rightarrow> join_accounts db (index_matches a (tq_sub tq)) | None \<Rightarrow> db_transfers db)))))))" for n m P
    by (rule try_map_ok)
      (use join_sub row in \<open>fastforce simp: set_orders[OF env] dest!: in_set_takeD in_set_dropD split: option.splits\<close>)
  then show "is_ok (sql_query_transfers se tq db)"
    unfolding sql_query_transfers_def Let_def split_beta by (intro is_ok_bind) simp_all
qed

lemma other_reads:
  assumes env: "sql_env_ok se" and typed: "sql_typed (sq_json se) db"
  shows "found_or_missing (sql_get_book se b db)" "is_ok (sql_list_books se db)" "is_ok (sql_get_closest_balance_projection acc asset as_of db)"
  "is_ok (sql_get_events_since se n k db) \<or> sq_dialect se = Postgres \<and> as_i32 k < 0"
proof -
  have book: "is_ok (deserialize_json (un_book (sq_json se)) (kr_data r))" if "r \<in> set (db_books db)" for r
    using typed that by (auto simp: sql_typed_def deserialize_json_def)
  show "found_or_missing (sql_get_book se b db)"
    unfolding sql_get_book_def by (rule found_bind) (use book fetch_optional_in in \<open>fastforce simp: found_required\<close>)+
  show "is_ok (sql_list_books se db)"
    unfolding sql_list_books_def by (rule try_map_ok) (simp add: set_orders[OF env] book)
  show "is_ok (sql_get_closest_balance_projection acc asset as_of db)"
    unfolding sql_get_closest_balance_projection_def
    using typed by (fastforce simp: sql_typed_def intro!: is_ok_bind split: option.splits dest!: fetch_optional_in)
  have evs: "is_ok (try_map (row_to_event (sq_json se)) rows)" if "set rows \<subseteq> set (db_events db)" for rows
    using typed that by (intro try_map_ok) (auto simp: sql_typed_def event_rows_ok_def)
  then show "is_ok (sql_get_events_since se n k db) \<or> sq_dialect se = Postgres \<and> as_i32 k < 0"
    using set_take_subset[of "nat (as_i32 k)" "sort_key vr_seq (filter (\<lambda>r. vr_seq r > as_i64 n) (db_events db))"]
    by (auto simp: sql_get_events_since_def Let_def intro!: evs)
qed

section \<open>Type soundness\<close>

lemma writes_typed:
  assumes "json_ok (sq_json se)" "(sql_write se)\<^sup>*\<^sup>* sql_store_new db"
  shows "sql_typed (sq_json se) db"
  using assms(2)
proof (induction rule: rtranclp_induct)
  case base
  then show ?case by (simp add: sql_typed_def sql_store_new_def posting_rows_ok_def account_rows_ok_def transfer_rows_ok_def event_rows_ok_def)
qed (rule write_typed[OF _ assms(1)])

text \<open>
  C36: type soundness of the SQL store. After any writes of the store on an empty
  database, in any order and whatever they return, every row decodes: a read of an account, a
  version history, postings by id or a book succeeds or reports that the entity is not found,
  and every other read succeeds, except that PostgreSQL refuses an event page of 2^31
  rows or more, whose limit is bound as a negative number.
\<close>

theorem sql_reads_decode:
  assumes "sql_env_ok se" "json_ok (sq_json se)" "(sql_write se)\<^sup>*\<^sup>* sql_store_new db"
  shows "found_or_missing (sql_get_account se aid db) \<and> found_or_missing (sql_get_accounts se ids db) \<and>
     found_or_missing (sql_get_account_history se aid db) \<and> is_ok (sql_list_accounts se db) \<and>
     found_or_missing (sql_get_postings se pids db) \<and> is_ok (sql_get_postings_by_account se i sub asset f db) \<and>
     is_ok (sql_query_postings se pq db) \<and> is_ok (sql_get_transfer se tid db) \<and>
     is_ok (sql_get_transfers_for_account se i sub db) \<and> is_ok (sql_query_transfers se tq db) \<and>
     found_or_missing (sql_get_book se b db) \<and> is_ok (sql_list_books se db) \<and>
     is_ok (sql_get_closest_balance_projection acc a as_of db) \<and>
     (is_ok (sql_get_events_since se n k db) \<or> sq_dialect se = Postgres \<and> as_i32 k < 0)"
proof -
  have t: "sql_typed (sq_json se) db" by (rule writes_typed[OF assms(2,3)])
  note env = assms(1)
  show ?thesis
    by (intro conjI account_reads[OF env t] posting_reads[OF env t] transfer_reads[OF env t] other_reads[OF env t])
qed

text \<open>An account is created, a posting of it inserted, reserved and read.\<close>

theorem sql_reads_decode_witness:
  "let se = plain_env (table_json [[]] [] [] [] []); i = PostingId (EnvelopeId (replicate 32 7)) 0;
       a = \<lparr>acc_id = AccountId 1 0, acc_version = 1, acc_flags = 0, acc_book = BookId 0, acc_metadata = []\<rparr>;
       p = \<lparr>p_id = i, p_owner = AccountId 1 0, p_asset = AssetId 1, p_value = -5\<rparr>;
       db = snd (sql_reserve_postings [i] (ReservationId 9) (snd (sql_insert_postings [p] (snd (sql_create_account se a sql_store_new)))))
   in found_or_missing (sql_get_account se (AccountId 1 0) db) \<and> is_ok (sql_get_postings_by_account se 1 None None FilterLive db) \<and>
      length (db_live db) = 1 \<and> length (db_accounts db) = 1"
proof -
  define se where "se = plain_env (table_json [[]] [] [] [] [])"
  define i where "i = PostingId (EnvelopeId (replicate 32 7)) 0"
  define a where "a = \<lparr>acc_id = AccountId 1 0, acc_version = 1, acc_flags = 0, acc_book = BookId 0, acc_metadata = []\<rparr>"
  define p where "p = \<lparr>p_id = i, p_owner = AccountId 1 0, p_asset = AssetId 1, p_value = -5\<rparr>"
  define db1 where "db1 = snd (sql_create_account se a sql_store_new)"
  define db2 where "db2 = snd (sql_insert_postings [p] db1)"
  define db where "db = snd (sql_reserve_postings [i] (ReservationId 9) db2)"
  have "list_all posting_wf [p]" by (simp add: posting_wf_def p_def i_def range_defs)
  then have "sql_write se sql_store_new db1" "sql_write se db1 db2" "sql_write se db2 db"
    unfolding db1_def db2_def db_def by (simp_all only: sql_write.intros)
  then have "(sql_write se)\<^sup>*\<^sup>* sql_store_new db" by (meson r_into_rtranclp rtranclp_trans)
  moreover have "sql_env_ok se" "json_ok (sq_json se)" by (simp_all add: se_def plain_env_ok) (simp add: plain_env_def json_ok_table)
  ultimately have "found_or_missing (sql_get_account se (AccountId 1 0) db)" "is_ok (sql_get_postings_by_account se 1 None None FilterLive db)"
    using sql_reads_decode by blast+
  moreover have "length (db_accounts db1) = 1" "db_live db1 = []" "db_postings db1 = []"
    by (simp_all add: db1_def sql_create_account_def se_def plain_env_def table_json_def account_to_row_def a_def serialize_json_def table_write_def
        sql_store_new_def insert_ignore_def)
  then have "length (db_accounts db2) = 1" "length (db_live db2) = 1"
    by (simp_all add: db2_def sql_insert_postings_def insert_ignore_def insert_live_def)
  then have "length (db_live db) = 1" "length (db_accounts db) = 1"
    by (simp_all add: db_def sql_reserve_postings_def for_chunks_def chunks.simps[of _ "[i]"] chunks.simps[of _ "[]"] MAX_IDS_PER_QUERY_def update_where_def split_beta Let_def)
  ultimately show ?thesis by (simp add: db_def db2_def db1_def p_def a_def i_def se_def Let_def)
qed

end
