(* ===== verification/Sql_Migrate.thy ===== *)
theory Sql_Migrate
  imports Sql_Store
begin

text \<open>
  \<^verbatim>\<open>kuatia-storage-sql/src/migrate.rs\<close>: the migrations run in order, each as one transaction that
  executes its statements and records its name, and a recorded one is skipped. The engine
  that executes a statement of the migration files, and the text of those files, are
  arguments; a failure of the engine at \<open>BEGIN\<close> or \<open>COMMIT\<close> acts like one at a statement.
\<close>

section \<open>The runner\<close>

record 's schema_db =
  sd_schema :: 's
  sd_applied :: "rstr list option"

type_synonym 's engine = "rstr \<Rightarrow> 's \<Rightarrow> store_error fault + 's"

definition MIGRATIONS :: "string list" where
  "MIGRATIONS = [''001_init'', ''002_subaccounts'', ''003_drop_user_data'', ''004_index_tables'', ''005_account_head'',
     ''006_drop_policy'', ''007_balance_projection'', ''008_live_postings'', ''009_saga_kind'', ''010_drop_sagas'']"

text \<open>\<open>split(';')\<close> keeps empty pieces; the loop trims each piece and skips the empty ones.\<close>

fun split_char :: "uchar \<Rightarrow> rstr \<Rightarrow> rstr list" where
  "split_char c [] = [[]]"
| "split_char c (d # ds) = (if d = c then [] # split_char c ds
     else (case split_char c ds of [] \<Rightarrow> [[d]] | p # ps \<Rightarrow> (d # p) # ps))"

definition statements :: "rstr \<Rightarrow> rstr list" where
  "statements sql = filter (\<lambda>s. s \<noteq> []) (map trim (split_char 59 sql))"

definition create_ledger_table :: "'s schema_db \<Rightarrow> 's schema_db" where
  "create_ledger_table db = (case sd_applied db of Some _ \<Rightarrow> db | None \<Rightarrow> db\<lparr>sd_applied := Some []\<rparr>)"

definition applied_names :: "'s schema_db \<Rightarrow> rstr list" where
  "applied_names db = (case sd_applied db of Some ns \<Rightarrow> ns | None \<Rightarrow> [])"

text \<open>The transaction of one migration: the database it commits, or the error that rolls it back.\<close>

definition migration_tx :: "'s engine \<Rightarrow> rstr \<Rightarrow> rstr \<Rightarrow> 's schema_db \<Rightarrow> store_error fault + 's schema_db" where
  "migration_tx exec name sql db =
     rbind (try_fold (\<lambda>s stmt. exec stmt s) (sd_schema db) (statements sql)) (\<lambda>s.
     rbind (insert_row id name (applied_names db)) (\<lambda>ns.
     Inr \<lparr>sd_schema = s, sd_applied = Some ns\<rparr>))"

fun run_migrations :: "'s engine \<Rightarrow> (rstr \<times> rstr) list \<Rightarrow> 's schema_db \<Rightarrow> (store_error fault + unit) \<times> 's schema_db" where
  "run_migrations exec [] db = (Inr (), db)"
| "run_migrations exec ((name, sql) # ms) db =
     (if name \<in> set (applied_names db) then run_migrations exec ms db
      else case migration_tx exec name sql db of
        Inl e \<Rightarrow> (Inl e, db)
      | Inr db' \<Rightarrow> run_migrations exec ms db')"

definition migrate :: "'s engine \<Rightarrow> (string \<Rightarrow> rstr) \<Rightarrow> 's schema_db \<Rightarrow> (store_error fault + unit) \<times> 's schema_db" where
  "migrate exec file db = run_migrations exec (map (\<lambda>n. (lit n, file n)) MIGRATIONS) (create_ledger_table db)"

section \<open>Splitting loses nothing\<close>

lemma split_char_join: "concat (map (\<lambda>p. p @ [c]) (split_char c s)) = s @ [c]"
  by (induction s) (auto split: list.splits)

lemma split_char_free: "p \<in> set (split_char c s) \<Longrightarrow> c \<notin> set p"
  by (induction s arbitrary: p) (auto split: list.splits if_splits)

section \<open>Whole migrations, once each\<close>

lemma tx_applied:
  "migration_tx exec name sql db = Inr db' \<Longrightarrow> applied_names db' = applied_names db @ [name] \<and> name \<notin> set (applied_names db)"
  by (auto simp: migration_tx_def rbind_eq_Inr insert_row_def applied_names_def split: if_splits option.splits)

lemma run_cases:
  assumes "run_migrations exec ((name, sql) # ms) db = (r, db')"
  obtains (skip) "name \<in> set (applied_names db)" "run_migrations exec ms db = (r, db')"
    | (stop) e where "name \<notin> set (applied_names db)" "migration_tx exec name sql db = Inl e" "r = Inl e" "db' = db"
    | (go) db1 where "name \<notin> set (applied_names db)" "migration_tx exec name sql db = Inr db1" "run_migrations exec ms db1 = (r, db')"
  using assms by (cases "migration_tx exec name sql db") (auto split: if_splits)

lemma run_grows: "run_migrations exec ms db = (r, db') \<Longrightarrow> set (applied_names db) \<subseteq> set (applied_names db')"
proof (induction exec ms db rule: run_migrations.induct)
  case (2 exec name sql ms db)
  from 2(3) show ?case
  proof (cases rule: run_cases)
    case (go db1)
    then show ?thesis using 2(2)[of db1] tx_applied[OF go(2)] by auto
  qed (use 2(1) in simp_all)
qed simp

lemma run_distinct: "run_migrations exec ms db = (r, db') \<Longrightarrow> distinct (applied_names db) \<Longrightarrow> distinct (applied_names db')"
proof (induction exec ms db rule: run_migrations.induct)
  case (2 exec name sql ms db)
  from 2(3) show ?case
  proof (cases rule: run_cases)
    case (go db1)
    then show ?thesis using 2(2)[of db1] 2(4) tx_applied[OF go(2)] by simp
  qed (use 2(1,4) in simp_all)
qed simp

lemma run_done: "run_migrations exec ms db = (Inr (), db') \<Longrightarrow> fst ` set ms \<subseteq> set (applied_names db')"
proof (induction exec ms db rule: run_migrations.induct)
  case (2 exec name sql ms db)
  from 2(3) show ?case
  proof (cases rule: run_cases)
    case skip
    then show ?thesis using 2(1) run_grows[OF skip(2)] by auto
  next
    case (go db1)
    then show ?thesis using 2(2)[of db1] run_grows[OF go(3)] tx_applied[OF go(2)] by auto
  qed simp_all
qed simp

lemma run_skips: "fst ` set ms \<subseteq> set (applied_names db) \<Longrightarrow> run_migrations exec ms db = (Inr (), db)"
  by (induction exec ms db rule: run_migrations.induct) auto

text \<open>A run that stops has run a prefix to its end.\<close>

lemma run_prefix:
  "run_migrations exec ms db = (Inl e, db') \<Longrightarrow>
     \<exists>ms1 name sql ms2. ms = ms1 @ (name, sql) # ms2 \<and> run_migrations exec ms1 db = (Inr (), db') \<and>
       name \<notin> set (applied_names db') \<and> migration_tx exec name sql db' = Inl e"
proof (induction exec ms db rule: run_migrations.induct)
  case (2 exec name sql ms db)
  from 2(3) show ?case
  proof (cases rule: run_cases)
    case skip
    then obtain ms1 n s ms2 where "ms = ms1 @ (n, s) # ms2" "run_migrations exec ms1 db = (Inr (), db')"
      "n \<notin> set (applied_names db')" "migration_tx exec n s db' = Inl e"
      using 2(1) by blast
    then show ?thesis using skip by (intro exI[of _ "(name, sql) # ms1"]) auto
  next
    case (stop e')
    then show ?thesis by (intro exI[of _ "[]"] exI[of _ name] exI[of _ sql] exI[of _ ms]) simp
  next
    case (go db1)
    then obtain ms1 n s ms2 where "ms = ms1 @ (n, s) # ms2" "run_migrations exec ms1 db1 = (Inr (), db')"
      "n \<notin> set (applied_names db')" "migration_tx exec n s db' = Inl e"
      using 2(2)[of db1] by blast
    then show ?thesis using go by (intro exI[of _ "(name, sql) # ms1"]) auto
  qed
qed simp

text \<open>Running a prefix first changes nothing: the rest resumes where it stopped.\<close>

lemma run_append:
  "run_migrations exec ms1 db = (Inr (), db1) \<Longrightarrow> run_migrations exec (ms1 @ ms2) db = run_migrations exec ms2 db1"
  by (induction exec ms1 db rule: run_migrations.induct) (auto split: if_splits sum.splits)

text \<open>
  C38: migrating is idempotent and all-or-nothing per migration. After a run that succeeds every
  migration is recorded once, and running again, with any engine, executes nothing. A run that
  fails leaves the database as a successful run of the migrations before the failing one left
  it, and a later run resumes there: it does what it would do with only the failing
  migration and those after it.
\<close>

theorem migrate_resumes:
  assumes "migrate exec file db = (r, db')" "distinct (applied_names db)"
  shows "distinct (applied_names db') \<and>
     (r = Inr () \<longrightarrow> lit ` set MIGRATIONS \<subseteq> set (applied_names db') \<and> migrate exec' file' db' = (Inr (), db')) \<and>
     (r \<noteq> Inr () \<longrightarrow> (\<exists>ran name rest. MIGRATIONS = ran @ name # rest \<and>
        run_migrations exec (map (\<lambda>n. (lit n, file n)) ran) (create_ledger_table db) = (Inr (), db') \<and>
        migrate exec' file' db' = run_migrations exec' (map (\<lambda>n. (lit n, file' n)) (name # rest)) db'))"
proof (intro conjI impI)
  let ?ms = "map (\<lambda>n. (lit n, file n)) MIGRATIONS" and ?db = "create_ledger_table db"
  have run: "run_migrations exec ?ms ?db = (r, db')" using assms(1) by (simp add: migrate_def)
  have names: "applied_names ?db = applied_names db" by (simp add: create_ledger_table_def applied_names_def split: option.splits)
  show "distinct (applied_names db')" using run_distinct[OF run] assms(2) names by simp
  have table: "create_ledger_table db' = db'"
  proof -
    have keep: "sd_applied d \<noteq> None \<Longrightarrow> run_migrations ex ms d = (q, d') \<Longrightarrow> sd_applied d' \<noteq> None" for ex ms d q d'
      by (induction ex ms d rule: run_migrations.induct)
        (auto simp: migration_tx_def rbind_eq_Inr split: if_splits sum.splits)
    have "sd_applied ?db \<noteq> None" by (simp add: create_ledger_table_def split: option.splits)
    from keep[OF this run] show ?thesis by (auto simp: create_ledger_table_def)
  qed
  {
    assume "r = Inr ()"
    then have "fst ` set ?ms \<subseteq> set (applied_names db')" using run_done run by blast
    then show all: "lit ` set MIGRATIONS \<subseteq> set (applied_names db')" by (simp add: image_image)
    then show "migrate exec' file' db' = (Inr (), db')" by (simp add: migrate_def table run_skips image_image)
  }
  {
    assume "r \<noteq> Inr ()"
    then obtain e where "r = Inl e" by (cases r) auto
    then obtain ms1 nm sql ms2 where split: "?ms = ms1 @ (nm, sql) # ms2" and pre: "run_migrations exec ms1 ?db = (Inr (), db')"
      using run_prefix run by blast
    from split obtain don name rest where ns: "MIGRATIONS = don @ name # rest" "ms1 = map (\<lambda>n. (lit n, file n)) don"
      by (auto simp: map_eq_append_conv map_eq_Cons_conv)
    have "fst ` set ms1 \<subseteq> set (applied_names db')" by (rule run_done[OF pre])
    then have "run_migrations exec' (map (\<lambda>n. (lit n, file' n)) don) db' = (Inr (), db')"
      by (intro run_skips) (simp add: ns(2) image_image)
    then have "migrate exec' file' db' = run_migrations exec' (map (\<lambda>n. (lit n, file' n)) (name # rest)) db'"
      unfolding migrate_def table ns(1) map_append by (rule run_append)
    then show "\<exists>ran name rest. MIGRATIONS = ran @ name # rest \<and>
        run_migrations exec (map (\<lambda>n. (lit n, file n)) ran) ?db = (Inr (), db') \<and>
        migrate exec' file' db' = run_migrations exec' (map (\<lambda>n. (lit n, file' n)) (name # rest)) db'"
      using ns pre by blast
  }
qed

text \<open>An engine that logs the statements and refuses one of them, and files in which the fourth migration is refused.\<close>

definition logging_engine :: "rstr list engine" where
  "logging_engine stmt log = (if stmt = [98] then Inl (Fail (Internal DatabaseError)) else Inr (log @ [stmt]))"

definition sample_file :: "string \<Rightarrow> rstr" where
  "sample_file name = (if name = ''004_index_tables'' then [99, 59, 98] else [97, 59, 32])"

definition fresh_schema :: "rstr list schema_db" where
  "fresh_schema = \<lparr>sd_schema = [], sd_applied = None\<rparr>"

lemma lit_inject: "lit s = lit t \<longleftrightarrow> s = t"
  unfolding lit_def by (rule inj_map_eq_map) (simp add: inj_on_def)

lemma sample_run: "migrate logging_engine sample_file fresh_schema =
    (Inl (Fail (Internal DatabaseError)), \<lparr>sd_schema = [[97], [97], [97]], sd_applied = Some (map lit (take 3 MIGRATIONS))\<rparr>)"
  by (simp add: migrate_def MIGRATIONS_def fresh_schema_def create_ledger_table_def applied_names_def migration_tx_def statements_def
      sample_file_def logging_engine_def trim_def is_whitespace_def insert_row_def lit_inject)

theorem migrate_resumes_witness:
  "\<exists>db' ran name rest. migrate logging_engine sample_file fresh_schema = (Inl (Fail (Internal DatabaseError)), db') \<and>
     distinct (applied_names db') \<and> sd_schema db' = [[97], [97], [97]] \<and> MIGRATIONS = ran @ name # rest \<and>
     migrate (\<lambda>stmt log. Inr (log @ [stmt])) sample_file db' =
       run_migrations (\<lambda>stmt log. Inr (log @ [stmt])) (map (\<lambda>n. (lit n, sample_file n)) (name # rest)) db'"
proof -
  have "distinct (applied_names fresh_schema)" by (simp add: fresh_schema_def applied_names_def)
  note run = migrate_resumes[OF sample_run this, of "\<lambda>stmt log. Inr (log @ [stmt])" sample_file]
  moreover from run obtain ran name rest where "MIGRATIONS = ran @ name # rest"
    "migrate (\<lambda>stmt log. Inr (log @ [stmt])) sample_file \<lparr>sd_schema = [[97], [97], [97]], sd_applied = Some (map lit (take 3 MIGRATIONS))\<rparr> =
       run_migrations (\<lambda>stmt log. Inr (log @ [stmt])) (map (\<lambda>n. (lit n, sample_file n)) (name # rest))
         \<lparr>sd_schema = [[97], [97], [97]], sd_applied = Some (map lit (take 3 MIGRATIONS))\<rparr>"
    by blast
  ultimately show ?thesis unfolding sample_run
    by (intro exI[of _ "\<lparr>sd_schema = [[97], [97], [97]], sd_applied = Some (map lit (take 3 MIGRATIONS))\<rparr>"] exI[of _ ran] exI[of _ name] exI[of _ rest]) simp
qed

end
