(* ===== verification/Dashboard_Data.thy ===== *)
theory Dashboard_Data
  imports Ledger_Steps Account_Code
begin

text \<open>
  \<^verbatim>\<open>kuatia-dashboard/src/{data,assets,seed,api}.rs\<close>: the asset registry, the demo data, and the
  read-only builders that the JSON handlers and the HTML views share. A builder is an
  action on the world of the ledger whose error is an \<open>ApiError\<close>. The handlers and routes are in
  \<open>Dashboard_Server\<close>; JSON encoding and the connection to a database are not modelled.
\<close>

section \<open>Actions with their own error\<close>

type_synonym ('e, 'a) act = "world \<Rightarrow> ('e fault + 'a) \<times> world"

definition areturn :: "'a \<Rightarrow> ('e, 'a) act" where
  "areturn a w = (Inr a, w)"

definition afail :: "'e \<Rightarrow> ('e, 'a) act" where
  "afail e w = (Inl (Fail e), w)"

definition abind :: "('e, 'a) act \<Rightarrow> ('a \<Rightarrow> ('e, 'b) act) \<Rightarrow> ('e, 'b) act" where
  "abind m f w = (case m w of (Inl e, w') \<Rightarrow> (Inl e, w') | (Inr a, w') \<Rightarrow> f a w')"

text \<open>A loop that collects, and the \<open>?\<close> that converts the error of a ledger call or of a pure result.\<close>

fun afold :: "('s \<Rightarrow> 'a \<Rightarrow> ('e, 's) act) \<Rightarrow> 's \<Rightarrow> 'a list \<Rightarrow> ('e, 's) act" where
  "afold f s [] = areturn s"
| "afold f s (a # as) = abind (f s a) (\<lambda>s'. afold f s' as)"

definition map_fault :: "('e \<Rightarrow> 'f) \<Rightarrow> 'e fault \<Rightarrow> 'f fault" where
  "map_fault g x = (case x of Fail e \<Rightarrow> Fail (g e) | Panic \<Rightarrow> Panic)"

definition acall :: "('e \<Rightarrow> 'f) \<Rightarrow> ('e, 'a) act \<Rightarrow> ('f, 'a) act" where
  "acall g m w = (case m w of (r, w') \<Rightarrow> (map_err (map_fault g) r, w'))"

definition apure :: "('e \<Rightarrow> 'f) \<Rightarrow> 'e + 'a \<Rightarrow> ('f, 'a) act" where
  "apure g r w = (map_err (\<lambda>e. Fail (g e)) r, w)"

section \<open>Assets and labels\<close>

record asset_meta =
  am_id :: asset_id
  am_code :: rstr
  am_symbol :: rstr
  am_decimals :: nat

definition USD :: asset_id where "USD = asset_id_new 1"
definition EUR :: asset_id where "EUR = asset_id_new 2"
definition BTC :: asset_id where "BTC = asset_id_new 3"

definition registry :: "asset_meta list" where
  "registry = [\<lparr>am_id = USD, am_code = lit ''USD'', am_symbol = lit ''$'', am_decimals = 2\<rparr>,
     \<lparr>am_id = EUR, am_code = lit ''EUR'', am_symbol = [8364], am_decimals = 2\<rparr>,
     \<lparr>am_id = BTC, am_code = lit ''BTC'', am_symbol = [8383], am_decimals = 8\<rparr>]"

definition TREASURY :: account_id where "TREASURY = account_id_new 1"
definition EXTERNAL :: account_id where "EXTERNAL = account_id_new 99"
definition ALICE :: account_id where "ALICE = account_id_new 100"
definition ALICE_SAVINGS :: account_id where "ALICE_SAVINGS = with_sub 100 1"
definition BOB :: account_id where "BOB = account_id_new 101"
definition CAROL :: account_id where "CAROL = account_id_new 102"
definition MERCHANT :: account_id where "MERCHANT = account_id_new 103"

text \<open>The arms of the \<open>match\<close>, tried in order on the base account.\<close>

definition account_label :: "account_id \<Rightarrow> rstr option" where
  "account_label i = (let b = base i in
     if b = TREASURY then Some (lit ''Treasury'')
     else if b = EXTERNAL then Some (lit ''External'')
     else if b = ALICE then Some (lit ''Alice'')
     else if b = ALICE_SAVINGS then Some (lit ''Alice / Savings'')
     else if b = BOB then Some (lit ''Bob'')
     else if b = CAROL then Some (lit ''Carol'')
     else if b = MERCHANT then Some (lit ''Merchant'')
     else None)"

section \<open>The database address\<close>

definition starts_with :: "rstr \<Rightarrow> rstr \<Rightarrow> bool" where
  "starts_with pat s \<longleftrightarrow> take (length pat) s = pat"

fun str_contains :: "rstr \<Rightarrow> rstr \<Rightarrow> bool" where
  "str_contains pat [] \<longleftrightarrow> pat = []"
| "str_contains pat (c # cs) \<longleftrightarrow> starts_with pat (c # cs) \<or> str_contains pat cs"

definition sqlite_creatable :: "rstr \<Rightarrow> rstr" where
  "sqlite_creatable url =
     (if \<not> starts_with (lit ''sqlite:'') url \<or> str_contains (lit '':memory:'') url \<or> str_contains (lit ''mode='') url then url
      else let sep = (if 63 \<in> set url then 38 else 63) in url @ [sep] @ lit ''mode=rwc'')"

section \<open>The demo data\<close>

text \<open>What \<open>Box<dyn Error>\<close> carries here.\<close>

datatype seed_error = SeedLedger ledger_error | SeedParse parse_amount_error | SeedOverflow overflow_error

definition seed_create :: "ledger_env \<Rightarrow> account_id \<Rightarrow> bool \<Rightarrow> (seed_error, unit) act" where
  "seed_create env i floor = acall SeedLedger (ledger_create_account env (if floor then debit_must_not_exceed_credit i else account_new i))"

definition seed_deposit :: "ledger_env \<Rightarrow> account_id \<Rightarrow> asset_id \<Rightarrow> cent \<Rightarrow> (seed_error, unit) act" where
  "seed_deposit env tt as amt = abind (apure SeedOverflow (deposit tt as amt EXTERNAL transfer_builder_new)) (\<lambda>t.
     abind (acall SeedLedger (ledger_commit env t)) (\<lambda>_. areturn ()))"

definition seed_pay :: "ledger_env \<Rightarrow> account_id \<Rightarrow> account_id \<Rightarrow> asset_id \<Rightarrow> cent \<Rightarrow> (seed_error, unit) act" where
  "seed_pay env fr tt as amt = abind (acall SeedLedger (ledger_commit env (pay fr tt as amt transfer_builder_new))) (\<lambda>_. areturn ())"

text \<open>One step of the script: its amount is parsed, then it runs.\<close>

definition seed_amount :: "nat \<Rightarrow> string \<Rightarrow> (cent \<Rightarrow> (seed_error, unit) act) \<Rightarrow> (seed_error, unit) act" where
  "seed_amount d s f = abind (apure SeedParse (amount_parse \<lparr>decimals = d\<rparr> (lit s))) f"

definition seed_trade :: "ledger_env \<Rightarrow> (seed_error, unit) act" where
  "seed_trade env = seed_amount 2 ''100.00'' (\<lambda>x. seed_amount 2 ''90.00'' (\<lambda>y.
     abind (acall SeedLedger (ledger_commit env (pay BOB ALICE EUR y (pay ALICE BOB USD x transfer_builder_new)))) (\<lambda>_. areturn ())))"

definition populate :: "ledger_env \<Rightarrow> (seed_error, unit) act" where
  "populate env = afold (\<lambda>_ step. step) ()
     [seed_create env TREASURY False, seed_create env EXTERNAL False, seed_create env ALICE True,
      seed_create env ALICE_SAVINGS True, seed_create env BOB True, seed_create env CAROL False, seed_create env MERCHANT True,
      seed_amount 2 ''1000.00'' (seed_deposit env ALICE USD), seed_amount 2 ''500.00'' (seed_deposit env BOB EUR),
      seed_amount 8 ''0.50000000'' (seed_deposit env ALICE BTC), seed_amount 2 ''200.00'' (seed_deposit env CAROL USD),
      seed_amount 2 ''150.00'' (seed_pay env ALICE BOB USD), seed_amount 2 ''80.00'' (seed_pay env BOB MERCHANT EUR),
      seed_amount 8 ''0.10000000'' (seed_pay env ALICE MERCHANT BTC), seed_amount 2 ''250.00'' (seed_pay env CAROL MERCHANT USD),
      seed_amount 2 ''300.00'' (seed_pay env ALICE ALICE_SAVINGS USD), seed_trade env]"

definition seed_if_empty :: "ledger_env \<Rightarrow> (seed_error, bool) act" where
  "seed_if_empty env = abind (acall SeedLedger (ledger_list_accounts env)) (\<lambda>as.
     if as \<noteq> [] then areturn False else abind (populate env) (\<lambda>_. areturn True))"

section \<open>Errors of the API\<close>

datatype api_message = ApiText rstr | ApiLedger ledger_error | ApiParse parse_account_id_error

record api_error =
  ae_status :: nat
  ae_message :: api_message

definition api_internal :: "rstr \<Rightarrow> api_error" where
  "api_internal s = \<lparr>ae_status = 500, ae_message = ApiText s\<rparr>"

definition bad_request :: "parse_account_id_error \<Rightarrow> api_error" where
  "bad_request e = \<lparr>ae_status = 400, ae_message = ApiParse e\<rparr>"

definition api_error_from_ledger :: "ledger_error \<Rightarrow> api_error" where
  "api_error_from_ledger e = \<lparr>ae_status = (case e of LAccountNotFound _ \<Rightarrow> 404 | _ \<Rightarrow> 500), ae_message = ApiLedger e\<rparr>"

type_synonym 'a api = "(api_error, 'a) act"

text \<open>A ledger call in a builder.\<close>

definition from_ledger :: "'a action \<Rightarrow> 'a api" where
  "from_ledger m = acall api_error_from_ledger m"

section \<open>Data of the views\<close>

record app_state =
  ap_env :: ledger_env
  ap_ledger :: ledger
  ap_assets :: "asset_meta list"
  ap_seed :: u64

record balance_dto =
  bd_asset :: asset_id
  bd_value :: cent

record account_dto =
  ad_id :: account_id
  ad_code :: rstr
  ad_sub :: i64
  ad_label :: "rstr option"
  ad_version :: u64
  ad_floor :: bool
  ad_frozen :: bool
  ad_closed :: bool
  ad_balances :: "balance_dto list"

record posting_dto =
  pd_id :: rstr
  pd_owner :: account_id
  pd_asset :: asset_id
  pd_value :: cent
  pd_status :: rstr

record transfer_leg_dto =
  ld_owner :: account_id
  ld_label :: "rstr option"
  ld_asset :: asset_id
  ld_value :: cent
  ld_payer :: "account_id option"
  ld_payer_label :: "rstr option"

record transfer_dto =
  td_id :: rstr
  td_created_at :: i64
  td_consumes :: nat
  td_legs :: "transfer_leg_dto list"

record event_dto =
  ed_seq :: u64
  ed_timestamp :: i64
  ed_kind :: rstr
  ed_account :: "account_id option"
  ed_transfer :: "rstr option"

record issued_dto =
  id_asset :: asset_id
  id_issued :: cent

record overview_dto =
  od_accounts :: nat
  od_transfers :: nat
  od_assets :: nat
  od_issued :: "issued_dto list"

record account_detail_dto =
  dd_account :: account_dto
  dd_subaccounts :: "account_dto list"
  dd_postings :: "posting_dto list"
  dd_transfers :: "transfer_dto list"

section \<open>Conversions\<close>

definition hex32 :: "byte list \<Rightarrow> rstr" where
  "hex32 bytes = hex bytes"

definition posting_id_text :: "posting_id \<Rightarrow> rstr" where
  "posting_id_text i = hex32 (env_hash (pid_transfer i)) @ lit '':'' @ show_nat (unat (pid_index i))"

text \<open>The machine form of an account code; printing always ends (\<open>code_text_printed\<close>).\<close>

definition code_text :: "u64 \<Rightarrow> account_id \<Rightarrow> rstr" where
  "code_text seed i = the (account_id_to_string seed i)"

definition is_zero_text :: "cent \<Rightarrow> bool" where
  "is_zero_text v \<longleftrightarrow> cent_to_string v = lit ''0''"

definition account_to_dto :: "app_state \<Rightarrow> account \<Rightarrow> account_dto api" where
  "account_to_dto st a =
     abind (afold (\<lambda>bs m. abind (from_ledger (ledger_balance (ap_env st) (ap_ledger st) (acc_id a) (am_id m))) (\<lambda>v.
         areturn (if \<not> is_zero_text v then bs @ [\<lparr>bd_asset = am_id m, bd_value = v\<rparr>] else bs))) [] (ap_assets st)) (\<lambda>bs.
     areturn \<lparr>ad_id = acc_id a, ad_code = code_text (ap_seed st) (acc_id a), ad_sub = aid_sub (acc_id a),
       ad_label = account_label (acc_id a), ad_version = acc_version a, ad_floor = forbids_overdraft a,
       ad_frozen = is_frozen a, ad_closed = is_closed a, ad_balances = bs\<rparr>)"

definition transfer_to_dto :: "envelope_record \<Rightarrow> transfer_dto" where
  "transfer_to_dto r = \<lparr>td_id = hex32 (env_hash (r_transfer_id (er_receipt r))), td_created_at = er_created_at r,
     td_consumes = length (e_consumes (er_envelope r)),
     td_legs = map (\<lambda>p. \<lparr>ld_owner = np_owner p, ld_label = account_label (np_owner p), ld_asset = np_asset p, ld_value = np_value p,
       ld_payer = np_payer p, ld_payer_label = Option.bind (np_payer p) account_label\<rparr>) (e_creates (er_envelope r))\<rparr>"

definition event_to_dto :: "ledger_event \<Rightarrow> event_dto" where
  "event_to_dto ev = (let (k, a, t) = (case ev_kind ev of
       TransferCommitted tid \<Rightarrow> (lit ''TransferCommitted'', None, Some (hex32 (env_hash tid)))
     | EvAccountCreated i \<Rightarrow> (lit ''AccountCreated'', Some i, None)
     | EvAccountFrozen i _ \<Rightarrow> (lit ''AccountFrozen'', Some i, None)
     | EvAccountUnfrozen i _ \<Rightarrow> (lit ''AccountUnfrozen'', Some i, None)
     | EvAccountClosed i _ \<Rightarrow> (lit ''AccountClosed'', Some i, None))
     in \<lparr>ed_seq = ev_seq ev, ed_timestamp = ev_timestamp ev, ed_kind = k, ed_account = a, ed_transfer = t\<rparr>)"

fun posting_state_label :: "posting_state \<Rightarrow> rstr" where
  "posting_state_label StateActive = lit ''Active''"
| "posting_state_label (StateReserved _) = lit ''Reserved''"
| "posting_state_label StateSpent = lit ''Spent''"
| "posting_state_label StateMissing = lit ''Missing''"

section \<open>Builders\<close>

definition default_query :: transfer_query where
  "default_query = \<lparr>tq_account = None, tq_sub = None, tq_from_ts = None, tq_to_ts = None, tq_book = None, tq_limit = None, tq_offset = None\<rparr>"

definition issued_assets :: "app_state \<Rightarrow> issued_dto list api" where
  "issued_assets st = afold (\<lambda>is m.
     abind (from_ledger (ledger_balance (ap_env st) (ap_ledger st) EXTERNAL (am_id m))) (\<lambda>v.
     abind (apure (\<lambda>_. api_internal (lit ''overflow'')) (checked_neg v)) (\<lambda>n.
     areturn (if \<not> is_zero_text n then is @ [\<lparr>id_asset = am_id m, id_issued = n\<rparr>] else is)))) [] (ap_assets st)"

definition overview :: "app_state \<Rightarrow> overview_dto api" where
  "overview st = abind (from_ledger (ledger_list_accounts (ap_env st))) (\<lambda>as.
     abind (from_ledger (ledger_query_transfers (ap_env st) default_query)) (\<lambda>pg.
     abind (issued_assets st) (\<lambda>is.
     areturn \<lparr>od_accounts = length as, od_transfers = pg_total pg, od_assets = length (ap_assets st), od_issued = is\<rparr>)))"

definition dash_accounts :: "app_state \<Rightarrow> account_dto list api" where
  "dash_accounts st = abind (from_ledger (ledger_list_accounts (ap_env st))) (\<lambda>as.
     afold (\<lambda>out a. abind (account_to_dto st a) (\<lambda>d. areturn (out @ [d]))) []
       (sort_key (\<lambda>a. (aid_id (acc_id a), aid_sub (acc_id a))) as))"

definition account_detail :: "app_state \<Rightarrow> account_id \<Rightarrow> account_detail_dto api" where
  "account_detail st i = abind (from_ledger (ledger_get_account i)) (\<lambda>a.
     abind (from_ledger (postings_with_state (ap_env st) i)) (\<lambda>ps.
     let postings = sort_key (\<lambda>p. - pd_value p) (map (\<lambda>(p, s). \<lparr>pd_id = posting_id_text (p_id p), pd_owner = p_owner p,
           pd_asset = p_asset p, pd_value = p_value p, pd_status = posting_state_label s\<rparr>) ps)
     in abind (from_ledger (history (ap_env st) i)) (\<lambda>rs.
     abind (from_ledger (list_subaccounts (ap_env st) i)) (\<lambda>subs.
     abind (afold (\<lambda>out sub. abind (from_ledger (ledger_get_account sub)) (\<lambda>sa.
         abind (account_to_dto st sa) (\<lambda>d. areturn (out @ [d])))) [] subs) (\<lambda>sds.
     abind (account_to_dto st a) (\<lambda>d.
     areturn \<lparr>dd_account = d, dd_subaccounts = sds, dd_postings = postings, dd_transfers = map transfer_to_dto rs\<rparr>))))))"

text \<open>\<open>limit.or(Some(100))\<close>, then the page in descending order of time.\<close>

definition dash_transfers :: "app_state \<Rightarrow> u32 option \<Rightarrow> transfer_dto list api" where
  "dash_transfers st lim = abind (from_ledger (ledger_query_transfers (ap_env st)
       (default_query\<lparr>tq_limit := (case lim of Some n \<Rightarrow> Some n | None \<Rightarrow> Some 100)\<rparr>))) (\<lambda>pg.
     areturn (sort_key (\<lambda>t. - td_created_at t) (map transfer_to_dto (pg_items pg))))"

definition dash_events :: "app_state \<Rightarrow> u64 \<Rightarrow> u32 \<Rightarrow> event_dto list api" where
  "dash_events st after_seq lim = abind (from_ledger (ledger_get_events_since after_seq lim)) (\<lambda>evs.
     areturn (map event_to_dto evs))"

section \<open>Handlers of the JSON API\<close>

text \<open>\<open>uuid.parse()\<close>: parsing an account code always ends.\<close>

definition parse_account_path :: "app_state \<Rightarrow> rstr \<Rightarrow> account_id api" where
  "parse_account_path st s w = (map_err (map_fault bad_request) (the (account_id_from_str (ap_seed st) s)), w)"

definition api_account_detail :: "app_state \<Rightarrow> rstr \<Rightarrow> account_detail_dto api" where
  "api_account_detail st s = abind (parse_account_path st s) (account_detail st)"

definition api_events :: "app_state \<Rightarrow> u64 option \<Rightarrow> u32 option \<Rightarrow> event_dto list api" where
  "api_events st after_seq lim =
     dash_events st (case after_seq of Some n \<Rightarrow> n | None \<Rightarrow> 0) (case lim of Some n \<Rightarrow> n | None \<Rightarrow> 200)"

end
