(* ===== verification/Dashboard_Calendar.thy ===== *)
theory Dashboard_Calendar
  imports Kuatia_Prelude
begin

text \<open>
  The date arithmetic of \<^verbatim>\<open>kuatia-dashboard/src/ui.rs\<close>: \<open>civil_from_days\<close> turns a day count
  into a calendar date by closed formulas. Its reference is the calendar itself: a first
  day and the rule for the day after a date.
\<close>

section \<open>The code\<close>

text \<open>The quotient of signed integers, rounded towards zero, and \<open>as u32\<close>.\<close>

definition quot :: "int \<Rightarrow> int \<Rightarrow> int" where
  "quot a b = sgn a * sgn b * (\<bar>a\<bar> div \<bar>b\<bar>)"

definition as_u32 :: "int \<Rightarrow> nat" where
  "as_u32 v = nat (v mod 2 ^ 32)"

definition civil_from_days :: "i64 \<Rightarrow> i64 \<times> nat \<times> nat" where
  "civil_from_days z0 =
     (let z = z0 + 719468;
          era = quot (if z \<ge> 0 then z else z - 146096) 146097;
          doe = z - era * 146097;
          yoe = quot (doe - quot doe 1460 + quot doe 36524 - quot doe 146096) 365;
          y = yoe + era * 400;
          doy = doe - (365 * yoe + quot yoe 4 - quot yoe 100);
          mp = quot (5 * doy + 2) 153;
          d = as_u32 (doy - quot (153 * mp + 2) 5 + 1);
          m = as_u32 (if mp < 10 then mp + 3 else mp - 9)
      in (if m \<le> 2 then y + 1 else y, m, d))"

section \<open>The calendar\<close>

definition leap :: "int \<Rightarrow> bool" where
  "leap y \<longleftrightarrow> 4 dvd y \<and> (\<not> 100 dvd y \<or> 400 dvd y)"

definition month_days :: "bool \<Rightarrow> nat \<Rightarrow> nat" where
  "month_days l m = (if m = 2 then (if l then 29 else 28) else if m \<in> {4, 6, 9, 11} then 30 else 31)"

text \<open>The day after a date.\<close>

definition next_day :: "int \<times> nat \<times> nat \<Rightarrow> int \<times> nat \<times> nat" where
  "next_day = (\<lambda>(y, m, d). if d < month_days (leap y) m then (y, m, d + 1) else if m < 12 then (y, m + 1, 1) else (y + 1, 1, 1))"

section \<open>The year of a day\<close>

lemma quot_div [simp]: "0 \<le> a \<Longrightarrow> 0 < b \<Longrightarrow> quot a b = a div b"
  by (cases "a = 0") (simp_all add: quot_def)

lemma quot_floor: "0 < b \<Longrightarrow> quot (if z \<ge> 0 then z else z - (b - 1)) b = z div b"
proof (cases "z \<ge> 0")
  case False
  assume b: "0 < b"
  have "(- z + (b - 1)) div b = - (z div b)"
  proof (rule int_div_pos_eq[where r = "b - 1 - z mod b"])
    have "z = b * (z div b) + z mod b" by simp
    then show "- z + (b - 1) = b * (- (z div b)) + (b - 1 - z mod b)" by (simp add: algebra_simps)
  qed (use b pos_mod_bound[OF b, of z] pos_mod_sign[OF b, of z] in auto)
  then show ?thesis using False b by (simp add: quot_def algebra_simps)
qed simp

lemma div_step: "0 < k \<Longrightarrow> (n + 1) div k = n div k + (if k dvd n + 1 then 1 else 0)" for n k :: int
proof (cases "k dvd n + 1")
  case True
  assume k: "0 < k"
  obtain q where q: "n + 1 = k * q" using True by (elim dvdE)
  have "n div k = q - 1" by (rule int_div_pos_eq[where r = "k - 1"]) (use q k in \<open>auto simp: algebra_simps\<close>)
  then show ?thesis using True q k by simp
next
  case False
  assume k: "0 < k"
  have "n mod k \<noteq> k - 1"
  proof
    assume "n mod k = k - 1"
    then have "n + 1 = k * (n div k) + k" using mult_div_mod_eq[of k n] by linarith
    then have "n + 1 = k * (n div k + 1)" by (simp add: algebra_simps)
    then show False using False by simp
  qed
  then have "(n + 1) div k = n div k"
    using pos_mod_bound[OF k, of n] pos_mod_sign[OF k, of n] mult_div_mod_eq[of k n]
    by (intro int_div_pos_eq[where r = "n mod k + 1"]) linarith+
  then show ?thesis using False by simp
qed

text \<open>Within an era of 400 years that starts in March: the first day of a year, and the year of a day.\<close>

definition year_start :: "int \<Rightarrow> int" where
  "year_start y = 365 * y + y div 4 - y div 100 + y div 400"

definition scaled :: "int \<Rightarrow> int" where
  "scaled n = n - n div 1460 + n div 36524 - n div 146096"

definition year_of :: "int \<Rightarrow> int" where
  "year_of n = scaled n div 365"

lemma scaled_step: "scaled n \<le> scaled (n + 1)"
proof -
  have "36524 dvd k" if "146096 dvd k" for k :: int using that by (rule dvd_trans[rotated]) simp
  then show ?thesis by (simp add: scaled_def div_step)
qed

lemma year_of_mono: "a \<le> b \<Longrightarrow> year_of a \<le> year_of b"
proof -
  assume "a \<le> b"
  then have "scaled a \<le> scaled b" by (induction rule: int_ge_induct) (use scaled_step order_trans in blast)+
  then show ?thesis by (simp add: year_of_def zdiv_mono1)
qed

text \<open>A day given by its century, its cycle of four years in the century and its day in the cycle.\<close>

lemma scaled_cycles:
  fixes b c t :: int
  assumes "0 \<le> b" "b \<le> 3" "0 \<le> c" "c \<le> 24" "0 \<le> t" "t \<le> 1460" "1461 * c + t < 36524"
  shows "scaled (36524 * b + 1461 * c + t) = 36500 * b + 1460 * c + t - (if 24 * b + c + t < 1460 then 0 else 1)"
proof -
  let ?n = "36524 * b + 1461 * c + t"
  have "?n div 36524 = b" by (rule int_div_pos_eq[where r = "1461 * c + t"]) (use assms in \<open>simp_all add: algebra_simps\<close>)
  moreover have "?n div 146096 = 0" by (rule div_pos_pos_trivial) (use assms in \<open>simp_all add: algebra_simps\<close>)
  moreover have "?n div 1460 = 25 * b + c + (if 24 * b + c + t < 1460 then 0 else 1)"
    by (rule int_div_pos_eq[where r = "if 24 * b + c + t < 1460 then 24 * b + c + t else 24 * b + c + t - 1460"])
      (use assms in \<open>auto split: if_splits\<close>)
  ultimately show ?thesis by (simp add: scaled_def)
qed

lemma year_cycles:
  fixes b c r :: int
  assumes "0 \<le> b" "b \<le> 3" "0 \<le> c" "c \<le> 24" "0 \<le> r" "r \<le> 3"
  shows "year_start (100 * b + 4 * c + r) = 36524 * b + 1461 * c + 365 * r"
proof -
  let ?y = "100 * b + 4 * c + r"
  have "?y div 4 = 25 * b + c" by (rule int_div_pos_eq[where r = r]) (use assms in \<open>simp_all add: algebra_simps\<close>)
  moreover have "?y div 100 = b" by (rule int_div_pos_eq[where r = "4 * c + r"]) (use assms in \<open>simp_all add: algebra_simps\<close>)
  moreover have "?y div 400 = 0" by (rule div_pos_pos_trivial) (use assms in \<open>simp_all add: algebra_simps\<close>)
  ultimately show ?thesis by (simp add: year_start_def)
qed

lemma year_ends:
  assumes "0 \<le> y" "y < 400"
  shows "year_of (year_start y) = y" and "year_of (year_start (y + 1) - 1) = y"
proof -
  define b c r where "b = y div 100" and "c = y mod 100 div 4" and "r = y mod 4"
  have "y mod 100 mod 4 = r" unfolding r_def by (simp add: mod_mod_cancel)
  then have m: "y mod 100 = 4 * c + r" unfolding c_def using mult_div_mod_eq[of 4 "y mod 100"] by simp
  then have y: "y = 100 * b + 4 * c + r" unfolding b_def using mult_div_mod_eq[of 100 y] by simp
  have r: "0 \<le> r" "r \<le> 3" unfolding r_def by simp_all
  have c: "0 \<le> c" "c \<le> 24" using m r pos_mod_bound[of 100 y] unfolding c_def by (simp_all add: pos_imp_zdiv_nonneg_iff)
  have b: "0 \<le> b" "b \<le> 3" using y m assms r c unfolding b_def by (simp_all add: pos_imp_zdiv_nonneg_iff)
  note rng = b c r
  have div365: "year_of n = y" if "365 * y \<le> scaled n" "scaled n < 365 * y + 365" for n
    unfolding year_of_def by (rule int_div_pos_eq[where r = "scaled n - 365 * y"]) (use that in linarith)+
  note start = year_cycles[OF rng]
  show "year_of (year_start y) = y"
    using scaled_cycles[OF rng(1-4), of "365 * r"] rng by (intro div365) (simp_all add: start y split: if_splits)
  show "year_of (year_start (y + 1) - 1) = y"
  proof (cases "r < 3")
    case True
    have "year_start (y + 1) = 36524 * b + 1461 * c + 365 * (r + 1)"
      using year_cycles[OF rng(1-4), of "r + 1"] rng True by (simp add: y algebra_simps)
    then show ?thesis
      using scaled_cycles[OF rng(1-4), of "365 * (r + 1) - 1"] rng True by (intro div365) (simp_all add: y algebra_simps split: if_splits)
  next
    case False
    then have r: "r = 3" using rng by simp
    show ?thesis
    proof (cases "c < 24")
      case True
      have "year_start (y + 1) = 36524 * b + 1461 * (c + 1)"
        using year_cycles[OF rng(1,2), of "c + 1" 0] rng True by (simp add: y r algebra_simps)
      then show ?thesis
        using scaled_cycles[OF rng(1-4), of 1460] rng True by (intro div365) (simp_all add: y r algebra_simps split: if_splits)
    next
      case False
      then have c: "c = 24" using rng by simp
      show ?thesis
      proof (cases "b < 3")
        case True
        have "year_start (y + 1) = 36524 * (b + 1)"
          using year_cycles[of "b + 1" 0 0] rng True by (simp add: y r c algebra_simps)
        then show ?thesis
          using scaled_cycles[OF rng(1-4), of 1459] rng True by (intro div365) (simp_all add: y r c algebra_simps split: if_splits)
      next
        case False
        then have "y = 399" using rng y r c by simp
        then show ?thesis by (simp add: year_of_def scaled_def year_start_def)
      qed
    qed
  qed
qed

lemma year_start_step: "year_start (y + 1) = year_start y + (if leap (y + 1) then 366 else 365)"
proof -
  have "4 dvd k" if "100 dvd k" for k :: int using that by (rule dvd_trans[rotated]) simp
  moreover have "100 dvd k" if "400 dvd k" for k :: int using that by (rule dvd_trans[rotated]) simp
  moreover have "(y + 1) div 4 = y div 4 + (if 4 dvd y + 1 then 1 else 0)" "(y + 1) div 100 = y div 100 + (if 100 dvd y + 1 then 1 else 0)"
    "(y + 1) div 400 = y div 400 + (if 400 dvd y + 1 then 1 else 0)"
    by (rule div_step, simp)+
  moreover have "365 * (y + 1) + (p + (if a then 1 else 0)) - (q + (if b then 1 else 0)) + (r + (if c then 1 else 0))
      = 365 * y + p - q + r + (if a \<and> (\<not> b \<or> c) then 366 else 365)" if "c \<Longrightarrow> b" "b \<Longrightarrow> a" for a b c and p q r :: int
    by (cases a; cases b; cases c) (use that in auto)
  ultimately show ?thesis unfolding year_start_def leap_def by presburger
qed

lemma year_start_strict: "year_start y < year_start (y + 1)"
  by (simp add: year_start_step)

lemma year_exists:
  assumes "0 \<le> n" "n < 146097"
  obtains y where "0 \<le> y" "y < 400" "year_start y \<le> n" "n < year_start (y + 1)"
proof -
  have ex: "\<exists>y. 0 \<le> y \<and> y < k \<and> year_start y \<le> n \<and> n < year_start (y + 1)" if "0 \<le> k" "n < year_start k" for k
    using that
  proof (induction k rule: int_ge_induct)
    case base
    then show ?case using assms(1) by (simp add: year_start_def)
  next
    case (step k)
    show ?case
    proof (cases "n < year_start k")
      case True
      then obtain y where "0 \<le> y" "y < k" "year_start y \<le> n" "n < year_start (y + 1)" using step.IH by blast
      then show ?thesis by (intro exI[of _ y]) simp
    next
      case False
      then show ?thesis using step by (intro exI[of _ k]) simp
    qed
  qed
  have "year_start 400 = 146097" by (simp add: year_start_def)
  then obtain y where "0 \<le> y" "y < 400" "year_start y \<le> n" "n < year_start (y + 1)" using ex[of 400] assms(2) by auto
  then show ?thesis by (rule that)
qed

lemma year_of_unique:
  assumes "0 \<le> y" "y < 400" "year_start y \<le> n" "n < year_start (y + 1)"
  shows "year_of n = y"
proof -
  have "year_of (year_start y) = y" "year_of (year_start (y + 1) - 1) = y"
    by (rule year_ends[OF assms(1,2)])+
  moreover have "year_of (year_start y) \<le> year_of n" "year_of n \<le> year_of (year_start (y + 1) - 1)"
    using assms by (auto intro!: year_of_mono)
  ultimately show ?thesis by linarith
qed

section \<open>The month and day of a day of the year\<close>

text \<open>Month and day of the day \<open>k\<close> of a year that starts in March.\<close>

definition month_day :: "int \<Rightarrow> nat \<times> nat" where
  "month_day k = (let mp = (5 * k + 2) div 153 in
     (as_u32 (if mp < 10 then mp + 3 else mp - 9), as_u32 (k - (153 * mp + 2) div 5 + 1)))"

definition date_of :: "int \<Rightarrow> int \<Rightarrow> int \<times> nat \<times> nat" where
  "date_of y k = (let (m, d) = month_day k in (if m \<le> 2 then y + 1 else y, m, d))"

text \<open>All days but the last of February are followed by the next one, in leap years and in others.\<close>

definition follows :: "bool \<Rightarrow> int \<Rightarrow> bool" where
  "follows l k = (let (m, d) = month_day k; (m', d') = month_day (k + 1) in
     if d < month_days l m then m' = m \<and> d' = d + 1 else if m < 12 then m' = m + 1 \<and> d' = 1 \<and> m \<noteq> 2 else m = 12 \<and> m' = 1 \<and> d' = 1)"

definition month_start :: "int \<Rightarrow> int" where
  "month_start mp = (153 * mp + 2) div 5"

lemma le_div_iff: "0 < k \<Longrightarrow> a \<le> n div k \<longleftrightarrow> a * k \<le> n" for a n k :: int
proof
  assume k: "0 < k"
  show "a * k \<le> n" if "a \<le> n div k"
  proof -
    have "a * k \<le> (n div k) * k" using that k by (intro mult_right_mono) simp_all
    also have "\<dots> \<le> n"
    proof -
      have "n = (n div k) * k + n mod k" by simp
      then show ?thesis using pos_mod_sign[OF k, of n] by linarith
    qed
    finally show ?thesis .
  qed
  show "a \<le> n div k" if "a * k \<le> n" using zdiv_mono1[OF that k] k by simp
qed

lemma month_start_le: "month_start mp \<le> k \<longleftrightarrow> 153 * mp \<le> 5 * k + 2"
  using le_div_iff[of 5 "k + 1" "153 * mp + 2"] unfolding month_start_def by linarith

lemma month_index: "month_start mp \<le> k \<Longrightarrow> k < month_start (mp + 1) \<Longrightarrow> (5 * k + 2) div 153 = mp"
  using month_start_le[of mp k] month_start_le[of "mp + 1" k] by (intro int_div_pos_eq[where r = "5 * k + 2 - 153 * mp"]) simp_all

lemma month_bounds: "month_start ((5 * k + 2) div 153) \<le> k" "k < month_start ((5 * k + 2) div 153 + 1)"
proof -
  define d m where "d = (5 * k + 2) div 153" and "m = (5 * k + 2) mod 153"
  then have "5 * k + 2 = 153 * d + m" "0 \<le> m" "m < 153" by simp_all
  then have "153 * d \<le> 5 * k + 2" "\<not> 153 * (d + 1) \<le> 5 * k + 2" by simp_all
  note b = this[unfolded d_def]
  show "month_start ((5 * k + 2) div 153) \<le> k" unfolding month_start_le by (rule b)
  show "k < month_start ((5 * k + 2) div 153 + 1)" unfolding not_le[symmetric] month_start_le by (rule b)
qed

lemma month_start_step: "month_start (mp + 1) \<le> month_start mp + 31" "month_start mp < month_start (mp + 1)"
proof -
  have "153 * mp \<le> 5 * month_start mp + 2" using month_start_le[of mp "month_start mp"] by simp
  then show "month_start (mp + 1) \<le> month_start mp + 31" unfolding month_start_le by simp
  have "\<not> 153 * mp \<le> 5 * (month_start mp - 1) + 2" using month_start_le[of mp "month_start mp - 1"] by simp
  then show "month_start mp < month_start (mp + 1)" unfolding not_le[symmetric] month_start_le by simp
qed

lemma month_day_in:
  assumes "month_start mp \<le> k" "k < month_start (mp + 1)" "0 \<le> mp" "mp \<le> 11"
  shows "month_day k = (nat (if mp < 10 then mp + 3 else mp - 9), nat (k - month_start mp + 1))"
proof -
  have "k - month_start mp + 1 < 2 ^ 32" using assms month_start_step(1)[of mp] by simp
  moreover have "(if mp < 10 then mp + 3 else mp - 9) < 2 ^ 32" using assms by simp
  ultimately show ?thesis
    using assms month_index[OF assms(1,2)] by (simp add: month_day_def as_u32_def month_start_def[symmetric] mod_pos_pos_trivial)
qed

lemma days_follow:
  assumes "0 \<le> k" "k \<le> 363"
  shows "follows l k"
proof -
  define mp where "mp = (5 * k + 2) div 153"
  have mp: "0 \<le> mp" "mp \<le> 11" using assms le_div_iff[of 153 0 "5 * k + 2"] le_div_iff[of 153 12 "5 * k + 2"] unfolding mp_def by linarith+
  note bounds = month_bounds[of k, folded mp_def]
  note now = month_day_in[OF bounds mp]
  have cases: "mp = 0 \<or> mp = 1 \<or> mp = 2 \<or> mp = 3 \<or> mp = 4 \<or> mp = 5 \<or> mp = 6 \<or> mp = 7 \<or> mp = 8 \<or> mp = 9 \<or> mp = 10 \<or> mp = 11"
    using mp by presburger
  show ?thesis
  proof (cases "k + 1 < month_start (mp + 1)")
    case True
    then have "month_day (k + 1) = (nat (if mp < 10 then mp + 3 else mp - 9), nat (k + 1 - month_start mp + 1))"
      using bounds by (intro month_day_in mp) simp_all
    then show ?thesis using cases by (elim disjE) (use True bounds now assms in \<open>simp add: follows_def month_days_def month_start_def, arith?\<close>)+
  next
    case False
    then have k: "k + 1 = month_start (mp + 1)" using bounds by simp
    have "mp \<noteq> 11" using k assms by (auto simp: month_start_def)
    then have "month_day (k + 1) = (nat (if mp + 1 < 10 then mp + 1 + 3 else mp + 1 - 9), nat (k + 1 - month_start (mp + 1) + 1))"
      using mp k month_start_step(2)[of "mp + 1"] by (intro month_day_in) simp_all
    then show ?thesis using cases by (elim disjE) (use k bounds now \<open>mp \<noteq> 11\<close> in \<open>simp add: follows_def month_days_def month_start_def, arith?\<close>)+
  qed
qed

lemma year_end_days: "follows True 364" "month_day 364 = (2, 28)" "month_day 365 = (2, 29)" "month_day 0 = (3, 1)"
  by (simp_all add: follows_def month_day_def as_u32_def month_days_def)

lemma next_follows:
  assumes "follows (leap (y + 1)) k" "0 \<le> k" "k < 365" "fst (month_day k) > 2 \<Longrightarrow> follows (leap y) k"
  shows "next_day (date_of y k) = date_of y (k + 1)"
proof -
  obtain m d m' d' where md: "month_day k = (m, d)" "month_day (k + 1) = (m', d')" by fastforce
  show ?thesis
    using assms by (cases "m \<le> 2") (auto simp: follows_def date_of_def next_day_def md Let_def split: if_splits)
qed

lemma next_in_year:
  assumes "0 \<le> k" "k < (if leap (y + 1) then 365 else 364)"
  shows "next_day (date_of y k) = date_of y (k + 1)"
proof (rule next_follows)
  show "0 \<le> k" "k < 365" using assms by (auto split: if_splits)
  have small: "follows l k" if "k \<le> 363" for l using days_follow[OF assms(1) that] .
  have "k = 364 \<or> k \<le> 363" using assms by (auto split: if_splits)
  then show "follows (leap (y + 1)) k" using small year_end_days(1) assms(2) by (auto split: if_splits)
  show "follows (leap y) k" if "fst (month_day k) > 2"
    using small that year_end_days(2) \<open>k = 364 \<or> k \<le> 363\<close> by auto
qed

lemma next_in_march: "next_day (date_of y (if leap (y + 1) then 365 else 364)) = date_of (y + 1) 0"
  by (simp add: date_of_def year_end_days next_day_def month_days_def)

section \<open>Days\<close>

lemma civil_date:
  "civil_from_days z = (let n = (z + 719468) mod 146097; y = year_of n in
     date_of (y + 400 * ((z + 719468) div 146097)) (n - year_start y))"
proof -
  let ?z = "z + 719468"
  let ?e = "?z div 146097" and ?n = "?z mod 146097"
  have n: "0 \<le> ?n" "?n < 146097" by simp_all
  obtain y where y: "0 \<le> y" "y < 400" "year_start y \<le> ?n" "?n < year_start (y + 1)" by (rule year_exists[OF n])
  have yo: "year_of ?n = y" by (rule year_of_unique[OF y])
  have era: "quot (if ?z \<ge> 0 then ?z else ?z - 146096) 146097 = ?e"
  proof -
    have "(146096 :: int) = 146097 - 1" by simp
    then show ?thesis using quot_floor[of 146097 ?z] by (metis zero_less_numeral)
  qed
  have doe: "?z - ?e * 146097 = ?n" by (simp only: minus_div_mult_eq_mod)
  have "0 \<le> scaled ?n" using year_of_mono[of 0 ?n] n(1)
  proof -
    have "scaled 0 \<le> scaled ?n" using n(1) by (induction rule: int_ge_induct) (use scaled_step order_trans in blast)+
    then show ?thesis by (simp add: scaled_def)
  qed
  then have yoe: "quot (?n - quot ?n 1460 + quot ?n 36524 - quot ?n 146096) 365 = y"
    using n yo by (simp add: scaled_def[symmetric] year_of_def)
  have start: "365 * y + quot y 4 - quot y 100 = year_start y" using y by (simp add: year_start_def)
  let ?k = "?n - year_start y"
  have k: "0 \<le> ?k" using y by simp
  have mp: "quot (5 * ?k + 2) 153 = (5 * ?k + 2) div 153" using k by simp
  have "0 \<le> (5 * ?k + 2) div 153" using k by simp
  then have dd: "quot (153 * ((5 * ?k + 2) div 153) + 2) 5 = (153 * ((5 * ?k + 2) div 153) + 2) div 5" by simp
  show ?thesis
    unfolding civil_from_days_def Let_def era doe yoe start mp dd yo date_of_def month_day_def split
    by (simp add: mult.commute)
qed

lemma civil_in_year:
  assumes "0 \<le> y" "y < 400" "year_start y \<le> n" "n < year_start (y + 1)" "z + 719468 = 146097 * e + n"
  shows "civil_from_days z = date_of (y + 400 * e) (n - year_start y)"
proof -
  have mono: "year_start a \<le> year_start b" if "a \<le> b" for a b
    using that by (induction rule: int_ge_induct) (use year_start_strict less_imp_le order_trans in blast)+
  have "year_start 0 = 0" "year_start 400 = 146097" by (simp_all add: year_start_def)
  then have "0 \<le> n" "n < 146097" using mono[of 0 y] mono[of "y + 1" 400] assms by simp_all
  then have "(z + 719468) mod 146097 = n" "(z + 719468) div 146097 = e" using assms(5) by simp_all
  then show ?thesis using year_of_unique[OF assms(1-4)] by (simp add: civil_date Let_def)
qed

lemma leap_era: "leap (y + 400 * e) \<longleftrightarrow> leap y"
proof -
  have "k dvd y + 400 * e \<longleftrightarrow> k dvd y" if "k dvd 400" for k :: int using that by (simp add: dvd_add_left_iff)
  from this[of 4] this[of 100] this[of 400] show ?thesis by (simp add: leap_def)
qed

lemma civil_step: "civil_from_days (z + 1) = next_day (civil_from_days z)"
proof -
  define n e where "n = (z + 719468) mod 146097" and "e = (z + 719468) div 146097"
  then have z: "z + 719468 = 146097 * e + n" and n: "0 \<le> n" "n < 146097" by simp_all
  obtain y where y: "0 \<le> y" "y < 400" "year_start y \<le> n" "n < year_start (y + 1)" by (rule year_exists[OF n])
  note now = civil_in_year[OF y z]
  let ?k = "n - year_start y"
  have len: "year_start (y + 1) = year_start y + (if leap (y + 400 * e + 1) then 366 else 365)"
    using year_start_step[of y] leap_era[of "y + 1" e] by (simp add: algebra_simps)
  show ?thesis
  proof (cases "n + 1 < year_start (y + 1)")
    case True
    have "civil_from_days (z + 1) = date_of (y + 400 * e) (?k + 1)"
      using civil_in_year[of y "n + 1" "z + 1" e] y True z by (simp add: algebra_simps)
    moreover have "next_day (date_of (y + 400 * e) ?k) = date_of (y + 400 * e) (?k + 1)"
      by (rule next_in_year) (use y True len in \<open>auto split: if_splits\<close>)
    ultimately show ?thesis by (simp only: now)
  next
    case False
    then have k: "?k = (if leap (y + 400 * e + 1) then 365 else 364)" using y len by (auto split: if_splits)
    have nxt: "next_day (civil_from_days z) = date_of (y + 400 * e + 1) 0" unfolding now k by (rule next_in_march)
    show ?thesis
    proof (cases "y = 399")
      case True
      have "n = 146096" using True False y n by (simp add: year_start_def)
      then have "z + 1 + 719468 = 146097 * (e + 1) + 0" using z by (simp add: algebra_simps)
      then have "civil_from_days (z + 1) = date_of (0 + 400 * (e + 1)) (0 - year_start 0)"
        by (intro civil_in_year) (simp_all add: year_start_def)
      then show ?thesis using nxt True by (simp add: year_start_def algebra_simps)
    next
      case False
      have "year_start (y + 1) < year_start (y + 1 + 1)" by (rule year_start_strict)
      then have "civil_from_days (z + 1) = date_of (y + 1 + 400 * e) (n + 1 - year_start (y + 1))"
        using y False \<open>\<not> n + 1 < year_start (y + 1)\<close> z by (intro civil_in_year) auto
      moreover have "n + 1 - year_start (y + 1) = 0" using y \<open>\<not> n + 1 < year_start (y + 1)\<close> by simp
      ultimately show ?thesis using nxt by (simp add: algebra_simps)
    qed
  qed
qed

section \<open>Properties\<close>

text \<open>
  C40: the closed formulas of \<open>civil_from_days\<close> are the Gregorian calendar: day 0 is the
  first of January 1970, and for every day count, negative ones included, the date of
  the next day is the day after its date, with leap years by the 4, 100 and 400 year rules.
\<close>

theorem civil_from_days_calendar:
  "civil_from_days 0 = (1970, 1, 1) \<and> (\<forall>z. civil_from_days (z + 1) = next_day (civil_from_days z))"
proof (intro conjI allI)
  have "year_start 369 = 134774" "year_start (369 + 1) = 135139" by (simp_all add: year_start_def)
  then have "civil_from_days 0 = date_of 1969 306" using civil_in_year[of 369 135080 0 4] by simp
  moreover have "month_day 306 = (1, 1)" by (simp add: month_day_def as_u32_def)
  ultimately show "civil_from_days 0 = (1970, 1, 1)" by (simp add: date_of_def)
qed (rule civil_step)

end
