(* ===== verification/Dashboard_Views.thy ===== *)
theory Dashboard_Views
  imports Dashboard_Data Dashboard_Calendar
begin

text \<open>
  \<^verbatim>\<open>kuatia-dashboard/src/ui.rs\<close>: the view models, with money, ids and timestamps formatted for
  display, and the values each page hands to its template. A slice of a string that would
  split a character is a panic. Routes and rendering are in \<open>Dashboard_Server\<close>.
\<close>

section \<open>Formatting\<close>

record money_view =
  mv_text :: rstr
  mv_negative :: bool

definition asset_of :: "asset_meta list \<Rightarrow> asset_id \<Rightarrow> asset_meta option" where
  "asset_of assets i = List.find (\<lambda>a. am_id a = i) assets"

text \<open>The bytes of a character; a byte cast to \<open>char\<close> is the character of that number.\<close>

definition utf8_bytes :: "uchar \<Rightarrow> nat list" where
  "utf8_bytes c = (if c < 128 then [c] else if c < 2048 then [192 + c div 64, 128 + c mod 64]
     else if c < 65536 then [224 + c div 4096, 128 + c div 64 mod 64, 128 + c mod 64]
     else [240 + c div 262144, 128 + c div 4096 mod 64, 128 + c div 64 mod 64, 128 + c mod 64])"

fun group_bytes :: "nat \<Rightarrow> nat \<Rightarrow> nat list \<Rightarrow> rstr" where
  "group_bytes len i [] = []"
| "group_bytes len i (b # bs) = (if i > 0 \<and> (len - i) mod 3 = 0 then [44, b] else [b]) @ group_bytes len (Suc i) bs"

definition group_thousands :: "rstr \<Rightarrow> rstr" where
  "group_thousands digits = (let bytes = concat (map utf8_bytes digits) in group_bytes (length bytes) 0 bytes)"

definition fmt :: "cent \<Rightarrow> nat \<Rightarrow> rstr \<Rightarrow> money_view" where
  "fmt value dec symbol =
     (let raw = amount_format \<lparr>decimals = dec\<rparr> value;
          negative = starts_with [45] raw;
          unsigned = dropWhile (\<lambda>c. c = 45) raw;
          (whole, frac) = (case split_once 46 unsigned of Some (w, f) \<Rightarrow> (w, Some f) | None \<Rightarrow> (unsigned, None));
          grouped = group_thousands whole;
          body = (case frac of Some f \<Rightarrow> grouped @ [46] @ f | None \<Rightarrow> grouped);
          sign = (if negative then [45] else [])
      in \<lparr>mv_text = sign @ symbol @ body, mv_negative = negative\<rparr>)"

definition fmt_asset :: "cent \<Rightarrow> asset_meta option \<Rightarrow> money_view" where
  "fmt_asset value asset = (case asset of
     Some a \<Rightarrow> fmt value (am_decimals a) (am_symbol a)
   | None \<Rightarrow> \<lparr>mv_text = cent_to_string value, mv_negative = starts_with [45] (cent_to_string value)\<rparr>)"

text \<open>\<open>&hex[..8]\<close> and \<open>&hex[hex.len() - 6..]\<close> around an ellipsis.\<close>

definition short_hex :: "rstr \<Rightarrow> api_error fault + rstr" where
  "short_hex s = (if byte_len s \<le> 14 then Inr s
     else rbind (ok_or Panic (split_at_byte 8 s)) (\<lambda>(a, _).
          rbind (ok_or Panic (split_at_byte (byte_len s - 6) s)) (\<lambda>(_, z). Inr (a @ [8230] @ z))))"

text \<open>\<open>{v:0w}\<close>: a sign counts in the width.\<close>

definition pad_int :: "nat \<Rightarrow> int \<Rightarrow> rstr" where
  "pad_int w v = (if v < 0 then [45] @ pad_left (w - 1) (show_nat (nat (- v))) else pad_left w (show_nat (nat v)))"

definition fmt_millis :: "i64 \<Rightarrow> rstr" where
  "fmt_millis ms =
     (let secs = ms div 1000; days = secs div 86400; tod = secs mod 86400;
          h = quot tod 3600; m = quot (tod mod 3600) 60; s = tod mod 60;
          (y, mo, d) = civil_from_days days
      in pad_int 4 y @ lit ''-'' @ pad_left 2 (show_nat mo) @ lit ''-'' @ pad_left 2 (show_nat d) @ lit '' ''
         @ pad_int 2 h @ lit '':'' @ pad_int 2 m @ lit '':'' @ pad_int 2 s @ lit '' UTC'')"

section \<open>View models\<close>

record balance_view =
  bv_code :: rstr
  bv_money :: money_view

record account_view =
  av_id :: i64
  av_sub :: i64
  av_display_id :: rstr
  av_link :: rstr
  av_ui_link :: rstr
  av_name :: rstr
  av_version :: u64
  av_policy_kind :: rstr
  av_frozen :: bool
  av_closed :: bool
  av_balances :: "balance_view list"

record posting_view =
  pv_short_id :: rstr
  pv_status :: rstr
  pv_money :: money_view

record leg_view =
  lv_to_name :: rstr
  lv_from_name :: "rstr option"
  lv_is_change :: bool
  lv_money :: money_view

record transfer_view =
  tv_short_id :: rstr
  tv_full_id :: rstr
  tv_time :: rstr
  tv_consumes :: nat
  tv_legs :: "leg_view list"

record event_view =
  vv_seq :: u64
  vv_kind :: rstr
  vv_account :: "rstr option"
  vv_transfer_short :: "rstr option"
  vv_time :: rstr

record issued_view =
  iv_code :: rstr
  iv_money :: money_view

section \<open>From data to views\<close>

definition acct_display :: "u64 \<Rightarrow> account_id \<Rightarrow> rstr" where
  "acct_display seed i = group_chars 0 (code_text seed i)"

definition acct_link :: "u64 \<Rightarrow> account_id \<Rightarrow> rstr" where
  "acct_link seed i = lit ''/accounts/'' @ code_text seed i"

definition asset_code :: "asset_meta list \<Rightarrow> asset_id \<Rightarrow> rstr" where
  "asset_code assets i = (case asset_of assets i of Some a \<Rightarrow> am_code a | None \<Rightarrow> [])"

definition account_to_view :: "u64 \<Rightarrow> asset_meta list \<Rightarrow> account_dto \<Rightarrow> account_view" where
  "account_to_view seed assets dto =
     (let display_id = acct_display seed (ad_id dto); link = acct_link seed (ad_id dto)
      in \<lparr>av_id = aid_id (ad_id dto), av_sub = ad_sub dto, av_display_id = display_id, av_link = link, av_ui_link = lit ''/ui'' @ link,
          av_name = (case ad_label dto of Some l \<Rightarrow> l | None \<Rightarrow> display_id), av_version = ad_version dto,
          av_policy_kind = (if ad_floor dto then lit ''DebitMustNotExceedCredit'' else lit ''Overdraft''),
          av_frozen = ad_frozen dto, av_closed = ad_closed dto,
          av_balances = map (\<lambda>b. \<lparr>bv_code = asset_code assets (bd_asset b), bv_money = fmt_asset (bd_value b) (asset_of assets (bd_asset b))\<rparr>)
            (ad_balances dto)\<rparr>)"

definition leg_to_view :: "u64 \<Rightarrow> asset_meta list \<Rightarrow> transfer_leg_dto \<Rightarrow> leg_view" where
  "leg_to_view seed assets leg = \<lparr>lv_to_name = (case ld_label leg of Some l \<Rightarrow> l | None \<Rightarrow> acct_display seed (ld_owner leg)),
     lv_from_name = map_option (\<lambda>p. case ld_payer_label leg of Some l \<Rightarrow> l | None \<Rightarrow> acct_display seed p) (ld_payer leg),
     lv_is_change = (ld_payer leg = None), lv_money = fmt_asset (ld_value leg) (asset_of assets (ld_asset leg))\<rparr>"

definition transfer_to_view :: "u64 \<Rightarrow> asset_meta list \<Rightarrow> transfer_dto \<Rightarrow> api_error fault + transfer_view" where
  "transfer_to_view seed assets dto = rbind (short_hex (td_id dto)) (\<lambda>sid.
     Inr \<lparr>tv_short_id = sid, tv_full_id = td_id dto, tv_time = fmt_millis (td_created_at dto), tv_consumes = td_consumes dto,
          tv_legs = map (leg_to_view seed assets) (td_legs dto)\<rparr>)"

definition posting_to_view :: "asset_meta list \<Rightarrow> posting_dto \<Rightarrow> api_error fault + posting_view" where
  "posting_to_view assets dto = rbind (short_hex (pd_id dto)) (\<lambda>sid.
     Inr \<lparr>pv_short_id = sid, pv_status = pd_status dto, pv_money = fmt_asset (pd_value dto) (asset_of assets (pd_asset dto))\<rparr>)"

definition event_to_view :: "u64 \<Rightarrow> event_dto \<Rightarrow> api_error fault + event_view" where
  "event_to_view seed dto = rbind (case ed_transfer dto of None \<Rightarrow> Inr None | Some t \<Rightarrow> rbind (short_hex t) (\<lambda>s. Inr (Some s))) (\<lambda>ts.
     Inr \<lparr>vv_seq = ed_seq dto, vv_kind = ed_kind dto, vv_account = map_option (acct_display seed) (ed_account dto),
          vv_transfer_short = ts, vv_time = fmt_millis (ed_timestamp dto)\<rparr>)"

definition issued_to_view :: "asset_meta list \<Rightarrow> overview_dto \<Rightarrow> issued_view list" where
  "issued_to_view assets dto = map (\<lambda>i. \<lparr>iv_code = asset_code assets (id_asset i),
     iv_money = fmt_asset (id_issued i) (asset_of assets (id_asset i))\<rparr>) (od_issued dto)"

section \<open>The values of a page\<close>

text \<open>A pure step that can panic.\<close>

definition render_step :: "api_error fault + 'a \<Rightarrow> 'a api" where
  "render_step r w = (r, w)"

definition overview_ctx :: "app_state \<Rightarrow> (nat \<times> nat \<times> nat \<times> issued_view list) api" where
  "overview_ctx st = abind (overview st) (\<lambda>dto.
     areturn (od_accounts dto, od_transfers dto, od_assets dto, issued_to_view (ap_assets st) dto))"

definition accounts_ctx :: "app_state \<Rightarrow> account_view list api" where
  "accounts_ctx st = abind (dash_accounts st) (\<lambda>ds. areturn (map (account_to_view (ap_seed st) (ap_assets st)) ds))"

definition account_ctx :: "app_state \<Rightarrow> account_id \<Rightarrow> (account_view \<times> account_view list \<times> posting_view list \<times> transfer_view list) api" where
  "account_ctx st i = abind (account_detail st i) (\<lambda>dto.
     abind (render_step (try_map (posting_to_view (ap_assets st)) (dd_postings dto))) (\<lambda>ps.
     abind (render_step (try_map (transfer_to_view (ap_seed st) (ap_assets st)) (dd_transfers dto))) (\<lambda>ts.
     areturn (account_to_view (ap_seed st) (ap_assets st) (dd_account dto),
       map (account_to_view (ap_seed st) (ap_assets st)) (dd_subaccounts dto), ps, ts))))"

definition transfers_ctx :: "app_state \<Rightarrow> transfer_view list api" where
  "transfers_ctx st = abind (dash_transfers st None) (\<lambda>ds. render_step (try_map (transfer_to_view (ap_seed st) (ap_assets st)) ds))"

definition events_ctx :: "app_state \<Rightarrow> event_view list api" where
  "events_ctx st = abind (dash_events st 0 200) (\<lambda>ds. render_step (try_map (event_to_view (ap_seed st)) (rev ds)))"

definition account_page :: "app_state \<Rightarrow> rstr \<Rightarrow> (account_view \<times> account_view list \<times> posting_view list \<times> transfer_view list) api" where
  "account_page st uuid = abind (parse_account_path st uuid) (account_ctx st)"

end
