(* ===== verification/Dashboard_Laws.thy ===== *)
theory Dashboard_Laws
  imports Dashboard_Views
begin

text \<open>
  What the dashboard shows: a displayed amount reads back as the amount, a page never fails
  to render, the pages only read the ledger, the demo data is a sequence of ledger calls, and
  the pages of recent transfers and events are pages of the oldest ones.
\<close>

section \<open>Displayed amounts\<close>

lemma printed_amount_shape:
  assumes d: "decimals a \<le> 18"
  obtains w frac where "amount_format a c = (if c < 0 then [45] else []) @ w @ frac"
    and "list_all is_ascii_digit w" "w \<noteq> []" and "frac = [] \<and> decimals a = 0 \<or> (\<exists>f. frac = 46 # f \<and> length f = decimals a \<and> decimals a \<noteq> 0)"
proof (cases "decimals a = 0")
  case True
  have "amount_format a c = (if c < 0 then [45] else []) @ show_nat (nat \<bar>c\<bar>) @ []"
    using True by (simp add: amount_format_def cent_to_string_def show_int_def)
  then show ?thesis using True that[of "show_nat (nat \<bar>c\<bar>)" "[]"] by simp
next
  case False
  have "(10::int) ^ decimals a \<le> 10 ^ 18" using d by (intro power_increasing) auto
  moreover have "i64_ok (10 ^ 18)" by (simp add: range_defs)
  ultimately have ten: "i64_ok (10 ^ decimals a)" by (meson i64_ok_between zero_le_numeral zero_le_power)
  obtain q r where qr: "i64_div_rem_abs c (10 ^ decimals a) = (q, r)" by fastforce
  have tp: "i64_ten_pow (decimals a) = Some (10 ^ decimals a)" using ten by (simp add: i64_backing.ten_pow_exact)
  have "amount_format a c = (if c < 0 then [45] else []) @ show_nat q @ 46 # pad_left (decimals a) (show_nat r)"
    using False tp qr by (simp add: amount_format_def is_negative_def)
  then show ?thesis
    using False i64_backing.split_scaled[OF tp qr] that[of "show_nat q" "46 # pad_left (decimals a) (show_nat r)"]
    by (simp add: length_pad_left_frac)
qed

text \<open>No comma falls inside a group.\<close>

lemma group_head:
  "(\<And>j. j < length p \<Longrightarrow> 0 < i + j \<Longrightarrow> (len - (i + j)) mod 3 \<noteq> 0) \<Longrightarrow>
     group_bytes len i (p @ r) = p @ group_bytes len (i + length p) r"
proof (induction p arbitrary: i)
  case (Cons b p)
  have "\<not> (i > 0 \<and> (len - i) mod 3 = 0)" using Cons.prems[of 0] by force
  moreover have "group_bytes len (Suc i) (p @ r) = p @ group_bytes len (Suc i + length p) r"
  proof (rule Cons.IH)
    fix j
    assume "j < length p"
    then show "(len - (Suc i + j)) mod 3 \<noteq> 0" using Cons.prems[of "Suc j"] by simp
  qed
  ultimately show ?case by (simp only: append_Cons group_bytes.simps if_False) simp
qed simp

text \<open>Every group after the first has three digits.\<close>

lemma group_tail:
  "length bs = 3 * n \<Longrightarrow> len = i + length bs \<Longrightarrow> 0 < i \<Longrightarrow>
     \<exists>gs. group_bytes len i bs = concat (map ((#) 44) gs) \<and> concat gs = bs \<and> list_all (\<lambda>g. length g = 3) gs"
proof (induction n arbitrary: i bs)
  case (Suc n)
  then obtain a p r where bs: "bs = a # p @ r" "length p = 2" "length r = 3 * n"
    by (cases bs) (auto intro!: that[of _ "take 2 (tl bs)" "drop 2 (tl bs)"])
  obtain gs where gs: "group_bytes len (Suc (Suc (Suc i))) r = concat (map ((#) 44) gs)" "concat gs = r" "list_all (\<lambda>g. length g = 3) gs"
    using Suc.IH[of r "Suc (Suc (Suc i))"] Suc.prems bs by auto
  have "group_bytes len (Suc i) (p @ r) = p @ group_bytes len (Suc i + length p) r"
  proof (rule group_head)
    fix j
    assume "j < length p"
    then have "len - (Suc i + j) = (2 - j) + 3 * n" using Suc.prems bs by simp
    then have "(len - (Suc i + j)) mod 3 = (2 - j) mod 3" by simp
    then show "(len - (Suc i + j)) mod 3 \<noteq> 0" using \<open>j < length p\<close> bs by simp
  qed
  moreover have "len - i = 3 * Suc n" using Suc.prems by simp
  moreover have "Suc i + length p = Suc (Suc (Suc i))" using bs by simp
  ultimately have "group_bytes len i bs = concat (map ((#) 44) ((a # p) # gs))"
    using Suc.prems(3) gs bs(1) by simp
  then show ?case using gs bs by (intro exI[of _ "(a # p) # gs"]) simp
qed (auto intro!: exI[of _ "[]"])

lemma group_shape:
  assumes "bs \<noteq> []"
  obtains g gs where "group_bytes (length bs) 0 bs = g @ concat (map ((#) 44) gs)" "g @ concat gs = bs"
    "0 < length g" "length g \<le> 3" "list_all (\<lambda>h. length h = 3) gs"
proof -
  define k where "k = (if length bs mod 3 = 0 then 3 else length bs mod 3)"
  have k: "0 < k" "k \<le> 3" "k \<le> length bs" "(length bs - k) mod 3 = 0"
  proof -
    show "0 < k" "k \<le> 3" by (simp_all add: k_def)
    have "length bs \<noteq> 0" using assms by simp
    then show "k \<le> length bs" unfolding k_def by presburger
    show "(length bs - k) mod 3 = 0" using \<open>length bs \<noteq> 0\<close> unfolding k_def by presburger
  qed
  obtain p r where bs: "bs = p @ r" "length p = k" using k(3) by (metis append_take_drop_id length_take min.absorb2)
  obtain n where n: "length r = 3 * n" using k(4) bs by auto
  obtain gs where gs: "group_bytes (length bs) k r = concat (map ((#) 44) gs)" "concat gs = r" "list_all (\<lambda>g. length g = 3) gs"
    using group_tail[OF n, of "length bs" k] bs k by auto
  have "group_bytes (length bs) 0 (p @ r) = p @ group_bytes (length bs) (0 + length p) r"
  proof (rule group_head)
    fix j
    assume j: "j < length p" "0 < 0 + j"
    then have "length bs - (0 + j) = (k - j) + 3 * n" using bs n by simp
    then have "(length bs - (0 + j)) mod 3 = (k - j) mod 3" by simp
    moreover have "0 < k - j" "k - j < 3" using j bs k by simp_all
    ultimately show "(length bs - (0 + j)) mod 3 \<noteq> 0" by simp
  qed
  then show thesis using that[of p gs] gs bs k by simp
qed

lemma utf8_ascii: "list_all is_ascii_digit w \<Longrightarrow> concat (map utf8_bytes w) = w"
  by (induction w) (auto simp: utf8_bytes_def is_ascii_digit_def)

text \<open>
  a displayed amount is the sign, the symbol and the digits with a comma before every
  three digits of the whole part, and without the symbol and the commas it parses back as
  the amount shown.
\<close>

theorem displayed_amount:
  assumes c: "i64_ok c" "c \<noteq> i64_min" and d: "d \<le> 18"
  shows "\<exists>g gs frac. mv_text (fmt c d symbol) = (if c < 0 then [45] else []) @ symbol @ g @ concat (map ((#) 44) gs) @ frac \<and>
     0 < length g \<and> length g \<le> 3 \<and> list_all (\<lambda>h. length h = 3) gs \<and> length frac = (if d = 0 then 0 else Suc d) \<and>
     amount_parse \<lparr>decimals = d\<rparr> ((if c < 0 then [45] else []) @ g @ concat gs @ frac) = Inr c \<and>
     (mv_negative (fmt c d symbol) \<longleftrightarrow> c < 0)"
proof -
  let ?a = "\<lparr>decimals = d\<rparr>" and ?s = "if c < 0 then [45] else []"
  obtain w frac where raw: "amount_format ?a c = ?s @ w @ frac" and w: "list_all is_ascii_digit w" "w \<noteq> []"
    and frac: "frac = [] \<and> d = 0 \<or> (\<exists>f. frac = 46 # f \<and> length f = d \<and> d \<noteq> 0)"
    using printed_amount_shape[of ?a c] d by auto
  obtain g gs where g: "group_bytes (length w) 0 w = g @ concat (map ((#) 44) gs)" "g @ concat gs = w"
    "0 < length g" "length g \<le> 3" "list_all (\<lambda>h. length h = 3) gs"
    by (rule group_shape[OF w(2)])
  have gt: "group_thousands w = g @ concat (map ((#) 44) gs)"
    using g(1) by (simp add: group_thousands_def utf8_ascii[OF w(1)])
  obtain x r where x: "w = x # r" "x \<noteq> 45" using w by (cases w) (auto dest: digit_not_special(1))
  have neg: "starts_with [45] (?s @ w @ frac) \<longleftrightarrow> c < 0" using x by (simp add: starts_with_def)
  have strip: "dropWhile (\<lambda>c. c = 45) (?s @ w @ frac) = w @ frac" using x by simp
  have sp: "split_once 46 (w @ frac) = (if d = 0 then None else Some (w, tl frac))" and frac': "frac = (if d = 0 then [] else 46 # tl frac)"
    using frac split_once_digits[OF w(1)] by auto
  have fm: "fmt c d symbol = \<lparr>mv_text = ?s @ symbol @ g @ concat (map ((#) 44) gs) @ frac, mv_negative = (c < 0)\<rparr>"
    unfolding fmt_def Let_def raw neg strip sp using frac' by (auto simp: gt)
  have "amount_parse ?a (?s @ g @ concat gs @ frac) = Inr c"
    using amount_roundtrip[of c ?a] c d by (simp add: raw g(2)[symmetric])
  then show ?thesis
    using g frac by (intro exI[of _ g] exI[of _ gs] exI[of _ frac]) (auto simp: fm)
qed

theorem displayed_amount_witness:
  "\<exists>g gs frac. mv_text (fmt (- 123456789) 2 (lit ''$'')) = [45] @ lit ''$'' @ g @ concat (map ((#) 44) gs) @ frac \<and>
     0 < length g \<and> length g \<le> 3 \<and> list_all (\<lambda>h. length h = 3) gs \<and> length frac = 3 \<and>
     amount_parse \<lparr>decimals = 2\<rparr> ([45] @ g @ concat gs @ frac) = Inr (- 123456789) \<and>
     mv_negative (fmt (- 123456789) 2 (lit ''$''))"
  using displayed_amount[of "- 123456789" 2 "lit ''$''"] by (simp add: range_defs)

section \<open>Rendering never fails\<close>

lemma hex_ascii: "c \<in> set (hex xs) \<Longrightarrow> c < 128"
proof -
  have "hex_digit n < 128" if "n < 16" for n using that by (simp add: hex_digit_def)
  moreover have "unat b div 16 < 16" for b :: byte using unsigned_less[of b, where 'a = nat] by (simp add: div_less_iff_less_mult)
  ultimately show "c \<in> set (hex xs) \<Longrightarrow> c < 128" by (auto simp: hex_def)
qed

lemma short_hex_ascii:
  assumes "\<And>c. c \<in> set s \<Longrightarrow> c < 128"
  shows "\<exists>t. short_hex s = Inr t"
proof -
  have split: "split_at_byte n s = Some (take n s, drop n s)" if "n \<le> length s" for n
    using split_at_byte_ascii[of "take n s" "drop n s"] assms that by (auto dest: in_set_takeD)
  have "byte_len s = length s" by (rule byte_len_ascii) (rule assms)
  then show ?thesis using split[of 8] split[of "length s - 6"] by (cases "length s \<le> 14") (simp_all add: short_hex_def)
qed

lemma short_hex_hex: "\<exists>t. short_hex (hex xs) = Inr t"
  by (rule short_hex_ascii) (rule hex_ascii)

lemma posting_id_ascii: "c \<in> set (posting_id_text i) \<Longrightarrow> c < 128"
  using hex_ascii digit_not_special show_nat_digits
  by (auto simp: posting_id_text_def hex32_def lit_def is_ascii_digit_def dest!: show_nat_digits)

lemma try_map_renders: "(\<And>x. x \<in> set xs \<Longrightarrow> \<exists>y. f x = Inr y) \<Longrightarrow> \<exists>ys. try_map f xs = Inr ys"
  using try_map_ok[of xs f] by (simp add: is_ok_iff)

lemma transfer_renders: "\<exists>v. transfer_to_view seed assets (transfer_to_dto r) = Inr v"
proof -
  obtain t where "short_hex (td_id (transfer_to_dto r)) = Inr t"
    using short_hex_hex by (auto simp: transfer_to_dto_def hex32_def)
  then show ?thesis by (simp add: transfer_to_view_def)
qed

lemma event_renders: "\<exists>v. event_to_view seed (event_to_dto ev) = Inr v"
proof (cases "ed_transfer (event_to_dto ev)")
  case (Some h)
  then have "\<exists>xs. h = hex xs" by (auto simp: event_to_dto_def hex32_def split: ledger_event_kind.splits)
  then obtain t where "short_hex h = Inr t" using short_hex_hex by blast
  then show ?thesis using Some by (simp add: event_to_view_def)
qed (simp add: event_to_view_def)

lemma posting_renders: "\<exists>v. posting_to_view assets \<lparr>pd_id = posting_id_text i, pd_owner = ow, pd_asset = as, pd_value = x, pd_status = st\<rparr> = Inr v"
proof -
  obtain t where "short_hex (posting_id_text i) = Inr t" using short_hex_ascii posting_id_ascii by blast
  then show ?thesis by (simp add: posting_to_view_def)
qed

section \<open>Pages only read\<close>

text \<open>What an action of the dashboard does to the store, in terms of the ledger calls it makes.\<close>

definition act_preserves :: "(mem_store \<Rightarrow> mem_store \<Rightarrow> bool) \<Rightarrow> ('e, 'a) act \<Rightarrow> bool" where
  "act_preserves R m \<longleftrightarrow> (\<forall>w. R (w_store w) (w_store (snd (m w))))"

lemma act_preservesD: "act_preserves R m \<Longrightarrow> R (w_store w) (w_store (snd (m w)))"
  by (simp add: act_preserves_def)

context store_relation
begin

lemma act_bind [intro]: "act_preserves R m \<Longrightarrow> (\<And>a. act_preserves R (f a)) \<Longrightarrow> act_preserves R (abind m f)"
  unfolding act_preserves_def abind_def by (auto split: prod.splits sum.splits) (metis trans snd_conv)+

lemma act_fold [intro]: "(\<And>s a. a \<in> set as \<Longrightarrow> act_preserves R (f s a)) \<Longrightarrow> act_preserves R (afold f s as)"
proof (induction as arbitrary: s)
  case Nil
  then show ?case by (simp add: act_preserves_def areturn_def refl)
qed (simp add: act_bind)

lemma act_call [intro]: "preserves R m \<Longrightarrow> act_preserves R (acall g m)"
  by (simp add: act_preserves_def acall_def preserves_def split_beta)

lemma act_pure [simp]:
  "act_preserves R (areturn a)" "act_preserves R (afail e)" "act_preserves R (apure g r)" "act_preserves R (render_step r')"
  by (simp_all add: act_preserves_def areturn_def afail_def apure_def render_step_def refl)

end

lemma reads_queries [simp]:
  "reads (ledger_list_accounts env)" "reads (ledger_get_account i)" "reads (history env i)" "reads (ledger_query_transfers env q)"
  "reads (postings_with_state env i)" "reads (list_subaccounts env i)" "reads (ledger_get_events_since n k)"
  unfolding ledger_list_accounts_def ledger_get_account_def history_def ledger_query_transfers_def postings_with_state_def
    ledger_postings_def list_subaccounts_def ledger_get_events_since_def
  by (auto intro!: ro.preserves_bind split: sum.splits)

lemma builders_read:
  "act_preserves (=) (account_to_dto st a)" "act_preserves (=) (issued_assets st)" "act_preserves (=) (parse_account_path st s)"
  unfolding account_to_dto_def issued_assets_def from_ledger_def
  by (auto intro!: ro.act_bind ro.act_fold ro.act_call) (simp add: act_preserves_def parse_account_path_def)

lemma pages_read:
  "act_preserves (=) (overview st)" "act_preserves (=) (dash_accounts st)" "act_preserves (=) (account_detail st i)"
  "act_preserves (=) (dash_transfers st lim)" "act_preserves (=) (dash_events st n k)"
  unfolding overview_def dash_accounts_def account_detail_def dash_transfers_def dash_events_def from_ledger_def Let_def
  by (auto intro!: ro.act_bind ro.act_fold ro.act_call builders_read)

text \<open>
  No page and no handler of the API writes: whatever it returns, the store after it is
  the store before it.
\<close>

lemma pages_only_read:
  "w_store (snd (overview_ctx st w)) = w_store w \<and> w_store (snd (accounts_ctx st w)) = w_store w \<and>
   w_store (snd (account_page st path w)) = w_store w \<and> w_store (snd (api_account_detail st path w)) = w_store w \<and>
   w_store (snd (transfers_ctx st w)) = w_store w \<and> w_store (snd (events_ctx st w)) = w_store w \<and>
   w_store (snd (api_events st n k w)) = w_store w"
proof -
  have "act_preserves (=) (overview_ctx st)" "act_preserves (=) (accounts_ctx st)" "act_preserves (=) (account_page st path)"
    "act_preserves (=) (api_account_detail st path)" "act_preserves (=) (transfers_ctx st)" "act_preserves (=) (events_ctx st)"
    "act_preserves (=) (api_events st n k)"
    unfolding overview_ctx_def accounts_ctx_def account_page_def account_ctx_def api_account_detail_def transfers_ctx_def
      events_ctx_def api_events_def
    by (auto intro!: ro.act_bind pages_read builders_read)
  then show ?thesis using act_preservesD by metis
qed

section \<open>Demo data\<close>

lemma seed_calls_steps:
  assumes "externs_ok (le_ext env)"
  shows "act_preserves (store_steps env) (seed_create env i b)" "act_preserves (store_steps env) (seed_deposit env tt as amt)"
    "act_preserves (store_steps env) (seed_pay env fr tt as amt)" "act_preserves (store_steps env) (seed_trade env)"
  unfolding seed_create_def seed_deposit_def seed_pay_def seed_trade_def seed_amount_def
  by (auto intro!: steps.act_bind steps.act_call create_account_steps commit_steps[OF assms])

lemma seed_amount_steps: "(\<And>v. act_preserves (store_steps env) (f v)) \<Longrightarrow> act_preserves (store_steps env) (seed_amount d s f)"
  unfolding seed_amount_def by (auto intro!: steps.act_bind)

lemma populate_steps: "externs_ok (le_ext env) \<Longrightarrow> act_preserves (store_steps env) (populate env)"
  unfolding populate_def by (rule steps.act_fold) (auto intro!: seed_calls_steps seed_amount_steps)

text \<open>
  Seeding an empty ledger is a sequence of ledger calls, so it leads from a reachable store to a
  reachable one, also when a call in it fails, and every invariant of the ledger holds of
  the demo data; a ledger that has an account is left alone.
\<close>

lemma seeding_stays_reachable:
  assumes "externs_ok (le_ext env)" "reachable env (w_store w)"
  shows "reachable env (w_store (snd (seed_if_empty env w))) \<and>
     (list_accounts (le_hash env) (w_store w) \<noteq> [] \<longrightarrow> seed_if_empty env w = (Inr False, w))"
proof
  have "act_preserves (store_steps env) (seed_if_empty env)"
    unfolding seed_if_empty_def
    by (auto intro!: steps.act_bind steps.act_call reads_steps populate_steps[OF assms(1)])
  then have "store_steps env (w_store w) (w_store (snd (seed_if_empty env w)))" by (rule act_preservesD)
  then show "reachable env (w_store (snd (seed_if_empty env w)))" using assms(2) by (auto simp: reachable_def)
qed (simp add: seed_if_empty_def abind_def acall_def ledger_list_accounts_def areturn_def)

section \<open>Recent transfers and events\<close>

lemma mset_sort_key: "mset (sort_key f xs) = mset xs"
  by simp

lemma sorted_desc: "sorted (map f (rev (sort_key (\<lambda>x. - f x) xs)))" for f :: "'a \<Rightarrow> int"
proof -
  have "sorted (map (\<lambda>x. - f x) (sort_key (\<lambda>x. - f x) xs))" by simp
  then have "sorted_wrt (\<lambda>a b. f b \<le> f a) (sort_key (\<lambda>x. - f x) xs)" by (simp add: sorted_map)
  then show ?thesis by (simp add: sorted_map sorted_wrt_rev)
qed

lemma transfers_list_page:
  assumes h: "hash_order_ok (le_hash (ap_env st))"
  obtains all where "mset all = mset (map snd (ms_transfers (w_store w)))" "sorted (map er_created_at all)"
    "dash_transfers st None w = (Inr (sort_key (\<lambda>t. - td_created_at t) (map transfer_to_dto (take 100 all))), w)"
proof -
  define all where "all = sort_key er_created_at (ho_records (le_hash (ap_env st)) (map snd (ms_transfers (w_store w))))"
  have "mset all = mset (map snd (ms_transfers (w_store w)))" using h by (simp add: all_def hash_order_ok_def)
  moreover have "sorted (map er_created_at all)" by (simp add: all_def)
  moreover have "dash_transfers st None w = (Inr (sort_key (\<lambda>t. - td_created_at t) (map transfer_to_dto (take 100 all))), w)"
    by (simp add: dash_transfers_def from_ledger_def ledger_query_transfers_def query_transfers_def default_query_def
        filter_transfers_def paginate_def window_def abind_def acall_def areturn_def all_def)
  ultimately show ?thesis by (rule that)
qed

lemma transfers_page:
  assumes "hash_order_ok (le_hash (ap_env st))"
  shows "\<exists>all ds vs. mset all = mset (map snd (ms_transfers (w_store w))) \<and> sorted (map er_created_at all) \<and>
     dash_transfers st None w = (Inr ds, w) \<and> mset ds = mset (map transfer_to_dto (take 100 all)) \<and>
     sorted (map td_created_at (rev ds)) \<and> transfers_ctx st w = (Inr vs, w) \<and> map tv_full_id vs = map td_id ds"
proof -
  obtain all where all: "mset all = mset (map snd (ms_transfers (w_store w)))" "sorted (map er_created_at all)"
    "dash_transfers st None w = (Inr (sort_key (\<lambda>t. - td_created_at t) (map transfer_to_dto (take 100 all))), w)"
    by (rule transfers_list_page[OF assms])
  define ds where "ds = sort_key (\<lambda>t. - td_created_at t) (map transfer_to_dto (take 100 all))"
  have "\<exists>v. transfer_to_view (ap_seed st) (ap_assets st) d = Inr v" if "d \<in> set ds" for d
    using that transfer_renders by (auto simp: ds_def)
  then obtain vs where vs: "try_map (transfer_to_view (ap_seed st) (ap_assets st)) ds = Inr vs" using try_map_renders by blast
  have "map tv_full_id vs = map td_id ds"
    by (rule try_map_images[OF vs]) (auto simp: transfer_to_view_def rbind_eq_Inr)
  moreover have "transfers_ctx st w = (Inr vs, w)"
    using all(3) vs by (simp add: transfers_ctx_def abind_def render_step_def ds_def)
  moreover have "sorted (map td_created_at (rev ds))" unfolding ds_def by (rule sorted_desc)
  moreover have "mset ds = mset (map transfer_to_dto (take 100 all))" by (simp add: ds_def)
  ultimately show ?thesis using all ds_def by blast
qed

lemma events_page:
  "\<exists>vs. events_ctx st w = (Inr vs, w) \<and>
     map vv_seq vs = rev (map ev_seq (take 200 (filter (\<lambda>e. ev_seq e > 0) (ms_events (w_store w)))))"
proof -
  define evs where "evs = map event_to_dto (take 200 (filter (\<lambda>e. ev_seq e > 0) (ms_events (w_store w))))"
  have ev: "dash_events st 0 200 w = (Inr evs, w)"
    by (simp add: dash_events_def from_ledger_def ledger_get_events_since_def get_events_since_def abind_def acall_def areturn_def evs_def)
  have "\<exists>v. event_to_view (ap_seed st) d = Inr v" if "d \<in> set (rev evs)" for d
    using that event_renders by (auto simp: evs_def)
  then obtain vs where vs: "try_map (event_to_view (ap_seed st)) (rev evs) = Inr vs" using try_map_renders by blast
  have "map vv_seq vs = map ed_seq (rev evs)"
    by (rule try_map_images[OF vs]) (auto simp: event_to_view_def rbind_eq_Inr)
  moreover have "ed_seq (event_to_dto e) = ev_seq e" for e by (simp add: event_to_dto_def split: ledger_event_kind.splits)
  then have "map ed_seq (rev evs) = rev (map ev_seq (take 200 (filter (\<lambda>e. ev_seq e > 0) (ms_events (w_store w)))))"
    by (simp add: evs_def rev_map comp_def)
  ultimately show ?thesis using ev vs by (simp add: events_ctx_def abind_def render_step_def)
qed

text \<open>
  the page of recent transfers, documented as newest first, is the page of the hundred
  oldest transfers in descending order: the ledger returns the first hundred in ascending order
  of time and the dashboard sorts that page. The page of events is in the same way the two
  hundred oldest events reversed. With more transfers or events than a page holds the
  newest one is never shown. Both pages always render.
\<close>

theorem recent_pages_are_oldest:
  assumes "hash_order_ok (le_hash (ap_env st))"
  shows "(\<exists>all ds vs. mset all = mset (map snd (ms_transfers (w_store w))) \<and> sorted (map er_created_at all) \<and>
     dash_transfers st None w = (Inr ds, w) \<and> mset ds = mset (map transfer_to_dto (take 100 all)) \<and>
     sorted (map td_created_at (rev ds)) \<and> transfers_ctx st w = (Inr vs, w) \<and> map tv_full_id vs = map td_id ds) \<and>
   (\<exists>vs. events_ctx st w = (Inr vs, w) \<and>
     map vv_seq vs = rev (map ev_seq (take 200 (filter (\<lambda>e. ev_seq e > 0) (ms_events (w_store w))))))"
  using transfers_page[OF assms] events_page by blast

section \<open>Links to accounts\<close>

lemma detail_renders:
  assumes "account_detail st i w = (Inr dto, w')"
  shows "\<exists>ps ts. try_map (posting_to_view assets) (dd_postings dto) = Inr ps \<and> try_map (transfer_to_view seed assets) (dd_transfers dto) = Inr ts"
proof -
  obtain ps rs :: "(posting \<times> posting_state) list" and rs' where
    p: "dd_postings dto = sort_key (\<lambda>p. - pd_value p) (map (\<lambda>(p, s). \<lparr>pd_id = posting_id_text (p_id p), pd_owner = p_owner p,
           pd_asset = p_asset p, pd_value = p_value p, pd_status = posting_state_label s\<rparr>) ps)"
    and t: "dd_transfers dto = map transfer_to_dto rs'"
    using assms by (auto simp: account_detail_def abind_def areturn_def Let_def split: prod.splits sum.splits)
  have "\<exists>ps. try_map (posting_to_view assets) (dd_postings dto) = Inr ps"
    by (rule try_map_renders) (auto simp: p posting_renders)
  moreover have "\<exists>ts. try_map (transfer_to_view seed assets) (dd_transfers dto) = Inr ts"
    by (rule try_map_renders) (auto simp: t transfer_renders)
  ultimately show ?thesis by blast
qed

text \<open>
  The link of an account, and its grouped code typed by hand, open the page of that
  account, and the page renders exactly when its reads succeed.
\<close>

lemma account_links_open:
  assumes "0 \<le> aid_id i" "aid_id i < 2 ^ 63" "0 \<le> aid_sub i" "aid_sub i < 2 ^ 30"
  shows "account_page st (drop 10 (acct_link (ap_seed st) i)) = account_ctx st i \<and>
     account_page st (acct_display (ap_seed st) i) = account_ctx st i \<and>
     is_ok (fst (account_ctx st i w)) = is_ok (fst (account_detail st i w))"
proof -
  obtain s where s: "account_id_to_string (ap_seed st) i = Some s" "account_id_from_str (ap_seed st) s = Some (Inr i)"
    "account_id_from_str (ap_seed st) (group_chars 0 s) = Some (Inr i)"
    using code_roundtrip[OF assms] by blast
  have "length (lit ''/accounts/'') = 10" by (simp add: lit_def)
  then have link: "drop 10 (acct_link (ap_seed st) i) = s" by (simp add: acct_link_def code_text_def s)
  have page: "account_page st t = account_ctx st i" if "account_id_from_str (ap_seed st) t = Some (Inr i)" for t
    using that by (simp add: account_page_def abind_def parse_account_path_def fun_eq_iff)
  have "is_ok (fst (account_ctx st i w)) = is_ok (fst (account_detail st i w))"
  proof (cases "account_detail st i w")
    case (Pair r w')
    then show ?thesis
      using detail_renders[of st i w _ w' "ap_assets st" "ap_seed st"]
      by (cases r) (auto simp: account_ctx_def abind_def render_step_def areturn_def)
  qed
  then show ?thesis using page s link by (simp add: acct_display_def code_text_def)
qed

end
