(* ===== verification/Dashboard_Scenario.thy ===== *)
theory Dashboard_Scenario
  imports Dashboard_Laws Scenario
begin

text \<open>
  The dashboard over the demo ledger, on which the properties of its pages are applied,
  and over a store with one transfer more than its page of recent transfers holds.
\<close>

definition demo_state :: app_state where
  "demo_state = \<lparr>ap_env = demo_env, ap_ledger = ledger_new, ap_assets = registry, ap_seed = DEFAULT_ID_SEED\<rparr>"

lemma demo_state_env [simp]: "ap_env demo_state = demo_env"
  by (simp add: demo_state_def)

text \<open>One transfer for each of the instants 1 to 101.\<close>

definition record_at :: "nat \<Rightarrow> envelope_record" where
  "record_at n = \<lparr>er_envelope = envelope_builder_new, er_receipt = \<lparr>r_transfer_id = EnvelopeId (replicate 32 (word_of_nat n))\<rparr>,
     er_created_at = int n\<rparr>"

definition crowded :: world where
  "crowded = world_new\<lparr>w_store := mem_store_new\<lparr>ms_transfers :=
     map (\<lambda>n. (r_transfer_id (er_receipt (record_at n)), record_at n)) [1..<102]\<rparr>\<rparr>"

theorem recent_pages_are_oldest_witness:
  "\<exists>ds. dash_transfers demo_state None crowded = (Inr ds, crowded) \<and> length ds = 100 \<and>
     length (ms_transfers (w_store crowded)) = 101 \<and> 101 \<in> er_created_at ` set (map snd (ms_transfers (w_store crowded))) \<and>
     101 \<notin> td_created_at ` set ds"
proof -
  obtain all ds where all: "mset all = mset (map snd (ms_transfers (w_store crowded)))" "sorted (map er_created_at all)"
    and ds: "dash_transfers demo_state None crowded = (Inr ds, crowded)" "mset ds = mset (map transfer_to_dto (take 100 all))"
    using recent_pages_are_oldest[of demo_state crowded] demo_env_ok(2) by auto
  have rs: "map snd (ms_transfers (w_store crowded)) = map record_at [1..<102]"
    by (simp add: crowded_def comp_def del: upt_Suc upt_rec_numeral)
  have "mset (map er_created_at all) = mset (map er_created_at (map record_at [1..<102]))"
    using all(1) unfolding rs by (metis mset_map)
  moreover have "map er_created_at (map record_at [1..<102]) = map int [1..<102]"
    by (simp add: record_at_def comp_def del: upt_Suc upt_rec_numeral)
  moreover have "sorted (map int [1..<102])" by (rule sorted_map_mono) (simp_all add: mono_on_def)
  ultimately have times: "map er_created_at all = map int [1..<102]" using all(2) by (metis properties_for_sort)
  have tds: "td_created_at ` set ds = er_created_at ` set (take 100 all)"
  proof -
    have "set ds = transfer_to_dto ` set (take 100 all)" using ds(2) by (metis list.set_map set_mset_mset)
    then show ?thesis by (simp add: image_image transfer_to_dto_def)
  qed
  have "er_created_at ` set (take 100 all) = set (take 100 (map int [1..<102]))"
    unfolding times[symmetric] take_map by simp
  moreover have "101 \<notin> set (take 100 (map int [1..<102]))" by (auto simp: take_map)
  moreover have "length all = 101" using arg_cong[OF times, of length] by simp
  then have "length ds = 100" using arg_cong[OF ds(2), of size] by simp
  moreover have "101 \<in> er_created_at ` set (map record_at [1..<102])"
    by (rule image_eqI[of _ _ "record_at 101"]) (simp add: record_at_def, simp del: upt_Suc upt_rec_numeral)
  ultimately show ?thesis using ds(1) tds rs by (intro exI[of _ ds]) (simp add: crowded_def)
qed

end
