(* ===== verification/Error_Text.thy ===== *)
theory Error_Text
  imports Ledger_Base
begin

text \<open>
  What the errors and identifiers print: the \<open>Debug\<close> implementations of \<open>kuatia-types/src/ids.rs\<close> and the \<open>Display\<close>
  implementations of the error types (\<open>kuatia-core/src/{validate,posting_resolution}.rs\<close>,
  \<open>kuatia-storage/src/error.rs\<close>, \<open>kuatia/src/error.rs\<close>). Messages of the database engine and of the codecs
  are a parameter.
\<close>

section \<open>Identifiers\<close>

definition debug_account_id :: "account_id \<Rightarrow> rstr" where
  "debug_account_id i = (if aid_sub i = 0 then lit ''AccountId('' @ show_int (aid_id i) @ lit '')''
     else lit ''AccountId('' @ show_int (aid_id i) @ lit ''.'' @ show_int (aid_sub i) @ lit '')'')"

text \<open>\<open>{:#010x}\<close>: eight digits after the prefix, which is what a \<open>u32\<close> needs at most.\<close>

definition hex_u32 :: "u32 \<Rightarrow> rstr" where
  "hex_u32 w = lit ''0x'' @ map (\<lambda>k. hex_digit (unat (drop_bit (4 * k) w AND 15))) [7, 6, 5, 4, 3, 2, 1, 0]"

definition debug_asset_id :: "asset_id \<Rightarrow> rstr" where
  "debug_asset_id a = lit ''AssetId('' @ hex_u32 (asset_raw a) @ lit '')''"

definition debug_envelope_id :: "envelope_id \<Rightarrow> rstr" where
  "debug_envelope_id i = lit ''EnvelopeId('' @ hex (env_hash i) @ lit '')''"

definition debug_posting_id :: "posting_id \<Rightarrow> rstr" where
  "debug_posting_id i = lit ''PostingId { transfer: '' @ debug_envelope_id (pid_transfer i) @
     lit '', index: '' @ show_nat (unat (pid_index i)) @ lit '' }''"

definition debug_book_id :: "book_id \<Rightarrow> rstr" where
  "debug_book_id b = lit ''BookId('' @ show_int (book_raw b) @ lit '')''"

definition debug_reservation_id :: "reservation_id \<Rightarrow> rstr" where
  "debug_reservation_id r = (case r of ReservationId n \<Rightarrow> lit ''ReservationId('' @ show_int n @ lit '')'')"

definition debug_transition_id :: "transition_id \<Rightarrow> rstr" where
  "debug_transition_id t = (case t of TransitionId n \<Rightarrow> lit ''TransitionId('' @ show_int n @ lit '')'')"

text \<open>\<open>{:02x?}\<close> of a byte array.\<close>

fun debug_bytes :: "byte list \<Rightarrow> rstr" where
  "debug_bytes [] = []"
| "debug_bytes [b] = hex [b]"
| "debug_bytes (b # bs) = hex [b] @ lit '', '' @ debug_bytes bs"

definition debug_hash :: "byte list \<Rightarrow> rstr" where
  "debug_hash h = lit ''['' @ debug_bytes h @ lit '']''"

section \<open>Errors of the core\<close>

definition overflow_text :: rstr where
  "overflow_text = lit ''monetary amount overflow''"

definition parse_cent_error_text :: rstr where
  "parse_cent_error_text = lit ''invalid monetary amount''"

fun parse_amount_error_text :: "parse_amount_error \<Rightarrow> rstr" where
  "parse_amount_error_text (InvalidFormat s) = lit ''invalid amount format: '' @ s"
| "parse_amount_error_text (TooManyDecimals mx found) =
     lit ''too many decimals: max '' @ show_nat mx @ lit '', found '' @ show_nat found"

definition parse_account_id_error_text :: rstr where
  "parse_account_id_error_text = lit ''invalid AccountId: not a checksum-valid account code''"

fun validation_error_text :: "validation_error \<Rightarrow> rstr" where
  "validation_error_text EmptyTransfer = lit ''transfer has no postings''"
| "validation_error_text (DuplicateConsumedPosting i) = lit ''duplicate consumed posting '' @ debug_posting_id i"
| "validation_error_text (PostingNotFound i) = lit ''posting not found: '' @ debug_posting_id i"
| "validation_error_text (OwnershipViolation i e a) = lit ''ownership violation on '' @ debug_posting_id i @
     lit '': expected '' @ debug_account_id e @ lit '', got '' @ debug_account_id a"
| "validation_error_text (AccountNotFound i) = lit ''account not found: '' @ debug_account_id i"
| "validation_error_text (AccountFrozen i) = lit ''account frozen: '' @ debug_account_id i"
| "validation_error_text (AccountClosed i) = lit ''account closed: '' @ debug_account_id i"
| "validation_error_text (ConservationViolation as c k) = lit ''conservation violated for '' @ debug_asset_id as @
     lit '': consumed '' @ cent_to_string c @ lit '', created '' @ cent_to_string k"
| "validation_error_text (OverdraftExceeded i as p) = lit ''overdraft forbidden for '' @ debug_account_id i @ lit ''/'' @
     debug_asset_id as @ lit '': projected '' @ cent_to_string p"
| "validation_error_text (AccountVersionMismatch i e a) = lit ''account version mismatch for '' @ debug_account_id i @
     lit '': expected '' @ debug_hash e @ lit '', got '' @ debug_hash a"
| "validation_error_text (NegativePostingOnNonSystemAccount i as v) = lit ''negative posting ('' @ cent_to_string v @
     lit '') on account '' @ debug_account_id i @ lit ''/'' @ debug_asset_id as @ lit '' that forbids overdraft''"
| "validation_error_text (BookAssetNotAllowed b as) = lit ''asset '' @ debug_asset_id as @ lit '' not allowed by book '' @ debug_book_id b"
| "validation_error_text (BookAccountNotAllowed b i) = lit ''account '' @ debug_account_id i @ lit '' not allowed by book '' @ debug_book_id b"
| "validation_error_text Overflow = overflow_text"

definition insufficient_funds_text :: "insufficient_funds \<Rightarrow> rstr" where
  "insufficient_funds_text e = lit ''insufficient funds: available '' @ cent_to_string (if_available e) @
     lit '', requested '' @ cent_to_string (if_requested e)"

fun resolve_error_text :: "resolve_error \<Rightarrow> rstr" where
  "resolve_error_text (Selection e) = lit ''selection: '' @ insufficient_funds_text e"
| "resolve_error_text ResolveOverflow = overflow_text"

fun resolve_error_source :: "resolve_error \<Rightarrow> insufficient_funds option" where
  "resolve_error_source (Selection e) = Some e"
| "resolve_error_source ResolveOverflow = None"

section \<open>Errors of the store and the ledger\<close>

text \<open>The message of \<open>StoreError::NotFound\<close>.\<close>

fun entity_text :: "entity \<Rightarrow> rstr" where
  "entity_text (EntAccount i) = lit ''account '' @ debug_account_id i"
| "entity_text (EntPosting i) = lit ''posting '' @ debug_posting_id i"
| "entity_text (EntBook b) = lit ''book '' @ debug_book_id b"

text \<open>The messages inside an internal error, and of the encoder.\<close>

record messages =
  ms_internal :: "internal_error \<Rightarrow> rstr"
  ms_encode :: rstr

fun store_error_text :: "messages \<Rightarrow> store_error \<Rightarrow> rstr" where
  "store_error_text m (NotFound e) = lit ''not found: '' @ entity_text e"
| "store_error_text m (Internal e) = lit ''internal error: '' @ ms_internal m e"

fun ledger_error_text :: "messages \<Rightarrow> ledger_error \<Rightarrow> rstr" where
  "ledger_error_text m (Validation e) = lit ''validation: '' @ validation_error_text e"
| "ledger_error_text m (Store e) = lit ''store: '' @ store_error_text m e"
| "ledger_error_text m (LSelection e) = lit ''selection: '' @ insufficient_funds_text e"
| "ledger_error_text m (TransferNotFound i) = lit ''transfer not found: '' @ debug_envelope_id i"
| "ledger_error_text m (PostingNotReversible i) = lit ''posting not reversible: '' @ debug_posting_id i"
| "ledger_error_text m (LDoubleSpend i) = lit ''posting already spent: '' @ debug_posting_id i"
| "ledger_error_text m (LAccountNotFound i) = lit ''account not found: '' @ debug_account_id i"
| "ledger_error_text m (AccountNotEmpty i) = lit ''account not empty: '' @ debug_account_id i"
| "ledger_error_text m (AccountAlreadyClosed i) = lit ''account already closed: '' @ debug_account_id i"
| "ledger_error_text m (AccountAlreadyExists i) = lit ''account already exists: '' @ debug_account_id i"
| "ledger_error_text m (AccountVersionConflict i v) = lit ''account version conflict for '' @ debug_account_id i @
     lit '': could not append version '' @ show_nat (unat v)"
| "ledger_error_text m (BookNotFound b) = lit ''book not found: '' @ debug_book_id b"
| "ledger_error_text m (BookAlreadyExists b) = lit ''book already exists: '' @ debug_book_id b"
| "ledger_error_text m (InflightNotFound i) = lit ''inflight transaction not found: '' @ debug_envelope_id i"
| "ledger_error_text m (NotInflightTransaction i) = lit ''not an inflight authorize transaction: '' @ debug_envelope_id i"
| "ledger_error_text m (InflightAlreadyOpen i) = lit ''account already has an open inflight hold: '' @ debug_account_id i"
| "ledger_error_text m (InflightLegNotFound d as) = lit ''inflight leg not found for destination '' @ debug_account_id d @
     lit '' asset '' @ debug_asset_id as"
| "ledger_error_text m (InflightSelfMovement i) = lit ''inflight movement must have distinct from/to: '' @ debug_account_id i"
| "ledger_error_text m LOverflow = overflow_text"
| "ledger_error_text m (UnderFetchedState i as) = lit ''loader under-fetched balance for account '' @ debug_account_id i @
     lit '' asset '' @ debug_asset_id as"
| "ledger_error_text m (CompensationFailed e c) = lit ''compensation failed: original='' @ ledger_error_text m e @
     lit '', compensation='' @ ledger_error_text m c"
| "ledger_error_text m EncodeFailed = lit ''store: internal error: '' @ ms_encode m"

text \<open>\<open>Error::source\<close>\<close>

datatype error_source = FromValidation validation_error | FromStore store_error | FromSelection insufficient_funds
  | FromOverflow | FromLedger ledger_error | FromEncoder

fun ledger_error_source :: "ledger_error \<Rightarrow> error_source option" where
  "ledger_error_source (Validation e) = Some (FromValidation e)"
| "ledger_error_source (Store e) = Some (FromStore e)"
| "ledger_error_source (LSelection e) = Some (FromSelection e)"
| "ledger_error_source LOverflow = Some FromOverflow"
| "ledger_error_source (CompensationFailed e c) = Some (FromLedger e)"
| "ledger_error_source EncodeFailed = Some FromEncoder"
| "ledger_error_source _ = None"

section \<open>What is printed identifies\<close>

lemma split_at_mark: "x \<notin> set a \<Longrightarrow> x \<notin> set c \<Longrightarrow> a @ x # b = c @ x # d \<longleftrightarrow> a = c \<and> b = d"
proof (induction a arbitrary: c)
  case Nil
  then show ?case by (cases c) auto
next
  case (Cons y a)
  then show ?case by (cases c) auto
qed

lemma show_marks: "46 \<notin> set (show_int v)" "41 \<notin> set (show_int v)" "44 \<notin> set (show_nat n)" "32 \<notin> set (show_nat n)"
proof -
  have nat: "c \<notin> set (show_nat n)" if "\<not> is_ascii_digit c" for c n using show_nat_digits[of c n] that by blast
  have "\<not> is_ascii_digit 46" "\<not> is_ascii_digit 41" "\<not> is_ascii_digit 44" "\<not> is_ascii_digit 32" by (simp_all add: is_ascii_digit_def)
  note this[THEN nat]
  then show "46 \<notin> set (show_int v)" "41 \<notin> set (show_int v)" "44 \<notin> set (show_nat n)" "32 \<notin> set (show_nat n)"
    by (simp_all add: show_int_def)
qed

lemma hex_marks: "41 \<notin> set (hex bs)"
proof
  assume "41 \<in> set (hex bs)"
  then show False by (auto simp: hex_def hex_digit_def split: if_splits)
qed

lemma debug_account_id_inject: "debug_account_id i = debug_account_id j \<longleftrightarrow> i = j"
proof -
  let ?i = "show_int (aid_id i)" and ?j = "show_int (aid_id j)"
  have main: "?i @ [41] \<noteq> ?j @ 46 # t" for t
  proof
    assume "?i @ [41] = ?j @ 46 # t"
    then have "46 \<in> set (?i @ [41])" by simp
    then show False using show_marks(1)[of "aid_id i"] by simp
  qed
  have main': "?i @ 46 # t \<noteq> ?j @ [41]" for t
  proof
    assume "?i @ 46 # t = ?j @ [41]"
    then have "46 \<in> set (?j @ [41])" by (metis in_set_conv_decomp)
    then show False using show_marks(1)[of "aid_id j"] by simp
  qed
  show ?thesis
    using main main' by (auto simp: debug_account_id_def lit_def split_at_mark show_marks show_int_inject account_id.expand)
qed

lemma debug_envelope_id_inject: "debug_envelope_id i = debug_envelope_id j \<longleftrightarrow> i = j"
  by (auto simp: debug_envelope_id_def hex_inject envelope_id.expand)

lemma debug_posting_id_inject: "debug_posting_id i = debug_posting_id j \<longleftrightarrow> i = j"
proof -
  have "debug_posting_id i = debug_posting_id j \<longleftrightarrow> hex (env_hash (pid_transfer i)) = hex (env_hash (pid_transfer j)) \<and>
      show_nat (unat (pid_index i)) = show_nat (unat (pid_index j))"
    by (simp add: debug_posting_id_def debug_envelope_id_def lit_def split_at_mark hex_marks show_marks)
  then show ?thesis by (auto simp: hex_inject show_nat_inject word_unat_eq_iff posting_id.expand envelope_id.expand)
qed

lemma debug_book_id_inject: "debug_book_id a = debug_book_id b \<longleftrightarrow> a = b"
  by (auto simp: debug_book_id_def show_int_inject book_id.expand)

lemma hex_u32_inject: "hex_u32 v = hex_u32 w \<longleftrightarrow> v = w"
proof
  assume eq: "hex_u32 v = hex_u32 w"
  have nib: "unat (drop_bit (4 * k) v AND 15) = unat (drop_bit (4 * k) w AND 15)" if "k \<in> set [7, 6, 5, 4, 3, 2, 1, 0]" for k
  proof -
    have lt: "unat (x AND 15) < 16" for x :: u32
    proof -
      have "x AND 15 \<le> 15" by (simp add: word_and_le1)
      then have "unat (x AND 15) \<le> unat (15 :: u32)" by (simp only: word_le_nat_alt)
      then show ?thesis by simp
    qed
    have "hex_digit (unat (drop_bit (4 * k) v AND 15)) = hex_digit (unat (drop_bit (4 * k) w AND 15))"
      using eq that by (auto simp: hex_u32_def)
    then show ?thesis using hex_digit_inj lt by blast
  qed
  have "bit v n = bit w n" if n: "n < 32" for n
  proof -
    have "n div 4 \<in> {0, 1, 2, 3, 4, 5, 6, 7}" using n by auto
    then have "n div 4 \<in> set [7, 6, 5, 4, 3, 2, 1, 0]" by auto
    from nib[OF this] have "drop_bit (4 * (n div 4)) v AND mask 4 = drop_bit (4 * (n div 4)) w AND mask 4"
      by (simp add: word_unat_eq_iff mask_eq_exp_minus_1)
    then have "bit (drop_bit (4 * (n div 4)) v AND mask 4) (n mod 4) = bit (drop_bit (4 * (n div 4)) w AND mask 4) (n mod 4)" by simp
    moreover have "4 * (n div 4) + n mod 4 = n" by simp
    ultimately show ?thesis using n by (simp add: bit_simps)
  qed
  then show "v = w" by (intro bit_word_eqI) simp
qed simp

lemma debug_asset_id_inject: "debug_asset_id a = debug_asset_id b \<longleftrightarrow> a = b"
  by (auto simp: debug_asset_id_def hex_u32_inject asset_id.expand)

end
