(* ===== verification/Dashboard_Server.thy ===== *)
theory Dashboard_Server
  imports Dashboard_Laws Error_Text
begin

text \<open>
  The dashboard as a server: the routes and handlers of \<^verbatim>\<open>kuatia-dashboard/src/{ui,api}.rs\<close>, how they
  are put together in \<^verbatim>\<open>main.rs\<close>, and how an \<open>ApiError\<close> is answered (\<^verbatim>\<open>data.rs\<close>). The HTTP framework
  (matching a path, the extractors and their rejections) and the template engine are parameters.
\<close>

section \<open>What the framework provides\<close>

text \<open>
  The values a handler puts into the context of its template, and the bodies of the answers:
  a rendered page, a file embedded in the binary, the value that is serialized to JSON, or the
  error object of one field. The last is an answer that the framework gives on its own.
\<close>

datatype context_value = TextValue rstr | CountValue nat | IssuedValue "issued_view list" | AccountValue account_view
  | AccountsValue "account_view list" | PostingsValue "posting_view list" | TransfersValue "transfer_view list"
  | EventsValue "event_view list"

type_synonym page_context = "(rstr \<times> context_value) list"

datatype json_value = JsonAssets "asset_meta list" | JsonOverview overview_dto | JsonAccounts "account_dto list"
  | JsonAccount account_detail_dto | JsonTransfers "transfer_dto list" | JsonEvents "event_dto list"

datatype body = HtmlBody rstr | FileBody rstr rstr | JsonBody json_value | ErrorBody rstr | FrameworkBody rstr

record response =
  rs_status :: nat
  rs_body :: body

definition answer_ok :: "body \<Rightarrow> response" where
  "answer_ok b = \<lparr>rs_status = 200, rs_body = b\<rparr>"

text \<open>
  \<open>web_route\<close> is what the router does with a request, given the registered paths: the path of the
  handler that is called, or the answer of the framework (no such path, another method). An
  extractor gives its value or rejects the request. \<open>web_tera\<close> renders a template or says why not.
\<close>

datatype 'p dispatch = Dispatched 'p | Refused response

record 'q web =
  web_route :: "rstr list \<Rightarrow> 'q \<Rightarrow> rstr dispatch"
  web_uuid :: "'q \<Rightarrow> response + rstr"
  web_limit :: "'q \<Rightarrow> response + u32 option"
  web_window :: "'q \<Rightarrow> response + u64 option \<times> u32 option"
  web_tera :: "rstr \<Rightarrow> page_context \<Rightarrow> rstr + rstr"
  web_messages :: messages

section \<open>Errors\<close>

fun api_message_text :: "messages \<Rightarrow> api_message \<Rightarrow> rstr" where
  "api_message_text m (ApiText t) = t"
| "api_message_text m (ApiLedger e) = ledger_error_text m e"
| "api_message_text m (ApiParse _) = parse_account_id_error_text"

definition error_response :: "messages \<Rightarrow> api_error \<Rightarrow> response" where
  "error_response m e = \<lparr>rs_status = ae_status e, rs_body = ErrorBody (api_message_text m (ae_message e))\<rparr>"

section \<open>Pages\<close>

definition template_names :: "rstr list" where
  "template_names = map lit [''base.html'', ''pages/overview.html'', ''pages/accounts.html'', ''pages/account.html'',
     ''pages/transfers.html'', ''pages/events.html'', ''partials/overview.html'', ''partials/accounts.html'',
     ''partials/account.html'', ''partials/transfers.html'', ''partials/events.html'']"

definition overview_context :: "app_state \<Rightarrow> page_context api" where
  "overview_context st = abind (overview_ctx st) (\<lambda>(accounts, transfers, assets, issued).
     areturn [(lit ''nav'', TextValue (lit ''overview'')), (lit ''accounts_count'', CountValue accounts),
       (lit ''transfers_count'', CountValue transfers), (lit ''assets_count'', CountValue assets), (lit ''issued'', IssuedValue issued)])"

definition accounts_context :: "app_state \<Rightarrow> page_context api" where
  "accounts_context st = abind (accounts_ctx st) (\<lambda>views.
     areturn [(lit ''nav'', TextValue (lit ''accounts'')), (lit ''accounts'', AccountsValue views)])"

text \<open>An extracted path, parsed as an account code, and the context of that account.\<close>

definition account_context :: "app_state \<Rightarrow> rstr \<Rightarrow> page_context api" where
  "account_context st uuid = abind (account_page st uuid) (\<lambda>(a, subs, ps, ts).
     areturn [(lit ''nav'', TextValue (lit ''accounts'')), (lit ''account'', AccountValue a), (lit ''subaccounts'', AccountsValue subs),
       (lit ''postings'', PostingsValue ps), (lit ''transfers'', TransfersValue ts)])"

definition transfers_context :: "app_state \<Rightarrow> page_context api" where
  "transfers_context st = abind (transfers_ctx st) (\<lambda>views.
     areturn [(lit ''nav'', TextValue (lit ''transfers'')), (lit ''transfers'', TransfersValue views)])"

definition events_context :: "app_state \<Rightarrow> page_context api" where
  "events_context st = abind (events_ctx st) (\<lambda>views.
     areturn [(lit ''nav'', TextValue (lit ''events'')), (lit ''events'', EventsValue views)])"

text \<open>\<open>render\<close>: an error of the engine is a 500 with its text.\<close>

definition render :: "'q web \<Rightarrow> rstr \<Rightarrow> page_context \<Rightarrow> body api" where
  "render web template ctx = apure api_internal (map_sum id HtmlBody (web_tera web template ctx))"

definition render_page :: "'q web \<Rightarrow> string \<Rightarrow> page_context api \<Rightarrow> body api" where
  "render_page web template ctx = abind ctx (render web (lit template))"

section \<open>Handlers\<close>

type_synonym 'q handler = "app_state \<Rightarrow> 'q \<Rightarrow> world \<Rightarrow> response option \<times> world"

text \<open>A handler's result as an answer; a panic of the handler leaves the request without one.\<close>

definition answer :: "'q web \<Rightarrow> body api \<Rightarrow> world \<Rightarrow> response option \<times> world" where
  "answer web m w = (case m w of
     (Inr b, w') \<Rightarrow> (Some (answer_ok b), w')
   | (Inl (Fail e), w') \<Rightarrow> (Some (error_response (web_messages web) e), w')
   | (Inl Panic, w') \<Rightarrow> (None, w'))"

definition extracted :: "response + 'a \<Rightarrow> ('a \<Rightarrow> world \<Rightarrow> response option \<times> world) \<Rightarrow> world \<Rightarrow> response option \<times> world" where
  "extracted x f w = (case x of Inl r \<Rightarrow> (Some r, w) | Inr a \<Rightarrow> f a w)"

definition json :: "('a \<Rightarrow> json_value) \<Rightarrow> 'a api \<Rightarrow> body api" where
  "json f m = abind m (\<lambda>a. areturn (JsonBody (f a)))"

definition page_handler :: "'q web \<Rightarrow> string \<Rightarrow> (app_state \<Rightarrow> page_context api) \<Rightarrow> 'q handler" where
  "page_handler web template ctx st req = answer web (render_page web template (ctx st))"

definition account_handler :: "'q web \<Rightarrow> string \<Rightarrow> 'q handler" where
  "account_handler web template st req = extracted (web_uuid web req) (\<lambda>uuid. answer web (render_page web template (account_context st uuid)))"

definition css :: "'q web \<Rightarrow> 'q handler" where
  "css web st req = answer web (areturn (FileBody (lit ''text/css; charset=utf-8'') (lit ''../static/dashboard.css'')))"

definition htmx_js :: "'q web \<Rightarrow> 'q handler" where
  "htmx_js web st req = answer web (areturn (FileBody (lit ''application/javascript; charset=utf-8'') (lit ''../static/htmx.min.js'')))"

definition api_assets :: "'q web \<Rightarrow> 'q handler" where
  "api_assets web st req = answer web (areturn (JsonBody (JsonAssets (ap_assets st))))"

definition api_overview :: "'q web \<Rightarrow> 'q handler" where
  "api_overview web st req = answer web (json JsonOverview (overview st))"

definition api_accounts :: "'q web \<Rightarrow> 'q handler" where
  "api_accounts web st req = answer web (json JsonAccounts (dash_accounts st))"

definition api_account :: "'q web \<Rightarrow> 'q handler" where
  "api_account web st req = extracted (web_uuid web req) (\<lambda>uuid. answer web (json JsonAccount (api_account_detail st uuid)))"

definition api_transfers :: "'q web \<Rightarrow> 'q handler" where
  "api_transfers web st req = extracted (web_limit web req) (\<lambda>lim. answer web (json JsonTransfers (dash_transfers st lim)))"

definition api_event_list :: "'q web \<Rightarrow> 'q handler" where
  "api_event_list web st req = extracted (web_window web req) (\<lambda>(after, lim). answer web (json JsonEvents (api_events st after lim)))"

section \<open>Routes\<close>

definition ui_routes :: "'q web \<Rightarrow> (rstr \<times> 'q handler) list" where
  "ui_routes web = [
     (lit ''/'', page_handler web ''pages/overview.html'' overview_context),
     (lit ''/accounts'', page_handler web ''pages/accounts.html'' accounts_context),
     (lit ''/accounts/{uuid}'', account_handler web ''pages/account.html''),
     (lit ''/transfers'', page_handler web ''pages/transfers.html'' transfers_context),
     (lit ''/events'', page_handler web ''pages/events.html'' events_context),
     (lit ''/ui/overview'', page_handler web ''partials/overview.html'' overview_context),
     (lit ''/ui/accounts'', page_handler web ''partials/accounts.html'' accounts_context),
     (lit ''/ui/accounts/{uuid}'', account_handler web ''partials/account.html''),
     (lit ''/ui/transfers'', page_handler web ''partials/transfers.html'' transfers_context),
     (lit ''/ui/events'', page_handler web ''partials/events.html'' events_context),
     (lit ''/static/dashboard.css'', css web),
     (lit ''/static/htmx.min.js'', htmx_js web)]"

definition api_routes :: "'q web \<Rightarrow> (rstr \<times> 'q handler) list" where
  "api_routes web = [
     (lit ''/assets'', api_assets web),
     (lit ''/overview'', api_overview web),
     (lit ''/accounts'', api_accounts web),
     (lit ''/accounts/{uuid}'', api_account web),
     (lit ''/transfers'', api_transfers web),
     (lit ''/events'', api_event_list web)]"

text \<open>\<open>merge\<close> and \<open>nest\<close>\<close>

definition app_routes :: "'q web \<Rightarrow> (rstr \<times> 'q handler) list" where
  "app_routes web = ui_routes web @ map (\<lambda>(path, h). (lit ''/api'' @ path, h)) (api_routes web)"

text \<open>A request; a path the router was not given is not answered.\<close>

definition serve :: "'q web \<Rightarrow> app_state \<Rightarrow> 'q \<Rightarrow> world \<Rightarrow> response option \<times> world" where
  "serve web st req w = (case web_route web (map fst (app_routes web)) req of
     Refused r \<Rightarrow> (Some r, w)
   | Dispatched path \<Rightarrow> (case map_of (app_routes web) path of
       Some handler \<Rightarrow> handler st req w
     | None \<Rightarrow> (None, w)))"

text \<open>The background work that the requests have spawned.\<close>

definition settle :: "app_state \<Rightarrow> world \<Rightarrow> world" where
  "settle st w = fold (\<lambda>(acc, asset) v. snd (run_spawned (ap_env st) (ap_ledger st) acc asset v)) (w_spawned w) (w\<lparr>w_spawned := []\<rparr>)"

section \<open>The command line\<close>

record cli =
  cli_db :: rstr
  cli_host :: rstr
  cli_port :: u16
  cli_seed :: bool
  cli_id_seed :: "u64 option"

definition cli_default :: cli where
  "cli_default = \<lparr>cli_db = lit ''sqlite::memory:'', cli_host = lit ''127.0.0.1'', cli_port = 3000, cli_seed = False, cli_id_seed = None\<rparr>"

definition listen_address :: "cli \<Rightarrow> rstr" where
  "listen_address c = cli_host c @ lit '':'' @ show_nat (unat (cli_port c))"

text \<open>
  \<open>main\<close> up to the server: the seed of the account codes, the demo data when asked for, and the
  state that every handler shares. An error ends the program.
\<close>

definition start_up :: "cli \<Rightarrow> ledger_env \<Rightarrow> ledger \<Rightarrow> (seed_error, app_state) act" where
  "start_up c env l =
     (let seed = (case cli_id_seed c of Some s \<Rightarrow> s | None \<Rightarrow> DEFAULT_ID_SEED)
      in abind (if cli_seed c then seed_if_empty env else areturn False) (\<lambda>_.
         areturn \<lparr>ap_env = env, ap_ledger = l, ap_assets = registry, ap_seed = seed\<rparr>))"

end
