(* ===== verification/Dashboard_Server_Laws.thy ===== *)
theory Dashboard_Server_Laws
  imports Dashboard_Server
begin

text \<open>
  What a request to the dashboard can do: it reads, and the work it leaves in the background adds
  cache points. The routes have different paths, only registered templates are rendered, and a
  malformed or unknown account is answered with 400 or 404.
\<close>

section \<open>Stores that differ in added cache points only\<close>

definition points_of :: "mem_store \<Rightarrow> account_id \<times> asset_id \<Rightarrow> balance_projection list" where
  "points_of st k = (case map_of (ms_projections st) k of Some ps \<Rightarrow> ps | None \<Rightarrow> [])"

text \<open>
  The second store has the records of the first, and every list of cache points of the first
  with points of the same account and asset behind it. (A new point draws an id from the generator.)
\<close>

definition points_added :: "mem_store \<Rightarrow> mem_store \<Rightarrow> bool" where
  "points_added s t \<longleftrightarrow> t\<lparr>ms_projections := ms_projections s, ms_autoid := ms_autoid s\<rparr> = s \<and>
     (\<forall>k. \<exists>new. points_of t k = points_of s k @ new \<and> list_all (\<lambda>p. (bp_account p, bp_asset p) = k) new)"

lemma points_added_refl: "points_added s s"
  by (simp add: points_added_def)

lemma points_added_trans:
  assumes st: "points_added s t" and tu: "points_added t u"
  shows "points_added s u"
proof -
  have "\<exists>new. points_of u k = points_of s k @ new \<and> list_all (\<lambda>p. (bp_account p, bp_asset p) = k) new" for k
  proof -
    obtain n1 n2 where "points_of t k = points_of s k @ n1" "list_all (\<lambda>p. (bp_account p, bp_asset p) = k) n1"
      "points_of u k = points_of t k @ n2" "list_all (\<lambda>p. (bp_account p, bp_asset p) = k) n2"
      using st tu unfolding points_added_def by blast
    then show ?thesis by (intro exI[of _ "n1 @ n2"]) simp
  qed
  moreover have "u\<lparr>ms_projections := ms_projections s, ms_autoid := ms_autoid s\<rparr> = s"
    using st tu by (cases s, cases t, cases u) (simp add: points_added_def)
  ultimately show ?thesis by (simp add: points_added_def)
qed

interpretation cached: store_relation points_added
  by unfold_locales (rule points_added_refl, rule points_added_trans)

lemma append_points_added: "points_added s (append_balance_projection c acc asset bal wm s)"
proof -
  have "\<exists>new. points_of (append_balance_projection c acc asset bal wm s) k = points_of s k @ new \<and> list_all (\<lambda>p. (bp_account p, bp_asset p) = k) new" for k
    by (cases "k = (acc, asset)") (auto simp: points_of_def append_balance_projection_def Let_def split_beta update_conv' split: option.splits)
  then show ?thesis by (cases s) (simp add: points_added_def append_balance_projection_def Let_def split_beta)
qed

lemma reads_cached: "reads m \<Longrightarrow> preserves points_added m"
  using cached.refl by (simp add: preserves_def)

lemma run_spawned_cached: "preserves points_added (run_spawned env l acc asset)"
proof -
  have "preserves points_added (append_cache_point env g n d acc asset)" for g n d
    unfolding append_cache_point_def Let_def split_beta
    by (intro cached.preserves_bind)
      (auto intro!: cached.preserves_bind cached.preserves_write reads_cached[OF reads_fold_tail] reads_cached[OF reads_overflow]
        append_points_added split: option.splits)
  then show ?thesis by (simp add: preserves_def run_spawned_def)
qed

lemma settle_cached: "points_added (w_store w) (w_store (settle st w))"
proof -
  have "points_added (w_store v) (w_store (fold (\<lambda>(acc, asset) v. snd (run_spawned env l acc asset v)) xs v))" for env l xs v
  proof (induction xs arbitrary: v)
    case (Cons x xs)
    have "points_added (w_store v) (w_store (snd (run_spawned env l (fst x) (snd x) v)))"
      using run_spawned_cached by (simp add: preserves_def)
    from cached.trans[OF this Cons] show ?case by (simp add: split_beta)
  qed (simp add: cached.refl)
  from this[of "w\<lparr>w_spawned := []\<rparr>"] show ?thesis by (simp add: settle_def)
qed

section \<open>Handlers only read\<close>

lemma contexts_read:
  "act_preserves (=) (overview_context st)" "act_preserves (=) (accounts_context st)" "act_preserves (=) (account_context st s)"
  "act_preserves (=) (transfers_context st)" "act_preserves (=) (events_context st)"
  unfolding overview_context_def accounts_context_def account_context_def transfers_context_def events_context_def
    overview_ctx_def accounts_ctx_def account_page_def account_ctx_def transfers_ctx_def events_ctx_def
  by (auto intro!: ro.act_bind pages_read builders_read)

lemma answer_reads: "act_preserves (=) m \<Longrightarrow> w_store (snd (answer web m w)) = w_store w"
  using act_preservesD[of "(=)" m w] by (auto simp: answer_def split: prod.splits sum.splits fault.splits)

lemma extracted_reads: "(\<And>a. w_store (snd (f a w)) = w_store w) \<Longrightarrow> w_store (snd (extracted x f w)) = w_store w"
  by (simp add: extracted_def split: sum.splits)

lemma bodies_read:
  "act_preserves (=) c \<Longrightarrow> act_preserves (=) (render_page web t c)" "act_preserves (=) m \<Longrightarrow> act_preserves (=) (json f m)"
  by (auto simp: render_page_def render_def json_def intro!: ro.act_bind)

lemmas handler_defs = page_handler_def account_handler_def css_def htmx_js_def api_assets_def api_overview_def api_accounts_def
  api_account_def api_transfers_def api_event_list_def

lemma handlers_read:
  assumes "(path, handler) \<in> set (app_routes web)"
  shows "w_store (snd (handler st req w)) = w_store w"
proof -
  have api: "act_preserves (=) (api_account_detail st s)" "act_preserves (=) (api_events st n k)" for s n k
    unfolding api_account_detail_def api_events_def by (auto intro!: ro.act_bind pages_read builders_read)
  have p: "\<And>c t. (\<And>st. act_preserves (=) (c st)) \<Longrightarrow> w_store (snd (page_handler web t c st req w)) = w_store w"
    by (simp add: page_handler_def answer_reads bodies_read)
  show ?thesis
    using assms unfolding app_routes_def ui_routes_def api_routes_def
    by (auto simp: p contexts_read) (auto simp: handler_defs split_beta intro!: extracted_reads answer_reads bodies_read contexts_read pages_read api)
qed

text \<open>
  C39: A request never writes: whatever it asks for, and whatever the framework and the template
  engine do, the in-memory store after it is the store before it. When the background work it
  spawned has run too, the store has the same postings, accounts, transfers, events and books,
  every cache point it had is still there, unchanged and in its place, and the new points of an
  account and asset stand behind the old ones and are of that account and asset.
\<close>

theorem requests_only_read:
  "w_store (snd (serve web st req w)) = w_store w \<and>
   points_added (w_store w) (w_store (settle st (snd (serve web st req w))))"
proof -
  have "w_store (snd (serve web st req w)) = w_store w"
    by (auto simp: serve_def split: dispatch.splits option.splits dest!: map_of_SomeD intro: handlers_read)
  then show ?thesis using settle_cached[of "snd (serve web st req w)" st] by simp
qed

section \<open>Routes and templates\<close>

lemma routes_distinct: "distinct (map fst (app_routes web))"
  unfolding app_routes_def ui_routes_def api_routes_def map_append list.map prod.case fst_conv by code_simp

text \<open>An engine is only asked for templates that are registered.\<close>

lemma registered_templates:
  assumes "\<And>name ctx. name \<in> set template_names \<Longrightarrow> web_tera web name ctx = tera name ctx"
  shows "serve (web\<lparr>web_tera := tera\<rparr>) = serve web"
proof -
  have r: "render_page (web\<lparr>web_tera := tera\<rparr>) t = render_page web t" if "lit t \<in> set template_names" for t
  proof -
    have "render (web\<lparr>web_tera := tera\<rparr>) (lit t) = render web (lit t)" using assms[OF that] by (intro ext) (simp add: render_def)
    then show ?thesis by (intro ext) (simp add: render_page_def)
  qed
  have a: "answer (web\<lparr>web_tera := tera\<rparr>) = answer web"
    by (intro ext) (simp add: answer_def split: prod.split sum.split fault.split)
  have p: "page_handler (web\<lparr>web_tera := tera\<rparr>) t = page_handler web t" "account_handler (web\<lparr>web_tera := tera\<rparr>) t = account_handler web t"
    if "lit t \<in> set template_names" for t
    by (simp_all add: page_handler_def account_handler_def fun_eq_iff r[OF that] a)
  have "app_routes (web\<lparr>web_tera := tera\<rparr>) = app_routes web"
    unfolding app_routes_def ui_routes_def api_routes_def
    by (simp add: p template_names_def css_def htmx_js_def api_assets_def api_overview_def api_accounts_def api_account_def
        api_transfers_def api_event_list_def a fun_eq_iff)
  then show ?thesis by (intro ext) (simp add: serve_def split: dispatch.split)
qed

section \<open>Requests for an account\<close>

text \<open>A path that is no account code is a 400 before anything is read.\<close>

lemma malformed_account:
  assumes "web_uuid web req = Inr uuid" "account_id_from_str (ap_seed st) uuid = Some (Inl (Fail e))"
  shows "account_handler web t st req w = (Some \<lparr>rs_status = 400, rs_body = ErrorBody parse_account_id_error_text\<rparr>, w)"
    "api_account web st req w = (Some \<lparr>rs_status = 400, rs_body = ErrorBody parse_account_id_error_text\<rparr>, w)"
  using assms by (simp_all add: account_handler_def api_account_def extracted_def answer_def render_page_def json_def
      account_context_def account_page_def api_account_detail_def abind_def parse_account_path_def map_fault_def bad_request_def error_response_def)

text \<open>The code of an account that does not exist is a 404 that names it.\<close>

lemma unknown_account:
  assumes "web_uuid web req = Inr uuid" "account_id_from_str (ap_seed st) uuid = Some (Inr i)" "get_account i (w_store w) = Inl e"
  shows "account_handler web t st req w = (Some \<lparr>rs_status = 404, rs_body = ErrorBody (lit ''account not found: '' @ debug_account_id i)\<rparr>, w)"
    "api_account web st req w = (Some \<lparr>rs_status = 404, rs_body = ErrorBody (lit ''account not found: '' @ debug_account_id i)\<rparr>, w)"
proof -
  have d: "account_detail st i w = (Inl (Fail (api_error_from_ledger (LAccountNotFound i))), w)"
    using assms(3) by (simp add: account_detail_def abind_def from_ledger_def acall_def ledger_get_account_def lbind_def lget_def lread_def
        lfail_def map_fault_def)
  show "account_handler web t st req w = (Some \<lparr>rs_status = 404, rs_body = ErrorBody (lit ''account not found: '' @ debug_account_id i)\<rparr>, w)"
    "api_account web st req w = (Some \<lparr>rs_status = 404, rs_body = ErrorBody (lit ''account not found: '' @ debug_account_id i)\<rparr>, w)"
    using assms(1,2) d by (simp_all add: account_handler_def api_account_def extracted_def answer_def render_page_def json_def
      account_context_def account_page_def account_ctx_def api_account_detail_def abind_def parse_account_path_def
      api_error_from_ledger_def error_response_def)
qed

end
