(* ===== verification/Store_Interface.thy ===== *)
theory Store_Interface
  imports Mem_Store
begin

text \<open>
  The storage interface of \<open>kuatia-storage/src/store.rs\<close> and \<open>events.rs\<close>: each trait is a record of its
  methods over a type \<open>'s\<close> of store states, each extending the one before, so that
  \<open>'s store\<close> is the composite trait \<open>Store\<close>. A method takes the state to a result and a state.
\<close>

type_synonym ('s, 'a) store_call = "'s \<Rightarrow> (store_error fault + 'a) \<times> 's"

record 's account_store =
  do_get_account :: "account_id \<Rightarrow> ('s, account) store_call"
  do_get_accounts :: "account_id list \<Rightarrow> ('s, account list) store_call"
  do_create_account :: "account \<Rightarrow> ('s, nat) store_call"
  do_append_account_version :: "account \<Rightarrow> ('s, nat) store_call"
  do_get_account_history :: "account_id \<Rightarrow> ('s, account list) store_call"
  do_list_accounts :: "('s, account list) store_call"

record 's posting_store = "'s account_store" +
  do_get_postings :: "posting_id list \<Rightarrow> ('s, posting list) store_call"
  do_get_postings_by_account :: "i64 \<Rightarrow> i64 option \<Rightarrow> asset_id option \<Rightarrow> posting_filter \<Rightarrow> ('s, posting list) store_call"
  do_get_posting_states :: "posting_id list \<Rightarrow> ('s, posting_state list) store_call"
  do_reserve_postings :: "posting_id list \<Rightarrow> reservation_id \<Rightarrow> ('s, nat) store_call"
  do_release_postings :: "posting_id list \<Rightarrow> reservation_id \<Rightarrow> ('s, nat) store_call"
  do_deactivate_postings :: "posting_id list \<Rightarrow> reservation_id option \<Rightarrow> ('s, nat) store_call"
  do_insert_postings :: "posting list \<Rightarrow> ('s, nat) store_call"
  do_query_postings :: "posting_query \<Rightarrow> ('s, posting page) store_call"

record 's transfer_store = "'s posting_store" +
  do_get_transfer :: "envelope_id \<Rightarrow> ('s, envelope_record option) store_call"
  do_store_transfer :: "envelope_record \<Rightarrow> account_id list \<Rightarrow> ('s, nat) store_call"
  do_get_transfers_for_account :: "i64 \<Rightarrow> i64 option \<Rightarrow> ('s, envelope_record list) store_call"
  do_query_transfers :: "transfer_query \<Rightarrow> ('s, envelope_record page) store_call"

record 's commit_store_ops = "'s transfer_store" +
  do_commit_envelope :: "commit_request \<Rightarrow> ('s, commit_outcome) store_call"
  do_commit_transition :: "account \<Rightarrow> ledger_event \<Rightarrow> ('s, transition_outcome) store_call"

record 's event_store = "'s commit_store_ops" +
  do_append_event :: "ledger_event \<Rightarrow> ('s, u64) store_call"
  do_get_events_since :: "u64 \<Rightarrow> u32 \<Rightarrow> ('s, ledger_event list) store_call"

record 's book_store = "'s event_store" +
  do_create_book :: "book \<Rightarrow> ('s, nat) store_call"
  do_get_book :: "book_id \<Rightarrow> ('s, book) store_call"
  do_list_books :: "('s, book list) store_call"

record 's store = "'s book_store" +
  do_append_balance_projection :: "account_id \<Rightarrow> asset_id \<Rightarrow> cent \<Rightarrow> i64 \<Rightarrow> ('s, unit) store_call"
  do_get_closest_balance_projection :: "account_id \<Rightarrow> asset_id \<Rightarrow> i64 \<Rightarrow> ('s, balance_projection option) store_call"

section \<open>The in-memory store\<close>

text \<open>A method that only reads, one that cannot fail, and one that can.\<close>

definition reading :: "('s \<Rightarrow> store_error + 'a) \<Rightarrow> ('s, 'a) store_call" where
  "reading f s = (map_err Fail (f s), s)"

definition always :: "('s \<Rightarrow> 'a \<times> 's) \<Rightarrow> ('s, 'a) store_call" where
  "always f s = (Inr (fst (f s)), snd (f s))"

definition failing :: "('s \<Rightarrow> (store_error + 'a) \<times> 's) \<Rightarrow> ('s, 'a) store_call" where
  "failing f s = (map_err Fail (fst (f s)), snd (f s))"

definition mem_ops :: "hash_order \<Rightarrow> int \<Rightarrow> mem_store store" where
  "mem_ops h clock = \<lparr>
     do_get_account = \<lambda>i. reading (get_account i),
     do_get_accounts = \<lambda>is. reading (get_accounts is),
     do_create_account = \<lambda>a. always (create_account a),
     do_append_account_version = \<lambda>a. failing (append_account_version a),
     do_get_account_history = \<lambda>i. reading (get_account_history i),
     do_list_accounts = reading (\<lambda>st. Inr (list_accounts h st)),
     do_get_postings = \<lambda>ids. reading (get_postings ids),
     do_get_postings_by_account = \<lambda>i sub asset f. reading (\<lambda>st. Inr (get_postings_by_account h i sub asset f st)),
     do_get_posting_states = \<lambda>ids. reading (\<lambda>st. Inr (get_posting_states ids st)),
     do_reserve_postings = \<lambda>ids r. always (reserve_postings ids r),
     do_release_postings = \<lambda>ids r. always (release_postings ids r),
     do_deactivate_postings = \<lambda>ids r. always (deactivate_postings ids r),
     do_insert_postings = \<lambda>ps. always (insert_postings ps),
     do_query_postings = \<lambda>q. reading (\<lambda>st. Inr (query_postings h q st)),
     do_get_transfer = \<lambda>i. reading (\<lambda>st. Inr (get_transfer i st)),
     do_store_transfer = \<lambda>r ids. always (store_transfer r ids),
     do_get_transfers_for_account = \<lambda>i sub. reading (\<lambda>st. Inr (get_transfers_for_account h i sub st)),
     do_query_transfers = \<lambda>q. reading (\<lambda>st. Inr (query_transfers h q st)),
     do_commit_envelope = \<lambda>req. failing (commit_envelope h clock req),
     do_commit_transition = \<lambda>a ev. failing (commit_transition clock a ev),
     do_append_event = \<lambda>ev. always (append_event clock ev),
     do_get_events_since = \<lambda>n lim. reading (\<lambda>st. Inr (get_events_since n lim st)),
     do_create_book = \<lambda>b. always (create_book b),
     do_get_book = \<lambda>i. reading (get_book i),
     do_list_books = reading (\<lambda>st. Inr (list_books h st)),
     do_append_balance_projection = \<lambda>acc asset v w. always (\<lambda>st. ((), append_balance_projection clock acc asset v w st)),
     do_get_closest_balance_projection = \<lambda>acc asset t. reading (\<lambda>st. Inr (get_closest_balance_projection acc asset t st))\<rparr>"

end
