(* ===== verification/Conformance_Suite.thy ===== *)
theory Conformance_Suite
  imports Store_Interface "HOL-Library.Monad_Syntax"
begin

text \<open>
  The conformance tests of \<open>kuatia-storage/src/store_tests.rs\<close>, over any store: a test takes the
  methods of a store and its state and is \<open>None\<close> where an assertion fails or an \<open>unwrap\<close>
  panics. This theory holds the helpers and the tests of accounts and postings.
\<close>

section \<open>Assertions\<close>

definition unwrap :: "('e + 'a) \<times> 's \<Rightarrow> ('a \<times> 's) option" where
  "unwrap r = (case fst r of Inl e \<Rightarrow> None | Inr v \<Rightarrow> Some (v, snd r))"

definition unwrap_err :: "('e + 'a) \<times> 's \<Rightarrow> ('e \<times> 's) option" where
  "unwrap_err r = (case fst r of Inl e \<Rightarrow> Some (e, snd r) | Inr v \<Rightarrow> None)"

definition assert_that :: "bool \<Rightarrow> unit option" where
  "assert_that b = (if b then Some () else None)"

text \<open>Indexing panics out of range.\<close>

definition at :: "'a list \<Rightarrow> nat \<Rightarrow> 'a option" where
  "at xs i = (if i < length xs then Some (xs ! i) else None)"

definition is_not_found :: "store_error fault \<Rightarrow> bool" where
  "is_not_found e = (case e of Fail (NotFound _) \<Rightarrow> True | _ \<Rightarrow> False)"

text \<open>A \<open>for\<close> loop over a test body.\<close>

fun for_each :: "('a \<Rightarrow> 's \<Rightarrow> 's option) \<Rightarrow> 'a list \<Rightarrow> 's \<Rightarrow> 's option" where
  "for_each f [] s = Some s"
| "for_each f (x # xs) s = do { s \<leftarrow> f x s; for_each f xs s }"

text \<open>A page without a limit is not counted out to \<open>u32::MAX\<close> when it is computed.\<close>

definition limited :: "u32 \<Rightarrow> 'a list \<Rightarrow> 'a list" where
  "limited n xs = (if int (length xs) \<le> uint n then xs else take (unat n) xs)"

lemma limited_take: "take (unat n) xs = limited n xs"
  by (simp add: limited_def le_nat_iff flip: nat_uint_eq)

lemma paginate_code [code]:
  "paginate records off lim = (let (o', l') = window off lim in \<lparr>pg_items = limited l' (drop (unat o') records), pg_total = length records\<rparr>)"
  by (simp add: paginate_def limited_take)

text \<open>Long keys that start alike are compared by equality before order.\<close>

lemma less_eq_list_code [code]:
  "(xs :: 'a :: {equal, linorder} list) \<le> ys = (case xs of [] \<Rightarrow> True | x # xs' \<Rightarrow>
     (case ys of [] \<Rightarrow> False | y # ys' \<Rightarrow> if x = y then xs' \<le> ys' else x < y))"
  by (cases xs; cases ys) auto

lemma less_list_code [code]:
  "(xs :: 'a :: {equal, linorder} list) < ys = (case ys of [] \<Rightarrow> False | y # ys' \<Rightarrow>
     (case xs of [] \<Rightarrow> True | x # xs' \<Rightarrow> if x = y then xs' < ys' else x < y))"
  by (cases xs; cases ys) auto

lemma less_eq_prod_code [code]:
  "(p :: 'a :: {equal, linorder} \<times> 'b :: linorder) \<le> q = (if fst p = fst q then snd p \<le> snd q else fst p < fst q)"
  by (cases p; cases q) auto

lemma less_prod_code [code]:
  "(p :: 'a :: {equal, linorder} \<times> 'b :: linorder) < q = (if fst p = fst q then snd p < snd q else fst p < fst q)"
  by (cases p; cases q) auto

lemma less_eq_posting_id_code [code]:
  "a \<le> b = (if pid_transfer a = pid_transfer b then pid_index a \<le> pid_index b else pid_transfer a < pid_transfer b)"
  by (auto simp: less_eq_posting_id_def)

section \<open>Computing\<close>

text \<open>Binds as case expressions, whose branches are computed when they are taken only.\<close>

lemma bind_case [code_unfold]: "Option.bind m f = (case m of None \<Rightarrow> None | Some a \<Rightarrow> f a)"
  by (cases m) simp_all

lemma rbind_case [code_unfold]: "rbind r f = (case r of Inl e \<Rightarrow> Inl e | Inr a \<Rightarrow> f a)"
  by (simp add: rbind_def)

section \<open>Helpers\<close>

definition make_account :: "i64 \<Rightarrow> account_flags \<Rightarrow> account" where
  "make_account i flags = \<lparr>acc_id = account_id_new i, acc_version = 1, acc_flags = flags, acc_book = BookId 0, acc_metadata = metadata_new\<rparr>"

text \<open>\<open>[b; 32]\<close>\<close>

definition hash_of :: "byte \<Rightarrow> envelope_id" where
  "hash_of b = EnvelopeId (replicate 32 b)"

definition make_posting :: "envelope_id \<Rightarrow> u16 \<Rightarrow> i64 \<Rightarrow> u32 \<Rightarrow> cent \<Rightarrow> posting" where
  "make_posting h i ow asset v = posting_new (PostingId h i) (account_id_new ow) (asset_id_new asset) v"

definition make_posting_sub :: "envelope_id \<Rightarrow> u16 \<Rightarrow> i64 \<Rightarrow> i64 \<Rightarrow> u32 \<Rightarrow> cent \<Rightarrow> posting" where
  "make_posting_sub h i ow sub asset v = posting_new (PostingId h i) (with_sub ow sub) (asset_id_new asset) v"

definition suite_creates :: "new_posting list" where
  "suite_creates = [\<lparr>np_owner = account_id_new 1, np_asset = asset_id_new 1, np_value = 100, np_payer = None\<rparr>,
     \<lparr>np_owner = account_id_new 99, np_asset = asset_id_new 1, np_value = - 100, np_payer = None\<rparr>]"

definition make_envelope_with_book :: "book_id \<Rightarrow> envelope \<times> envelope_id" where
  "make_envelope_with_book book = (envelope_builder_book book (envelope_builder_creates suite_creates envelope_builder_new),
     EnvelopeId ([word_of_int (book_raw book), 42] @ replicate 30 0))"

definition make_envelope :: "envelope \<times> envelope_id" where
  "make_envelope = (envelope_builder_creates suite_creates envelope_builder_new, hash_of 42)"

definition seed_active :: "'s store \<Rightarrow> posting list \<Rightarrow> 's \<Rightarrow> 's option" where
  "seed_active st create s = do { (_, s) \<leftarrow> unwrap (do_insert_postings st create s); Some s }"

definition state_of :: "'s store \<Rightarrow> posting_id \<Rightarrow> 's \<Rightarrow> (posting_state \<times> 's) option" where
  "state_of st i s = do { (states, s) \<leftarrow> unwrap (do_get_posting_states st [i] s); x \<leftarrow> at states 0; Some (x, s) }"

definition suite_created_postings :: "envelope \<Rightarrow> envelope_id \<Rightarrow> posting list" where
  "suite_created_postings e tid = map (\<lambda>(i, np). posting_new (PostingId tid (word_of_nat i)) (np_owner np) (np_asset np) (np_value np))
     (List.enumerate 0 (e_creates e))"

definition suite_commit_envelope :: "'s store \<Rightarrow> envelope \<Rightarrow> envelope_id \<Rightarrow> i64 \<Rightarrow> 's \<Rightarrow> 's option" where
  "suite_commit_envelope st e tid created_at s = do {
     let create = suite_created_postings e tid;
     let involved = sort_dedup (map p_owner create);
     (_, s) \<leftarrow> unwrap (do_insert_postings st create s);
     (_, s) \<leftarrow> unwrap (do_store_transfer st \<lparr>er_envelope = e, er_receipt = \<lparr>r_transfer_id = tid\<rparr>, er_created_at = created_at\<rparr> involved s);
     Some s }"

section \<open>Accounts\<close>

definition test_create_and_get_account :: "'s store \<Rightarrow> 's \<Rightarrow> 's option" where
  "test_create_and_get_account st s = do {
     let acc = make_account 1 DEBIT_MUST_NOT_EXCEED_CREDIT;
     (n, s) \<leftarrow> unwrap (do_create_account st acc s);
     assert_that (n = 1);
     (got, s) \<leftarrow> unwrap (do_get_account st (account_id_new 1) s);
     assert_that (acc_id got = acc_id acc);
     assert_that (acc_version got = 1);
     assert_that (acc_flags got = acc_flags acc);
     Some s }"

definition test_create_duplicate_account_reports_zero :: "'s store \<Rightarrow> 's \<Rightarrow> 's option" where
  "test_create_duplicate_account_reports_zero st s = do {
     let acc = make_account 1 DEBIT_MUST_NOT_EXCEED_CREDIT;
     (n, s) \<leftarrow> unwrap (do_create_account st acc s);
     assert_that (n = 1);
     (n, s) \<leftarrow> unwrap (do_create_account st acc s);
     assert_that (n = 0);
     Some s }"

definition test_get_missing_account_fails :: "'s store \<Rightarrow> 's \<Rightarrow> 's option" where
  "test_get_missing_account_fails st s = do {
     (err, s) \<leftarrow> unwrap_err (do_get_account st (account_id_new 999) s);
     assert_that (is_not_found err);
     Some s }"

definition test_get_accounts_batch :: "'s store \<Rightarrow> 's \<Rightarrow> 's option" where
  "test_get_accounts_batch st s = do {
     (_, s) \<leftarrow> unwrap (do_create_account st (make_account 1 DEBIT_MUST_NOT_EXCEED_CREDIT) s);
     (_, s) \<leftarrow> unwrap (do_create_account st (make_account 2 DEBIT_MUST_NOT_EXCEED_CREDIT) s);
     (accs, s) \<leftarrow> unwrap (do_get_accounts st [account_id_new 1, account_id_new 2] s);
     assert_that (length accs = 2);
     Some s }"

definition test_append_account_version :: "'s store \<Rightarrow> 's \<Rightarrow> 's option" where
  "test_append_account_version st s = do {
     let acc = make_account 1 DEBIT_MUST_NOT_EXCEED_CREDIT;
     (_, s) \<leftarrow> unwrap (do_create_account st acc s);
     let v2 = acc\<lparr>acc_version := 2, acc_flags := FROZEN\<rparr>;
     (_, s) \<leftarrow> unwrap (do_append_account_version st v2 s);
     (got, s) \<leftarrow> unwrap (do_get_account st (account_id_new 1) s);
     assert_that (acc_version got = 2);
     assert_that (is_frozen got);
     Some s }"

definition test_append_version_gap_reports_zero :: "'s store \<Rightarrow> 's \<Rightarrow> 's option" where
  "test_append_version_gap_reports_zero st s = do {
     let acc = make_account 1 DEBIT_MUST_NOT_EXCEED_CREDIT;
     (_, s) \<leftarrow> unwrap (do_create_account st acc s);
     let bad = acc\<lparr>acc_version := 5\<rparr>;
     (n, s) \<leftarrow> unwrap (do_append_account_version st bad s);
     assert_that (n = 0);
     (history, s) \<leftarrow> unwrap (do_get_account_history st (account_id_new 1) s);
     assert_that (length history = 1);
     v \<leftarrow> at history 0;
     assert_that (acc_version v = 1);
     Some s }"

definition test_append_duplicate_version_rejected :: "'s store \<Rightarrow> 's \<Rightarrow> 's option" where
  "test_append_duplicate_version_rejected st s = do {
     let acc = make_account 1 DEBIT_MUST_NOT_EXCEED_CREDIT;
     (_, s) \<leftarrow> unwrap (do_create_account st acc s);
     let v2 = acc\<lparr>acc_version := 2, acc_flags := FROZEN\<rparr>;
     (_, s) \<leftarrow> unwrap (do_append_account_version st v2 s);
     let v2_again = acc\<lparr>acc_version := 2, acc_flags := CLOSED\<rparr>;
     (n, s) \<leftarrow> unwrap (do_append_account_version st v2_again s);
     assert_that (n = 0);
     (history, s) \<leftarrow> unwrap (do_get_account_history st (account_id_new 1) s);
     assert_that (length history = 2);
     v \<leftarrow> at history 1;
     assert_that (acc_version v = 2);
     assert_that (is_frozen v);
     assert_that (\<not> is_closed v);
     Some s }"

definition test_get_account_history :: "'s store \<Rightarrow> 's \<Rightarrow> 's option" where
  "test_get_account_history st s = do {
     let acc = make_account 1 DEBIT_MUST_NOT_EXCEED_CREDIT;
     (_, s) \<leftarrow> unwrap (do_create_account st acc s);
     let v2 = acc\<lparr>acc_version := 2\<rparr>;
     (_, s) \<leftarrow> unwrap (do_append_account_version st v2 s);
     (history, s) \<leftarrow> unwrap (do_get_account_history st (account_id_new 1) s);
     assert_that (length history = 2);
     v1 \<leftarrow> at history 0;
     assert_that (acc_version v1 = 1);
     v2 \<leftarrow> at history 1;
     assert_that (acc_version v2 = 2);
     Some s }"

definition test_list_accounts :: "'s store \<Rightarrow> 's \<Rightarrow> 's option" where
  "test_list_accounts st s = do {
     (_, s) \<leftarrow> unwrap (do_create_account st (make_account 1 DEBIT_MUST_NOT_EXCEED_CREDIT) s);
     (_, s) \<leftarrow> unwrap (do_create_account st (make_account 2 flags_empty) s);
     (list, s) \<leftarrow> unwrap (do_list_accounts st s);
     assert_that (length list = 2);
     Some s }"

end
