(* ===== verification/Conformance_Postings.thy ===== *)
theory Conformance_Postings
  imports Conformance_Suite
begin

text \<open>The conformance tests of postings (\<open>kuatia-storage/src/store_tests.rs\<close>).\<close>

section \<open>Reading postings\<close>

definition test_commit_creates_postings :: "'s store \<Rightarrow> 's \<Rightarrow> 's option" where
  "test_commit_creates_postings st s = do {
     let p = make_posting (hash_of 1) 0 1 1 100;
     s \<leftarrow> seed_active st [p] s;
     (got, s) \<leftarrow> unwrap (do_get_postings st [p_id p] s);
     assert_that (length got = 1);
     g \<leftarrow> at got 0;
     assert_that (p_value g = 100);
     Some s }"

definition test_get_postings_missing_fails :: "'s store \<Rightarrow> 's \<Rightarrow> 's option" where
  "test_get_postings_missing_fails st s = do {
     let missing = PostingId (hash_of 0) 0;
     (err, s) \<leftarrow> unwrap_err (do_get_postings st [missing] s);
     assert_that (is_not_found err);
     Some s }"

definition test_get_postings_by_account_filters :: "'s store \<Rightarrow> 's \<Rightarrow> 's option" where
  "test_get_postings_by_account_filters st s = do {
     let p1 = make_posting (hash_of 1) 0 1 1 100;
     let p2 = make_posting (hash_of 1) 1 1 2 200;
     let p3 = make_posting (hash_of 1) 2 2 1 300;
     s \<leftarrow> seed_active st [p1, p2, p3] s;
     (all, s) \<leftarrow> unwrap (do_get_postings_by_account st 1 None None FilterAll s);
     assert_that (length all = 2);
     (filtered, s) \<leftarrow> unwrap (do_get_postings_by_account st 1 None (Some (asset_id_new 1)) FilterAll s);
     assert_that (length filtered = 1);
     f \<leftarrow> at filtered 0;
     assert_that (p_value f = 100);
     (active, s) \<leftarrow> unwrap (do_get_postings_by_account st 1 None None FilterActive s);
     assert_that (length active = 2);
     Some s }"

definition test_get_postings_by_subaccount :: "'s store \<Rightarrow> 's \<Rightarrow> 's option" where
  "test_get_postings_by_subaccount st s = do {
     let main = make_posting_sub (hash_of 7) 0 1 0 1 100;
     let sub7a = make_posting_sub (hash_of 7) 1 1 7 1 200;
     let sub7b = make_posting_sub (hash_of 7) 2 1 7 1 50;
     s \<leftarrow> seed_active st [main, sub7a, sub7b] s;
     (all, s) \<leftarrow> unwrap (do_get_postings_by_account st 1 None (Some (asset_id_new 1)) FilterAll s);
     assert_that (length all = 3);
     (main_only, s) \<leftarrow> unwrap (do_get_postings_by_account st 1 (Some 0) (Some (asset_id_new 1)) FilterAll s);
     assert_that (length main_only = 1);
     m \<leftarrow> at main_only 0;
     assert_that (p_value m = 100);
     assert_that (p_owner m = account_id_new 1);
     (sub_only, s) \<leftarrow> unwrap (do_get_postings_by_account st 1 (Some 7) (Some (asset_id_new 1)) FilterAll s);
     assert_that (length sub_only = 2);
     assert_that (list_all (\<lambda>p. p_owner p = with_sub 1 7) sub_only);
     (empty, s) \<leftarrow> unwrap (do_get_postings_by_account st 1 (Some 9) None FilterAll s);
     assert_that (empty = []);
     Some s }"

text \<open>The pages of one query over the five postings of account 1.\<close>

definition page_query :: "asset_id option \<Rightarrow> u32 option \<Rightarrow> u32 option \<Rightarrow> posting_query" where
  "page_query asset limit offset = \<lparr>pq_account = 1, pq_sub = None, pq_asset = asset, pq_filter = FilterAll, pq_limit = limit, pq_offset = offset\<rparr>"

definition test_query_postings_pagination :: "'s store \<Rightarrow> 's \<Rightarrow> 's option" where
  "test_query_postings_pagination st s = do {
     let postings = map (\<lambda>i. make_posting (hash_of 1) (word_of_nat i) 1 1 ((int i + 1) * 100)) [0..<5];
     s \<leftarrow> seed_active st postings s;
     (page1, s) \<leftarrow> unwrap (do_query_postings st (page_query None (Some 2) (Some 0)) s);
     assert_that (length (pg_items page1) = 2);
     assert_that (pg_total page1 = 5);
     (page2, s) \<leftarrow> unwrap (do_query_postings st (page_query None (Some 2) (Some 2)) s);
     assert_that (length (pg_items page2) = 2);
     assert_that (pg_total page2 = 5);
     (page3, s) \<leftarrow> unwrap (do_query_postings st (page_query None (Some 2) (Some 4)) s);
     assert_that (length (pg_items page3) = 1);
     assert_that (pg_total page3 = 5);
     (filtered, s) \<leftarrow> unwrap (do_query_postings st (page_query (Some (asset_id_new 1)) (Some 10) None) s);
     assert_that (pg_total filtered = 5);
     assert_that (length (pg_items filtered) = 5);
     Some s }"

section \<open>Reserving and releasing\<close>

definition test_reserve_postings_batch :: "'s store \<Rightarrow> 's \<Rightarrow> 's option" where
  "test_reserve_postings_batch st s = do {
     let p1 = make_posting (hash_of 1) 0 1 1 100;
     let p2 = make_posting (hash_of 1) 1 1 1 200;
     s \<leftarrow> seed_active st [p1, p2] s;
     let rid = ReservationId 1;
     (_, s) \<leftarrow> unwrap (do_reserve_postings st [p_id p1, p_id p2] rid s);
     (states, s) \<leftarrow> unwrap (do_get_posting_states st [p_id p1, p_id p2] s);
     assert_that (list_all (\<lambda>x. x = StateReserved rid) states);
     Some s }"

definition test_reserve_skips_non_active :: "'s store \<Rightarrow> 's \<Rightarrow> 's option" where
  "test_reserve_skips_non_active st s = do {
     let p1 = make_posting (hash_of 1) 0 1 1 100;
     let p2 = make_posting (hash_of 1) 1 1 1 200;
     s \<leftarrow> seed_active st [p1, p2] s;
     (n, s) \<leftarrow> unwrap (do_reserve_postings st [p_id p1] (ReservationId 1) s);
     assert_that (n = 1);
     (n, s) \<leftarrow> unwrap (do_reserve_postings st [p_id p1, p_id p2] (ReservationId 1) s);
     assert_that (n = 1);
     (x, s) \<leftarrow> state_of st (p_id p2) s;
     assert_that (x = StateReserved (ReservationId 1));
     Some s }"

definition test_release_postings_batch :: "'s store \<Rightarrow> 's \<Rightarrow> 's option" where
  "test_release_postings_batch st s = do {
     let p1 = make_posting (hash_of 1) 0 1 1 100;
     s \<leftarrow> seed_active st [p1] s;
     (_, s) \<leftarrow> unwrap (do_reserve_postings st [p_id p1] (ReservationId 1) s);
     (_, s) \<leftarrow> unwrap (do_release_postings st [p_id p1] (ReservationId 1) s);
     (x, s) \<leftarrow> state_of st (p_id p1) s;
     assert_that (x = StateActive);
     Some s }"

definition test_release_active_is_noop :: "'s store \<Rightarrow> 's \<Rightarrow> 's option" where
  "test_release_active_is_noop st s = do {
     let p1 = make_posting (hash_of 1) 0 1 1 100;
     s \<leftarrow> seed_active st [p1] s;
     (_, s) \<leftarrow> unwrap (do_release_postings st [p_id p1] (ReservationId 1) s);
     (x, s) \<leftarrow> state_of st (p_id p1) s;
     assert_that (x = StateActive);
     Some s }"

definition test_release_inactive_zero :: "'s store \<Rightarrow> 's \<Rightarrow> 's option" where
  "test_release_inactive_zero st s = do {
     let p1 = make_posting (hash_of 1) 0 1 1 100;
     s \<leftarrow> seed_active st [p1] s;
     (n, s) \<leftarrow> unwrap (do_deactivate_postings st [p_id p1] None s);
     assert_that (n = 1);
     (n, s) \<leftarrow> unwrap (do_release_postings st [p_id p1] (ReservationId 1) s);
     assert_that (n = 0);
     (x, s) \<leftarrow> state_of st (p_id p1) s;
     assert_that (x = StateSpent);
     Some s }"

definition test_commit_deactivates_postings :: "'s store \<Rightarrow> 's \<Rightarrow> 's option" where
  "test_commit_deactivates_postings st s = do {
     let p1 = make_posting (hash_of 1) 0 1 1 100;
     s \<leftarrow> seed_active st [p1] s;
     (_, s) \<leftarrow> unwrap (do_reserve_postings st [p_id p1] (ReservationId 1) s);
     let p2 = make_posting (hash_of 2) 0 1 1 100;
     (n, s) \<leftarrow> unwrap (do_deactivate_postings st [p_id p1] (Some (ReservationId 1)) s);
     assert_that (n = 1);
     (_, s) \<leftarrow> unwrap (do_insert_postings st [p2] s);
     (x1, s) \<leftarrow> state_of st (p_id p1) s;
     assert_that (x1 = StateSpent);
     (x2, s) \<leftarrow> state_of st (p_id p2) s;
     assert_that (x2 = StateActive);
     Some s }"

section \<open>Counts and states\<close>

definition test_insert_postings_counts :: "'s store \<Rightarrow> 's \<Rightarrow> 's option" where
  "test_insert_postings_counts st s = do {
     let p1 = make_posting (hash_of 3) 0 1 1 100;
     let p2 = make_posting (hash_of 3) 1 1 1 200;
     (n, s) \<leftarrow> unwrap (do_insert_postings st [p1] s);
     assert_that (n = 1);
     (n, s) \<leftarrow> unwrap (do_insert_postings st [p1, p2] s);
     assert_that (n = 1);
     (n, s) \<leftarrow> unwrap (do_insert_postings st [p1, p2] s);
     assert_that (n = 0);
     Some s }"

definition test_deactivate_postings_counts :: "'s store \<Rightarrow> 's \<Rightarrow> 's option" where
  "test_deactivate_postings_counts st s = do {
     let p1 = make_posting (hash_of 4) 0 1 1 100;
     let p2 = make_posting (hash_of 4) 1 1 1 200;
     (_, s) \<leftarrow> unwrap (do_insert_postings st [p1, p2] s);
     (n, s) \<leftarrow> unwrap (do_deactivate_postings st [p_id p1, p_id p2] None s);
     assert_that (n = 2);
     (n, s) \<leftarrow> unwrap (do_deactivate_postings st [p_id p1, p_id p2] None s);
     assert_that (n = 0);
     (x, s) \<leftarrow> state_of st (p_id p1) s;
     assert_that (x = StateSpent);
     Some s }"

definition test_deactivate_postings_saga_path :: "'s store \<Rightarrow> 's \<Rightarrow> 's option" where
  "test_deactivate_postings_saga_path st s = do {
     let p1 = make_posting (hash_of 5) 0 1 1 100;
     (_, s) \<leftarrow> unwrap (do_insert_postings st [p1] s);
     (_, s) \<leftarrow> unwrap (do_reserve_postings st [p_id p1] (ReservationId 7) s);
     (n, s) \<leftarrow> unwrap (do_deactivate_postings st [p_id p1] (Some (ReservationId 8)) s);
     assert_that (n = 0);
     (n, s) \<leftarrow> unwrap (do_deactivate_postings st [p_id p1] (Some (ReservationId 7)) s);
     assert_that (n = 1);
     Some s }"

definition test_get_posting_states_reflect_membership :: "'s store \<Rightarrow> 's \<Rightarrow> 's option" where
  "test_get_posting_states_reflect_membership st s = do {
     let active = make_posting (hash_of 9) 0 1 1 100;
     let reserved = make_posting (hash_of 9) 1 1 1 200;
     let spent = make_posting (hash_of 9) 2 1 1 300;
     let missing = PostingId (hash_of 0xEE) 0;
     (_, s) \<leftarrow> unwrap (do_insert_postings st [active, reserved, spent] s);
     let rid = ReservationId 3;
     (_, s) \<leftarrow> unwrap (do_reserve_postings st [p_id reserved] rid s);
     (_, s) \<leftarrow> unwrap (do_deactivate_postings st [p_id spent] None s);
     (states, s) \<leftarrow> unwrap (do_get_posting_states st [p_id active, p_id reserved, p_id spent, missing] s);
     assert_that (states = [StateActive, StateReserved rid, StateSpent, StateMissing]);
     Some s }"

definition test_get_posting_states_batch_preserves_order :: "'s store \<Rightarrow> 's \<Rightarrow> 's option" where
  "test_get_posting_states_batch_preserves_order st s = do {
     let active = make_posting (hash_of 7) 0 1 1 100;
     let reserved = make_posting (hash_of 7) 1 1 1 200;
     let spent = make_posting (hash_of 7) 2 1 1 300;
     let missing = PostingId (hash_of 0xAB) 5;
     (_, s) \<leftarrow> unwrap (do_insert_postings st [active, reserved, spent] s);
     let rid = ReservationId 7;
     (_, s) \<leftarrow> unwrap (do_reserve_postings st [p_id reserved] rid s);
     (_, s) \<leftarrow> unwrap (do_deactivate_postings st [p_id spent] None s);
     let query = [missing, p_id spent, p_id active, p_id reserved, p_id active, missing];
     (states, s) \<leftarrow> unwrap (do_get_posting_states st query s);
     assert_that (states = [StateMissing, StateSpent, StateActive, StateReserved rid, StateActive, StateMissing]);
     (none, s) \<leftarrow> unwrap (do_get_posting_states st [] s);
     assert_that (none = []);
     Some s }"

definition test_spent_posting_remains_in_immutable_table :: "'s store \<Rightarrow> 's \<Rightarrow> 's option" where
  "test_spent_posting_remains_in_immutable_table st s = do {
     let p = make_posting (hash_of 0xA1) 0 1 1 100;
     s \<leftarrow> seed_active st [p] s;
     (_, s) \<leftarrow> unwrap (do_deactivate_postings st [p_id p] None s);
     (got, s) \<leftarrow> unwrap (do_get_postings st [p_id p] s);
     assert_that (length got = 1);
     g \<leftarrow> at got 0;
     assert_that (p_value g = 100);
     (x, s) \<leftarrow> state_of st (p_id p) s;
     assert_that (x = StateSpent);
     Some s }"

definition test_get_postings_by_account_live_filter :: "'s store \<Rightarrow> 's \<Rightarrow> 's option" where
  "test_get_postings_by_account_live_filter st s = do {
     let active = make_posting (hash_of 0xB2) 0 1 1 100;
     let reserved = make_posting (hash_of 0xB2) 1 1 1 200;
     let spent = make_posting (hash_of 0xB2) 2 1 1 300;
     (_, s) \<leftarrow> unwrap (do_insert_postings st [active, reserved, spent] s);
     (_, s) \<leftarrow> unwrap (do_reserve_postings st [p_id reserved] (ReservationId 1) s);
     (_, s) \<leftarrow> unwrap (do_deactivate_postings st [p_id spent] None s);
     (live, s) \<leftarrow> unwrap (do_get_postings_by_account st 1 None None FilterLive s);
     let ids = sort_key pid_index (map p_id live);
     assert_that (ids = [p_id active, p_id reserved]);
     Some s }"

definition test_reserve_twice_second_zero :: "'s store \<Rightarrow> 's \<Rightarrow> 's option" where
  "test_reserve_twice_second_zero st s = do {
     let p1 = make_posting (hash_of 1) 0 1 1 100;
     s \<leftarrow> seed_active st [p1] s;
     (n, s) \<leftarrow> unwrap (do_reserve_postings st [p_id p1] (ReservationId 1) s);
     assert_that (n = 1);
     (n, s) \<leftarrow> unwrap (do_reserve_postings st [p_id p1] (ReservationId 2) s);
     assert_that (n = 0);
     Some s }"

definition test_deactivate_twice_second_zero :: "'s store \<Rightarrow> 's \<Rightarrow> 's option" where
  "test_deactivate_twice_second_zero st s = do {
     let consumed = make_posting (hash_of 7) 0 1 1 100;
     s \<leftarrow> seed_active st [consumed] s;
     (n, s) \<leftarrow> unwrap (do_deactivate_postings st [p_id consumed] None s);
     assert_that (n = 1);
     (n, s) \<leftarrow> unwrap (do_deactivate_postings st [p_id consumed] None s);
     assert_that (n = 0);
     Some s }"

end
