(* ===== verification/Conformance_Transfers.thy ===== *)
theory Conformance_Transfers
  imports Conformance_Suite
begin

text \<open>The conformance tests of transfers, events, books and cache points (\<open>kuatia-storage/src/store_tests.rs\<close>).\<close>

section \<open>Stored transfers\<close>

definition test_store_transfer_counts :: "'s store \<Rightarrow> 's \<Rightarrow> 's option" where
  "test_store_transfer_counts st s = do {
     let (envelope, tid) = make_envelope;
     let record = \<lparr>er_envelope = envelope, er_receipt = \<lparr>r_transfer_id = tid\<rparr>, er_created_at = 1000\<rparr>;
     let involved = [account_id_new 1, account_id_new 99];
     (n, s) \<leftarrow> unwrap (do_store_transfer st record involved s);
     assert_that (n = 1);
     (n, s) \<leftarrow> unwrap (do_store_transfer st record involved s);
     assert_that (n = 0);
     (found, s) \<leftarrow> unwrap (do_get_transfer st tid s);
     assert_that (found \<noteq> None);
     (records, s) \<leftarrow> unwrap (do_get_transfers_for_account st 1 None s);
     assert_that (length records = 1);
     Some s }"

definition test_store_transfer_indexes_involved :: "'s store \<Rightarrow> 's \<Rightarrow> 's option" where
  "test_store_transfer_indexes_involved st s = do {
     let consumed = PostingId (hash_of 9) 0;
     let tid = hash_of 7;
     let envelope = envelope_builder_creates [\<lparr>np_owner = account_id_new 8, np_asset = asset_id_new 1, np_value = 100, np_payer = None\<rparr>]
       (envelope_builder_consumes [consumed] envelope_builder_new);
     let record = \<lparr>er_envelope = envelope, er_receipt = \<lparr>r_transfer_id = tid\<rparr>, er_created_at = 2000\<rparr>;
     let involved = [account_id_new 8, account_id_new 7];
     (n, s) \<leftarrow> unwrap (do_store_transfer st record involved s);
     assert_that (n = 1);
     (for_consumed, s) \<leftarrow> unwrap (do_get_transfers_for_account st 7 None s);
     assert_that (length for_consumed = 1);
     r \<leftarrow> at for_consumed 0;
     assert_that (r_transfer_id (er_receipt r) = tid);
     (for_created, s) \<leftarrow> unwrap (do_get_transfers_for_account st 8 None s);
     assert_that (length for_created = 1);
     r \<leftarrow> at for_created 0;
     assert_that (r_transfer_id (er_receipt r) = tid);
     Some s }"

definition test_commit_and_get_transfer :: "'s store \<Rightarrow> 's \<Rightarrow> 's option" where
  "test_commit_and_get_transfer st s = do {
     let (envelope, tid) = make_envelope;
     s \<leftarrow> suite_commit_envelope st envelope tid 1000 s;
     (got, s) \<leftarrow> unwrap (do_get_transfer st tid s);
     g \<leftarrow> got;
     assert_that (r_transfer_id (er_receipt g) = tid);
     Some s }"

definition test_get_missing_transfer :: "'s store \<Rightarrow> 's \<Rightarrow> 's option" where
  "test_get_missing_transfer st s = do {
     (got, s) \<leftarrow> unwrap (do_get_transfer st (hash_of 0) s);
     assert_that (got = None);
     Some s }"

definition test_get_transfers_for_account :: "'s store \<Rightarrow> 's \<Rightarrow> 's option" where
  "test_get_transfers_for_account st s = do {
     let (envelope, tid) = make_envelope;
     s \<leftarrow> suite_commit_envelope st envelope tid 1000 s;
     (records, s) \<leftarrow> unwrap (do_get_transfers_for_account st 1 None s);
     assert_that (length records = 1);
     (empty, s) \<leftarrow> unwrap (do_get_transfers_for_account st 999 None s);
     assert_that (empty = []);
     Some s }"

definition test_commit_preserves_created_at :: "'s store \<Rightarrow> 's \<Rightarrow> 's option" where
  "test_commit_preserves_created_at st s = do {
     let (envelope, tid) = make_envelope;
     s \<leftarrow> suite_commit_envelope st envelope tid 1718000000000 s;
     (got, s) \<leftarrow> unwrap (do_get_transfer st tid s);
     g \<leftarrow> got;
     assert_that (er_created_at g = 1718000000000);
     Some s }"

section \<open>Queries\<close>

definition transfer_query_default :: transfer_query where
  "transfer_query_default = \<lparr>tq_account = None, tq_sub = None, tq_from_ts = None, tq_to_ts = None, tq_book = None, tq_limit = None, tq_offset = None\<rparr>"

definition test_query_transfers_by_date_range :: "'s store \<Rightarrow> 's \<Rightarrow> 's option" where
  "test_query_transfers_by_date_range st s = do {
     let (e1, t1) = make_envelope;
     s \<leftarrow> suite_commit_envelope st e1 t1 1000 s;
     let (e2, t2) = make_envelope_with_book (BookId 1);
     s \<leftarrow> suite_commit_envelope st e2 t2 2000 s;
     (page, s) \<leftarrow> unwrap (do_query_transfers st (transfer_query_default\<lparr>tq_account := Some 1, tq_from_ts := Some 1500\<rparr>) s);
     assert_that (pg_total page = 1);
     r \<leftarrow> at (pg_items page) 0;
     assert_that (er_created_at r = 2000);
     Some s }"

definition test_query_transfers_pagination :: "'s store \<Rightarrow> 's \<Rightarrow> 's option" where
  "test_query_transfers_pagination st s = do {
     s \<leftarrow> for_each (\<lambda>i s. do {
         let tid = EnvelopeId ([word_of_nat i + 10] @ replicate 31 0);
         let (envelope, _) = make_envelope;
         suite_commit_envelope st envelope tid ((int i + 1) * 1000) s }) [0..<3] s;
     (page, s) \<leftarrow> unwrap (do_query_transfers st (transfer_query_default\<lparr>tq_account := Some 1, tq_limit := Some 2, tq_offset := Some 0\<rparr>) s);
     assert_that (length (pg_items page) = 2);
     assert_that (pg_total page = 3);
     (page2, s) \<leftarrow> unwrap (do_query_transfers st (transfer_query_default\<lparr>tq_account := Some 1, tq_limit := Some 2, tq_offset := Some 2\<rparr>) s);
     assert_that (length (pg_items page2) = 1);
     assert_that (pg_total page2 = 3);
     Some s }"

definition test_query_transfers_by_book :: "'s store \<Rightarrow> 's \<Rightarrow> 's option" where
  "test_query_transfers_by_book st s = do {
     let (e1, t1) = make_envelope;
     s \<leftarrow> suite_commit_envelope st e1 t1 1000 s;
     let (e2, t2) = make_envelope_with_book (BookId 5);
     s \<leftarrow> suite_commit_envelope st e2 t2 2000 s;
     (page, s) \<leftarrow> unwrap (do_query_transfers st (transfer_query_default\<lparr>tq_account := Some 1, tq_book := Some (BookId 5)\<rparr>) s);
     assert_that (pg_total page = 1);
     r \<leftarrow> at (pg_items page) 0;
     assert_that (e_book (er_envelope r) = BookId 5);
     Some s }"

definition test_query_transfers_store_wide :: "'s store \<Rightarrow> 's \<Rightarrow> 's option" where
  "test_query_transfers_store_wide st s = do {
     let (e1, t1) = make_envelope_with_book (BookId 1);
     s \<leftarrow> suite_commit_envelope st e1 t1 1000 s;
     let (e2, t2) = make_envelope_with_book (BookId 2);
     s \<leftarrow> suite_commit_envelope st e2 t2 2000 s;
     (page, s) \<leftarrow> unwrap (do_query_transfers st transfer_query_default s);
     assert_that (pg_total page = 2);
     (page, s) \<leftarrow> unwrap (do_query_transfers st (transfer_query_default\<lparr>tq_book := Some (BookId 2)\<rparr>) s);
     assert_that (pg_total page = 1);
     r \<leftarrow> at (pg_items page) 0;
     assert_that (er_created_at r = 2000);
     Some s }"

section \<open>Events\<close>

definition suite_event :: "i64 \<Rightarrow> ledger_event_kind \<Rightarrow> ledger_event" where
  "suite_event t k = \<lparr>ev_seq = 0, ev_timestamp = t, ev_kind = k\<rparr>"

definition test_append_event_idempotent :: "'s store \<Rightarrow> 's \<Rightarrow> 's option" where
  "test_append_event_idempotent st s = do {
     let event = suite_event 1000 (TransferCommitted (hash_of 8));
     (seq1, s) \<leftarrow> unwrap (do_append_event st event s);
     (seq2, s) \<leftarrow> unwrap (do_append_event st event s);
     assert_that (seq1 = seq2);
     (events, s) \<leftarrow> unwrap (do_get_events_since st 0 10 s);
     assert_that (length events = 1);
     Some s }"

definition test_append_event_transition_idempotent :: "'s store \<Rightarrow> 's \<Rightarrow> 's option" where
  "test_append_event_transition_idempotent st s = do {
     let frozen_v2 = suite_event 1000 (EvAccountFrozen (account_id_new 7) 2);
     (seq1, s) \<leftarrow> unwrap (do_append_event st frozen_v2 s);
     (seq2, s) \<leftarrow> unwrap (do_append_event st frozen_v2 s);
     assert_that (seq1 = seq2);
     (events, s) \<leftarrow> unwrap (do_get_events_since st 0 10 s);
     assert_that (length events = 1);
     let frozen_v4 = suite_event 2000 (EvAccountFrozen (account_id_new 7) 4);
     (seq3, s) \<leftarrow> unwrap (do_append_event st frozen_v4 s);
     assert_that (seq3 \<noteq> seq1);
     (events, s) \<leftarrow> unwrap (do_get_events_since st 0 10 s);
     assert_that (length events = 2);
     Some s }"

definition test_append_and_query_events :: "'s store \<Rightarrow> 's \<Rightarrow> 's option" where
  "test_append_and_query_events st s = do {
     let e1 = suite_event 1000 (EvAccountCreated (account_id_new 1));
     let e2 = suite_event 2000 (TransferCommitted (hash_of 42));
     (seq1, s) \<leftarrow> unwrap (do_append_event st e1 s);
     (seq2, s) \<leftarrow> unwrap (do_append_event st e2 s);
     assert_that (seq2 > seq1);
     (events, s) \<leftarrow> unwrap (do_get_events_since st 0 100 s);
     assert_that (length events = 2);
     v1 \<leftarrow> at events 0;
     assert_that (ev_seq v1 = seq1);
     v2 \<leftarrow> at events 1;
     assert_that (ev_seq v2 = seq2);
     Some s }"

definition test_events_sequence_ordering :: "'s store \<Rightarrow> 's \<Rightarrow> 's option" where
  "test_events_sequence_ordering st s = do {
     s \<leftarrow> for_each (\<lambda>i s. do {
         (_, s) \<leftarrow> unwrap (do_append_event st (suite_event ((int i + 1) * 1000) (EvAccountCreated (account_id_new (int i + 1)))) s);
         Some s }) [0..<5] s;
     (page1, s) \<leftarrow> unwrap (do_get_events_since st 0 3 s);
     assert_that (length page1 = 3);
     third \<leftarrow> at page1 2;
     (page2, s) \<leftarrow> unwrap (do_get_events_since st (ev_seq third) 10 s);
     assert_that (length page2 = 2);
     Some s }"

section \<open>Books\<close>

text \<open>The id that the builder generates is overwritten at once.\<close>

definition make_book :: "i64 \<Rightarrow> rstr \<Rightarrow> book" where
  "make_book i name = allow_asset (asset_id_new 1) (book_builder_id (BookId i) (book_builder_new (BookId 0) name))"

definition test_create_and_get_book :: "'s store \<Rightarrow> 's \<Rightarrow> 's option" where
  "test_create_and_get_book st s = do {
     let book = make_book 1 (lit ''sales'');
     (_, s) \<leftarrow> unwrap (do_create_book st book s);
     (got, s) \<leftarrow> unwrap (do_get_book st (BookId 1) s);
     assert_that (got = book);
     Some s }"

definition test_create_duplicate_book_reports_zero :: "'s store \<Rightarrow> 's \<Rightarrow> 's option" where
  "test_create_duplicate_book_reports_zero st s = do {
     let book = make_book 1 (lit ''sales'');
     (n, s) \<leftarrow> unwrap (do_create_book st book s);
     assert_that (n = 1);
     (n, s) \<leftarrow> unwrap (do_create_book st book s);
     assert_that (n = 0);
     Some s }"

definition test_get_missing_book_fails :: "'s store \<Rightarrow> 's \<Rightarrow> 's option" where
  "test_get_missing_book_fails st s = do {
     (err, s) \<leftarrow> unwrap_err (do_get_book st (BookId 999) s);
     assert_that (is_not_found err);
     Some s }"

definition test_list_books :: "'s store \<Rightarrow> 's \<Rightarrow> 's option" where
  "test_list_books st s = do {
     (_, s) \<leftarrow> unwrap (do_create_book st (make_book 1 (lit ''sales'')) s);
     (_, s) \<leftarrow> unwrap (do_create_book st (make_book 2 (lit ''inventory'')) s);
     (books, s) \<leftarrow> unwrap (do_list_books st s);
     let books = sort_key (\<lambda>b. book_raw (b_id b)) books;
     assert_that (length books = 2);
     b0 \<leftarrow> at books 0;
     assert_that (b_name b0 = lit ''sales'');
     b1 \<leftarrow> at books 1;
     assert_that (b_name b1 = lit ''inventory'');
     Some s }"

section \<open>Cache points\<close>

definition test_balance_projection_absent_is_none :: "'s store \<Rightarrow> 's \<Rightarrow> 's option" where
  "test_balance_projection_absent_is_none st s = do {
     (got, s) \<leftarrow> unwrap (do_get_closest_balance_projection st (account_id_new 1) (asset_id_new 1) i64_max s);
     assert_that (got = None);
     Some s }"

definition test_balance_projection_append_and_get_closest :: "'s store \<Rightarrow> 's \<Rightarrow> 's option" where
  "test_balance_projection_append_and_get_closest st s = do {
     (_, s) \<leftarrow> unwrap (do_append_balance_projection st (account_id_new 1) (asset_id_new 1) 1234 500 s);
     (got, s) \<leftarrow> unwrap (do_get_closest_balance_projection st (account_id_new 1) (asset_id_new 1) i64_max s);
     g \<leftarrow> got;
     assert_that (bp_account g = account_id_new 1);
     assert_that (bp_asset g = asset_id_new 1);
     assert_that (bp_balance g = 1234);
     assert_that (bp_watermark g = 500);
     Some s }"

definition test_balance_projection_closest_at_or_before_as_of :: "'s store \<Rightarrow> 's \<Rightarrow> 's option" where
  "test_balance_projection_closest_at_or_before_as_of st s = do {
     let acc = account_id_new 1;
     let asset = asset_id_new 1;
     (_, s) \<leftarrow> unwrap (do_append_balance_projection st acc asset 100 200 s);
     (got, s) \<leftarrow> unwrap (do_get_closest_balance_projection st acc asset i64_max s);
     first \<leftarrow> got;
     (_, s) \<leftarrow> unwrap (do_append_balance_projection st acc asset 300 400 s);
     (got, s) \<leftarrow> unwrap (do_get_closest_balance_projection st acc asset 1000 s);
     latest \<leftarrow> got;
     assert_that (bp_id latest > bp_id first);
     assert_that (bp_balance latest = 300);
     assert_that (bp_watermark latest = 400);
     (got, s) \<leftarrow> unwrap (do_get_closest_balance_projection st acc asset 300 s);
     earlier \<leftarrow> got;
     assert_that (bp_balance earlier = 100);
     assert_that (bp_watermark earlier = 200);
     (got, s) \<leftarrow> unwrap (do_get_closest_balance_projection st acc asset 100 s);
     assert_that (got = None);
     Some s }"

end
