(* ===== verification/Conformance_Commits.thy ===== *)
theory Conformance_Commits
  imports Conformance_Transfers
begin

text \<open>The conformance tests of atomic commits and transitions (\<open>kuatia-storage/src/store_tests.rs\<close>).\<close>

section \<open>Commits\<close>

definition committed_event :: "envelope_id \<Rightarrow> ledger_event" where
  "committed_event tid = \<lparr>ev_seq = 0, ev_timestamp = 1000, ev_kind = TransferCommitted tid\<rparr>"

text \<open>The request literal of the tests.\<close>

definition suite_request ::
  "envelope_id \<Rightarrow> posting_id list \<Rightarrow> posting list \<Rightarrow> envelope \<Rightarrow> i64 \<Rightarrow> account_id list \<Rightarrow> commit_request" where
  "suite_request tid consume create e created_at involved = \<lparr>cr_transfer_id = tid, cr_consume = consume, cr_create = create,
     cr_record = \<lparr>er_envelope = e, er_receipt = \<lparr>r_transfer_id = tid\<rparr>, er_created_at = created_at\<rparr>,
     cr_involved = involved, cr_event = committed_event tid\<rparr>"

definition is_committed :: "commit_outcome \<Rightarrow> bool" where
  "is_committed out = (case out of Committed _ \<Rightarrow> True | _ \<Rightarrow> False)"

definition is_already_committed :: "commit_outcome \<Rightarrow> bool" where
  "is_already_committed out = (case out of AlreadyCommitted _ \<Rightarrow> True | _ \<Rightarrow> False)"

definition test_commit_atomic_creates_and_returns_receipt :: "'s store \<Rightarrow> 's \<Rightarrow> 's option" where
  "test_commit_atomic_creates_and_returns_receipt st s = do {
     (_, s) \<leftarrow> unwrap (do_create_account st (make_account 1 DEBIT_MUST_NOT_EXCEED_CREDIT) s);
     (_, s) \<leftarrow> unwrap (do_create_account st (make_account 99 flags_empty) s);
     let (envelope, tid) = make_envelope;
     let create = [make_posting tid 0 1 1 100, make_posting tid 1 99 1 (- 100)];
     let involved = [account_id_new 1, account_id_new 99];
     (outcome, s) \<leftarrow> unwrap (do_commit_envelope st (suite_request tid [] create envelope 1000 involved) s);
     assert_that (is_committed outcome);
     p \<leftarrow> at create 0;
     (x, s) \<leftarrow> state_of st (p_id p) s;
     assert_that (x = StateActive);
     (found, s) \<leftarrow> unwrap (do_get_transfer st tid s);
     assert_that (found \<noteq> None);
     (records, s) \<leftarrow> unwrap (do_get_transfers_for_account st 1 None s);
     assert_that (length records = 1);
     (events, s) \<leftarrow> unwrap (do_get_events_since st 0 10 s);
     assert_that (length events = 1);
     Some s }"

definition test_commit_atomic_idempotent :: "'s store \<Rightarrow> 's \<Rightarrow> 's option" where
  "test_commit_atomic_idempotent st s = do {
     (_, s) \<leftarrow> unwrap (do_create_account st (make_account 1 DEBIT_MUST_NOT_EXCEED_CREDIT) s);
     (_, s) \<leftarrow> unwrap (do_create_account st (make_account 99 flags_empty) s);
     let (envelope, tid) = make_envelope;
     let create = [make_posting tid 0 1 1 100, make_posting tid 1 99 1 (- 100)];
     let involved = [account_id_new 1, account_id_new 99];
     let req = suite_request tid [] create envelope 1000 involved;
     (outcome, s) \<leftarrow> unwrap (do_commit_envelope st req s);
     assert_that (is_committed outcome);
     (outcome, s) \<leftarrow> unwrap (do_commit_envelope st req s);
     assert_that (is_already_committed outcome);
     (events, s) \<leftarrow> unwrap (do_get_events_since st 0 10 s);
     assert_that (length events = 1);
     Some s }"

definition test_commit_atomic_double_spend_rejects_and_applies_nothing :: "'s store \<Rightarrow> 's \<Rightarrow> 's option" where
  "test_commit_atomic_double_spend_rejects_and_applies_nothing st s = do {
     s \<leftarrow> for_each (\<lambda>i s. do {
         (_, s) \<leftarrow> unwrap (do_create_account st (make_account i DEBIT_MUST_NOT_EXCEED_CREDIT) s);
         Some s }) [1, 2] s;
     let funded = make_posting (hash_of 1) 0 1 1 100;
     s \<leftarrow> seed_active st [funded] s;
     let commit = (\<lambda>tid. (tid, make_posting tid 0 2 1 100));
     let (tid1, created1) = commit (hash_of 0xC1);
     let involved = [account_id_new 1, account_id_new 2];
     let spending = envelope_builder_consumes [p_id funded] envelope_builder_new;
     (first, s) \<leftarrow> unwrap (do_commit_envelope st (suite_request tid1 [p_id funded] [created1] spending 1000 involved) s);
     assert_that (is_committed first);
     let (tid2, created2) = commit (hash_of 0xC2);
     (second, s) \<leftarrow> unwrap (do_commit_envelope st (suite_request tid2 [p_id funded] [created2] spending 2000 involved) s);
     assert_that (second = CommitRejected (DoubleSpend (p_id funded)));
     (found, s) \<leftarrow> unwrap (do_get_transfer st tid2 s);
     assert_that (found = None);
     (x, s) \<leftarrow> state_of st (p_id created2) s;
     assert_that (x = StateMissing);
     Some s }"

definition test_commit_atomic_rejects_frozen :: "'s store \<Rightarrow> 's \<Rightarrow> 's option" where
  "test_commit_atomic_rejects_frozen st s = do {
     (_, s) \<leftarrow> unwrap (do_create_account st (make_account 1 FROZEN) s);
     let tid = hash_of 0xF1;
     let create = make_posting tid 0 1 1 100;
     (outcome, s) \<leftarrow> unwrap (do_commit_envelope st (suite_request tid [] [create] envelope_builder_new 1000 [account_id_new 1]) s);
     assert_that (outcome = CommitRejected (RejectFrozen (account_id_new 1)));
     (found, s) \<leftarrow> unwrap (do_get_transfer st tid s);
     assert_that (found = None);
     (x, s) \<leftarrow> state_of st (p_id create) s;
     assert_that (x = StateMissing);
     Some s }"

definition test_commit_atomic_rejects_closed :: "'s store \<Rightarrow> 's \<Rightarrow> 's option" where
  "test_commit_atomic_rejects_closed st s = do {
     (_, s) \<leftarrow> unwrap (do_create_account st (make_account 1 CLOSED) s);
     let tid = hash_of 0xC0;
     let create = make_posting tid 0 1 1 100;
     (outcome, s) \<leftarrow> unwrap (do_commit_envelope st (suite_request tid [] [create] envelope_builder_new 1000 [account_id_new 1]) s);
     assert_that (outcome = CommitRejected (RejectClosed (account_id_new 1)));
     (found, s) \<leftarrow> unwrap (do_get_transfer st tid s);
     assert_that (found = None);
     Some s }"

definition test_commit_atomic_rejects_overdraft :: "'s store \<Rightarrow> 's \<Rightarrow> 's option" where
  "test_commit_atomic_rejects_overdraft st s = do {
     (_, s) \<leftarrow> unwrap (do_create_account st (make_account 1 DEBIT_MUST_NOT_EXCEED_CREDIT) s);
     let tid = hash_of 0x0D;
     let create = make_posting tid 0 1 1 (- 30);
     (outcome, s) \<leftarrow> unwrap (do_commit_envelope st (suite_request tid [] [create] envelope_builder_new 1000 [account_id_new 1]) s);
     assert_that (case outcome of CommitRejected (RejectOverdraft acc _ projected) \<Rightarrow> acc = account_id_new 1 \<and> projected = - 30 | _ \<Rightarrow> False);
     (found, s) \<leftarrow> unwrap (do_get_transfer st tid s);
     assert_that (found = None);
     (x, s) \<leftarrow> state_of st (p_id create) s;
     assert_that (x = StateMissing);
     Some s }"

section \<open>Transitions\<close>

definition test_commit_transition_applies :: "'s store \<Rightarrow> 's \<Rightarrow> 's option" where
  "test_commit_transition_applies st s = do {
     (_, s) \<leftarrow> unwrap (do_create_account st (make_account 1 flags_empty) s);
     let nxt = (make_account 1 FROZEN)\<lparr>acc_version := 2\<rparr>;
     let event = suite_event 1000 (EvAccountFrozen (account_id_new 1) 2);
     (out, s) \<leftarrow> unwrap (do_commit_transition st nxt event s);
     assert_that (out = Applied);
     (account, s) \<leftarrow> unwrap (do_get_account st (account_id_new 1) s);
     assert_that (acc_version account = 2);
     assert_that (is_frozen account);
     (events, s) \<leftarrow> unwrap (do_get_events_since st 0 10 s);
     assert_that (length events = 1);
     Some s }"

definition test_commit_transition_idempotent_replay :: "'s store \<Rightarrow> 's \<Rightarrow> 's option" where
  "test_commit_transition_idempotent_replay st s = do {
     (_, s) \<leftarrow> unwrap (do_create_account st (make_account 1 flags_empty) s);
     let nxt = (make_account 1 FROZEN)\<lparr>acc_version := 2\<rparr>;
     let event = suite_event 1000 (EvAccountFrozen (account_id_new 1) 2);
     (_, s) \<leftarrow> unwrap (do_commit_transition st nxt event s);
     (out, s) \<leftarrow> unwrap (do_commit_transition st nxt event s);
     assert_that (out = AlreadyApplied);
     (account, s) \<leftarrow> unwrap (do_get_account st (account_id_new 1) s);
     assert_that (acc_version account = 2);
     (events, s) \<leftarrow> unwrap (do_get_events_since st 0 10 s);
     assert_that (length events = 1);
     Some s }"

definition test_commit_transition_version_conflict :: "'s store \<Rightarrow> 's \<Rightarrow> 's option" where
  "test_commit_transition_version_conflict st s = do {
     (_, s) \<leftarrow> unwrap (do_create_account st (make_account 1 flags_empty) s);
     let nxt = (make_account 1 FROZEN)\<lparr>acc_version := 3\<rparr>;
     let event = suite_event 1000 (EvAccountFrozen (account_id_new 1) 3);
     (out, s) \<leftarrow> unwrap (do_commit_transition st nxt event s);
     assert_that (out = TransitionRejected (VersionConflict (account_id_new 1) 3));
     Some s }"

definition test_commit_transition_rejects_closed :: "'s store \<Rightarrow> 's \<Rightarrow> 's option" where
  "test_commit_transition_rejects_closed st s = do {
     (_, s) \<leftarrow> unwrap (do_create_account st (make_account 1 flags_empty) s);
     let closed = (make_account 1 CLOSED)\<lparr>acc_version := 2\<rparr>;
     (_, s) \<leftarrow> unwrap (do_commit_transition st closed (suite_event 1000 (EvAccountClosed (account_id_new 1) 2)) s);
     let nxt = (make_account 1 (flags_insert CLOSED FROZEN))\<lparr>acc_version := 3\<rparr>;
     (outcome, s) \<leftarrow> unwrap (do_commit_transition st nxt (suite_event 2000 (EvAccountFrozen (account_id_new 1) 3)) s);
     assert_that (outcome = TransitionRejected (AlreadyClosed (account_id_new 1)));
     Some s }"

end
