(* ===== verification/Conformance.thy ===== *)
theory Conformance
  imports Conformance_Postings Conformance_Commits
begin

text \<open>
  The conformance suite: the tests that \<open>store_tests!\<close> (\<open>kuatia-storage/src/store_tests.rs\<close>)
  generates for a store, each run on a fresh one, in the groups of the macro.
\<close>

definition account_tests :: "('s store \<Rightarrow> 's \<Rightarrow> 's option) list" where
  "account_tests = [
     test_create_and_get_account, test_create_duplicate_account_reports_zero, test_get_missing_account_fails,
     test_get_accounts_batch, test_append_account_version, test_append_version_gap_reports_zero,
     test_append_duplicate_version_rejected, test_get_account_history, test_list_accounts]"

definition posting_read_tests :: "('s store \<Rightarrow> 's \<Rightarrow> 's option) list" where
  "posting_read_tests = [
     test_commit_creates_postings, test_get_postings_missing_fails, test_get_postings_by_account_filters,
     test_get_postings_by_subaccount, test_query_postings_pagination, test_reserve_postings_batch,
     test_reserve_skips_non_active, test_release_postings_batch, test_release_active_is_noop,
     test_release_inactive_zero, test_commit_deactivates_postings]"

definition posting_state_tests :: "('s store \<Rightarrow> 's \<Rightarrow> 's option) list" where
  "posting_state_tests = [
     test_insert_postings_counts, test_deactivate_postings_counts, test_deactivate_postings_saga_path,
     test_get_posting_states_reflect_membership, test_get_posting_states_batch_preserves_order, test_spent_posting_remains_in_immutable_table,
     test_get_postings_by_account_live_filter, test_store_transfer_counts, test_store_transfer_indexes_involved]"

definition regression_tests :: "('s store \<Rightarrow> 's \<Rightarrow> 's option) list" where
  "regression_tests = [
     test_reserve_twice_second_zero, test_deactivate_twice_second_zero, test_append_event_idempotent,
     test_append_event_transition_idempotent]"

definition transfer_tests :: "('s store \<Rightarrow> 's \<Rightarrow> 's option) list" where
  "transfer_tests = [
     test_commit_and_get_transfer, test_get_missing_transfer, test_get_transfers_for_account,
     test_commit_preserves_created_at]"

definition transfer_query_tests :: "('s store \<Rightarrow> 's \<Rightarrow> 's option) list" where
  "transfer_query_tests = [
     test_query_transfers_by_date_range, test_query_transfers_pagination, test_query_transfers_by_book,
     test_query_transfers_store_wide]"

definition commit_tests :: "('s store \<Rightarrow> 's \<Rightarrow> 's option) list" where
  "commit_tests = [
     test_commit_atomic_creates_and_returns_receipt, test_commit_atomic_idempotent, test_commit_atomic_double_spend_rejects_and_applies_nothing,
     test_commit_atomic_rejects_frozen, test_commit_atomic_rejects_closed, test_commit_atomic_rejects_overdraft,
     test_commit_transition_applies, test_commit_transition_idempotent_replay, test_commit_transition_version_conflict,
     test_commit_transition_rejects_closed]"

definition event_tests :: "('s store \<Rightarrow> 's \<Rightarrow> 's option) list" where
  "event_tests = [
     test_append_and_query_events, test_events_sequence_ordering]"

definition book_tests :: "('s store \<Rightarrow> 's \<Rightarrow> 's option) list" where
  "book_tests = [
     test_create_and_get_book, test_create_duplicate_book_reports_zero, test_get_missing_book_fails,
     test_list_books]"

definition projection_tests :: "('s store \<Rightarrow> 's \<Rightarrow> 's option) list" where
  "projection_tests = [
     test_balance_projection_absent_is_none, test_balance_projection_append_and_get_closest, test_balance_projection_closest_at_or_before_as_of]"

definition conformance_suite :: "('s store \<Rightarrow> 's \<Rightarrow> 's option) list" where
  "conformance_suite = account_tests @ posting_read_tests @ posting_state_tests @ regression_tests @ transfer_tests @ transfer_query_tests @
     commit_tests @ event_tests @ book_tests @ projection_tests"

text \<open>The clock of the runs stands after the epoch of the generated ids (2026).\<close>

definition suite_clock :: int where
  "suite_clock = 1800000000000"

definition passes :: "'s store \<Rightarrow> 's \<Rightarrow> ('s store \<Rightarrow> 's \<Rightarrow> 's option) list \<Rightarrow> bool" where
  "passes st fresh tests \<longleftrightarrow> list_all (\<lambda>test. test st fresh \<noteq> None) tests"

definition conforms :: "'s store \<Rightarrow> 's \<Rightarrow> bool" where
  "conforms st fresh \<longleftrightarrow> passes st fresh conformance_suite"

lemma conforms_groups:
  "passes st fresh account_tests \<Longrightarrow> passes st fresh posting_read_tests \<Longrightarrow> passes st fresh posting_state_tests \<Longrightarrow> passes st fresh regression_tests \<Longrightarrow>
   passes st fresh transfer_tests \<Longrightarrow> passes st fresh transfer_query_tests \<Longrightarrow> passes st fresh commit_tests \<Longrightarrow>
   passes st fresh event_tests \<Longrightarrow> passes st fresh book_tests \<Longrightarrow> passes st fresh projection_tests \<Longrightarrow> conforms st fresh"
  by (simp add: conforms_def conformance_suite_def passes_def)

end
