(* ===== verification/Conformance_Mem.thy ===== *)
theory Conformance_Mem
  imports Conformance
begin

text \<open>
  The in-memory store passes the conformance suite, here with an iteration order of its hash
  maps that reverses every list.
\<close>

definition reversed_order :: hash_order where
  "reversed_order = \<lparr>ho_postings = rev, ho_assets = rev, ho_records = rev, ho_accounts = rev, ho_books = rev\<rparr>"

lemma mem_account_tests: "passes (mem_ops reversed_order suite_clock) mem_store_new account_tests"
  by code_simp

lemma mem_posting_read_tests: "passes (mem_ops reversed_order suite_clock) mem_store_new posting_read_tests"
  by code_simp

lemma mem_posting_state_tests: "passes (mem_ops reversed_order suite_clock) mem_store_new posting_state_tests"
  by code_simp

lemma mem_regression_tests: "passes (mem_ops reversed_order suite_clock) mem_store_new regression_tests"
  by code_simp

lemma mem_transfer_tests: "passes (mem_ops reversed_order suite_clock) mem_store_new transfer_tests"
  by code_simp

lemma mem_transfer_query_tests: "passes (mem_ops reversed_order suite_clock) mem_store_new transfer_query_tests"
  by code_simp

lemma mem_commit_tests: "passes (mem_ops reversed_order suite_clock) mem_store_new commit_tests"
  by code_simp

lemma mem_event_tests: "passes (mem_ops reversed_order suite_clock) mem_store_new event_tests"
  by code_simp

lemma mem_book_tests: "passes (mem_ops reversed_order suite_clock) mem_store_new book_tests"
  by code_simp

lemma mem_projection_tests: "passes (mem_ops reversed_order suite_clock) mem_store_new projection_tests"
  by code_simp

lemmas mem_groups = mem_account_tests mem_posting_read_tests mem_posting_state_tests mem_regression_tests mem_transfer_tests mem_transfer_query_tests mem_commit_tests mem_event_tests mem_book_tests mem_projection_tests

end
