(* ===== verification/Conformance_Sql.thy ===== *)
theory Conformance_Sql
  imports Conformance Sql_Posting_Laws
begin

text \<open>
  The SQL store as an instance of the storage interface, and that it passes the conformance
  suite. The JSON codec is one that knows the values the tests store.
\<close>

section \<open>The SQL store as a store\<close>

definition sql_reading :: "('s \<Rightarrow> store_error fault + 'a) \<Rightarrow> ('s, 'a) store_call" where
  "sql_reading f s = (f s, s)"

definition sql_ops :: "sql_env \<Rightarrow> int \<Rightarrow> sql_db store" where
  "sql_ops se clock = \<lparr>
     do_get_account = \<lambda>i. sql_reading (sql_get_account se i),
     do_get_accounts = \<lambda>is. sql_reading (sql_get_accounts se is),
     do_create_account = \<lambda>a. sql_create_account se a,
     do_append_account_version = \<lambda>a. sql_append_account_version se a,
     do_get_account_history = \<lambda>i. sql_reading (sql_get_account_history se i),
     do_list_accounts = sql_reading (sql_list_accounts se),
     do_get_postings = \<lambda>ids. sql_reading (sql_get_postings se ids),
     do_get_postings_by_account = \<lambda>i sub asset f. sql_reading (sql_get_postings_by_account se i sub asset f),
     do_get_posting_states = \<lambda>ids. sql_reading (\<lambda>db. Inr (sql_get_posting_states se ids db)),
     do_reserve_postings = \<lambda>ids r. always (sql_reserve_postings ids r),
     do_release_postings = \<lambda>ids r. always (sql_release_postings ids r),
     do_deactivate_postings = \<lambda>ids r. always (sql_deactivate_postings ids r),
     do_insert_postings = \<lambda>ps. always (sql_insert_postings ps),
     do_query_postings = \<lambda>q. sql_reading (sql_query_postings se q),
     do_get_transfer = \<lambda>i. sql_reading (sql_get_transfer se i),
     do_store_transfer = \<lambda>r ids. sql_store_transfer se r ids,
     do_get_transfers_for_account = \<lambda>i sub. sql_reading (sql_get_transfers_for_account se i sub),
     do_query_transfers = \<lambda>q. sql_reading (sql_query_transfers se q),
     do_commit_envelope = \<lambda>req. sql_commit_envelope se clock req,
     do_commit_transition = \<lambda>a ev. sql_commit_transition se clock a ev,
     do_append_event = \<lambda>ev. sql_append_event se clock ev,
     do_get_events_since = \<lambda>n lim. sql_reading (sql_get_events_since se n lim),
     do_create_book = \<lambda>b. sql_create_book se b,
     do_get_book = \<lambda>i. sql_reading (sql_get_book se i),
     do_list_books = sql_reading (sql_list_books se),
     do_append_balance_projection = \<lambda>acc asset v w. sql_append_balance_projection clock acc asset v w,
     do_get_closest_balance_projection = \<lambda>acc asset t. sql_reading (sql_get_closest_balance_projection acc asset t)\<rparr>"

text \<open>A query without a limit is not counted out to \<open>u32::MAX\<close> rows when it is computed.\<close>

lemma sql_query_transfers_code [code]:
  "sql_query_transfers se q db =
     (let source = (case tq_account q of
            Some a \<Rightarrow> join_accounts db (index_matches a (tq_sub q))
          | None \<Rightarrow> db_transfers db);
          rows = filter (\<lambda>t. (case tq_from_ts q of Some lo \<Rightarrow> lo \<le> tr_created_at t | None \<Rightarrow> True) \<and>
             (case tq_to_ts q of Some hi \<Rightarrow> tr_created_at t < hi | None \<Rightarrow> True) \<and>
             (case tq_book q of Some b \<Rightarrow> tr_book t = book_raw b | None \<Rightarrow> True)) source;
          (off, lim) = window (tq_offset q) (tq_limit q)
      in rbind (try_map (row_to_record (sq_json se)) (limited lim (drop (unat off) (sort_key tr_created_at (sq_transfers se rows))))) (\<lambda>items.
         Inr \<lparr>pg_items = items, pg_total = length rows\<rparr>))"
  by (simp only: sql_query_transfers_def limited_take)

section \<open>Computing hex\<close>

text \<open>The ids of the tests repeat bytes: a byte that occurs again is not converted again.\<close>

definition byte_hex :: "byte \<Rightarrow> rstr" where
  "byte_hex b = [hex_digit (unat (drop_bit 4 b)), hex_digit (unat (b AND 15))]"

fun hex_run :: "byte \<Rightarrow> rstr \<Rightarrow> byte list \<Rightarrow> rstr" where
  "hex_run b h [] = []"
| "hex_run b h (x # xs) = (if x = b then h @ hex_run b h xs else let h' = byte_hex x in h' @ hex_run x h' xs)"

lemma hex_run: "h = byte_hex b \<Longrightarrow> hex_run b h xs = to_hex xs"
  by (induction b h xs rule: hex_run.induct) (auto simp: to_hex_def byte_hex_def Let_def)

lemma to_hex_code [code]: "to_hex bytes = hex_run 0 (byte_hex 0) bytes"
  by (simp add: hex_run)

fun unhex_run :: "uchar \<Rightarrow> uchar \<Rightarrow> byte \<Rightarrow> rstr \<Rightarrow> byte list option" where
  "unhex_run c d b [] = Some []"
| "unhex_run c d b (x # y # s) = (if x = c \<and> y = d then map_option ((#) b) (unhex_run c d b s)
     else if utf8_len x = 1 \<and> utf8_len y = 1 then
       (case hex_pair x y of None \<Rightarrow> None | Some v \<Rightarrow> map_option ((#) v) (unhex_run x y v s))
     else None)"
| "unhex_run c d b [x] = None"

lemma unhex_run:
  assumes "unhex_run c d b s = Some bs" "hex_pair c d = Some b" "utf8_len c = 1" "utf8_len d = 1"
  shows "even (byte_len s)" "hex_slices s = Inr bs"
  using assms by (induction c d b s arbitrary: bs rule: unhex_run.induct) (auto simp: byte_len_def split: if_splits option.splits)

lemma from_hex_code [code]:
  "from_hex s = (case unhex_run 48 48 0 s of Some bs \<Rightarrow> Inr bs
    | None \<Rightarrow> if byte_len s mod 2 \<noteq> 0 then Inl (Fail (Internal (OddLengthHex s))) else hex_slices s)"
proof -
  have "hex_pair 48 48 = Some 0" "utf8_len 48 = 1" by (simp_all add: hex_pair_def hex_val_def utf8_len_def)
  then show ?thesis using unhex_run[of 48 48 0 s] by (auto simp: from_hex_def split: option.splits)
qed

text \<open>The index is compared before the hex of the transfer is computed.\<close>

lemma id_predicate_code [code]:
  "id_predicate ids r = list_ex (\<lambda>i. if pr_idx r = as_i16 (pid_index i) then pr_transfer_id r = envelope_id_to_hex (pid_transfer i) else False) ids"
  by (auto simp: id_predicate_def id_key_def intro!: arg_cong2[where f = list_ex])

section \<open>The suite\<close>

text \<open>The values that the tests serialize.\<close>

definition suite_envelopes :: "envelope list" where
  "suite_envelopes = [fst make_envelope, fst (make_envelope_with_book (BookId 1)), fst (make_envelope_with_book (BookId 2)),
     fst (make_envelope_with_book (BookId 5)), envelope_builder_consumes [PostingId (hash_of 1) 0] envelope_builder_new,
     envelope_builder_creates [\<lparr>np_owner = account_id_new 8, np_asset = asset_id_new 1, np_value = 100, np_payer = None\<rparr>]
       (envelope_builder_consumes [PostingId (hash_of 9) 0] envelope_builder_new)]"

definition suite_ids :: "envelope_id list" where
  "suite_ids = map hash_of [42, 7, 0xC1] @ map (\<lambda>k. snd (make_envelope_with_book (BookId k))) [1, 2, 5] @
     map (\<lambda>k. EnvelopeId (k # replicate 31 0)) [10, 11, 12]"

definition suite_events :: "ledger_event list" where
  "suite_events = map committed_event (map hash_of [42, 0xC1]) @ [suite_event 1000 (TransferCommitted (hash_of 8)),
     suite_event 1000 (EvAccountFrozen (account_id_new 7) 2), suite_event 2000 (EvAccountFrozen (account_id_new 7) 4),
     suite_event 2000 (TransferCommitted (hash_of 42)), suite_event 1000 (EvAccountFrozen (account_id_new 1) 2),
     suite_event 1000 (EvAccountClosed (account_id_new 1) 2)] @
     map (\<lambda>k. suite_event (k * 1000) (EvAccountCreated (account_id_new k))) [1, 2, 3, 4, 5]"

definition suite_json :: json where
  "suite_json = table_json [metadata_new] suite_envelopes (map (\<lambda>i. \<lparr>r_transfer_id = i\<rparr>) suite_ids) suite_events
     [make_book 1 (lit ''sales''), make_book 2 (lit ''inventory'')]"

definition reversed_env :: sql_env where
  "reversed_env = \<lparr>sq_json = suite_json, sq_dialect = Postgres, sq_postings = rev, sq_live = rev, sq_accounts = rev,
     sq_transfers = rev, sq_books = rev, sq_touched = rev\<rparr>"

lemma sql_account_tests: "passes (sql_ops reversed_env suite_clock) sql_store_new account_tests"
  by code_simp

lemma sql_posting_read_tests: "passes (sql_ops reversed_env suite_clock) sql_store_new posting_read_tests"
  by code_simp

lemma sql_posting_state_tests: "passes (sql_ops reversed_env suite_clock) sql_store_new posting_state_tests"
  by code_simp

lemma sql_regression_tests: "passes (sql_ops reversed_env suite_clock) sql_store_new regression_tests"
  by code_simp

lemma sql_transfer_tests: "passes (sql_ops reversed_env suite_clock) sql_store_new transfer_tests"
  by code_simp

lemma sql_query_by_date: "test_query_transfers_by_date_range (sql_ops reversed_env suite_clock) sql_store_new \<noteq> None"
  by code_simp

lemma sql_query_pages: "test_query_transfers_pagination (sql_ops reversed_env suite_clock) sql_store_new \<noteq> None"
  by code_simp

lemma sql_query_by_book: "test_query_transfers_by_book (sql_ops reversed_env suite_clock) sql_store_new \<noteq> None"
  by code_simp

lemma sql_query_store_wide: "test_query_transfers_store_wide (sql_ops reversed_env suite_clock) sql_store_new \<noteq> None"
  by code_simp

lemma sql_transfer_query_tests: "passes (sql_ops reversed_env suite_clock) sql_store_new transfer_query_tests"
  unfolding passes_def transfer_query_tests_def list.pred_inject(2)
  by (intro conjI sql_query_by_date sql_query_pages sql_query_by_book sql_query_store_wide list.pred_inject(1))

lemma sql_commit_tests: "passes (sql_ops reversed_env suite_clock) sql_store_new commit_tests"
  by code_simp

lemma sql_event_tests: "passes (sql_ops reversed_env suite_clock) sql_store_new event_tests"
  by code_simp

lemma sql_book_tests: "passes (sql_ops reversed_env suite_clock) sql_store_new book_tests"
  by code_simp

lemma sql_projection_tests: "passes (sql_ops reversed_env suite_clock) sql_store_new projection_tests"
  by code_simp

lemmas sql_groups = sql_account_tests sql_posting_read_tests sql_posting_state_tests sql_regression_tests sql_transfer_tests sql_transfer_query_tests sql_commit_tests sql_event_tests sql_book_tests sql_projection_tests

end
