(* ===== verification/Conformance_Stores.thy ===== *)
theory Conformance_Stores
  imports Conformance_Mem Conformance_Sql
begin

text \<open>
  Both stores conform to the storage interface, and a boundary that the suite does not reach:
  the first event of a store whose clock stands at or before the epoch of the generated ids.
\<close>

section \<open>Conformance\<close>

text \<open>
  Both stores pass the conformance suite: every one of the 60 tests that \<open>store_tests!\<close>
  generates, run on a fresh store, ends without a panic, for the in-memory store and for the SQL
  store, in the model whose hash maps and unordered queries reverse their lists.
\<close>

theorem stores_conform:
  "conforms (mem_ops reversed_order suite_clock) mem_store_new \<and> conforms (sql_ops reversed_env suite_clock) sql_store_new"
  by (intro conjI conforms_groups mem_groups sql_groups)

section \<open>The first event of an early clock\<close>

lemma early_id:
  assumes "clock \<le> 1767225600000"
  shows "fst (ai_next clock auto_id_new) = 0"
proof -
  have "uint (now_ms clock) = 0" using assms by (simp add: now_ms_value)
  then show ?thesis by (simp add: ai_next_value auto_id_new_def)
qed

text \<open>
  C37: an event that nobody can read. A clock that has not passed 2026-01-01 is clamped to zero and a
  fresh generator starts at zero, so the first event that an in-memory store with such a clock
  appends gets the sequence number 0. A reader asks for the events after a sequence number, starting
  at 0: the event is stored, and no cursor and page size ever return it, whatever is appended later.
\<close>

theorem first_event_unread:
  assumes "clock \<le> 1767225600000" "ms_autoid st = auto_id_new" "find_event (ev_kind ev) (ms_events st) = None"
  shows "\<exists>e. ms_events (snd (append_event clock ev st)) = ms_events st @ [e] \<and> ev_kind e = ev_kind ev \<and>
     (\<forall>after lim st'. e \<notin> set (get_events_since after lim st'))"
proof -
  have "e \<notin> set (get_events_since after lim st')" if "ev_seq e = 0" for e :: ledger_event and after lim st'
    using that by (auto simp: get_events_since_def dest: in_set_takeD)
  then show ?thesis using early_id[OF assms(1)] assms(2,3)
    by (auto simp: append_event_def Let_def split_beta)
qed

theorem first_event_unread_witness:
  "let ev = \<lparr>ev_seq = 0, ev_timestamp = 0, ev_kind = EvAccountCreated (AccountId 1 0)\<rparr>;
       st = snd (append_event 1700000000000 ev mem_store_new)
   in length (ms_events st) = 1 \<and> get_events_since 0 100 st = []"
proof -
  define ev where "ev = \<lparr>ev_seq = 0, ev_timestamp = 0, ev_kind = EvAccountCreated (AccountId 1 0)\<rparr>"
  define st where "st = snd (append_event 1700000000000 ev mem_store_new)"
  have m: "ms_autoid mem_store_new = auto_id_new" "ms_events mem_store_new = []" by (simp_all add: mem_store_new_def)
  have "find_event (ev_kind ev) (ms_events mem_store_new) = None" unfolding m by (simp add: find_event_def split: option.split)
  from first_event_unread[OF _ m(1) this, of 1700000000000] obtain e where e: "ms_events st = [e]" "e \<notin> set (get_events_since 0 100 st)"
    by (auto simp: st_def m(2))
  have "set (get_events_since 0 100 st) \<subseteq> {e}" using e(1) by (auto simp: get_events_since_def dest: in_set_takeD)
  then have "get_events_since 0 100 st = []" using e(2) by (cases "get_events_since 0 100 st") auto
  then show ?thesis unfolding Let_def ev_def[symmetric] st_def[symmetric] using e(1) by simp
qed

end
