(* ===== verification/Unit_Types.thy ===== *)
theory Unit_Types
  imports Account_Code Auto_Id Sql_Row
begin

text \<open>
  The unit tests of \<^verbatim>\<open>kuatia-money/src/lib.rs\<close> and \<^verbatim>\<open>kuatia-types/src/{account,account_code,autoid}.rs\<close>, as
  computations on the model: a test is true when its assertions hold. Among them are the
  vectors that pin the account code permutation, its check digits and the CRC-32.
\<close>

section \<open>Computing large numbers\<close>

text \<open>A number of base-36 digits, and decimal text, on integers instead of natural numbers.\<close>

lemma from_str_radix36_code [code]:
  "from_str_radix36 s = (let v = foldl (\<lambda>acc c. acc * 36 + int (digit36 c)) 0 s
     in if v < 0x100000000000000000000000000000000 then Some (word_of_int v) else None)"
proof -
  have fold: "foldl (\<lambda>acc c. acc * 36 + int (digit36 c)) (int a) s = int (foldl (\<lambda>acc c. acc * 36 + digit36 c) a s)" for a
    
  proof (induction s arbitrary: a)
    case (Cons c s)
    then show ?case using Cons[of "a * 36 + digit36 c"] by simp
  qed simp
  have lt: "int v < 0x100000000000000000000000000000000 \<longleftrightarrow> v < 2 ^ 128" for v
    using of_nat_less_iff[of v "2 ^ 128", where 'a = int] by simp
  show ?thesis using fold[of 0] by (simp add: from_str_radix36_def Let_def lt)
qed

lemma mod97_code [code]: "mod97 digits = nat (foldl (\<lambda>r b. (r * 10 + int (b - 48)) mod 97) 0 digits)"
proof -
  have "foldl (\<lambda>r b. (r * 10 + int (b - 48)) mod 97) (int a) digits = int (foldl (\<lambda>r b. (r * 10 + (b - 48)) mod 97) a digits)" for a
  proof (induction digits arbitrary: a)
    case (Cons b bs)
    then show ?case using Cons[of "(a * 10 + (b - 48)) mod 97"] by (simp add: zmod_int)
  qed simp
  from this[of 0] show ?thesis by (simp add: mod97_def)
qed

text \<open>ASCII is decided without the code points of the other white space.\<close>

lemma is_whitespace_code [code]:
  "is_whitespace c = (if c < 128 then c = 32 \<or> 9 \<le> c \<and> c \<le> 13 else c \<in> set [133, 160, 5760, 8232, 8233, 8239, 8287, 12288] \<or> 8192 \<le> c \<and> c \<le> 8202)"
  by (auto simp: is_whitespace_def)

text \<open>Loops without a function abstraction, whose body would be computed for an unknown argument.\<close>

definition crc_byte :: "u32 \<Rightarrow> u32" where
  "crc_byte c = crc_step (crc_step (crc_step (crc_step (crc_step (crc_step (crc_step (crc_step c)))))))"

fun crc_run :: "u32 \<Rightarrow> byte list \<Rightarrow> u32" where
  "crc_run crc [] = crc"
| "crc_run crc (b # bs) = crc_run (crc_byte (crc XOR ucast b)) bs"

lemma crc32_code [code]: "crc32 data = crc_run 0xFFFFFFFF data XOR 0xFFFFFFFF"
proof -
  have "foldl (\<lambda>crc b. (crc_step ^^ 8) (crc XOR ucast b)) c data = crc_run c data" for c
    by (induction data arbitrary: c) (simp_all add: crc_byte_def eval_nat_numeral)
  then show ?thesis by (simp add: crc32_foldl)
qed

fun rounds :: "u64 \<Rightarrow> nat list \<Rightarrow> u128 \<Rightarrow> u128 \<Rightarrow> u128 \<times> u128" where
  "rounds seed [] l r = (l, r)"
| "rounds seed (k # ks) l r = rounds seed ks r ((l XOR round_mask seed k r) AND FEISTEL_HALF_MASK)"

fun rounds_back :: "u64 \<Rightarrow> nat list \<Rightarrow> u128 \<Rightarrow> u128 \<Rightarrow> u128 \<times> u128" where
  "rounds_back seed [] l r = (l, r)"
| "rounds_back seed (k # ks) l r = rounds_back seed ks ((r XOR round_mask seed k l) AND FEISTEL_HALF_MASK) l"

lemma feistel94_code [code]:
  "feistel94 block seed = (let (l, r) = rounds seed [0, 1, 2, 3] (drop_bit FEISTEL_HALF_BITS block AND FEISTEL_HALF_MASK) (block AND FEISTEL_HALF_MASK)
     in push_bit FEISTEL_HALF_BITS l OR r)"
  "feistel94_inv block seed = (let (l, r) = rounds_back seed [3, 2, 1, 0] (drop_bit FEISTEL_HALF_BITS block AND FEISTEL_HALF_MASK) (block AND FEISTEL_HALF_MASK)
     in push_bit FEISTEL_HALF_BITS l OR r)"
proof -
  have fwd: "fold (\<lambda>round (l, r). let f = round_mask seed round r; nxt = (l XOR f) AND FEISTEL_HALF_MASK in (r, nxt)) ks (l, r) = rounds seed ks l r" for ks l r
    by (induction ks arbitrary: l r) (simp_all add: Let_def)
  have bwd: "fold (\<lambda>round (l, r). let f = round_mask seed round l; prev = (r XOR f) AND FEISTEL_HALF_MASK in (prev, l)) ks (l, r) = rounds_back seed ks l r" for ks l r
    by (induction ks arbitrary: l r) (simp_all add: Let_def)
  have up: "[0..<FEISTEL_ROUNDS] = [0, 1, 2, 3]" by (simp add: FEISTEL_ROUNDS_def upt_rec)
  then have down: "rev [0..<FEISTEL_ROUNDS] = [3, 2, 1, 0]" by simp
  show "feistel94 block seed = (let (l, r) = rounds seed [0, 1, 2, 3] (drop_bit FEISTEL_HALF_BITS block AND FEISTEL_HALF_MASK) (block AND FEISTEL_HALF_MASK)
     in push_bit FEISTEL_HALF_BITS l OR r)"
    unfolding feistel94_def fwd up by (simp only: Let_def)
  show "feistel94_inv block seed = (let (l, r) = rounds_back seed [3, 2, 1, 0] (drop_bit FEISTEL_HALF_BITS block AND FEISTEL_HALF_MASK) (block AND FEISTEL_HALF_MASK)
     in push_bit FEISTEL_HALF_BITS l OR r)"
    unfolding feistel94_inv_def bwd down by (simp only: Let_def)
qed

definition obfuscate_walk :: "u64 \<Rightarrow> u128 \<Rightarrow> u128 option" where
  "obfuscate_walk seed v = obfuscate v seed"

definition deobfuscate_walk :: "u64 \<Rightarrow> u128 \<Rightarrow> u128 option" where
  "deobfuscate_walk seed v = deobfuscate v seed"

lemma walk_code [code]:
  "obfuscate_walk seed v = (let v' = feistel94 v seed in if v' \<le> PACK_MASK then Some v' else obfuscate_walk seed v')"
  "deobfuscate_walk seed v = (let v' = feistel94_inv v seed in if v' \<le> PACK_MASK then Some v' else deobfuscate_walk seed v')"
  "obfuscate p seed = obfuscate_walk seed p" "deobfuscate y seed = deobfuscate_walk seed y"
  unfolding obfuscate_walk_def deobfuscate_walk_def obfuscate_def deobfuscate_def
  by (subst walk_loop.simps, simp)+ simp_all

section \<open>Money\<close>

definition ut_checked_math_overflows_to_error :: bool where
  "ut_checked_math_overflows_to_error =
     ((case cent_from_str (show_int i64_max) of Inr v \<Rightarrow> checked_add v 1 = Inl OverflowError | Inl _ \<Rightarrow> False) \<and>
      (case cent_from_str (show_int i64_min) of Inr v \<Rightarrow> checked_neg v = Inl OverflowError | Inl _ \<Rightarrow> False) \<and>
      checked_sub 2 5 = Inr (- 3))"

definition ut_string_round_trip :: bool where
  "ut_string_round_trip = list_all (\<lambda>c. cent_from_str (cent_to_string c) = Inr c) [- 1234, 0, 1, 500, 2147483647]"

definition ut_canonical_bytes_are_16_and_round_trip :: bool where
  "ut_canonical_bytes_are_16_and_round_trip =
     (let bytes = to_canonical_bytes 500 in length bytes = 16 \<and> from_canonical_bytes bytes = Inr 500)"

definition ut_canonical_bytes_are_width_independent :: bool where
  "ut_canonical_bytes_are_width_independent = (to_canonical_bytes 500 = i128_to_be_bytes 500)"

definition ut_from_canonical_bytes_rejects_out_of_range :: bool where
  "ut_from_canonical_bytes_rejects_out_of_range = (from_canonical_bytes (i128_to_be_bytes (i64_max + 1)) = Inl OverflowError)"

definition ut_amount_parse_format_round_trip :: bool where
  "ut_amount_parse_format_round_trip =
     (let amt = \<lparr>decimals = 2\<rparr>
      in amount_parse amt (lit ''12.34'') = Inr 1234 \<and> amount_parse amt (lit ''-0.05'') = Inr (- 5) \<and>
         amount_format amt 1234 = lit ''12.34'' \<and> amount_format amt (- 5) = lit ''-0.05'' \<and> amount_format \<lparr>decimals = 0\<rparr> 700 = lit ''700'')"

section \<open>Accounts\<close>

definition ut_account_flags_bit_positions :: bool where
  "ut_account_flags_bit_positions = (FROZEN = push_bit 0 1 \<and> INFLIGHT = push_bit 2 1 \<and> RESERVED 7 = push_bit 7 1 \<and>
     USER 0 = push_bit 8 1 \<and> USER 8 = push_bit 16 1 \<and> USER 23 = push_bit 31 1)"

definition ut_account_flags_high_bit_survives_signed_storage_roundtrip :: bool where
  "ut_account_flags_high_bit_survives_signed_storage_roundtrip =
     (let flags = USER 23 OR FROZEN; stored = as_i32 flags in stored < 0 \<and> (word_of_int stored :: u32) = flags)"

definition ut_debit_must_not_exceed_credit_sets_the_flag :: bool where
  "ut_debit_must_not_exceed_credit_sets_the_flag =
     (let acc = debit_must_not_exceed_credit (account_id_new 100); new = account_new (account_id_new 100)
      in forbids_overdraft acc \<and> acc_flags acc AND DEBIT_MUST_NOT_EXCEED_CREDIT = DEBIT_MUST_NOT_EXCEED_CREDIT \<and>
         acc = new\<lparr>acc_flags := acc_flags new OR DEBIT_MUST_NOT_EXCEED_CREDIT\<rparr>)"

definition ut_new_account_allows_overdraft_by_default :: bool where
  "ut_new_account_allows_overdraft_by_default =
     (let acc = account_new (account_id_new 101)
      in \<not> forbids_overdraft acc \<and> acc_version acc = 1 \<and> acc_flags acc = flags_empty \<and> acc_book acc = DEFAULT_BOOK \<and> acc_metadata acc = [])"

definition ut_debit_must_not_exceed_credit_bit_is_bit_3 :: bool where
  "ut_debit_must_not_exceed_credit_bit_is_bit_3 = (DEBIT_MUST_NOT_EXCEED_CREDIT = push_bit 3 1)"

section \<open>Account codes\<close>

text \<open>\<open>to_string\<close> and \<open>from_str(..).unwrap()\<close> under the default seed.\<close>

definition ut_string :: "account_id \<Rightarrow> rstr" where
  "ut_string i = (case account_id_to_string DEFAULT_ID_SEED i of Some s \<Rightarrow> s | None \<Rightarrow> [])"

definition ut_reads :: "rstr \<Rightarrow> account_id \<Rightarrow> bool" where
  "ut_reads s i = (account_id_from_str DEFAULT_ID_SEED s = Some (Inr i))"

definition ut_rejects :: "rstr \<Rightarrow> bool" where
  "ut_rejects s = (account_id_from_str DEFAULT_ID_SEED s = Some (Inl (Fail ParseAccountIdError)))"

definition ut_code_structure :: bool where
  "ut_code_structure = (let s = ut_string (with_sub 5 7)
     in length s = 20 \<and> length s = BODY_LEN + 2 \<and> list_all is_ascii_digit (drop BODY_LEN s) \<and> take BODY_LEN s \<noteq> lit ''000000000000000527'')"

definition ut_code_round_trips :: bool where
  "ut_code_round_trips = list_all (\<lambda>acc. let s = ut_string acc in length s = 20 \<and> ut_reads s acc)
     [account_id_new 0, account_id_new 100, with_sub 5 7, with_sub 987654321 12345, account_id_new 0x7FFFFFFFFFFFFFFF,
      with_sub 0x7FFFFFFFFFFFFFFF 0x3FFFFFFF, with_sub 0 0x3FFFFFFF]"

definition ut_out_of_range_legs_truncate_to_the_encodable_domain :: bool where
  "ut_out_of_range_legs_truncate_to_the_encodable_domain = ut_reads (ut_string (with_sub 7 0x40000000)) (account_id_new 7)"

definition ut_parses_a_fixed_vector :: bool where
  "ut_parses_a_fixed_vector =
     (ut_reads (lit ''KUJLQEL8IX2XGTBK4425'') (with_sub 987654321 12345) \<and>
      ut_reads (lit ''kujl qel8 ix2x gtbk 4425'') (with_sub 987654321 12345) \<and>
      ut_string (with_sub 987654321 12345) = lit ''KUJLQEL8IX2XGTBK4425'')"

definition ut_obfuscation_permutation_is_invertible_across_seeds :: bool where
  "ut_obfuscation_permutation_is_invertible_across_seeds =
     list_all (\<lambda>seed. list_all (\<lambda>p. case obfuscate p seed of Some y \<Rightarrow> y \<le> PACK_MASK \<and> deobfuscate y seed = Some p | None \<Rightarrow> False)
       [0, 1, push_bit SUB_BITS 5 OR 7, PACK_MASK, PACK_MASK - 1]) [0, 1, DEFAULT_ID_SEED, - 1]"

definition ut_grouped_format_is_five_groups_of_four_and_re_parses :: bool where
  "ut_grouped_format_is_five_groups_of_four_and_re_parses =
     (let grouped = group_chars 0 (ut_string (with_sub 5 7))
      in length grouped = 24 \<and> map ((!) grouped) [4, 9, 14, 19] = [32, 32, 32, 32] \<and> length (filter (\<lambda>c. c = 32) grouped) = 4 \<and>
         ut_reads grouped (with_sub 5 7) \<and> ut_reads (map (\<lambda>c. if is_ascii_uppercase c then c + 32 else c) grouped) (with_sub 5 7))"

definition ut_parses_with_spaces_or_dashes_for_url_safety :: bool where
  "ut_parses_with_spaces_or_dashes_for_url_safety =
     (let acc = with_sub 987654321 12345; machine = ut_string acc; spaced = group_chars 0 machine;
          dashed = map (\<lambda>c. if c = 32 then 45 else c) spaced;
          mixed = take 4 machine @ [45] @ take 8 (drop 4 machine) @ [32] @ drop 12 machine
      in list_all (\<lambda>s. ut_reads s acc) [machine, spaced, dashed, mixed])"

definition ut_from_str_rejects_bad_checksum_and_junk :: bool where
  "ut_from_str_rejects_bad_checksum_and_junk =
     (let good = ut_string (with_sub 5 7); last = length good - 1
      in ut_reads good (with_sub 5 7) \<and>
         list_all ut_rejects [good[last := (if good ! last = 56 then 57 else 56)], [], lit ''not-a-code'', take 19 good, good @ [48],
           good[BODY_LEN := 65], good[5 := 42]])"

section \<open>Generated ids\<close>

definition ut_different_data_different_tails :: "int \<Rightarrow> int \<Rightarrow> bool" where
  "ut_different_data_different_tails c c' =
     (ai_tail (next_with_data c [97, 108, 105, 99, 101]) \<noteq> ai_tail (next_with_data c' [98, 111, 98]))"

definition ut_counter_increments :: "int \<Rightarrow> int \<Rightarrow> bool" where
  "ut_counter_increments c c' = (let (a, g) = ai_next c auto_id_new; (b, g') = ai_next c' g in ai_tail b = ai_tail a + 1)"

definition ut_counter_wraps :: "int \<Rightarrow> int \<Rightarrow> bool" where
  "ut_counter_wraps c c' = (let (a, g) = ai_next c \<lparr>ai_counter = TAIL_MASK\<rparr>; (b, g') = ai_next c' g in ai_tail a = TAIL_MASK \<and> ai_tail b = 0)"

definition ut_crc32_known_vector :: bool where
  "ut_crc32_known_vector = (crc32 [49, 50, 51, 52, 53, 54, 55, 56, 57] = 0xCBF43926)"

section \<open>Evaluation\<close>

lemma printed_parses: "i64_ok v \<Longrightarrow> cent_from_str (cent_to_string v) = Inr v"
  by (simp add: cent_from_str_def cent_to_string_def i64_parse_str_def parse_signed_show_int checked_i64_def)

lemma money_unit_tests_pass: "ut_string_round_trip" "ut_checked_math_overflows_to_error"
proof -
  show "ut_string_round_trip" by (simp add: ut_string_round_trip_def printed_parses i64_ok_def i64_min_def i64_max_def)
  have "i64_ok i64_max" "i64_ok i64_min" by (simp_all add: i64_ok_def i64_min_def i64_max_def)
  from this[THEN printed_parses] show "ut_checked_math_overflows_to_error"
    by (simp add: ut_checked_math_overflows_to_error_def cent_to_string_def checked_add_def checked_neg_def checked_sub_def checked_i64_def
        i64_ok_def i64_min_def i64_max_def)
qed

lemma canonical_unit_tests_pass:
  "ut_canonical_bytes_are_16_and_round_trip" "ut_canonical_bytes_are_width_independent" "ut_from_canonical_bytes_rejects_out_of_range"
proof -
  have bytes: "from_canonical_bytes (i128_to_be_bytes v) = ok_or OverflowError (checked_i64 v)" if "i128_ok v" for v
    
  proof -
    have "i128_from_be_bytes (i128_to_be_bytes v) = v"
      using that twos_less[of 128 v] untwos_twos[of 128 v]
      by (simp add: i128_from_be_bytes_def i128_to_be_bytes_def be_val_be_bytes i128_ok_def i128_min_def i128_max_def)
    then show ?thesis by (simp add: from_canonical_bytes_def i64_try_from_i128_def)
  qed
  show "ut_canonical_bytes_are_width_independent"
    by (simp add: ut_canonical_bytes_are_width_independent_def to_canonical_bytes_def i64_to_i128_def)
  show "ut_canonical_bytes_are_16_and_round_trip" "ut_from_canonical_bytes_rejects_out_of_range"
    by (simp_all add: ut_canonical_bytes_are_16_and_round_trip_def ut_from_canonical_bytes_rejects_out_of_range_def to_canonical_bytes_def
        i64_to_i128_def bytes Let_def i128_ok_def i128_min_def i128_max_def i64_max_def checked_i64_def i64_ok_def i64_min_def)
      (simp add: i128_to_be_bytes_def)
qed

lemma amount_unit_tests_pass: "ut_amount_parse_format_round_trip"
  by code_simp

lemma account_unit_tests_pass:
  "ut_account_flags_bit_positions" "ut_account_flags_high_bit_survives_signed_storage_roundtrip" "ut_debit_must_not_exceed_credit_sets_the_flag"
  "ut_new_account_allows_overdraft_by_default" "ut_debit_must_not_exceed_credit_bit_is_bit_3"
  by code_simp+

text \<open>The permutation is computed once for each of two accounts; the way back is its inverse.\<close>

lemma vector_obfuscated: "obfuscate (ac_pack 987654321 12345) DEFAULT_ID_SEED = Some 0x134D05C3F04B9C0661A04794"
  by code_simp

lemma small_obfuscated: "obfuscate (ac_pack 5 7) DEFAULT_ID_SEED = Some 0xE68678D22F30E6C704C0192"
  by code_simp

lemma vector_text:
  "base36_body 0x134D05C3F04B9C0661A04794 @ pad_left 2 (show_nat (check_digits (base36_body 0x134D05C3F04B9C0661A04794))) = lit ''KUJLQEL8IX2XGTBK4425''"
  "base36_body 0xE68678D22F30E6C704C0192 @ pad_left 2 (show_nat (check_digits (base36_body 0xE68678D22F30E6C704C0192))) = lit ''FK9RA6QALU15JZ7DZM81''"
  by code_simp+

lemma code_of_obfuscated:
  assumes "obfuscate (ac_pack i sb) DEFAULT_ID_SEED = Some v" "0 \<le> i" "i < 2 ^ 63" "0 \<le> sb" "sb < 2 ^ 30"
    "base36_body v @ pad_left 2 (show_nat (check_digits (base36_body v))) = code"
  shows "ut_string (with_sub i sb) = code" "clean_code s = code \<Longrightarrow> ut_reads s (with_sub i sb)"
proof -
  have inverse: "v \<le> PACK_MASK" "deobfuscate v DEFAULT_ID_SEED = Some (ac_pack i sb)"
    using feistel.walk_roundtrip[OF ac_pack_value(1)[of i sb], of DEFAULT_ID_SEED] assms(1) by (auto simp: obfuscate_def deobfuscate_def)
  show "ut_string (with_sub i sb) = code"
    using assms(6) by (simp add: ut_string_def account_id_to_string_def with_sub_def assms(1) Let_def)
  show "clean_code s = code \<Longrightarrow> ut_reads s (with_sub i sb)"
    using parse_code[OF inverse ac_pack_value(2), of s] assms(2-6) by (simp add: ut_reads_def with_sub_def)
qed

lemmas vector_code = code_of_obfuscated[OF vector_obfuscated, simplified, OF vector_text(1)]
lemmas small_code = code_of_obfuscated[OF small_obfuscated, simplified, OF vector_text(2)]

lemma clean_vectors:
  "clean_code (lit ''KUJLQEL8IX2XGTBK4425'') = lit ''KUJLQEL8IX2XGTBK4425''"
  "clean_code (lit ''kujl qel8 ix2x gtbk 4425'') = lit ''KUJLQEL8IX2XGTBK4425''"
  by code_simp+

lemma code_vector_unit_test_passes: "ut_parses_a_fixed_vector"
  using vector_code clean_vectors by (simp add: ut_parses_a_fixed_vector_def)

lemma separators_unit_test_passes: "ut_parses_with_spaces_or_dashes_for_url_safety"
proof -
  let ?m = "lit ''KUJLQEL8IX2XGTBK4425''"
  have "list_all (\<lambda>s. clean_code s = ?m) [?m, group_chars 0 ?m, map (\<lambda>c. if c = 32 then 45 else c) (group_chars 0 ?m),
      take 4 ?m @ [45] @ take 8 (drop 4 ?m) @ [32] @ drop 12 ?m]"
    by code_simp
  then show ?thesis
    unfolding ut_parses_with_spaces_or_dashes_for_url_safety_def Let_def vector_code(1)
    by (rule list.pred_mono_strong) (rule vector_code(2))
qed

lemma structure_unit_test_passes: "ut_code_structure"
  unfolding ut_code_structure_def Let_def small_code(1) by code_simp

lemma grouped_unit_test_passes: "ut_grouped_format_is_five_groups_of_four_and_re_parses"
proof -
  let ?g = "group_chars 0 (lit ''FK9RA6QALU15JZ7DZM81'')"
  have "clean_code ?g = lit ''FK9RA6QALU15JZ7DZM81''"
    "clean_code (map (\<lambda>c. if is_ascii_uppercase c then c + 32 else c) ?g) = lit ''FK9RA6QALU15JZ7DZM81''"
    "length ?g = 24 \<and> map ((!) ?g) [4, 9, 14, 19] = [32, 32, 32, 32] \<and> length (filter (\<lambda>c. c = 32) ?g) = 4"
    by code_simp+
  then show ?thesis
    unfolding ut_grouped_format_is_five_groups_of_four_and_re_parses_def Let_def small_code(1) using small_code(2) by blast
qed

lemma rejects_unit_test_passes: "ut_from_str_rejects_bad_checksum_and_junk"
proof -
  let ?g = "lit ''FK9RA6QALU15JZ7DZM81''"
  have "clean_code ?g = ?g" by code_simp
  moreover have "list_all ut_rejects [?g[length ?g - 1 := (if ?g ! (length ?g - 1) = 56 then 57 else 56)], [], lit ''not-a-code'', take 19 ?g, ?g @ [48],
      ?g[BODY_LEN := 65], ?g[5 := 42]]"
    by code_simp
  ultimately show ?thesis
    unfolding ut_from_str_rejects_bad_checksum_and_junk_def Let_def small_code(1) using small_code(2) by blast
qed

lemma round_trip_unit_tests_pass: "ut_code_round_trips" "ut_out_of_range_legs_truncate_to_the_encodable_domain"
proof -
  have rt: "length (ut_string a) = 20 \<and> ut_reads (ut_string a) a" if "0 \<le> aid_id a" "aid_id a < 2 ^ 63" "0 \<le> aid_sub a" "aid_sub a < 2 ^ 30" for a
    using code_roundtrip[OF that, of DEFAULT_ID_SEED] by (auto simp: ut_string_def ut_reads_def)
  show "ut_code_round_trips" by (simp add: ut_code_round_trips_def Let_def rt account_id_new_def with_sub_def)
  have "ac_pack 7 0x40000000 = ac_pack 7 0" by code_simp
  then have "ut_string (with_sub 7 0x40000000) = ut_string (account_id_new 7)"
    by (simp add: ut_string_def account_id_to_string_def with_sub_def account_id_new_def)
  then show "ut_out_of_range_legs_truncate_to_the_encodable_domain"
    using rt[of "account_id_new 7"] by (simp add: ut_out_of_range_legs_truncate_to_the_encodable_domain_def account_id_new_def)
qed

lemma permutation_unit_test_passes: "ut_obfuscation_permutation_is_invertible_across_seeds"
proof -
  have inv: "case obfuscate p seed of Some y \<Rightarrow> y \<le> PACK_MASK \<and> deobfuscate y seed = Some p | None \<Rightarrow> False" if "p \<le> PACK_MASK" for p seed
    using feistel.walk_roundtrip[OF that, of seed] by (auto simp: obfuscate_def deobfuscate_def)
  have "list_all (\<lambda>p. p \<le> PACK_MASK) [0, 1, push_bit SUB_BITS 5 OR 7, PACK_MASK, PACK_MASK - 1]" by code_simp
  then show ?thesis unfolding ut_obfuscation_permutation_is_invertible_across_seeds_def by (simp add: inv)
qed

lemma auto_id_unit_tests_pass: "ut_counter_increments c c'" "ut_counter_wraps c c'" "ut_different_data_different_tails c c'" "ut_crc32_known_vector"
proof -
  have tail: "ai_tail (fst (ai_next c g)) = ai_counter g AND TAIL_MASK" for c g
    by (simp add: ai_next_def Let_def ai_pack_tail[OF masked_tail])
  show "ut_counter_increments c c'" "ut_counter_wraps c c'"
    by (simp_all add: ut_counter_increments_def ut_counter_wraps_def split_beta tail Let_def)
      (simp_all add: ai_next_def Let_def auto_id_new_def TAIL_MASK_def TAIL_BITS_def)
  have "crc32 [97, 108, 105, 99, 101] AND TAIL_MASK \<noteq> crc32 [98, 111, 98] AND TAIL_MASK" by code_simp
  then show "ut_different_data_different_tails c c'"
    by (simp add: ut_different_data_different_tails_def next_with_data_def ai_pack_tail[OF masked_tail])
  show "ut_crc32_known_vector" by code_simp
qed

end
