(* ===== verification/Unit_Core.thy ===== *)
theory Unit_Core
  imports Validate Posting_Resolution
begin

text \<open>
  The unit tests of \<^verbatim>\<open>kuatia-core/src/{validate,posting_resolution,hash}.rs\<close>, as computations on the model: a test is
  true when its assertions hold. Each is a definition of the input and of what the source
  asserts; the lemmas at the end evaluate them, those of validation with two iteration orders of its hash maps.
\<close>

section \<open>Validation\<close>

definition ut_account :: "i64 \<Rightarrow> account_flags \<Rightarrow> account" where
  "ut_account i flags = \<lparr>acc_id = account_id_new i, acc_version = 1, acc_flags = flags, acc_book = BookId 0, acc_metadata = metadata_new\<rparr>"

definition ut_subaccount :: "i64 \<Rightarrow> i64 \<Rightarrow> account_flags \<Rightarrow> account" where
  "ut_subaccount i sub flags = \<lparr>acc_id = with_sub i sub, acc_version = 1, acc_flags = flags, acc_book = BookId 0, acc_metadata = metadata_new\<rparr>"

definition ut_accounts_map :: "account list \<Rightarrow> (account_id \<times> account) list" where
  "ut_accounts_map accs = fold (\<lambda>a m. AList.update (acc_id a) a m) accs []"

text \<open>The literals of the tests: asset 1 unless said otherwise, book 0, no metadata.\<close>

definition ut_creates :: "account_id \<Rightarrow> u32 \<Rightarrow> cent \<Rightarrow> account_id option \<Rightarrow> new_posting" where
  "ut_creates owner asset v payer = \<lparr>np_owner = owner, np_asset = asset_id_new asset, np_value = v, np_payer = payer\<rparr>"

definition ut_envelope :: "posting_id list \<Rightarrow> new_posting list \<Rightarrow> envelope" where
  "ut_envelope consumes creates = \<lparr>e_consumes = consumes, e_creates = creates, e_account_snapshots = [], e_book = BookId 0, e_metadata = metadata_new\<rparr>"

definition ut_pid :: "byte \<Rightarrow> posting_id" where
  "ut_pid b = PostingId (EnvelopeId (replicate 32 b)) 0"

definition ut_posting :: "byte \<Rightarrow> i64 \<Rightarrow> u32 \<Rightarrow> cent \<Rightarrow> posting" where
  "ut_posting b owner asset v = posting_new (ut_pid b) (account_id_new owner) (asset_id_new asset) v"

definition ut_input :: "envelope \<Rightarrow> posting list \<Rightarrow> account list \<Rightarrow> ((account_id \<times> asset_id) \<times> cent) list \<Rightarrow> plan_input" where
  "ut_input e consumed accs balances = \<lparr>pi_envelope = e, pi_consumed_postings = consumed, pi_accounts = ut_accounts_map accs,
     pi_balances = balances, pi_book = None\<rparr>"

definition ut_balance :: "i64 \<Rightarrow> cent \<Rightarrow> ((account_id \<times> asset_id) \<times> cent) list" where
  "ut_balance i v = [((account_id_new i, asset_id_new 1), v)]"

definition ut_plan_is :: "validation_error fault + plan \<Rightarrow> (plan \<Rightarrow> bool) \<Rightarrow> bool" where
  "ut_plan_is r p = (case r of Inr plan \<Rightarrow> p plan | Inl _ \<Rightarrow> False)"

definition ut_deposit_envelope :: envelope where
  "ut_deposit_envelope = ut_envelope [] [ut_creates (account_id_new 1) 1 100 None, ut_creates (account_id_new 99) 1 (- 100) None]"

definition ut_valid_deposit :: "externs \<Rightarrow> bool" where
  "ut_valid_deposit x = ut_plan_is (validate_and_plan x (ut_input ut_deposit_envelope []
       [ut_account 1 DEBIT_MUST_NOT_EXCEED_CREDIT, ut_account 99 flags_empty] []))
     (\<lambda>plan. length (plan_postings_to_create plan) = 2 \<and> plan_postings_to_deactivate plan = [])"

definition ut_empty_transfer_rejected :: "externs \<Rightarrow> bool" where
  "ut_empty_transfer_rejected x = (validate_and_plan x (ut_input (ut_envelope [] []) [] [] []) = Inl (Fail EmptyTransfer))"

definition ut_conservation_violation :: "externs \<Rightarrow> bool" where
  "ut_conservation_violation x = (case validate_and_plan x (ut_input (ut_envelope [] [ut_creates (account_id_new 1) 1 100 None]) []
       [ut_account 1 DEBIT_MUST_NOT_EXCEED_CREDIT] []) of
     Inl (Fail (ConservationViolation _ _ _)) \<Rightarrow> True | _ \<Rightarrow> False)"

definition ut_posting_not_found :: "externs \<Rightarrow> bool" where
  "ut_posting_not_found x = (validate_and_plan x (ut_input (ut_envelope [ut_pid 0] []) [] [] []) = Inl (Fail (PostingNotFound (ut_pid 0))))"

definition ut_account_frozen_rejected :: "externs \<Rightarrow> bool" where
  "ut_account_frozen_rejected x =
     (let acc = (ut_account 1 DEBIT_MUST_NOT_EXCEED_CREDIT)\<lparr>acc_flags := FROZEN\<rparr>
      in validate_and_plan x (ut_input ut_deposit_envelope [] [acc, ut_account 99 flags_empty] []) = Inl (Fail (AccountFrozen (account_id_new 1))))"

definition ut_account_closed_rejected :: "externs \<Rightarrow> bool" where
  "ut_account_closed_rejected x =
     (let acc = (ut_account 1 DEBIT_MUST_NOT_EXCEED_CREDIT)\<lparr>acc_flags := CLOSED\<rparr>
      in validate_and_plan x (ut_input ut_deposit_envelope [] [acc, ut_account 99 flags_empty] []) = Inl (Fail (AccountClosed (account_id_new 1))))"

text \<open>Account 1 spends a posting on account 2.\<close>

definition ut_spend :: "cent \<Rightarrow> account_flags \<Rightarrow> cent \<Rightarrow> plan_input" where
  "ut_spend v flags balance = ut_input (ut_envelope [ut_pid 1] [ut_creates (account_id_new 2) 1 v None]) [ut_posting 1 1 1 v]
     [ut_account 1 flags, ut_account 2 DEBIT_MUST_NOT_EXCEED_CREDIT] (ut_balance 1 balance)"

definition ut_no_overdraft_exceeded :: "externs \<Rightarrow> bool" where
  "ut_no_overdraft_exceeded x = (case validate_and_plan x (ut_spend 50 DEBIT_MUST_NOT_EXCEED_CREDIT 30) of
     Inl (Fail (OverdraftExceeded acc _ _)) \<Rightarrow> acc = account_id_new 1 | _ \<Rightarrow> False)"

definition ut_overdraft_may_spend_past_positive_balance :: "externs \<Rightarrow> bool" where
  "ut_overdraft_may_spend_past_positive_balance x =
     ut_plan_is (validate_and_plan x (ut_spend 100 flags_empty 80)) (\<lambda>plan. plan_postings_to_create plan \<noteq> [])"

definition ut_debit_must_not_exceed_credit_rejects_negative_projection :: "externs \<Rightarrow> bool" where
  "ut_debit_must_not_exceed_credit_rejects_negative_projection x =
     (case validate_and_plan x (ut_spend 100 DEBIT_MUST_NOT_EXCEED_CREDIT 30) of
        Inl (Fail (OverdraftExceeded _ _ projected)) \<Rightarrow> projected = - 70 | _ \<Rightarrow> False)"

definition ut_overdraft_allows_negative_balance :: "externs \<Rightarrow> bool" where
  "ut_overdraft_allows_negative_balance x =
     ut_plan_is (validate_and_plan x (ut_spend 100 flags_empty 10)) (\<lambda>plan. plan_postings_to_create plan \<noteq> [])"

definition ut_duplicate_consumed_posting_rejected :: "externs \<Rightarrow> bool" where
  "ut_duplicate_consumed_posting_rejected x =
     (validate_and_plan x (ut_input (ut_envelope [ut_pid 1, ut_pid 1] []) [] [] []) = Inl (Fail (DuplicateConsumedPosting (ut_pid 1))))"

text \<open>Account 1 spends 100: 60 for account 2, 40 change.\<close>

definition ut_change_envelope :: envelope where
  "ut_change_envelope = ut_envelope [ut_pid 1] [ut_creates (account_id_new 2) 1 60 (Some (account_id_new 1)), ut_creates (account_id_new 1) 1 40 None]"

definition ut_internal_transfer_with_change :: "externs \<Rightarrow> bool" where
  "ut_internal_transfer_with_change x = ut_plan_is (validate_and_plan x (ut_input ut_change_envelope [ut_posting 1 1 1 100]
       [ut_account 1 DEBIT_MUST_NOT_EXCEED_CREDIT, ut_account 2 DEBIT_MUST_NOT_EXCEED_CREDIT] (ut_balance 1 100)))
     (\<lambda>plan. length (plan_postings_to_deactivate plan) = 1 \<and> length (plan_postings_to_create plan) = 2)"

text \<open>A subaccount issues 100 to account 2.\<close>

definition ut_sub_input :: "account_flags \<Rightarrow> ((account_id \<times> asset_id) \<times> cent) list \<Rightarrow> plan_input" where
  "ut_sub_input flags balances = ut_input (ut_envelope [] [ut_creates (account_id_new 2) 1 100 (Some (with_sub 1 7)), ut_creates (with_sub 1 7) 1 (- 100) None])
     [] [ut_account 1 DEBIT_MUST_NOT_EXCEED_CREDIT, ut_subaccount 1 7 flags, ut_account 2 DEBIT_MUST_NOT_EXCEED_CREDIT] balances"

definition ut_subaccount_carries_own_overdraft_flag :: "externs \<Rightarrow> bool" where
  "ut_subaccount_carries_own_overdraft_flag x =
     ut_plan_is (validate_and_plan x (ut_sub_input flags_empty [])) (\<lambda>plan. length (plan_postings_to_create plan) = 2)"

definition ut_subaccount_floor_is_segregated_from_base :: "externs \<Rightarrow> bool" where
  "ut_subaccount_floor_is_segregated_from_base x =
     (validate_and_plan x (ut_sub_input DEBIT_MUST_NOT_EXCEED_CREDIT (ut_balance 1 100))
        = Inl (Fail (NegativePostingOnNonSystemAccount (with_sub 1 7) (asset_id_new 1) (- 100))))"

definition ut_account_not_found :: "externs \<Rightarrow> bool" where
  "ut_account_not_found x = (validate_and_plan x (ut_input (ut_envelope [] [ut_creates (account_id_new 999) 1 100 None, ut_creates (account_id_new 99) 1 (- 100) None])
     [] [ut_account 99 flags_empty] []) = Inl (Fail (AccountNotFound (account_id_new 999))))"

definition ut_negative_posting_rejected_on_regular_account :: "externs \<Rightarrow> bool" where
  "ut_negative_posting_rejected_on_regular_account x =
     (validate_and_plan x (ut_input (ut_envelope [] [ut_creates (account_id_new 1) 1 (- 100) None, ut_creates (account_id_new 1) 1 100 None])
        [] [ut_account 1 DEBIT_MUST_NOT_EXCEED_CREDIT] [])
      = Inl (Fail (NegativePostingOnNonSystemAccount (account_id_new 1) (asset_id_new 1) (- 100))))"

definition ut_negative_posting_allowed_on_system_account :: "externs \<Rightarrow> bool" where
  "ut_negative_posting_allowed_on_system_account x = ut_plan_is (validate_and_plan x (ut_input ut_deposit_envelope []
       [ut_account 1 DEBIT_MUST_NOT_EXCEED_CREDIT, ut_account 99 flags_empty] []))
     (\<lambda>plan. length (plan_postings_to_create plan) = 2)"

section \<open>Required state\<close>

definition ut_required_state_deposit_nets_to_system_account :: bool where
  "ut_required_state_deposit_nets_to_system_account =
     (let required = required_state ut_deposit_envelope []
      in rs_consumed_postings required = [] \<and> rs_accounts required = [account_id_new 1, account_id_new 99] \<and>
         rs_balances required = [(account_id_new 1, asset_id_new 1), (account_id_new 99, asset_id_new 1)])"

definition ut_required_state_internal_transfer_with_change :: bool where
  "ut_required_state_internal_transfer_with_change =
     (let required = required_state ut_change_envelope [ut_posting 1 1 1 100]
      in rs_consumed_postings required = [ut_pid 1] \<and> rs_accounts required = [account_id_new 1, account_id_new 2] \<and>
         rs_balances required = [(account_id_new 1, asset_id_new 1), (account_id_new 2, asset_id_new 1)])"

definition ut_required_state_multi_asset :: bool where
  "ut_required_state_multi_asset =
     (let envelope = ut_envelope [ut_pid 1, ut_pid 2]
            [ut_creates (account_id_new 2) 1 100 (Some (account_id_new 1)), ut_creates (account_id_new 3) 2 50 (Some (account_id_new 1))];
          required = required_state envelope [ut_posting 1 1 1 100, ut_posting 2 1 2 50]
      in rs_consumed_postings required = [ut_pid 1, ut_pid 2] \<and>
         rs_accounts required = [account_id_new 1, account_id_new 2, account_id_new 3] \<and>
         rs_balances required = [(account_id_new 1, asset_id_new 1), (account_id_new 1, asset_id_new 2),
           (account_id_new 2, asset_id_new 1), (account_id_new 3, asset_id_new 2)])"

definition ut_required_state_includes_snapshot_only_accounts :: bool where
  "ut_required_state_includes_snapshot_only_accounts =
     (let envelope = ut_deposit_envelope\<lparr>e_account_snapshots := [\<lparr>snap_account = account_id_new 7, snap_snapshot_id = replicate 32 0\<rparr>]\<rparr>
      in rs_accounts (required_state envelope []) = [account_id_new 1, account_id_new 7, account_id_new 99])"

section \<open>Posting resolution\<close>

definition ut_available :: "(u16 \<times> cent) list \<Rightarrow> ((account_id \<times> asset_id) \<times> posting list) list" where
  "ut_available ps = [((account_id_new 1, asset_id_new 1),
     map (\<lambda>(i, v). posting_new (PostingId (EnvelopeId (replicate 32 (ucast i))) i) (account_id_new 1) (asset_id_new 1) v) ps)]"

definition ut_pay :: "i64 \<Rightarrow> i64 \<Rightarrow> cent \<Rightarrow> transfer" where
  "ut_pay from to v = pay (account_id_new from) (account_id_new to) (asset_id_new 1) v transfer_builder_new"

text \<open>\<open>draft_movements(..).unwrap()\<close>, then the resolution of account 1 paying account 2.\<close>

definition ut_resolved :: "cent \<Rightarrow> ((account_id \<times> asset_id) \<times> posting list) list \<Rightarrow> account list \<Rightarrow> (resolve_error + envelope) option" where
  "ut_resolved v available accs = (case draft_movements (ut_pay 1 2 v) of
     Inl _ \<Rightarrow> None
   | Inr draft \<Rightarrow> Some (resolve_envelope \<lparr>ri_transfer = ut_pay 1 2 v, ri_draft = draft, ri_available = available, ri_accounts = ut_accounts_map accs\<rparr>))"

definition ut_resolved_is :: "(resolve_error + envelope) option \<Rightarrow> (envelope \<Rightarrow> bool) \<Rightarrow> bool" where
  "ut_resolved_is r p = (case r of Some (Inr e) \<Rightarrow> p e | _ \<Rightarrow> False)"

definition ut_draft_is :: "transfer \<Rightarrow> (movement_draft \<Rightarrow> bool) \<Rightarrow> bool" where
  "ut_draft_is t p = (case draft_movements t of Inr draft \<Rightarrow> p draft | Inl _ \<Rightarrow> False)"

definition ut_owned :: "envelope \<Rightarrow> i64 \<Rightarrow> cent list" where
  "ut_owned e i = map np_value (filter (\<lambda>p. np_owner p = account_id_new i) (e_creates e))"

definition ut_draft_aggregates_net_debit_and_output :: bool where
  "ut_draft_aggregates_net_debit_and_output = ut_draft_is (ut_pay 1 2 100) (\<lambda>draft.
     map np_owner (md_creates draft) = [account_id_new 2] \<and> map np_value (md_creates draft) = [100] \<and>
     map np_payer (md_creates draft) = [Some (account_id_new 1)] \<and>
     md_debits draft = [\<lparr>d_account = account_id_new 1, d_asset = asset_id_new 1, d_amount = 100\<rparr>])"

definition ut_self_movement_has_no_payer_but_still_debits :: bool where
  "ut_self_movement_has_no_payer_but_still_debits = ut_draft_is (ut_pay 1 1 100) (\<lambda>draft.
     map np_payer (take 1 (md_creates draft)) = [None] \<and>
     md_debits draft = [\<lparr>d_account = account_id_new 1, d_asset = asset_id_new 1, d_amount = 100\<rparr>])"

definition ut_exact_funds_no_change :: bool where
  "ut_exact_funds_no_change = ut_resolved_is (ut_resolved 100 (ut_available [(0, 60), (1, 40)]) [debit_must_not_exceed_credit (account_id_new 1)])
     (\<lambda>e. length (e_consumes e) = 2 \<and> map np_owner (e_creates e) = [account_id_new 2])"

definition ut_overpay_creates_change_posting :: bool where
  "ut_overpay_creates_change_posting = ut_resolved_is (ut_resolved 30 (ut_available [(0, 100)]) [debit_must_not_exceed_credit (account_id_new 1)])
     (\<lambda>e. length (e_consumes e) = 1 \<and> ut_owned e 1 = [70])"

definition ut_selects_largest_first_to_minimise_consumed :: bool where
  "ut_selects_largest_first_to_minimise_consumed =
     ut_resolved_is (ut_resolved 80 (ut_available [(0, 10), (1, 90), (2, 50)]) [debit_must_not_exceed_credit (account_id_new 1)])
     (\<lambda>e. length (e_consumes e) = 1 \<and> ut_owned e 1 = [10])"

definition ut_insufficient_funds_without_overdraft_fails :: bool where
  "ut_insufficient_funds_without_overdraft_fails =
     (ut_resolved 100 (ut_available [(0, 40)]) [debit_must_not_exceed_credit (account_id_new 1)]
       = Some (Inl (Selection \<lparr>if_available = 40, if_requested = 100\<rparr>)))"

definition ut_missing_account_is_treated_as_no_overdraft :: bool where
  "ut_missing_account_is_treated_as_no_overdraft =
     (ut_resolved 100 [] [] = Some (Inl (Selection \<lparr>if_available = cent_ZERO, if_requested = 100\<rparr>)))"

definition ut_overdraft_covers_shortfall_with_offset_posting :: bool where
  "ut_overdraft_covers_shortfall_with_offset_posting = ut_resolved_is (ut_resolved 100 (ut_available [(0, 30)]) [account_new (account_id_new 1)])
     (\<lambda>e. length (e_consumes e) = 1 \<and> ut_owned e 1 = [- 70])"

definition ut_overdraft_covers_full_shortfall_with_no_positives :: bool where
  "ut_overdraft_covers_full_shortfall_with_no_positives = ut_resolved_is (ut_resolved 100 [] [account_new (account_id_new 1)])
     (\<lambda>e. e_consumes e = [] \<and> take 1 (ut_owned e 1) = [- 100])"

section \<open>Hashing\<close>

definition ut_sample_envelope :: envelope where
  "ut_sample_envelope = envelope_builder_creates [ut_creates (account_id_new 1) 1 100 None] envelope_builder_new"

definition ut_payer_does_not_affect_envelope_id :: "sha256 \<Rightarrow> bool" where
  "ut_payer_does_not_affect_envelope_id sha =
     (let b = ut_sample_envelope\<lparr>e_creates := map (\<lambda>p. p\<lparr>np_payer := Some (account_id_new 9)\<rparr>) (e_creates ut_sample_envelope)\<rparr>
      in Canonical.envelope_id sha ut_sample_envelope = Canonical.envelope_id sha b)"

definition ut_to_bytes_sha256_consistency :: "sha256 \<Rightarrow> bool" where
  "ut_to_bytes_sha256_consistency sha = (double_sha256 sha (envelope_to_bytes ut_sample_envelope) = env_hash (Canonical.envelope_id sha ut_sample_envelope))"

section \<open>Computing bytes\<close>

text \<open>The bytes of a signed integer without its unsigned counterpart, whose value is large.\<close>

fun be_int :: "nat \<Rightarrow> int \<Rightarrow> byte list" where
  "be_int 0 v = []"
| "be_int (Suc n) v = be_int n (v div 256) @ [word_of_int (v mod 256)]"

lemma be_int: "be_bytes n (nat (v mod 256 ^ n)) = be_int n v"
proof (induction n arbitrary: v)
  case (Suc n)
  have "nat (v mod 256 ^ Suc n) div 256 = nat (v mod 256 ^ Suc n div 256)" by (simp add: nat_div_distrib)
  moreover have "v mod 256 ^ Suc n div 256 = v div 256 mod 256 ^ n"
    by (simp add: zmod_zmult2_eq mult.commute)
  moreover have "word_of_nat (nat (v mod 256 ^ Suc n) mod 256) = (word_of_int (v mod 256) :: byte)"
  proof -
    have "int (nat (v mod 256 ^ Suc n) mod 256) = v mod 256 ^ Suc n mod 256" by (simp add: zmod_int)
    then have "int (nat (v mod 256 ^ Suc n) mod 256) = v mod 256" by (simp add: mod_mod_cancel)
    then show ?thesis by (metis of_int_of_nat_eq)
  qed
  ultimately show ?case using Suc by simp
qed simp

lemma write_i64_code [code]: "write_i64 buf v = buf @ be_int 8 v"
  using be_int[of 8 v] by (simp add: write_i64_def twos_def)

lemma i128_to_be_bytes_code [code]: "i128_to_be_bytes v = be_int 16 v"
  using be_int[of 16 v] by (simp add: i128_to_be_bytes_def twos_def)

section \<open>Evaluation\<close>

text \<open>The iteration orders: as given, and reversed. Validation succeeds with a hash that is constant.\<close>

definition ut_externs :: "bool \<Rightarrow> externs" where
  "ut_externs reversed = \<lparr>x_sha = (\<lambda>_. replicate 32 0), x_asset_order = (if reversed then rev else id),
     x_key_order = (if reversed then rev else id)\<rparr>"

definition validate_unit_tests :: "externs \<Rightarrow> bool list" where
  "validate_unit_tests x = map (\<lambda>test. test x) [ut_valid_deposit, ut_empty_transfer_rejected, ut_conservation_violation, ut_posting_not_found,
     ut_account_frozen_rejected, ut_account_closed_rejected, ut_no_overdraft_exceeded, ut_overdraft_may_spend_past_positive_balance,
     ut_debit_must_not_exceed_credit_rejects_negative_projection, ut_overdraft_allows_negative_balance,
     ut_duplicate_consumed_posting_rejected, ut_internal_transfer_with_change, ut_subaccount_carries_own_overdraft_flag,
     ut_subaccount_floor_is_segregated_from_base, ut_account_not_found, ut_negative_posting_rejected_on_regular_account,
     ut_negative_posting_allowed_on_system_account]"

lemma validate_unit_tests_pass: "list_all id (validate_unit_tests (ut_externs False))" "list_all id (validate_unit_tests (ut_externs True))"
  by code_simp+

lemma required_state_unit_tests_pass:
  "ut_required_state_deposit_nets_to_system_account" "ut_required_state_internal_transfer_with_change"
  "ut_required_state_multi_asset" "ut_required_state_includes_snapshot_only_accounts"
  by code_simp+

lemma resolution_unit_tests_pass:
  "ut_draft_aggregates_net_debit_and_output" "ut_self_movement_has_no_payer_but_still_debits" "ut_exact_funds_no_change"
  "ut_overpay_creates_change_posting" "ut_selects_largest_first_to_minimise_consumed" "ut_insufficient_funds_without_overdraft_fails"
  "ut_missing_account_is_treated_as_no_overdraft" "ut_overdraft_covers_shortfall_with_offset_posting"
  "ut_overdraft_covers_full_shortfall_with_no_positives"
  by code_simp+

lemma hash_unit_tests_pass: "ut_payer_does_not_affect_envelope_id sha" "ut_to_bytes_sha256_consistency sha"
  by (simp_all add: ut_payer_does_not_affect_envelope_id_def ut_to_bytes_sha256_consistency_def Canonical.envelope_id_def content_hash_def
      canonical_bytes_def envelope_to_bytes_def new_posting_to_bytes_def ut_sample_envelope_def ut_creates_def envelope_builder_creates_def)

end
