(* ===== verification/Unit_Ledger.thy ===== *)
theory Unit_Ledger
  imports Conformance_Suite Inflight_Projection Ledger_Commit Unit_Core
begin

text \<open>
  The unit tests of \<^verbatim>\<open>kuatia/src/inflight/projection.rs\<close> and \<^verbatim>\<open>kuatia/src/ledger/commit.rs\<close>, as
  computations on the model: a test is true when its assertions hold.
\<close>

text \<open>The bind of actions as a case expression, as for options and results.\<close>

lemma lbind_case [code_unfold]: "lbind m f = (\<lambda>w. case m w of (r, w') \<Rightarrow> (case r of Inl e \<Rightarrow> (Inl e, w') | Inr a \<Rightarrow> f a w'))"
  by (auto simp: lbind_def fun_eq_iff split: prod.splits sum.splits)

section \<open>Overall state\<close>

definition ut_line :: "cent \<Rightarrow> cent \<Rightarrow> cent \<Rightarrow> cent \<Rightarrow> inflight_leg_status" where
  "ut_line authorized confirmed voided held = \<lparr>ls_destination = account_id_new 2, ls_hold = with_sub 2 7, ls_asset = asset_id_new 1,
     ls_authorized = authorized, ls_confirmed = confirmed, ls_voided = voided, ls_held = held\<rparr>"

definition ut_overall_state_held :: bool where
  "ut_overall_state_held = (overall_state [ut_line 100 0 0 100] = Held)"

definition ut_overall_state_partially_confirmed :: bool where
  "ut_overall_state_partially_confirmed = (overall_state [ut_line 100 40 0 60] = PartiallyConfirmed)"

definition ut_overall_state_confirmed :: bool where
  "ut_overall_state_confirmed = (overall_state [ut_line 100 100 0 0] = Confirmed)"

definition ut_overall_state_voided :: bool where
  "ut_overall_state_voided = (overall_state [ut_line 100 0 100 0] = Voided)"

definition ut_overall_state_mixed :: bool where
  "ut_overall_state_mixed = (overall_state [ut_line 100 100 0 0, ut_line 100 0 100 0] = Mixed)"

definition ut_overall_state_empty_authorization_is_confirmed :: bool where
  "ut_overall_state_empty_authorization_is_confirmed = (overall_state [] = Confirmed \<and> overall_state [ut_line 0 0 0 0] = Confirmed)"

section \<open>Distribution to funders\<close>

definition ut_leg :: "i64 \<Rightarrow> i64 \<Rightarrow> u32 \<Rightarrow> cent \<Rightarrow> inflight_leg" where
  "ut_leg funder hold_sub asset v = \<lparr>il_destination = account_id_new 2, il_hold = with_sub 2 hold_sub, il_funder = account_id_new funder,
     il_asset = asset_id_new asset, il_amount = v\<rparr>"

definition ut_distribute :: "inflight_leg list \<Rightarrow> cent \<Rightarrow> overflow_error + (account_id \<times> cent) list" where
  "ut_distribute legs v = map_sum id (map (\<lambda>p. (fp_funder p, fp_give p))) (distribute_to_funders legs (with_sub 2 7) (asset_id_new 1) v)"

definition ut_distribute_single_funder_gets_whole_balance :: bool where
  "ut_distribute_single_funder_gets_whole_balance = (ut_distribute [ut_leg 1 7 1 100] 80 = Inr [(account_id_new 1, 80)])"

definition ut_distribute_co_funders_split_by_cap :: bool where
  "ut_distribute_co_funders_split_by_cap =
     (ut_distribute [ut_leg 1 7 1 60, ut_leg 3 7 1 40] 100 = Inr [(account_id_new 1, 60), (account_id_new 3, 40)])"

definition ut_distribute_rounding_leftover_lands_on_last_funder :: bool where
  "ut_distribute_rounding_leftover_lands_on_last_funder =
     (map_sum id (map snd) (ut_distribute [ut_leg 1 7 1 60, ut_leg 3 7 1 30] 100) = Inr [60, 40])"

definition ut_distribute_no_funders_yields_no_payouts :: bool where
  "ut_distribute_no_funders_yields_no_payouts = (ut_distribute [] 100 = Inr [])"

section \<open>Derived status\<close>

definition ut_inflight :: envelope_id where
  "ut_inflight = hash_of 9"

definition ut_settle_record :: "codec \<Rightarrow> inflight_meta \<Rightarrow> new_posting list \<Rightarrow> envelope_record option" where
  "ut_settle_record cd meta creates = (case meta_map cd meta of Inl _ \<Rightarrow> None
   | Inr md \<Rightarrow> Some \<lparr>er_envelope = (ut_envelope [] creates)\<lparr>e_metadata := md\<rparr>, er_receipt = \<lparr>r_transfer_id = hash_of 0\<rparr>, er_created_at = 0\<rparr>)"

definition ut_status :: "codec \<Rightarrow> envelope_record list \<Rightarrow> cent \<Rightarrow> (inflight_status \<Rightarrow> bool) \<Rightarrow> bool" where
  "ut_status cd records held p = (case derive_status cd \<lparr>si_inflight = ut_inflight, si_legs = [ut_leg 1 7 1 100],
       si_hold_history = [(with_sub 2 7, records)], si_held = [((with_sub 2 7, asset_id_new 1), held)]\<rparr> of
     Inr status \<Rightarrow> p status | Inl _ \<Rightarrow> False)"

definition ut_derive_status_confirm_skips_change_to_hold :: "codec \<Rightarrow> bool" where
  "ut_derive_status_confirm_skips_change_to_hold cd =
     (case ut_settle_record cd (MetaConfirm ut_inflight (account_id_new 2))
        [ut_creates (account_id_new 2) 1 60 None, ut_creates (with_sub 2 7) 1 40 None] of
        None \<Rightarrow> False
      | Some confirm \<Rightarrow> ut_status cd [confirm] 40 (\<lambda>status. (case is_legs status of
          [l] \<Rightarrow> ls_authorized l = 100 \<and> ls_confirmed l = 60 \<and> ls_voided l = cent_ZERO \<and> ls_held l = 40 | _ \<Rightarrow> False) \<and>
          is_state status = PartiallyConfirmed))"

definition ut_derive_status_confirmed_and_voided_bucketing :: "codec \<Rightarrow> bool" where
  "ut_derive_status_confirmed_and_voided_bucketing cd =
     (case (ut_settle_record cd (MetaConfirm ut_inflight (account_id_new 2)) [ut_creates (account_id_new 2) 1 70 None],
            ut_settle_record cd (MetaVoid ut_inflight (account_id_new 2)) [ut_creates (account_id_new 1) 1 30 None]) of
        (Some confirm, Some void) \<Rightarrow> ut_status cd [confirm, void] 0 (\<lambda>status. (case is_legs status of
          l # _ \<Rightarrow> ls_confirmed l = 70 \<and> ls_voided l = 30 \<and> ls_held l = cent_ZERO | _ \<Rightarrow> False) \<and> is_state status = Mixed)
      | _ \<Rightarrow> False)"

definition ut_derive_status_all_held_when_no_settles :: "codec \<Rightarrow> bool" where
  "ut_derive_status_all_held_when_no_settles cd = ut_status cd [] 100 (\<lambda>status. (case is_legs status of
     l # _ \<Rightarrow> ls_held l = 100 | _ \<Rightarrow> False) \<and> is_state status = Held)"

section \<open>Commit\<close>

definition ut_unwrap :: "'a action \<Rightarrow> world \<Rightarrow> ('a \<times> world) option" where
  "ut_unwrap m w = unwrap (m w)"

definition ut_open :: "account list \<Rightarrow> world \<Rightarrow> world" where
  "ut_open accs w = w\<lparr>w_store := fold (\<lambda>a s. snd (create_account a s)) accs (w_store w)\<rparr>"

definition ut_funded_ledger :: "ledger_env \<Rightarrow> world option" where
  "ut_funded_ledger env = (
     let w = ut_open [ut_account 1 DEBIT_MUST_NOT_EXCEED_CREDIT, ut_account 2 DEBIT_MUST_NOT_EXCEED_CREDIT,
           ut_account 3 DEBIT_MUST_NOT_EXCEED_CREDIT, ut_account 99 flags_empty] world_new
     in case deposit (account_id_new 1) (asset_id_new 1) 100 (account_id_new 99) transfer_builder_new of
          Inl _ \<Rightarrow> None
        | Inr t \<Rightarrow> map_option snd (ut_unwrap (ledger_commit env t) w))"

definition ut_balance_is :: "ledger_env \<Rightarrow> i64 \<Rightarrow> cent \<Rightarrow> world \<Rightarrow> world option" where
  "ut_balance_is env i v w = do { (b, w) \<leftarrow> ut_unwrap (ledger_balance env ledger_new (account_id_new i) (asset_id_new 1)) w;
     assert_that (b = v); Some w }"

definition ut_commit_moves_value :: "ledger_env \<Rightarrow> bool" where
  "ut_commit_moves_value env = (do {
     w \<leftarrow> ut_funded_ledger env;
     (_, w) \<leftarrow> ut_unwrap (ledger_commit env (ut_pay 1 2 40)) w;
     w \<leftarrow> ut_balance_is env 2 40 w;
     ut_balance_is env 1 60 w } \<noteq> None)"

definition ut_commit_into_frozen_account_is_rejected :: "ledger_env \<Rightarrow> bool" where
  "ut_commit_into_frozen_account_is_rejected env = (do {
     w \<leftarrow> ut_funded_ledger env;
     (_, w) \<leftarrow> ut_unwrap (freeze env (account_id_new 1)) w;
     (e, w) \<leftarrow> unwrap_err (ledger_commit env (ut_pay 1 2 40) w);
     assert_that (case e of Fail (Validation (AccountFrozen _)) \<Rightarrow> True | _ \<Rightarrow> False);
     ut_balance_is env 1 100 w } \<noteq> None)"

text \<open>Whichever of the loaded balances is dropped.\<close>

definition ut_plan_rejects_under_fetched_balance :: "ledger_env \<Rightarrow> bool" where
  "ut_plan_rejects_under_fetched_balance env = (do {
     w \<leftarrow> ut_funded_ledger env;
     (e, w) \<leftarrow> ut_unwrap (resolve env (ut_pay 1 2 40)) w;
     (loaded, w) \<leftarrow> ut_unwrap (load env e) w;
     assert_that (ls_balances loaded \<noteq> []);
     assert_that (list_all (\<lambda>k. ledger_plan env e (loaded\<lparr>ls_balances := AList.delete k (ls_balances loaded)\<rparr>)
       = Inl (Fail (UnderFetchedState (fst k) (snd k)))) (map fst (ls_balances loaded))) } \<noteq> None)"

section \<open>Evaluation\<close>

lemma overall_state_unit_tests_pass:
  "ut_overall_state_held" "ut_overall_state_partially_confirmed" "ut_overall_state_confirmed" "ut_overall_state_voided"
  "ut_overall_state_mixed" "ut_overall_state_empty_authorization_is_confirmed"
  by code_simp+

lemma distribute_unit_tests_pass:
  "ut_distribute_single_funder_gets_whole_balance" "ut_distribute_co_funders_split_by_cap"
  "ut_distribute_rounding_leftover_lands_on_last_funder" "ut_distribute_no_funders_yields_no_payouts"
  by code_simp+

text \<open>A codec for the two values that the tests encode, each of one byte.\<close>

definition ut_codec :: codec where
  "ut_codec = \<lparr>enc_meta = (\<lambda>m. case m of MetaConfirm _ _ \<Rightarrow> Some [1] | MetaVoid _ _ \<Rightarrow> Some [2] | _ \<Rightarrow> None),
     dec_meta = (\<lambda>bs. if bs = [1] then Some (MetaConfirm ut_inflight (account_id_new 2))
       else if bs = [2] then Some (MetaVoid ut_inflight (account_id_new 2)) else None), enc_transfer = (\<lambda>_. [])\<rparr>"

lemma derive_status_unit_tests_pass:
  "ut_derive_status_confirm_skips_change_to_hold ut_codec" "ut_derive_status_confirmed_and_voided_bucketing ut_codec"
  "ut_derive_status_all_held_when_no_settles ut_codec"
  by code_simp+

text \<open>A hash that keeps the length, and a clock after 2026.\<close>

definition ut_sha :: sha256 where
  "ut_sha bs = (if length bs = 32 then bs else replicate 32 (word_of_nat (length bs)))"

definition ut_env :: ledger_env where
  "ut_env = \<lparr>le_ext = \<lparr>x_sha = ut_sha, x_asset_order = rev, x_key_order = rev\<rparr>,
     le_hash = \<lparr>ho_postings = rev, ho_assets = rev, ho_records = rev, ho_accounts = rev, ho_books = rev\<rparr>,
     le_clock = (\<lambda>n. 1800000000000 + int n)\<rparr>"

lemma commit_unit_test_passes: "ut_commit_moves_value ut_env"
  by code_simp

lemma frozen_unit_test_passes: "ut_commit_into_frozen_account_is_rejected ut_env"
  by code_simp

lemma under_fetched_unit_test_passes: "ut_plan_rejects_under_fetched_balance ut_env"
  by code_simp

end
