(* ===== verification/Commit_Replay.thy ===== *)
theory Commit_Replay
  imports Saga_Laws Unit_Ledger
begin

text \<open>
  When a repeated commit is answered from the log: the identifier of an envelope covers the account
  snapshots it is pinned to, so an envelope pinned to the same snapshots finds its stored transfer
  in every later store, and one that is pinned anew after an account moved to a new version does not.
\<close>

section \<open>The same pin finds the stored transfer\<close>

definition same_pin :: "envelope \<Rightarrow> mem_store \<Rightarrow> mem_store \<Rightarrow> bool" where
  "same_pin e st st' \<longleftrightarrow> e_account_snapshots e \<noteq> [] \<or>
     list_all (\<lambda>np. head_version st' (np_owner np) = head_version st (np_owner np)) (e_creates e)"

lemma pin_same_heads:
  assumes "same_pin e (w_store w) (w_store w')" "pin_snapshots env e w = (r, w)"
  shows "pin_snapshots env e w' = (r, w')"
proof (cases "e_account_snapshots e = []")
  case True
  then have "get_accounts (sort_dedup (map np_owner (e_creates e))) (w_store w') = get_accounts (sort_dedup (map np_owner (e_creates e))) (w_store w)"
    using assms(1) unfolding get_accounts_def same_pin_def by (intro try_map_cong) (auto simp: list_all_iff)
  then show ?thesis using True assms(2)
    by (auto simp: pin_snapshots_def resolve_snapshots_def lbind_def lread_def split: if_splits sum.splits)
qed (use assms(2) in \<open>auto simp: pin_snapshots_def\<close>)

lemma commit_stored:
  assumes x: "externs_ok (le_ext env)" and run: "ledger_commit_envelope env e w = (Inr r, w')"
  obtains e1 rec where "pin_snapshots env e w = (Inr e1, w)" "er_receipt rec = r"
    "map_of (ms_transfers (w_store w')) (envelope_id (x_sha (le_ext env)) e1) = Some rec"
  using x run
proof (cases rule: commit_envelope_success)
  case (replay e1 rec)
  then show thesis using that by blast
next
  case (fresh e1 s ts c)
  let ?rec = "cr_record (req_of env (plan_input_of e1 s) s ts)"
  have "map_of (ms_transfers (w_store w')) (envelope_id (x_sha (le_ext env)) e1) = Some ?rec"
    by (simp add: fresh(7) commit_apply_fields req_of_def build_request_def build_plan_def plan_input_of_def Let_def)
  moreover have "er_receipt ?rec = r"
    by (simp add: fresh(6) req_of_def build_request_def build_plan_def plan_input_of_def Let_def)
  ultimately show thesis using that[OF fresh(1)] by blast
qed

lemma commit_repeated:
  assumes x: "externs_ok (le_ext env)" and run: "ledger_commit_envelope env e w = (Inr r, w')"
    and later: "extends (w_store w') (w_store w2)" and pin: "same_pin e (w_store w) (w_store w2)"
  shows "ledger_commit_envelope env e w2 = (Inr r, w2)"
proof -
  obtain e1 rec where e1: "pin_snapshots env e w = (Inr e1, w)" "er_receipt rec = r"
    "map_of (ms_transfers (w_store w')) (envelope_id (x_sha (le_ext env)) e1) = Some rec"
    using commit_stored[OF x run] by blast
  have "map_of (ms_transfers (w_store w2)) (envelope_id (x_sha (le_ext env)) e1) = Some rec"
    using later e1(3) by (simp add: extends_def)
  from commit_replay[OF pin_same_heads[OF pin e1(1)] this] show ?thesis using e1(2) by simp
qed

section \<open>A new pin does not\<close>

text \<open>
  A deposit as an envelope without snapshots, committed, then committed again after the
  account was frozen and unfrozen: the receipts and the balance after each commit. The hash
  adds up the bytes.
\<close>

definition replay_sha :: sha256 where
  "replay_sha bs = (if length bs = 32 then bs else replicate 31 0 @ [sum_list bs])"

definition replay_env :: ledger_env where
  "replay_env = \<lparr>le_ext = \<lparr>x_sha = replay_sha, x_asset_order = id, x_key_order = id\<rparr>,
     le_hash = \<lparr>ho_postings = id, ho_assets = id, ho_records = id, ho_accounts = id, ho_books = id\<rparr>,
     le_clock = (\<lambda>n. 1800000000000 + int n)\<rparr>"

definition unpinned_deposit :: envelope where
  "unpinned_deposit = ut_envelope [] [ut_creates (account_id_new 99) 1 (- 100) None, ut_creates (account_id_new 1) 1 100 None]"

definition deposit_twice :: "ledger_env \<Rightarrow> (bool \<times> cent \<times> cent) option" where
  "deposit_twice env = do {
     let w = ut_open [ut_account 1 DEBIT_MUST_NOT_EXCEED_CREDIT, ut_account 99 flags_empty] world_new;
     (r1, w) \<leftarrow> ut_unwrap (ledger_commit_envelope env unpinned_deposit) w;
     (b1, w) \<leftarrow> ut_unwrap (compute_balance env (account_id_new 1) (asset_id_new 1)) w;
     (_, w) \<leftarrow> ut_unwrap (freeze env (account_id_new 1)) w;
     (_, w) \<leftarrow> ut_unwrap (unfreeze env (account_id_new 1)) w;
     (r2, w) \<leftarrow> ut_unwrap (ledger_commit_envelope env unpinned_deposit) w;
     (b2, w) \<leftarrow> ut_unwrap (compute_balance env (account_id_new 1) (asset_id_new 1)) w;
     Some (r1 = r2, b1, b2) }"

theorem repinned_deposit_applied_twice: "deposit_twice replay_env = Some (False, 100, 200)"
  by code_simp

end
