(* ===== verification/Default_Ids.thy ===== *)
theory Default_Ids
  imports Ledger_Types Auto_Id
begin

text \<open>
  The ids that \<^verbatim>\<open>kuatia-types/src/ids.rs\<close> draws from process-wide generators: the default account id, a
  new book id, and the keys of sagas, which reservations and transitions share. A
  process-wide generator is a state that is passed through; its atomic counter makes each draw one step.
\<close>

definition account_id_default :: "int \<Rightarrow> auto_id \<Rightarrow> account_id \<times> auto_id" where
  "account_id_default clock g = (let (i, g') = ai_next clock g in (AccountId i 0, g'))"

definition book_id_new :: "i64 \<Rightarrow> book_id" where
  "book_id_new i = BookId i"

definition book_id_generate :: "int \<Rightarrow> auto_id \<Rightarrow> book_id \<times> auto_id" where
  "book_id_generate clock g = (let (i, g') = ai_next clock g in (BookId i, g'))"

definition reservation_id_new :: "i64 \<Rightarrow> reservation_id" where
  "reservation_id_new i = ReservationId i"

definition transition_id_new :: "i64 \<Rightarrow> transition_id" where
  "transition_id_new i = TransitionId i"

definition next_saga_id :: "int \<Rightarrow> auto_id \<Rightarrow> i64 \<times> auto_id" where
  "next_saga_id clock g = ai_next clock g"

definition reservation_id_default :: "int \<Rightarrow> auto_id \<Rightarrow> reservation_id \<times> auto_id" where
  "reservation_id_default clock g = (let (i, g') = next_saga_id clock g in (ReservationId i, g'))"

definition transition_id_default :: "int \<Rightarrow> auto_id \<Rightarrow> transition_id \<times> auto_id" where
  "transition_id_default clock g = (let (i, g') = next_saga_id clock g in (TransitionId i, g'))"

section \<open>Keys of sagas are unique\<close>

text \<open>The draws of a process in the order of its counter: a reservation or a transition, at a clock reading.\<close>

datatype saga_draw = DrawReservation int | DrawTransition int

fun draws :: "saga_draw list \<Rightarrow> auto_id \<Rightarrow> i64 list" where
  "draws [] g = []"
| "draws (DrawReservation c # ds) g = (case reservation_id_default c g of (ReservationId i, g') \<Rightarrow> i # draws ds g')"
| "draws (DrawTransition c # ds) g = (case transition_id_default c g of (TransitionId i, g') \<Rightarrow> i # draws ds g')"

fun draw_clock :: "saga_draw \<Rightarrow> int" where
  "draw_clock (DrawReservation c) = c"
| "draw_clock (DrawTransition c) = c"

lemma draws_run: "draws ds g = ai_run (map draw_clock ds) g"
  by (induction ds g rule: draws.induct)
    (simp_all add: reservation_id_default_def transition_id_default_def next_saga_id_def Let_def split_beta)

text \<open>
  Up to 2^23 keys drawn in a row are pairwise distinct, also across the two kinds and
  whatever the clock does, so reservations and transitions share one keyspace.
\<close>

lemma saga_keys_distinct: "length ds \<le> 2 ^ 23 \<Longrightarrow> distinct (draws ds g)"
  by (simp add: draws_run ai_run_distinct)

text \<open>A default account is a main account with an id that can be printed as a code.\<close>

lemma default_account: "is_main (fst (account_id_default clock g)) \<and> aid_id (fst (account_id_default clock g)) \<in> {0..<2 ^ 63}"
  using ai_pack_range[OF masked_tail] by (simp add: account_id_default_def ai_next_def Let_def is_main_def)

end
