(* ===== verification/Spec2Isabelle.thy ===== *)
theory Spec2Isabelle
  imports Scenario_Reversal Account_Code Sql_Scenario Sql_Typing Sql_Migrate Dashboard_Scenario Dashboard_Server_Laws Conformance_Stores
    Unit_Types Commit_Replay Default_Ids
begin

text \<open>
  Kuatia, a double-entry ledger library in Rust, as a shallow embedding in HOL.

  \<^bold>\<open>The program.\<close> Money moves as \<^emph>\<open>envelopes\<close> that consume postings and create new
  ones (a UTXO model over accounts and assets). \<open>kuatia-types\<close> and \<open>kuatia-money\<close> hold the
  data; \<open>kuatia-core\<close> is pure: it resolves a transfer into an envelope, says which state an
  envelope needs, and validates it; \<open>kuatia-storage\<close> holds the store interface and the in-memory
  store, \<open>kuatia-storage-sql\<close> the store on SQLite and PostgreSQL; \<open>kuatia\<close> is the ledger
  that loads, validates and commits, with balances, account lifecycle, sagas and inflight
  holds on top; \<open>kuatia-dashboard\<close> shows a ledger.

  \<^bold>\<open>Theories and sources.\<close>
  \<^item> \<open>Kuatia_Prelude\<close>: result types, checked folds, byte and digit strings, association
    lists; the lemma collections the components share.
  \<^item> \<open>Money\<close> (\<open>kuatia-money/src/lib.rs\<close>): \<open>Cent\<close> with checked arithmetic, text and canonical
    bytes, \<open>Amount\<close>. \<open>Ledger_Types\<close> (\<open>kuatia-types/src/{ids,account,posting,envelope,transfer,book}.rs\<close>).
    \<open>Canonical\<close> (\<open>canonical.rs\<close>, \<open>kuatia-core/src/hash.rs\<close>). \<open>Account_Code\<close> (\<open>account_code.rs\<close>).
    \<open>Auto_Id\<close> (\<open>autoid.rs\<close>), \<open>Default_Ids\<close> (the generated ids of \<open>ids.rs\<close>).
  \<^item> \<open>Validate\<close> (\<open>kuatia-core/src/validate.rs\<close>) and \<open>Posting_Resolution\<close>
    (\<open>posting_resolution.rs\<close>), with declarative specifications.
  \<^item> \<open>Store_Types\<close> (\<open>kuatia-storage/src/{store,events,query,error}.rs\<close>) and \<open>Mem_Store\<close>
    (\<open>mem_store.rs\<close>): the in-memory store as one record; every call holds its locks for its
    whole body, so a call is one function on the record. \<open>Mem_Store_Laws\<close>: posting states.
  \<^item> \<open>Store_Interface\<close>: the traits of the store as records of methods, of which both stores are
    instances. \<open>Conformance_Suite\<close>, \<open>Conformance_Postings\<close>, \<open>Conformance_Transfers\<close>,
    \<open>Conformance_Commits\<close> (\<open>kuatia-storage/src/store_tests.rs\<close>): the conformance tests over any store, a test being a
    run that is \<open>None\<close> when an assertion fails; \<open>Conformance\<close>: the suite; \<open>Conformance_Mem\<close>,
    \<open>Conformance_Sql\<close> and \<open>Conformance_Stores\<close>: its evaluation on both stores.
  \<^item> \<open>Unit_Core\<close>, \<open>Unit_Types\<close> and \<open>Unit_Ledger\<close>: the unit tests inside the modules of \<open>kuatia-money\<close>, \<open>kuatia-types\<close>,
    \<open>kuatia-core\<close> and \<open>kuatia\<close>, as computations on the model, and that they pass; among them the
    vectors that pin the account codes and the CRC-32.
  \<^item> \<open>Error_Text\<close>: what identifiers and errors print (\<open>Debug\<close>, \<open>Display\<close> and \<open>source\<close> of all crates), and that a
    printed identifier determines it.
  \<^item> \<open>Ledger_Base\<close> (\<open>kuatia/src/{error,ledger}.rs\<close>): an action is a function from a world (the
    store, the number of clock readings, the spawned tasks) to an error or value and a world.
    \<open>Ledger_Balance\<close>, \<open>Ledger_Commit\<close>, \<open>Ledger_Lifecycle\<close> (\<open>kuatia/src/ledger/*.rs\<close>), \<open>Saga\<close>
    (\<open>saga.rs\<close>), \<open>Inflight_Projection\<close> and \<open>Inflight\<close> (\<open>inflight/projection.rs\<close>, \<open>inflight.rs\<close>).
  \<^item> \<open>Ledger_Steps\<close>: the atomic steps that ledger calls make on a shared store, and that every
    ledger method is a sequence of them. \<open>Ledger_Invariants\<close>: the invariant of all reachable
    stores. \<open>Commit_Laws\<close>, \<open>Commit_Replay\<close> (when a repeated commit is answered from the log), \<open>Lifecycle_Laws\<close>, \<open>Event_Laws\<close>, \<open>Balance_Laws\<close>, \<open>Saga_Laws\<close>,
    \<open>Inflight_Laws\<close>, \<open>Ledger_Api\<close> (the public calls, and the abstract ledger that the store
    refines). \<open>Scenario\<close> and \<open>Scenario_Reversal\<close>: concrete runs for the witnesses.
  \<^item> \<open>Sql_Row\<close> (\<open>kuatia-storage-sql/src/row.rs\<close> and the schema), \<open>Sql_Store\<close> (\<open>account.rs\<close>, \<open>posting.rs\<close>,
    \<open>transfer.rs\<close>, \<open>event.rs\<close>, \<open>book.rs\<close>, \<open>projection.rs\<close>, \<open>commit.rs\<close>): a table is the list of its rows, a
    statement its meaning on them, a transaction a copy that replaces the tables when it commits.
    \<open>Sql_Posting_Laws\<close>: its posting operations against those of the in-memory store.
    \<open>Commit_Contract\<close>: what a client may rely on of an atomic commit, as a locale that both stores
    interpret; \<open>Sql_Commit_Laws\<close>: the SQL side of it and the overdraft floor. \<open>Sql_Refinement\<close>
    and \<open>Sql_Account_Refinement\<close>: the atomic writes of the SQL store (commits; transitions and
    creations of accounts) as a simulation by those of the in-memory store. \<open>Sql_Typing\<close>: every row
    written decodes. \<open>Sql_Migrate\<close> (\<open>migrate.rs\<close>). \<open>Sql_Scenario\<close>: a concrete database.
  \<^item> \<open>Dashboard_Data\<close> (\<open>kuatia-dashboard/src/{data,assets,seed,api}.rs\<close>), \<open>Dashboard_Calendar\<close> and
    \<open>Dashboard_Views\<close> (\<open>ui.rs\<close>): the builders as actions over the in-memory ledger, and the view models.
    \<open>Dashboard_Laws\<close>, \<open>Dashboard_Scenario\<close>. \<open>Dashboard_Server\<close> (\<open>ui.rs\<close>, \<open>api.rs\<close>, \<open>main.rs\<close>): contexts, handlers,
    routes, answers to errors, command line; \<open>Dashboard_Server_Laws\<close>: what a request can do.

  \<^bold>\<open>Concurrency.\<close> \<open>store_step\<close> lets any call commit at any time a request that was computed
  from an earlier state: a step of commit needs only that the envelope was valid for \<^emph>\<open>some\<close>
  balances and accounts and that the rows it consumes are the stored ones, and a transition
  may start from any earlier version. The invariants therefore hold for every interleaving
  of ledger calls, not only for calls one after the other.

  \<^bold>\<open>Parameters.\<close> SHA-256, the CBOR codec and the clock are not code of the repository: they
  are arguments (\<open>externs\<close>, \<open>codec\<close>, \<open>le_clock\<close>). The iteration order of hash maps and sets is a
  parameter too (\<open>x_asset_order\<close>, \<open>x_key_order\<close>, \<open>hash_order\<close>); \<open>externs_ok\<close> and \<open>hash_order_ok\<close> say
  that an iteration visits every element once. The SQL store has the JSON codec and the order of rows
  a query does not sort as parameters (\<open>json_ok\<close>: what was written reads back; \<open>sql_env_ok\<close>: an order is a
  permutation), and the migration runner the engine and the migration files. The server of the dashboard has the
  HTTP framework and the template engine as a parameter (\<open>web\<close>), of which nothing is assumed. The suite is
  evaluated with orders that reverse, a codec that knows the stored values and a clock after 2026. No property assumes that SHA-256 has no
  collisions: where identity of content matters, a collision is an explicit alternative.

  \<^bold>\<open>Bounds.\<close> Machine integers keep their width or carry an explicit range. \<open>small\<close> says that
  no stored transfer creates more than 65536 postings: beyond that the \<open>u16\<close> posting index
  wraps (\<open>posting_index_wraps\<close>) and ids repeat. The cached read needs fewer than \<open>2 ^ 32\<close>
  transfers, since an unlimited query asks for \<open>u32::MAX\<close> rows. The walk of the account code
  permutation is a \<open>partial_function\<close> and is proved to end. All other loops are structural. The date
  arithmetic of the dashboard is on unbounded integers: it is only called with the days of a 64-bit
  number of milliseconds, where nothing overflows.

  \<^bold>\<open>What is shown.\<close> Conservation, overdraft floors, single spending, version logs, event log
  and the refinement of an abstract ledger for every reachable store; exact effect,
  atomicity and idempotence of commits and reversals; validation and resolution against
  their specifications; exactness of cached balances and of cache points; compensation of
  sagas; account lifecycle; round trips of codes, amounts and encodings. For the SQL store: that
  its postings cannot be told from those of the in-memory store, that commits in any serialization
  spend once and keep the floor, that its atomic writes refine those in memory, so that what is proved
  of them there carries over, that its rows always decode and that a migration is applied
  whole and once. For the dashboard: that it only reads, that its pages render, that amounts and
  dates are shown right, and that a request leaves the store as it is, with at most new cache
  points behind the old ones. For the storage interface: that both stores pass its conformance
  suite. And the places where the code departs from its documentation.

  \<^bold>\<open>Not modelled.\<close> The text of the migrations (statements for a database engine) and the choice of
  the SQL dialect from the connection address; failures of the connection; the text of the dashboard's
  templates and static files, the encoding of its JSON bodies, its layers (tracing, CORS) and its socket; the unit tests that
  exercise serde, the real SHA-256 or a statistical property; the tests in separate crates and the example programs; the
  messages inside an internal store error; serde derives; tracing.
\<close>

section \<open>Invariants of every reachable ledger\<close>

text \<open>
  C1: value is never created or destroyed: in every store that concurrent ledger calls can
  reach, the live postings of an asset sum to zero.
\<close>

theorem ledger_conserves:
  assumes "reachable env st" "small st" "hash_order_ok (le_hash env)"
  shows "asset_total st asset = 0"
proof -
  have "store_inv (x_sha (le_ext env)) st" using assms by (rule reachable_inv)
  then show ?thesis by (simp add: asset_total_entries live_is_active store_inv_def books_balance_def)
qed

theorem ledger_conserves_witness: "asset_total (w_store deposited) demo_usd = 0 \<and> live_balance (w_store deposited) alice_id demo_usd = 100"
  using ledger_conserves[OF deposited_reachable deposited_small demo_env_ok(2), of demo_usd]
  by (simp add: live_balance_def postings_in_def deposit_postings_def posting_new_def)

text \<open>
  C2: an account that forbids overdraft never has a negative balance in any asset, in every
  store that concurrent ledger calls can reach.
\<close>

theorem overdraft_floor:
  assumes "reachable env st" "small st" "hash_order_ok (le_hash env)"
    and "head_version st aid = Some a" "forbids_overdraft a"
  shows "0 \<le> live_balance st aid asset"
proof -
  have "store_inv (x_sha (le_ext env)) st" using assms(1-3) by (rule reachable_inv)
  then show ?thesis using assms(4,5) by (simp add: inv_live) (simp add: store_inv_def floor_ok_def)
qed

theorem overdraft_floor_witness:
  "forbids_overdraft alice \<and> 0 \<le> live_balance (w_store deposited) alice_id demo_usd \<and> live_balance (w_store deposited) bank_id demo_usd < 0"
proof -
  have "head_version (w_store deposited) alice_id = Some alice" by (simp add: head_version_def last_opt_def)
  then show ?thesis
    using overdraft_floor[OF deposited_reachable deposited_small demo_env_ok(2)]
    by (simp add: live_balance_def postings_in_def deposit_postings_def posting_new_def)
qed

text \<open>
  C3: no double spend: in every reachable store a posting is spent exactly when one
  committed transfer, and only one, consumes it.
\<close>

theorem spent_exactly_once:
  assumes "reachable env st" "small st" "hash_order_ok (le_hash env)"
  shows "posting_state_of (ms_postings st) i = StateSpent \<longleftrightarrow>
     (\<exists>!tid. \<exists>r. map_of (ms_transfers st) tid = Some r \<and> i \<in> set (e_consumes (er_envelope r)))"
proof -
  have inv: "store_inv (x_sha (le_ext env)) st" using assms by (rule reachable_inv)
  have "\<exists>tid r. map_of (ms_transfers st) tid = Some r \<and> i \<in> set (e_consumes (er_envelope r))"
    if sp: "posting_state_of (ms_postings st) i = StateSpent"
  proof -
    obtain p where "map_of (pt_immutable (ms_postings st)) i = Some p"
      using sp inv state_missing_iff[of "ms_postings st" i] by (fastforce simp: store_inv_def)
    then show ?thesis using inv sp by (auto simp: store_inv_def row_ok_def)
  qed
  moreover have "tid = tid'" if "map_of (ms_transfers st) tid = Some r" "i \<in> set (e_consumes (er_envelope r))"
    "map_of (ms_transfers st) tid' = Some r'" "i \<in> set (e_consumes (er_envelope r'))" for tid tid' r r'
    using inv that unfolding store_inv_def single_spend_def by (metis IntI emptyE)
  moreover have "posting_state_of (ms_postings st) i = StateSpent"
    if "map_of (ms_transfers st) tid = Some r" "i \<in> set (e_consumes (er_envelope r))" for tid r
    using inv that by (simp add: store_inv_def transfer_ok_def)
  ultimately show ?thesis by blast
qed

theorem spent_exactly_once_witness:
  "\<not> (\<exists>!tid. \<exists>r. map_of (ms_transfers (w_store deposited)) tid = Some r \<and> PostingId deposit_id 1 \<in> set (e_consumes (er_envelope r)))"
proof -
  have "posting_state_of (ms_postings (w_store deposited)) (PostingId deposit_id 1) = StateActive"
    by (simp add: posting_state_of_def contains_key_def deposit_postings_def posting_new_def)
  then show ?thesis using spent_exactly_once[OF deposited_reachable deposited_small demo_env_ok(2), of "PostingId deposit_id 1"] by simp
qed

text \<open>
  C4: the version log of an account in a reachable store is never empty, all its versions
  carry the account's id, their numbers are consecutive, the overdraft policy never
  changes and no version follows a closed one.
\<close>

theorem version_logs:
  assumes "reachable env st" "small st" "hash_order_ok (le_hash env)" "map_of (ms_accounts st) aid = Some vs"
  shows "vs \<noteq> [] \<and> (\<forall>a \<in> set vs. acc_id a = aid \<and> (forbids_overdraft a \<longleftrightarrow> forbids_overdraft (hd vs))) \<and>
     (\<forall>n. Suc n < length vs \<longrightarrow> unat (acc_version (vs ! Suc n)) = Suc (unat (acc_version (vs ! n))) \<and> \<not> is_closed (vs ! n))"
proof -
  have "store_inv (x_sha (le_ext env)) st" using assms(1-3) by (rule reachable_inv)
  then show ?thesis using assms(4) unfolding store_inv_def accounts_ok_def log_ok_def by blast
qed

theorem version_logs_witness:
  "map_of (ms_accounts (w_store deposited)) alice_id = Some [alice] \<and> acc_id alice = alice_id"
proof -
  have "map_of (ms_accounts (w_store deposited)) alice_id = Some [alice]" by simp
  then show ?thesis using version_logs[OF deposited_reachable deposited_small demo_env_ok(2)] by (meson list.set_intros(1))
qed

text \<open>
  C5: every sequence of public calls, whatever they return, leads from the empty store to a
  reachable one, so the invariants hold of it.
\<close>

theorem calls_reach:
  assumes "externs_ok (le_ext env)"
  shows "reachable env (w_store (fold (exec env l cd) calls world_new))"
  using run_steps[OF assms, of world_new l cd calls] by (simp add: reachable_def world_new_def)

theorem calls_reach_witness:
  "reachable demo_env (w_store (fold (exec demo_env ledger_new \<lparr>enc_meta = (\<lambda>_. None), dec_meta = (\<lambda>_. None), enc_transfer = (\<lambda>_. [])\<rparr>)
     [CallCreateAccount bank, CallCreateAccount alice, CallCommit demo_deposit, CallFreeze alice_id] world_new))"
  by (rule calls_reach[OF demo_env_ok(1)])

text \<open>
  C6: the store refines an abstract ledger of balances and committed identifiers: each
  atomic step of a reachable store leaves the abstract ledger alone or is one abstract
  transfer, new, balanced per asset and above the floor of every account that has one.
\<close>

theorem store_refines:
  assumes "reachable env st" "store_step env st st'" "small st'" "hash_order_ok (le_hash env)"
  shows "abs_ledger st' = abs_ledger st \<or> abs_transfer (floored st) (abs_ledger st) (abs_ledger st')"
proof -
  have "store_inv (x_sha (le_ext env)) st" using reachable_inv[OF assms(1) step_small[OF assms(2,3)] assms(4)] .
  then show ?thesis by (rule step_abs[OF assms(2) _ assms(3,4)])
qed

theorem store_refines_witness:
  "abs_transfer (floored (w_store opened)) (abs_ledger (w_store opened)) (abs_ledger (w_store deposited))"
proof -
  have "al_balance (abs_ledger (w_store deposited)) (alice_id, demo_usd) = 100" "al_balance (abs_ledger (w_store opened)) (alice_id, demo_usd) = 0"
    by (simp_all add: abs_ledger_def live_balance_def postings_in_def deposit_postings_def posting_new_def)
  then have "abs_ledger (w_store deposited) \<noteq> abs_ledger (w_store opened)" by auto
  then show ?thesis using store_refines[OF opened_reachable deposit_step deposited_small demo_env_ok(2)] by blast
qed

section \<open>Commit\<close>

text \<open>
  C8: a commit or a reversal that reports an error or panics has changed nothing in the
  store.
\<close>

theorem commit_all_or_nothing:
  assumes "ledger_commit_envelope env e w = (Inl err, w') \<or> ledger_commit env t w = (Inl err, w') \<or> reverse env tid w = (Inl err, w')"
  shows "w_store w' = w_store w"
  using assms
proof (elim disjE)
  show "ledger_commit env t w = (Inl err, w') \<Longrightarrow> w_store w' = w_store w" by (rule commit_failure)
next
  assume "reverse env tid w = (Inl err, w')"
  then show ?thesis unfolding reverse_def
    by (auto simp: lbind_def lread_def split: option.splits if_splits sum.splits prod.splits dest: commit_envelope_failure)
qed (rule commit_envelope_failure)

theorem commit_all_or_nothing_witness: "w_store (snd (ledger_commit demo_env overdraw opened)) = w_store opened"
  using commit_all_or_nothing[of demo_env _ opened _ _ overdraw] overdraw_fails by (metis snd_conv)

text \<open>
  C9: a commit that succeeds with a new identifier has exactly the effect of its pinned
  envelope: the consumed postings were active and are spent, the created ones are
  active, no other posting changes state, every balance moves by created minus
  consumed, the transfer is stored under its identifier, no account changes, and no
  account involved was frozen or closed.
\<close>

theorem commit_effect_exact:
  assumes "externs_ok (le_ext env)" "hash_order_ok (le_hash env)" "reachable env (w_store w)" "small (w_store w')"
    and "ledger_commit_envelope env e0 w = (Inr r, w')" "map_of (ms_transfers (w_store w)) (r_transfer_id r) = None"
  shows "\<exists>e ps. pin_snapshots env e0 w = (Inr e, w) \<and> r_transfer_id r = envelope_id (x_sha (le_ext env)) e \<and>
     get_postings (e_consumes e) (w_store w) = Inr ps \<and> commit_effect (x_sha (le_ext env)) (w_store w) e ps (w_store w')"
proof -
  have "store_steps env (w_store w) (w_store w')"
    using preservesD[OF commit_envelope_steps[OF assms(1)], of w e0] by (simp add: assms(5))
  then have "small (w_store w)" using assms(4) by (rule steps_small)
  then have inv: "store_inv (x_sha (le_ext env)) (w_store w)" by (rule reachable_inv[OF assms(3) _ assms(2)])
  from commit_envelope_effect[OF assms(1,2) inv assms(4,5,6)] show ?thesis by metis
qed

theorem commit_effect_exact_witness:
  "\<exists>ps. commit_effect demo_sha (w_store opened) deposit_env ps (w_store deposited)"
  using commit_effect_exact[OF demo_env_ok opened_reachable deposited_small deposit_envelope_run] deposit_pinned by auto

text \<open>
  C10: committing an envelope again, now or after any further calls on the ledger, returns the
  first receipt and changes nothing, provided that it is pinned to the same account snapshots:
  it carries snapshots, or every account that it credits still has the version it had. (An
  envelope without snapshots is pinned anew by each commit; \<open>repinned_deposit_applied_twice\<close>
  shows that it is applied again once such an account has a new version.)
\<close>

theorem commit_idempotent:
  assumes "externs_ok (le_ext env)" "hash_order_ok (le_hash env)" "reachable env (w_store w)" "small (w_store w2)"
    and "ledger_commit_envelope env e w = (Inr r, w')" "store_steps env (w_store w') (w_store w2)"
    and "same_pin e (w_store w) (w_store w2)"
  shows "ledger_commit_envelope env e w2 = (Inr r, w2)"
proof -
  have "store_steps env (w_store w) (w_store w')"
    using preservesD[OF commit_envelope_steps[OF assms(1)], of w e] by (simp add: assms(5))
  then have "reachable env (w_store w')" by (rule reachable_steps[OF assms(3)])
  then have "extends (w_store w') (w_store w2)" using steps_extend assms(2,4,6) by blast
  then show ?thesis by (rule commit_repeated[OF assms(1,5) _ assms(7)])
qed

text \<open>The deposit is committed, reversed, and committed again.\<close>

theorem commit_idempotent_witness:
  "ledger_commit_envelope demo_env deposit_env undone = (Inr \<lparr>r_transfer_id = deposit_id\<rparr>, undone)"
proof -
  have "store_steps demo_env (w_store deposited) (w_store undone)"
    using preservesD[OF reverse_steps[OF demo_env_ok(1)], of deposited deposit_id] by (simp add: undone_run)
  moreover have "same_pin deposit_env (w_store opened) (w_store undone)" by (simp add: same_pin_def deposit_env_def)
  ultimately show ?thesis
    by (rule commit_idempotent[OF demo_env_ok opened_reachable undone_small deposit_envelope_run])
qed

text \<open>
  C11: a commit never panics, and it never trips the guard against an incomplete load: the
  loader fetches every balance that validation reads.
\<close>

theorem commit_never_underfetches:
  assumes "externs_ok (le_ext env)"
  shows "fst (ledger_commit_envelope env e w) \<noteq> Inl Panic \<and>
     fst (ledger_commit_envelope env e w) \<noteq> Inl (Fail (UnderFetchedState acc asset))"
  using no_underfetch_commit[OF assms, of e] unfolding fails_in_def no_underfetch_def by force

theorem commit_never_underfetches_witness:
  "fst (ledger_commit_envelope demo_env deposit_env opened) \<noteq> Inl (Fail (UnderFetchedState alice_id demo_usd))"
  using commit_never_underfetches[OF demo_env_ok(1)] by blast

section \<open>Reversal and sagas\<close>

text \<open>
  C12: a reversal that commits takes back exactly what its transfer did to every balance, and
  it can only commit while every posting that the transfer created is still unspent.
\<close>

theorem reverse_negates:
  assumes "externs_ok (le_ext env)" "hash_order_ok (le_hash env)" "reachable env (w_store w)" "small (w_store w')"
    and "reverse env tid w = (Inr r, w')" "map_of (ms_transfers (w_store w)) (r_transfer_id r) = None"
    and "map_of (ms_transfers (w_store w)) tid = Some rec"
  shows "\<exists>ps. get_postings (e_consumes (er_envelope rec)) (w_store w) = Inr ps \<and>
     (\<forall>acc asset. live_balance (w_store w') acc asset = live_balance (w_store w) acc asset
        - key_sum (acc, asset) (delta_entries ps (e_creates (er_envelope rec)))) \<and>
     list_all (\<lambda>p. posting_state_of (ms_postings (w_store w)) (p_id p) = StateActive) (created_postings tid (e_creates (er_envelope rec)))"
proof -
  have "store_steps env (w_store w) (w_store w')" using preservesD[OF reverse_steps[OF assms(1)], of w tid] by (simp add: assms(5))
  then have "small (w_store w)" using assms(4) by (rule steps_small)
  then have inv: "store_inv (x_sha (le_ext env)) (w_store w)" by (rule reachable_inv[OF assms(3) _ assms(2)])
  from reverse_effect[OF assms(1,2) inv assms(4-7)] obtain ps where "get_postings (e_consumes (er_envelope rec)) (w_store w) = Inr ps"
    "\<And>acc asset. live_balance (w_store w') acc asset = live_balance (w_store w) acc asset
       - key_sum (acc, asset) (delta_entries ps (e_creates (er_envelope rec)))"
    "\<And>i. i \<in> p_id ` set (created_postings tid (e_creates (er_envelope rec))) \<Longrightarrow> posting_state_of (ms_postings (w_store w)) i = StateActive"
    by blast
  then show ?thesis by (intro exI[of _ ps]) (simp add: list_all_iff)
qed

theorem reverse_negates_witness:
  "live_balance (w_store deposited) alice_id demo_usd = 100 \<and> live_balance (w_store undone) alice_id demo_usd = 0"
proof -
  have l: "live_balance (w_store deposited) alice_id demo_usd = 100"
    by (simp add: live_balance_def postings_in_def deposit_postings_def posting_new_def)
  have new: "map_of (ms_transfers (w_store deposited)) (r_transfer_id \<lparr>r_transfer_id = undo_id\<rparr>) = None" using undo_id_new by simp
  have rec: "map_of (ms_transfers (w_store deposited)) deposit_id = Some (deposit_record 1700000000004)" by simp
  obtain ps where ps: "get_postings (e_consumes deposit_env) (w_store deposited) = Inr ps"
    "live_balance (w_store undone) alice_id demo_usd = live_balance (w_store deposited) alice_id demo_usd
       - key_sum (alice_id, demo_usd) (delta_entries ps (e_creates deposit_env))"
    using reverse_negates[OF demo_env_ok deposited_reachable undone_small undone_run new rec, unfolded deposit_record_fields] by blast
  then have "ps = []" by (simp add: get_postings_def deposit_env_def)
  then show ?thesis using ps(2) l by (simp add: key_sum_def delta_entries_def deposit_env_def)
qed

text \<open>
  C15: a saga whose movements can all be built up to the one that fails, and whose commits and
  reversals are none of them answered from the log, leaves every balance unchanged when it
  fails, unless it reports that the compensation itself failed. (What happens when a movement
  cannot be built or a commit is answered from the log is stated below.)
\<close>

theorem saga_compensates:
  assumes "externs_ok (le_ext env)" "hash_order_ok (le_hash env)" "reachable env (w_store w)" "small (w_store w')"
    and "run_movements env ms w = (Inl (Fail e), w')" "\<not> compensation_failed e" "run_fresh env [] ms w"
  shows "live_balance (w_store w') acc asset = live_balance (w_store w) acc asset"
  using run_balance[OF assms(1-4) _ assms(6), of "[]" ms acc asset "[]"] assms(5) run_fresh_replays[OF assms(7)]
  by (simp add: run_movements_def)

theorem saga_compensates_witness:
  "live_balance (w_store (snd (run_movements demo_env [saga_deposit, saga_pay] opened))) alice_id demo_usd = live_balance (w_store opened) alice_id demo_usd"
  using saga_compensates[OF demo_env_ok opened_reachable undone_small saga_run _ saga_fresh] by (simp add: saga_run compensation_failed_def)

text \<open>
  A movement whose transfer cannot be built ends a saga with its earlier commits in
  place: after a deposit of 100 and a deposit of the least amount, the saga reports an
  overflow and the first deposit stays.
\<close>

theorem saga_build_error_keeps_commits:
  "\<exists>w'. run_movements demo_env [saga_deposit, saga_overflow] opened = (Inl (Fail LOverflow), w') \<and>
     live_balance (w_store opened) alice_id demo_usd = 0 \<and> live_balance (w_store w') alice_id demo_usd = 100"
  using saga_overflow_run by (simp add: live_balance_def postings_in_def deposit_postings_def posting_new_def)

text \<open>
  C32: the compensation of a saga also reverses receipts that the saga did not produce. When
  every movement up to the failing one can be built and no reversal is answered from the log,
  a saga that fails without reporting a failed compensation takes away from every balance
  exactly what the receipts had added that its commits were answered with from the log: the
  effect of transfers that were committed before.
\<close>

theorem saga_reverses_replay:
  assumes "externs_ok (le_ext env)" "hash_order_ok (le_hash env)" "reachable env (w_store w)" "small (w_store w')"
    and "run_movements env ms w = (Inl (Fail e), w')" "\<not> compensation_failed e" "reversals_fresh env [] ms w"
  shows "\<exists>ds. list_all2 (receipt_delta (w_store w') (acc, asset)) (run_replayed env ms w) ds \<and>
     live_balance (w_store w') acc asset = live_balance (w_store w) acc asset - sum_list ds"
  using run_balance[OF assms(1-4) _ assms(6,7), of acc asset "[]"] assms(5) by (simp add: run_movements_def)

text \<open>
  The same saga as before in a ledger that already holds the deposit of 100: the payment fails
  and the deposit is gone.
\<close>

theorem saga_reverses_replay_witness:
  "run_replayed demo_env [saga_deposit, saga_pay] deposited = [\<lparr>r_transfer_id = deposit_id\<rparr>] \<and>
   (\<exists>d. receipt_delta (w_store undone) (alice_id, demo_usd) \<lparr>r_transfer_id = deposit_id\<rparr> d \<and>
     live_balance (w_store undone) alice_id demo_usd = 100 - d)"
proof -
  have f: "reversals_fresh demo_env [] [saga_deposit, saga_pay] deposited"
    using undo_id_new by (simp add: saga_deposit_built saga_pay_built deposit_replayed saga_pay_fails undone_run)
  have r: "run_replayed demo_env [saga_deposit, saga_pay] deposited = [\<lparr>r_transfer_id = deposit_id\<rparr>]"
    by (simp add: saga_deposit_built saga_pay_built deposit_replayed saga_pay_fails)
  have "live_balance (w_store deposited) alice_id demo_usd = 100"
    by (simp add: live_balance_def postings_in_def deposit_postings_def posting_new_def)
  moreover obtain ds where "list_all2 (receipt_delta (w_store undone) (alice_id, demo_usd)) [\<lparr>r_transfer_id = deposit_id\<rparr>] ds"
    "live_balance (w_store undone) alice_id demo_usd = live_balance (w_store deposited) alice_id demo_usd - sum_list ds"
    using saga_reverses_replay[OF demo_env_ok deposited_reachable undone_small saga_replay_run _ f, of alice_id demo_usd, unfolded r]
    by (auto simp: compensation_failed_def)
  ultimately show ?thesis using r by (auto simp: list_all2_Cons1)
qed

section \<open>Balances and cache points\<close>

text \<open>
  C13: the everyday balance read agrees with the authoritative sum of the live postings:
  when every cache point holds the sum of the transfers up to its watermark, a read that
  returns a value returns the live balance, and it changes nothing in the store.
\<close>

theorem cached_balance_exact:
  assumes "reachable env (w_store w)" "small (w_store w)" "hash_order_ok (le_hash env)" "length (ms_transfers (w_store w)) < 2 ^ 32"
    and "points_exact (w_store w)" "ledger_balance env l acc asset w = (Inr v, w')"
  shows "v = live_balance (w_store w) acc asset \<and> w_store w' = w_store w"
  using balance_exact[OF assms(6) reachable_inv[OF assms(1-3)] reachable_history[OF assms(1-3)] assms(3-5)] by simp

text \<open>
  C14: cache points stay exact: appending one, with any grace, threshold and debounce, and
  committing a transfer whose timestamp is past every watermark.
\<close>

theorem cache_points_stay_exact:
  assumes "externs_ok (le_ext env)" "hash_order_ok (le_hash env)" "reachable env (w_store w)" "small (w_store w')"
    and "length (ms_transfers (w_store w)) < 2 ^ 32" "points_exact (w_store w)"
    and "w' = snd (append_cache_point env grace min_new debounce acc asset w) \<or>
      (\<exists>e r rec. ledger_commit_envelope env e w = (Inr r, w') \<and> map_of (ms_transfers (w_store w)) (r_transfer_id r) = None \<and>
         map_of (ms_transfers (w_store w')) (r_transfer_id r) = Some rec \<and> past_watermarks (w_store w) (er_created_at rec))"
  shows "points_exact (w_store w')"
  using assms(7)
proof (elim disjE exE conjE)
  assume w': "w' = snd (append_cache_point env grace min_new debounce acc asset w)"
  have "store_steps env (w_store w) (w_store w')" using preservesD[OF cache_point_steps, of env w] by (simp add: w')
  then have sm: "small (w_store w)" using assms(4) by (rule steps_small)
  show ?thesis unfolding w'
    by (rule append_cache_point_exact[OF reachable_inv[OF assms(3) sm assms(2)] reachable_history[OF assms(3) sm assms(2)] assms(2,5,6)])
next
  fix e r rec
  assume c: "ledger_commit_envelope env e w = (Inr r, w')" "map_of (ms_transfers (w_store w)) (r_transfer_id r) = None"
    "map_of (ms_transfers (w_store w')) (r_transfer_id r) = Some rec" "past_watermarks (w_store w) (er_created_at rec)"
  have "store_steps env (w_store w) (w_store w')" using preservesD[OF commit_envelope_steps[OF assms(1)], of w e] by (simp add: c)
  then have sm: "small (w_store w)" using assms(4) by (rule steps_small)
  show ?thesis
    by (rule commit_keeps_points[OF assms(1,2) reachable_inv[OF assms(3) sm assms(2)] assms(4) c(1,2) reachable_history[OF assms(3) sm assms(2)] assms(6) c(3,4)])
qed

theorem cache_points_stay_exact_witness: "points_exact (w_store cached)"
proof (rule cache_points_stay_exact[OF demo_env_ok deposited_reachable cached_reachable(2)])
  show "cached = snd (append_cache_point demo_env 0 0 0 alice_id demo_usd deposited) \<or>
      (\<exists>e r rec. ledger_commit_envelope demo_env e deposited = (Inr r, cached) \<and> map_of (ms_transfers (w_store deposited)) (r_transfer_id r) = None \<and>
         map_of (ms_transfers (w_store cached)) (r_transfer_id r) = Some rec \<and> past_watermarks (w_store deposited) (er_created_at rec))"
    by (simp add: cached_def ledger_append_cache_point_def)
qed (simp_all add: points_exact_def)

theorem cached_balance_exact_witness: "live_balance (w_store cached) alice_id demo_usd = 100"
proof -
  have "points_exact (w_store cached)"
    using append_cache_point_exact[OF reachable_inv reachable_history, OF deposited_reachable deposited_small demo_env_ok(2) deposited_reachable deposited_small
        demo_env_ok(2) demo_env_ok(2)] by (simp add: cached_def ledger_append_cache_point_def points_exact_def)
  moreover have "length (ms_transfers (w_store cached)) < 2 ^ 32" by (subst cached_eq) simp
  ultimately show ?thesis using cached_balance cached_balance_exact[OF cached_reachable demo_env_ok(2)] by metis
qed

text \<open>
  A transfer committed with a timestamp at or below the watermark of a cache point is
  missed by the everyday read for good: with no grace window, a deposit of 100 in the
  millisecond of the last cache point leaves the read at 0 while the postings sum to 100.
\<close>

theorem late_commit_missed:
  "\<exists>r w'. ledger_commit stalled_env demo_deposit precached = (Inr r, w') \<and>
     live_balance (w_store w') alice_id demo_usd = 100 \<and> fst (ledger_balance stalled_env eager alice_id demo_usd w') = Inr 0"
  using late_run late_live late_balance by blast

section \<open>Account lifecycle and events\<close>

text \<open>
  C16: freezing, unfreezing and closing an account that is not closed succeed, append one version
  with the new status to its log and move no money; closing an account that still owns a live
  posting fails and changes nothing. The clock must stand after 1970 and the version number
  must have a successor. (Nothing requires that an account is frozen to be unfrozen, although
  the documentation of accounts gives that as the precondition.)
\<close>

theorem lifecycle_applies:
  assumes "reachable env (w_store w)" "small (w_store w)" "hash_order_ok (le_hash env)" "0 \<le> le_clock env (w_tick w)"
    and "map_of (ms_accounts (w_store w)) aid = Some vs" "\<not> is_closed (last vs)" "acc_version (last vs) \<noteq> - 1"
  shows "(\<exists>w'. freeze env aid w = (Inr (), w') \<and> version_appended (w_store w) aid vs True False (w_store w')) \<and>
     (\<exists>w'. unfreeze env aid w = (Inr (), w') \<and> version_appended (w_store w) aid vs False False (w_store w')) \<and>
     (if list_ex (\<lambda>p. p_owner p = aid) (postings_in FilterLive (ms_postings (w_store w)))
      then close env aid w = (Inl (Fail (AccountNotEmpty aid)), w)
      else \<exists>w'. close env aid w = (Inr (), w') \<and> version_appended (w_store w) aid vs False True (w_store w'))"
proof -
  note app = transition_appends[OF reachable_inv[OF assms(1-3)] assms(5-7,4)]
  have "\<exists>w'. freeze env aid w = (Inr (), w') \<and> version_appended (w_store w) aid vs True False (w_store w')"
    unfolding freeze_def by (rule app[of freeze_flags True False]) auto
  moreover have "\<exists>w'. unfreeze env aid w = (Inr (), w') \<and> version_appended (w_store w) aid vs False False (w_store w')"
    unfolding unfreeze_def by (rule app[of unfreeze_flags False False]) auto
  moreover have "\<exists>w'. transition env aid close_flags EvAccountClosed w = (Inr (), w') \<and> version_appended (w_store w) aid vs False True (w_store w')"
    by (rule app[of close_flags False True]) auto
  ultimately show ?thesis by (simp add: close_def lbind_def has_live_iff[OF assms(3)] list_ex_iff)
qed

theorem lifecycle_applies_witness:
  "close demo_env alice_id deposited = (Inl (Fail (AccountNotEmpty alice_id)), deposited) \<and>
   list_ex (\<lambda>p. p_owner p = alice_id) (postings_in FilterLive (ms_postings (w_store deposited)))"
proof -
  have "list_ex (\<lambda>p. p_owner p = alice_id) (postings_in FilterLive (ms_postings (w_store deposited)))"
    by (simp add: postings_in_def deposit_postings_def posting_new_def)
  then show ?thesis
    using lifecycle_applies[OF deposited_reachable deposited_small demo_env_ok(2), of alice_id "[alice]"] by simp
qed

text \<open>
  C31: two transitions computed from the same version do not both take effect, but both report
  success: after a concurrent freeze or unfreeze was applied first, the store answers a
  close with "already applied", appends neither a version nor an event, and the account
  stays open.
\<close>

theorem concurrent_close_lost:
  assumes "map_of (ms_accounts st) aid = Some vs" "vs \<noteq> []" "last vs = a" "acc_id a = aid" "\<not> is_closed a"
    and "mutate \<in> {freeze_flags, unfreeze_flags}" "next_version mutate a = Some n1" "next_version close_flags a = Some n2"
    and "event_dedup_key (ev_kind e1) = Some (account_version_key aid (acc_version n1))" "ev_kind e2 = EvAccountClosed aid (acc_version n2)"
    and "commit_transition c1 n1 e1 st = (r1, st1)"
  shows "r1 = Inr Applied \<and> commit_transition c2 n2 e2 st1 = (Inr AlreadyApplied, st1) \<and> head_version st1 aid = Some n1 \<and> \<not> is_closed n1"
proof -
  have "st1 = snd (commit_transition c1 n1 e1 st)" using assms(11) by simp
  from second_transition_lost[OF assms(1-10) this] show ?thesis using assms(11) by simp
qed

theorem concurrent_close_lost_witness:
  "fst (commit_transition 1 (alice\<lparr>acc_version := 2, acc_flags := close_flags 8\<rparr>) \<lparr>ev_seq = 0, ev_timestamp = 0, ev_kind = EvAccountClosed alice_id 2\<rparr>
     (snd (commit_transition 0 (alice\<lparr>acc_version := 2, acc_flags := freeze_flags 8\<rparr>)
        \<lparr>ev_seq = 0, ev_timestamp = 0, ev_kind = EvAccountFrozen alice_id 2\<rparr> (w_store opened)))) = Inr AlreadyApplied"
proof -
  have n: "next_version f alice = Some (alice\<lparr>acc_version := 2, acc_flags := f 8\<rparr>)" for f
    by (simp add: next_version_def checked_succ64_def alice_def)
  obtain r1 st1 where run: "commit_transition 0 (alice\<lparr>acc_version := 2, acc_flags := freeze_flags 8\<rparr>)
        \<lparr>ev_seq = 0, ev_timestamp = 0, ev_kind = EvAccountFrozen alice_id 2\<rparr> (w_store opened) = (r1, st1)" by (cases "commit_transition 0 (alice\<lparr>acc_version := 2, acc_flags := freeze_flags 8\<rparr>)
        \<lparr>ev_seq = 0, ev_timestamp = 0, ev_kind = EvAccountFrozen alice_id 2\<rparr> (w_store opened)")
  show ?thesis
    unfolding run snd_conv
    using concurrent_close_lost[OF _ _ _ _ _ _ n[of freeze_flags] n[of close_flags] _ _ run, of alice_id "[alice]" "\<lparr>ev_seq = 0, ev_timestamp = 0, ev_kind = EvAccountClosed alice_id 2\<rparr>" 1]
    by simp
qed

text \<open>
  C17: the event log of a reachable store is free of duplicates and complete: no two events
  share a deduplication key, the commit event of a transfer is there exactly when the
  transfer is stored, and every version after the first has its event.
\<close>

theorem event_log_complete:
  assumes "reachable env st" "small st" "hash_order_ok (le_hash env)"
  shows "distinct (List.map_filter (\<lambda>e. event_dedup_key (ev_kind e)) (ms_events st)) \<and>
     (\<forall>tid. (\<exists>e \<in> set (ms_events st). ev_kind e = TransferCommitted tid) \<longleftrightarrow> map_of (ms_transfers st) tid \<noteq> None) \<and>
     (\<forall>aid vs n. map_of (ms_accounts st) aid = Some vs \<longrightarrow> 0 < n \<longrightarrow> n < length vs \<longrightarrow>
        (\<exists>e \<in> set (ms_events st). event_dedup_key (ev_kind e) = Some (account_version_key aid (acc_version (vs ! n)))))"
  using reachable_events[OF assms] unfolding events_inv_def set_dedup_keys by (simp add: dedup_keys_def)

theorem event_log_complete_witness: "list_ex (\<lambda>e. ev_kind e = TransferCommitted deposit_id) (ms_events (w_store deposited))"
  using event_log_complete[OF deposited_reachable deposited_small demo_env_ok(2)] by (auto simp: list_ex_iff)

section \<open>Inflight authorizations and posting ids\<close>

text \<open>
  C18: a trade can be authorized at most once, whatever the first attempt returned: its
  holding accounts are created before its funds are checked and stay, so every later
  attempt is refused as already open, also after an attempt that failed for lack of funds.
\<close>

theorem authorize_once:
  assumes "externs_ok (le_ext env)" "dest_holds (inflight_subaccount env cd t) (t_movements t) = Inr holds"
    and "sort_key fst holds = (d, hold) # rest" "meta_map cd (MetaHold d) = Inr md"
    and "store_steps env (w_store (snd (authorize env cd t w))) (w_store w2)"
  shows "authorize env cd t w2 = (Inl (Fail (InflightAlreadyOpen hold)), w2)"
  by (rule authorize_taken[OF assms(2-4) steps_keep_accounts[OF assms(5) authorize_creates_hold[OF assms(1-4)]]])

theorem authorize_once_witness:
  "fst (authorize demo_env demo_codec overdraw opened) = Inl (Fail (LSelection \<lparr>if_available = 0, if_requested = 5\<rparr>)) \<and>
   fst (authorize demo_env demo_codec overdraw (snd (ledger_commit demo_env demo_deposit held))) = Inl (Fail (InflightAlreadyOpen demo_hold))"
proof -
  have "store_steps demo_env (w_store held) (w_store (snd (ledger_commit demo_env demo_deposit held)))"
    by (rule preservesD[OF commit_steps[OF demo_env_ok(1)]])
  then show ?thesis
    using authorize_once[OF demo_env_ok(1) demo_holds _ demo_meta, of demo_hold "[]" opened] by (simp add: authorize_overdraw_fails)
qed

text \<open>
  The postings of one transfer are numbered modulo 65536: a transfer that creates more
  gives two of its postings the same identifier.
\<close>

theorem posting_index_wraps:
  assumes "length nps > 65536"
  shows "\<not> distinct (map p_id (created_postings tid nps)) \<and> card (p_id ` set (created_postings tid nps)) \<le> 65536"
proof -
  have len: "length (created_postings tid nps) = length nps" by (simp add: created_postings_def)
  have in_range: "65536 < length (map p_id (created_postings tid nps))" "0 < length (map p_id (created_postings tid nps))"
    using assms len by (simp_all only: length_map)
  have "\<not> distinct (map p_id (created_postings tid nps))"
  proof
    assume "distinct (map p_id (created_postings tid nps))"
    note d = nth_eq_iff_index_eq[OF this in_range]
    have "map p_id (created_postings tid nps) ! 65536 = map p_id (created_postings tid nps) ! 0"
      using created_ids_wrap[OF assms, of tid] in_range by (simp only: length_map nth_map)
    with d show False by simp
  qed
  then show ?thesis using created_ids_card by blast
qed

theorem posting_index_wraps_witness:
  "\<not> distinct (map p_id (created_postings deposit_id (replicate 65537 \<lparr>np_owner = bank_id, np_asset = demo_usd, np_value = 0, np_payer = None\<rparr>)))"
  using posting_index_wraps[of "replicate 65537 \<lparr>np_owner = bank_id, np_asset = demo_usd, np_value = 0, np_payer = None\<rparr>"] by simp

end
